(* ===== verification/Maju_Prelude.thy ===== *)
theory Maju_Prelude
  imports Main "HOL-Library.AList" "HOL-Library.Word" "HOL-Library.Multiset"
begin

text \<open>
  Shared vocabulary of the development.

  Machine integers are words of their Rust width. A Rust \<open>HashMap\<close> (or \<open>DashMap\<close>) is an
  association list whose keys are distinct: lookups go through \<^const>\<open>map_of\<close>, insertion is
  \<^const>\<open>AList.update\<close>, removal is \<^const>\<open>AList.delete\<close>. The position of a key in the list stands
  for the unspecified iteration order of the hash map; no theorem fixes it.

  The theory holds:
  \<^item> the \<open>dict\<close> contract (what a lookup returns after an insertion or a removal), discharged for
    association lists;
  \<^item> the \<open>bucket_index\<close> contract of a map from keys to non-empty vectors, the shape of every
    secondary index of the relay, with the client lemmas about registering and unregistering one
    entry under a list of keys, discharged for the association-list implementation that
    \<open>entry(k).or_default().push(v)\<close> and \<open>get_mut(k).retain(..)\<close> denote;
  \<^item> the generic list lemmas that several components use.
\<close>

type_synonym u8 = "8 word"
type_synonym u16 = "16 word"
type_synonym u32 = "32 word"
type_synonym u64 = "64 word"
type_synonym bytes = "8 word list"
type_synonym uuid = "128 word"

type_synonym ('k, 'v) hmap = "('k \<times> 'v) list"

named_theorems maju_defs
  \<open>definitions that automation unfolds when it evaluates a component\<close>

section \<open>Maps\<close>

abbreviation hm_wf :: "('k, 'v) hmap \<Rightarrow> bool" where
  "hm_wf m \<equiv> distinct (map fst m)"

locale dict =
  fixes empty :: "'m"
    and lookup :: "'m \<Rightarrow> 'k \<Rightarrow> 'v option"
    and update :: "'k \<Rightarrow> 'v \<Rightarrow> 'm \<Rightarrow> 'm"
    and delete :: "'k \<Rightarrow> 'm \<Rightarrow> 'm"
    and invar :: "'m \<Rightarrow> bool"
  assumes lookup_empty: "lookup empty k = None"
    and lookup_update: "invar m \<Longrightarrow> lookup (update k v m) k' = (if k' = k then Some v else lookup m k')"
    and lookup_delete: "invar m \<Longrightarrow> lookup (delete k m) k' = (if k' = k then None else lookup m k')"
    and invar_empty: "invar empty"
    and invar_update: "invar m \<Longrightarrow> invar (update k v m)"
    and invar_delete: "invar m \<Longrightarrow> invar (delete k m)"
begin

lemma delete_after_update:
  "invar m \<Longrightarrow> lookup (delete k (update k v m)) k' = lookup (delete k m) k'"
  by (simp add: lookup_update lookup_delete invar_update)

lemma invar_fold_update:
  "invar m \<Longrightarrow> invar (fold (\<lambda>(k, v). update k v) kvs m)"
  by (induction kvs arbitrary: m) (auto simp: invar_update)

lemma invar_fold_delete:
  "invar m \<Longrightarrow> invar (fold delete ks m)"
  by (induction ks arbitrary: m) (auto simp: invar_delete)

lemma lookup_fold_delete:
  "invar m \<Longrightarrow> lookup (fold delete ks m) k = (if k \<in> set ks then None else lookup m k)"
  by (induction ks arbitrary: m) (auto simp: invar_delete lookup_delete)

end

lemma map_of_AList_update [simp]:
  "map_of (AList.update k v m) k' = (if k' = k then Some v else map_of m k')"
  by (simp add: update_conv')

lemma map_of_AList_delete [simp]:
  "map_of (AList.delete k m) k' = (if k' = k then None else map_of m k')"
  by (simp add: delete_conv')

lemma hm_wf_update [simp, intro]: "hm_wf m \<Longrightarrow> hm_wf (AList.update k v m)"
  by (rule distinct_update)

lemma hm_wf_delete [simp, intro]: "hm_wf m \<Longrightarrow> hm_wf (AList.delete k m)"
  by (rule distinct_delete)

interpretation hm: dict "[]" map_of AList.update AList.delete hm_wf
  by unfold_locales auto

lemma hm_lookup_iff: "hm_wf m \<Longrightarrow> map_of m k = Some v \<longleftrightarrow> (k, v) \<in> set m"
  by (rule map_of_eq_Some_iff)

lemma hm_wf_filter [simp, intro]: "hm_wf m \<Longrightarrow> hm_wf (filter P m)"
  by (simp add: distinct_map_filter)

lemma map_of_filter_key:
  "map_of (filter (\<lambda>(k, v). P k) m) k = (if P k then map_of m k else None)"
  by (induction m) auto

lemma map_of_filter_kv:
  "hm_wf m \<Longrightarrow>
   map_of (filter (\<lambda>(k, v). P k v) m) k =
     (case map_of m k of None \<Rightarrow> None | Some v \<Rightarrow> if P k v then Some v else None)"
proof (induction m)
  case Nil
  then show ?case by simp
next
  case (Cons kv m)
  obtain a b where kv: "kv = (a, b)" by (cases kv)
  have "map_of m a = None" using Cons.prems kv by (simp add: map_of_eq_None_iff)
  with Cons kv show ?case by auto
qed

section \<open>Bucket indexes\<close>

text \<open>
  \<open>idx_push k x m\<close> is \<open>m.entry(k).or_default().push(x)\<close>; \<open>idx_retain\<close> is the pattern
  \<open>if let Some(v) = m.get_mut(k) { v.retain(p); if v.is_empty() { m.remove(k) } }\<close>.
\<close>

definition idx_get :: "('k, 'v list) hmap \<Rightarrow> 'k \<Rightarrow> 'v list" where
  "idx_get m k = (case map_of m k of None \<Rightarrow> [] | Some xs \<Rightarrow> xs)"

definition idx_push :: "'k \<Rightarrow> 'v \<Rightarrow> ('k, 'v list) hmap \<Rightarrow> ('k, 'v list) hmap" where
  "idx_push k x m = AList.update k (idx_get m k @ [x]) m"

definition idx_retain :: "('v \<Rightarrow> bool) \<Rightarrow> 'k \<Rightarrow> ('k, 'v list) hmap \<Rightarrow> ('k, 'v list) hmap" where
  "idx_retain p k m =
     (case map_of m k of
        None \<Rightarrow> m
      | Some xs \<Rightarrow>
          (let ys = filter p xs in
           if ys = [] then AList.delete k m else AList.update k ys m))"

locale bucket_index =
  fixes get :: "'m \<Rightarrow> 'k \<Rightarrow> 'v list"
    and push :: "'k \<Rightarrow> 'v \<Rightarrow> 'm \<Rightarrow> 'm"
    and retain :: "('v \<Rightarrow> bool) \<Rightarrow> 'k \<Rightarrow> 'm \<Rightarrow> 'm"
    and invar :: "'m \<Rightarrow> bool"
  assumes get_push: "invar m \<Longrightarrow> get (push k x m) k' = (if k' = k then get m k @ [x] else get m k')"
    and get_retain: "invar m \<Longrightarrow> get (retain p k m) k' = (if k' = k then filter p (get m k) else get m k')"
    and invar_push: "invar m \<Longrightarrow> invar (push k x m)"
    and invar_retain: "invar m \<Longrightarrow> invar (retain p k m)"
begin

lemma invar_push_all: "invar m \<Longrightarrow> invar (fold (\<lambda>k. push k x) ks m)"
  by (induction ks arbitrary: m) (auto simp: invar_push)

lemma invar_retain_all: "invar m \<Longrightarrow> invar (fold (retain p) ks m)"
  by (induction ks arbitrary: m) (auto simp: invar_retain)

lemma set_get_push_all:
  "invar m \<Longrightarrow>
   set (get (fold (\<lambda>k. push k x) ks m) k) = set (get m k) \<union> (if k \<in> set ks then {x} else {})"
  by (induction ks arbitrary: m) (auto simp: invar_push get_push)

lemma set_get_retain_all:
  "invar m \<Longrightarrow>
   set (get (fold (retain p) ks m) k) =
     (if k \<in> set ks then {y \<in> set (get m k). p y} else set (get m k))"
  by (induction ks arbitrary: m) (auto simp: invar_retain get_retain)

text \<open>Unregistering an entry from the keys it was registered under removes it everywhere.\<close>

lemma retain_all_absent:
  assumes "invar m" and "\<And>k. y \<in> set (get m k) \<Longrightarrow> k \<in> set ks" and "\<not> p y"
  shows "y \<notin> set (get (fold (retain p) ks m) k)"
  using assms by (auto simp: set_get_retain_all)

end

definition idx_wf :: "('k, 'v list) hmap \<Rightarrow> bool" where
  "idx_wf m \<longleftrightarrow> hm_wf m \<and> [] \<notin> snd ` set m"

lemma idx_get_update [simp]:
  "idx_get (AList.update k xs m) k' = (if k' = k then xs else idx_get m k')"
  by (simp add: idx_get_def)

lemma idx_get_delete [simp]:
  "idx_get (AList.delete k m) k' = (if k' = k then [] else idx_get m k')"
  by (simp add: idx_get_def)

lemma snd_set_update:
  "snd ` set (AList.update k v m) \<subseteq> insert v (snd ` set m)"
  by (induction m) auto

lemma snd_set_delete: "snd ` set (AList.delete k m) \<subseteq> snd ` set m"
  by (induction m) auto

lemma idx_wf_update: "idx_wf m \<Longrightarrow> xs \<noteq> [] \<Longrightarrow> idx_wf (AList.update k xs m)"
  using snd_set_update [of k xs m] by (auto simp: idx_wf_def)

lemma idx_wf_delete: "idx_wf m \<Longrightarrow> idx_wf (AList.delete k m)"
  using snd_set_delete [of k m] by (auto simp: idx_wf_def)

lemma idx_get_retain:
  "idx_get (idx_retain p k m) k' = (if k' = k then filter p (idx_get m k) else idx_get m k')"
  by (auto simp: idx_retain_def idx_get_def Let_def split: option.splits)

lemma idx_wf_retain: "idx_wf m \<Longrightarrow> idx_wf (idx_retain p k m)"
  by (auto simp: idx_retain_def Let_def idx_wf_update idx_wf_delete split: option.splits)

interpretation ix: bucket_index idx_get idx_push idx_retain idx_wf
  by unfold_locales (auto simp: idx_push_def idx_get_retain idx_wf_retain idx_wf_update)

lemma idx_wf_Nil [simp]: "idx_wf []"
  by (simp add: idx_wf_def)

lemma idx_get_Nil [simp]: "idx_get [] k = []"
  by (simp add: idx_get_def)

section \<open>Lists\<close>

text \<open>
  \<open>dedup\<close> is the \<open>seen\<close>-set idiom of the code: keep the first occurrence of every element, in
  order.
\<close>

fun dedup_from :: "'a list \<Rightarrow> 'a list \<Rightarrow> 'a list" where
  "dedup_from seen [] = []"
| "dedup_from seen (x # xs) =
     (if x \<in> set seen then dedup_from seen xs else x # dedup_from (x # seen) xs)"

abbreviation dedup :: "'a list \<Rightarrow> 'a list" where
  "dedup \<equiv> dedup_from []"

lemma set_dedup_from: "set (dedup_from seen xs) = set xs - set seen"
  by (induction seen xs rule: dedup_from.induct) auto

lemma set_dedup [simp]: "set (dedup xs) = set xs"
  by (simp add: set_dedup_from)

lemma distinct_dedup_from: "distinct (dedup_from seen xs)"
  by (induction seen xs rule: dedup_from.induct) (auto simp: set_dedup_from)

fun is_prefix :: "'a list \<Rightarrow> 'a list \<Rightarrow> bool" where
  "is_prefix [] ys = True"
| "is_prefix (x # xs) [] = False"
| "is_prefix (x # xs) (y # ys) = (x = y \<and> is_prefix xs ys)"

lemma is_prefix_iff: "is_prefix xs ys \<longleftrightarrow> (\<exists>zs. ys = xs @ zs)"
  by (induction xs ys rule: is_prefix.induct) auto

lemma is_prefix_same_length: "length xs = length ys \<Longrightarrow> is_prefix xs ys \<longleftrightarrow> xs = ys"
  by (induction xs ys rule: is_prefix.induct) auto

lemma is_prefix_append [simp]: "is_prefix xs (xs @ ys)"
  by (simp add: is_prefix_iff)

text \<open>\<open>split_on c s\<close> is \<open>s.split(c).collect()\<close>: always at least one part, possibly empty.\<close>

fun split_on :: "'a \<Rightarrow> 'a list \<Rightarrow> 'a list list" where
  "split_on c [] = [[]]"
| "split_on c (x # xs) =
     (if x = c then [] # split_on c xs
      else (case split_on c xs of [] \<Rightarrow> [[x]] | p # ps \<Rightarrow> (x # p) # ps))"

fun join_with :: "'a \<Rightarrow> 'a list list \<Rightarrow> 'a list" where
  "join_with c [] = []"
| "join_with c [p] = p"
| "join_with c (p # q # ps) = p @ c # join_with c (q # ps)"

lemma split_on_not_Nil [simp]: "split_on c xs \<noteq> []"
  by (induction xs) (auto split: list.splits)

lemma join_with_Cons: "ps \<noteq> [] \<Longrightarrow> join_with c (p # ps) = p @ c # join_with c ps"
  by (cases ps) simp_all

lemma join_split_on [simp]: "join_with c (split_on c xs) = xs"
proof (induction xs)
  case (Cons x xs)
  then show ?case
    by (cases "split_on c xs"; cases "tl (split_on c xs)")
       (auto simp: join_with_Cons split: list.splits)
qed simp

lemma split_on_no_sep: "p \<in> set (split_on c xs) \<Longrightarrow> c \<notin> set p"
  by (induction xs arbitrary: p) (auto split: list.splits if_splits)

section \<open>Errors and text\<close>

text \<open>
  \<open>propagate s r k\<close> is the \<open>?\<close> operator in a method that mutates \<open>self\<close>: on an error the method
  returns it and leaves the state as it is at that point.
\<close>

definition propagate :: "'s \<Rightarrow> 'e + 'a \<Rightarrow> ('a \<Rightarrow> 's \<times> ('e + 'b)) \<Rightarrow> 's \<times> ('e + 'b)" where
  "propagate s r k = (case r of Inl e \<Rightarrow> (s, Inl e) | Inr x \<Rightarrow> k x)"

lemma propagate_simps [simp]:
  "propagate s (Inl e) k = (s, Inl e)" "propagate s (Inr x) k = k x"
  by (simp_all add: propagate_def)

lemma propagate_Inr:
  "propagate s r k = (s', Inr y) \<longleftrightarrow> (\<exists>x. r = Inr x \<and> k x = (s', Inr y))"
  by (cases r) simp_all

text \<open>\<open>and_then\<close> is the same operator in a method that does not mutate.\<close>

definition and_then :: "'e + 'a \<Rightarrow> ('a \<Rightarrow> 'e + 'b) \<Rightarrow> 'e + 'b" where
  "and_then r k = (case r of Inl e \<Rightarrow> Inl e | Inr x \<Rightarrow> k x)"

lemma and_then_simps [simp]: "and_then (Inl e) k = Inl e" "and_then (Inr x) k = k x"
  by (simp_all add: and_then_def)

lemma and_then_Inr: "and_then r k = Inr y \<longleftrightarrow> (\<exists>x. r = Inr x \<and> k x = Inr y)"
  by (cases r) simp_all

lemma and_then_assoc: "and_then (and_then r f) g = and_then r (\<lambda>x. and_then (f x) g)"
  by (simp add: and_then_def split: sum.splits)

lemma and_then_unit [simp]: "and_then r Inr = r"
  by (simp add: and_then_def split: sum.splits)

definition ok_or :: "'a option \<Rightarrow> 'e \<Rightarrow> 'e + 'a" where
  "ok_or x e = (case x of None \<Rightarrow> Inl e | Some v \<Rightarrow> Inr v)"

lemma ok_or_simps [simp]: "ok_or None e = Inl e" "ok_or (Some v) e = Inr v"
  by (simp_all add: ok_or_def)

lemma ok_or_Inr [simp]: "ok_or x e = Inr v \<longleftrightarrow> x = Some v"
  by (cases x) simp_all

lemma ok_or_Inl [simp]: "ok_or x e = Inl e' \<longleftrightarrow> x = None \<and> e = e'"
  by (cases x) auto

text \<open>Decimal rendering, as \<open>format!\<close> prints unsigned integers.\<close>

definition show_digit :: "nat \<Rightarrow> char" where
  "show_digit d = char_of (48 + d)"

fun show_nat :: "nat \<Rightarrow> string" where
  "show_nat n = (if n < 10 then [show_digit n] else show_nat (n div 10) @ [show_digit (n mod 10)])"

declare show_nat.simps [simp del]

end
