(* ===== verification/Nostr.thy ===== *)
theory Nostr
  imports Maju_Prelude
begin

text \<open>
  The vocabulary of the \<open>nostr\<close> crate that the sources use. The crate is not part of the
  repository: its plain data (an event, a filter) is a record with the fields the sources read, and
  every function of it that the sources call is a field of the parameter record \<open>nostr_api\<close>, an
  argument of the definitions that need it. What a proof relies on is the hypothesis
  \<open>nostr_api_ok\<close>, the documented behaviour of these accessors; \<open>std_nostr_api\<close> is a concrete
  instance of it, used by witnesses.

  Strings are UTF-8 byte strings (\<^typ>\<open>string\<close>), as Rust's \<open>str::len\<close> counts them. Event ids and
  public keys are their 32 bytes.
\<close>

type_synonym tag = "string list"

record nostr_event =
  ev_id :: bytes
  ev_pubkey :: bytes
  ev_created_at :: u64
  ev_kind :: u16
  ev_tags :: "tag list"
  ev_content :: string

record single_letter_tag =
  slt_char :: char
  slt_uppercase :: bool

record nostr_filter =
  f_ids :: "bytes list option"
  f_authors :: "bytes list option"
  f_kinds :: "u16 list option"
  f_since :: "u64 option"
  f_until :: "u64 option"
  f_generic_tags :: "(single_letter_tag, string list) hmap"

text \<open>
  \<open>api_tag_kind\<close> is \<open>Tag::kind().to_string()\<close>, \<open>api_tag_content\<close> is \<open>Tag::content()\<close>,
  \<open>api_tag_has_letter\<close> is the test of \<open>Tags::filter(TagKind::SingleLetter(l))\<close>, \<open>api_slt_string\<close>
  is \<open>SingleLetterTag::to_string\<close>, \<open>api_hex\<close> is \<open>EventId::to_hex\<close> and \<open>PublicKey::to_hex\<close>, and
  \<open>api_uuid_string\<close> is \<open>Uuid::to_string\<close> of the \<open>uuid\<close> crate.
\<close>

record nostr_api =
  api_tag_kind :: "tag \<Rightarrow> string"
  api_tag_content :: "tag \<Rightarrow> string option"
  api_tag_has_letter :: "single_letter_tag \<Rightarrow> tag \<Rightarrow> bool"
  api_slt_string :: "single_letter_tag \<Rightarrow> string"
  api_hex :: "bytes \<Rightarrow> string"
  api_uuid_string :: "uuid \<Rightarrow> string"

definition slt_lower :: "char \<Rightarrow> single_letter_tag" where
  "slt_lower c = \<lparr>slt_char = c, slt_uppercase = False\<rparr>"

definition nostr_api_ok :: "nostr_api \<Rightarrow> bool" where
  "nostr_api_ok api \<longleftrightarrow>
     (\<forall>t. t \<noteq> [] \<longrightarrow> api_tag_kind api t = hd t) \<and>
     (\<forall>t. api_tag_content api t = (if length t < 2 then None else Some (t ! 1))) \<and>
     (\<forall>c t. api_tag_has_letter api (slt_lower c) t \<longleftrightarrow> t \<noteq> [] \<and> hd t = [c]) \<and>
     (\<forall>c. api_slt_string api (slt_lower c) = [c]) \<and>
     (\<forall>xs. length (api_hex api xs) = 2 * length xs) \<and>
     inj (api_hex api)"

definition hex_digit :: "nat \<Rightarrow> char" where
  "hex_digit n = (if n < 10 then char_of (n + 48) else char_of (n + 87))"

definition hex_byte :: "u8 \<Rightarrow> string" where
  "hex_byte b = [hex_digit (unat b div 16), hex_digit (unat b mod 16)]"

definition hex_bytes :: "bytes \<Rightarrow> string" where
  "hex_bytes bs = concat (map hex_byte bs)"

definition uuid_bytes :: "uuid \<Rightarrow> bytes" where
  "uuid_bytes u = map (\<lambda>i. ucast (drop_bit (8 * (15 - i)) u)) [0..<16]"

definition uuid_hyphenated :: "uuid \<Rightarrow> string" where
  "uuid_hyphenated u =
     (let h = hex_bytes (uuid_bytes u) in
      take 8 h @ ''-'' @ take 4 (drop 8 h) @ ''-'' @ take 4 (drop 12 h) @ ''-'' @
      take 4 (drop 16 h) @ ''-'' @ drop 20 h)"

definition std_nostr_api :: nostr_api where
  "std_nostr_api =
     \<lparr>api_tag_kind = (\<lambda>t. case t of [] \<Rightarrow> [] | x # _ \<Rightarrow> x),
      api_tag_content = (\<lambda>t. case t of _ # x # _ \<Rightarrow> Some x | _ \<Rightarrow> None),
      api_tag_has_letter = (\<lambda>l t. case t of [] \<Rightarrow> False | x # _ \<Rightarrow> x = [slt_char l]),
      api_slt_string = (\<lambda>l. [slt_char l]),
      api_hex = hex_bytes,
      api_uuid_string = uuid_hyphenated\<rparr>"

lemma hex_digit_inj: "m < 16 \<Longrightarrow> n < 16 \<Longrightarrow> hex_digit m = hex_digit n \<Longrightarrow> m = n"
  by (auto simp: hex_digit_def char_of_eq_iff of_char_of take_bit_eq_mod split: if_splits)

lemma hex_byte_inj: "hex_byte a = hex_byte b \<Longrightarrow> a = b"
proof -
  assume eq: "hex_byte a = hex_byte b"
  have lt: "unat a < 256" "unat b < 256"
    using unsigned_less [of a] unsigned_less [of b] by simp_all
  from eq have "unat a div 16 = unat b div 16" "unat a mod 16 = unat b mod 16"
    using lt by (auto simp: hex_byte_def intro!: hex_digit_inj)
  then have "unat a = unat b" by (metis div_mod_decomp)
  then show "a = b" by (rule unsigned_word_eqI)
qed

lemma length_hex_bytes: "length (hex_bytes bs) = 2 * length bs"
  by (induction bs) (auto simp: hex_bytes_def hex_byte_def)

lemma hex_bytes_inj: "hex_bytes as = hex_bytes bs \<Longrightarrow> as = bs"
proof (induction as arbitrary: bs)
  case Nil
  then show ?case by (cases bs) (auto simp: hex_bytes_def hex_byte_def)
next
  case (Cons a as)
  then obtain b bs' where bs: "bs = b # bs'"
    by (cases bs) (auto simp: hex_bytes_def hex_byte_def)
  have "hex_byte a = hex_byte b \<and> hex_bytes as = hex_bytes bs'"
    using Cons.prems bs by (auto simp: hex_bytes_def hex_byte_def)
  with Cons.IH bs show ?case by (auto dest: hex_byte_inj)
qed

lemma std_nostr_api_ok: "nostr_api_ok std_nostr_api"
  by (auto simp: nostr_api_ok_def std_nostr_api_def slt_lower_def length_hex_bytes
      intro!: injI hex_bytes_inj split: list.splits)

end
