(* ===== verification/Kinds.thy ===== *)
theory Kinds
  imports Nostr
begin

text \<open>
  The kind registry, \<open>crates/maju-core/src/kind.rs\<close>: every kind constant, the read-gating sets
  (\<open>AUTHOR_ONLY_KINDS\<close>, \<open>RESULT_GATED_KINDS\<close>, \<open>P_GATED_KINDS\<close>, \<open>SHARED_GATED_KINDS\<close>), the registry
  \<open>ALL_KINDS\<close>, the classification predicates that ingest and storage dispatch on, and the
  author-only-unless-shared read gate.

  The lemmas show that the registry has no duplicate, that the storage classes are pairwise
  disjoint, that the direct-execution command families never overlap, and characterise the shared
  gate: which events are withheld from whom.
\<close>

named_theorems kind_defs \<open>the numeric values of the kind constants\<close>

section \<open>Constants\<close>

definition KIND_PROFILE :: u32 where [kind_defs]: "KIND_PROFILE = 0"
definition KIND_TEXT_NOTE :: u32 where [kind_defs]: "KIND_TEXT_NOTE = 1"
definition KIND_CONTACT_LIST :: u32 where [kind_defs]: "KIND_CONTACT_LIST = 3"
definition KIND_MUTE_LIST :: u32 where [kind_defs]: "KIND_MUTE_LIST = 10000"
definition KIND_PIN_LIST :: u32 where [kind_defs]: "KIND_PIN_LIST = 10001"
definition KIND_NIP65_RELAY_LIST_METADATA :: u32 where [kind_defs]: "KIND_NIP65_RELAY_LIST_METADATA = 10002"
definition KIND_BOOKMARK_LIST :: u32 where [kind_defs]: "KIND_BOOKMARK_LIST = 10003"
definition KIND_EMOJI_LIST :: u32 where [kind_defs]: "KIND_EMOJI_LIST = 10030"
definition KIND_FOLLOW_SET :: u32 where [kind_defs]: "KIND_FOLLOW_SET = 30000"
definition KIND_BOOKMARK_SET :: u32 where [kind_defs]: "KIND_BOOKMARK_SET = 30003"
definition KIND_EMOJI_SET :: u32 where [kind_defs]: "KIND_EMOJI_SET = 30030"
definition KIND_CHANNEL_METADATA :: u32 where [kind_defs]: "KIND_CHANNEL_METADATA = 41"
definition KIND_DELETION :: u32 where [kind_defs]: "KIND_DELETION = 5"
definition KIND_REACTION :: u32 where [kind_defs]: "KIND_REACTION = 7"
definition KIND_GIFT_WRAP :: u32 where [kind_defs]: "KIND_GIFT_WRAP = 1059"
definition KIND_FILE_METADATA :: u32 where [kind_defs]: "KIND_FILE_METADATA = 1063"
definition KIND_LONG_FORM :: u32 where [kind_defs]: "KIND_LONG_FORM = 30023"
definition KIND_USER_STATUS :: u32 where [kind_defs]: "KIND_USER_STATUS = 30315"
definition KIND_READ_STATE :: u32 where [kind_defs]: "KIND_READ_STATE = 30078"
definition KIND_AUTH :: u32 where [kind_defs]: "KIND_AUTH = 22242"
definition KIND_BLOSSOM_AUTH :: u32 where [kind_defs]: "KIND_BLOSSOM_AUTH = 24242"
definition KIND_NOSTR_IDENTITY_BINDING :: u32 where [kind_defs]: "KIND_NOSTR_IDENTITY_BINDING = 24243"
definition KIND_HTTP_AUTH :: u32 where [kind_defs]: "KIND_HTTP_AUTH = 27235"
definition KIND_AGENT_PROFILE :: u32 where [kind_defs]: "KIND_AGENT_PROFILE = 10100"
definition KIND_AGENT_ENGRAM :: u32 where [kind_defs]: "KIND_AGENT_ENGRAM = 30174"
definition KIND_EVENT_REMINDER :: u32 where [kind_defs]: "KIND_EVENT_REMINDER = 30300"
definition KIND_DEVICE_SESSION :: u32 where [kind_defs]: "KIND_DEVICE_SESSION = 30360"
definition KIND_PUSH_LEASE :: u32 where [kind_defs]: "KIND_PUSH_LEASE = 30350"
definition KIND_PRIVATE_MANAGED_AGENT :: u32 where [kind_defs]: "KIND_PRIVATE_MANAGED_AGENT = 30179"
definition KIND_PERSONA :: u32 where [kind_defs]: "KIND_PERSONA = 30175"
definition KIND_TEAM :: u32 where [kind_defs]: "KIND_TEAM = 30176"
definition KIND_MANAGED_AGENT :: u32 where [kind_defs]: "KIND_MANAGED_AGENT = 30177"
definition KIND_TEAM_CATALOG :: u32 where [kind_defs]: "KIND_TEAM_CATALOG = 30178"
definition KIND_REPORT :: u32 where [kind_defs]: "KIND_REPORT = 1984"
definition KIND_PRODUCT_FEEDBACK :: u32 where [kind_defs]: "KIND_PRODUCT_FEEDBACK = 42000"
definition KIND_NIP29_PUT_USER :: u32 where [kind_defs]: "KIND_NIP29_PUT_USER = 9000"
definition KIND_NIP29_REMOVE_USER :: u32 where [kind_defs]: "KIND_NIP29_REMOVE_USER = 9001"
definition KIND_NIP29_EDIT_METADATA :: u32 where [kind_defs]: "KIND_NIP29_EDIT_METADATA = 9002"
definition KIND_NIP29_DELETE_EVENT :: u32 where [kind_defs]: "KIND_NIP29_DELETE_EVENT = 9005"
definition KIND_NIP29_CREATE_GROUP :: u32 where [kind_defs]: "KIND_NIP29_CREATE_GROUP = 9007"
definition KIND_NIP29_DELETE_GROUP :: u32 where [kind_defs]: "KIND_NIP29_DELETE_GROUP = 9008"
definition KIND_NIP29_CREATE_INVITE :: u32 where [kind_defs]: "KIND_NIP29_CREATE_INVITE = 9009"
definition KIND_NIP29_JOIN_REQUEST :: u32 where [kind_defs]: "KIND_NIP29_JOIN_REQUEST = 9021"
definition KIND_NIP29_LEAVE_REQUEST :: u32 where [kind_defs]: "KIND_NIP29_LEAVE_REQUEST = 9022"
definition KIND_MODERATION_BAN :: u32 where [kind_defs]: "KIND_MODERATION_BAN = 9040"
definition KIND_MODERATION_UNBAN :: u32 where [kind_defs]: "KIND_MODERATION_UNBAN = 9041"
definition KIND_MODERATION_TIMEOUT :: u32 where [kind_defs]: "KIND_MODERATION_TIMEOUT = 9042"
definition KIND_MODERATION_UNTIMEOUT :: u32 where [kind_defs]: "KIND_MODERATION_UNTIMEOUT = 9043"
definition KIND_MODERATION_RESOLVE_REPORT :: u32 where [kind_defs]: "KIND_MODERATION_RESOLVE_REPORT = 9044"
definition RELAY_ADMIN_ADD_MEMBER :: u32 where [kind_defs]: "RELAY_ADMIN_ADD_MEMBER = 9030"
definition RELAY_ADMIN_REMOVE_MEMBER :: u32 where [kind_defs]: "RELAY_ADMIN_REMOVE_MEMBER = 9031"
definition RELAY_ADMIN_CHANGE_ROLE :: u32 where [kind_defs]: "RELAY_ADMIN_CHANGE_ROLE = 9032"
definition RELAY_ADMIN_SET_WORKSPACE_PROFILE :: u32 where [kind_defs]: "RELAY_ADMIN_SET_WORKSPACE_PROFILE = 9033"
definition KIND_NIP43_MEMBERSHIP_LIST :: u32 where [kind_defs]: "KIND_NIP43_MEMBERSHIP_LIST = 13534"
definition KIND_NIP43_MEMBER_ADDED :: u32 where [kind_defs]: "KIND_NIP43_MEMBER_ADDED = 8000"
definition KIND_NIP43_MEMBER_REMOVED :: u32 where [kind_defs]: "KIND_NIP43_MEMBER_REMOVED = 8001"
definition KIND_NIP43_LEAVE_REQUEST :: u32 where [kind_defs]: "KIND_NIP43_LEAVE_REQUEST = 28936"
definition KIND_IA_ARCHIVE_REQUEST :: u32 where [kind_defs]: "KIND_IA_ARCHIVE_REQUEST = 9035"
definition KIND_IA_UNARCHIVE_REQUEST :: u32 where [kind_defs]: "KIND_IA_UNARCHIVE_REQUEST = 9036"
definition KIND_IA_ARCHIVED :: u32 where [kind_defs]: "KIND_IA_ARCHIVED = 8002"
definition KIND_IA_UNARCHIVED :: u32 where [kind_defs]: "KIND_IA_UNARCHIVED = 8003"
definition KIND_IA_ARCHIVED_LIST :: u32 where [kind_defs]: "KIND_IA_ARCHIVED_LIST = 13535"
definition KIND_NIP29_GROUP_METADATA :: u32 where [kind_defs]: "KIND_NIP29_GROUP_METADATA = 39000"
definition KIND_NIP29_GROUP_ADMINS :: u32 where [kind_defs]: "KIND_NIP29_GROUP_ADMINS = 39001"
definition KIND_NIP29_GROUP_MEMBERS :: u32 where [kind_defs]: "KIND_NIP29_GROUP_MEMBERS = 39002"
definition KIND_NIP29_GROUP_ROLES :: u32 where [kind_defs]: "KIND_NIP29_GROUP_ROLES = 39003"
definition KIND_THREAD_SUMMARY :: u32 where [kind_defs]: "KIND_THREAD_SUMMARY = 39005"
definition KIND_WINDOW_BOUNDS :: u32 where [kind_defs]: "KIND_WINDOW_BOUNDS = 39006"
definition KIND_WORKFLOW_DEF :: u32 where [kind_defs]: "KIND_WORKFLOW_DEF = 30620"
definition KIND_DM_VISIBILITY :: u32 where [kind_defs]: "KIND_DM_VISIBILITY = 30622"
definition PARAM_REPLACEABLE_KIND_MIN :: u32 where [kind_defs]: "PARAM_REPLACEABLE_KIND_MIN = 30000"
definition PARAM_REPLACEABLE_KIND_MAX :: u32 where [kind_defs]: "PARAM_REPLACEABLE_KIND_MAX = 39999"
definition EPHEMERAL_KIND_MIN :: u32 where [kind_defs]: "EPHEMERAL_KIND_MIN = 20000"
definition EPHEMERAL_KIND_MAX :: u32 where [kind_defs]: "EPHEMERAL_KIND_MAX = 29999"
definition KIND_PRESENCE_UPDATE :: u32 where [kind_defs]: "KIND_PRESENCE_UPDATE = 20001"
definition KIND_PAIRING :: u32 where [kind_defs]: "KIND_PAIRING = 24134"
definition KIND_TYPING_INDICATOR :: u32 where [kind_defs]: "KIND_TYPING_INDICATOR = 20002"
definition KIND_DEVICE_STATUS :: u32 where [kind_defs]: "KIND_DEVICE_STATUS = 20003"
definition KIND_AGENT_OBSERVER_FRAME :: u32 where [kind_defs]: "KIND_AGENT_OBSERVER_FRAME = 24200"
definition KIND_HUDDLE_REACTION :: u32 where [kind_defs]: "KIND_HUDDLE_REACTION = 24810"
definition KIND_STREAM_MESSAGE :: u32 where [kind_defs]: "KIND_STREAM_MESSAGE = 9"
definition KIND_STREAM_MESSAGE_V2 :: u32 where [kind_defs]: "KIND_STREAM_MESSAGE_V2 = 40002"
definition KIND_STREAM_MESSAGE_EDIT :: u32 where [kind_defs]: "KIND_STREAM_MESSAGE_EDIT = 40003"
definition KIND_STREAM_MESSAGE_PINNED :: u32 where [kind_defs]: "KIND_STREAM_MESSAGE_PINNED = 40004"
definition KIND_STREAM_MESSAGE_BOOKMARKED :: u32 where [kind_defs]: "KIND_STREAM_MESSAGE_BOOKMARKED = 40005"
definition KIND_STREAM_MESSAGE_SCHEDULED :: u32 where [kind_defs]: "KIND_STREAM_MESSAGE_SCHEDULED = 40006"
definition KIND_STREAM_REMINDER :: u32 where [kind_defs]: "KIND_STREAM_REMINDER = 40007"
definition KIND_STREAM_MESSAGE_DIFF :: u32 where [kind_defs]: "KIND_STREAM_MESSAGE_DIFF = 40008"
definition KIND_CANVAS :: u32 where [kind_defs]: "KIND_CANVAS = 40100"
definition KIND_SYSTEM_MESSAGE :: u32 where [kind_defs]: "KIND_SYSTEM_MESSAGE = 40099"
definition KIND_CHANNEL_SUMMARY :: u32 where [kind_defs]: "KIND_CHANNEL_SUMMARY = 40901"
definition KIND_PRESENCE_SNAPSHOT :: u32 where [kind_defs]: "KIND_PRESENCE_SNAPSHOT = 40902"
definition KIND_DM_OPEN :: u32 where [kind_defs]: "KIND_DM_OPEN = 41010"
definition KIND_DM_ADD_MEMBER :: u32 where [kind_defs]: "KIND_DM_ADD_MEMBER = 41011"
definition KIND_DM_HIDE :: u32 where [kind_defs]: "KIND_DM_HIDE = 41012"
definition KIND_DM_CREATED :: u32 where [kind_defs]: "KIND_DM_CREATED = 41001"
definition KIND_JOB_REQUEST :: u32 where [kind_defs]: "KIND_JOB_REQUEST = 43001"
definition KIND_JOB_ACCEPTED :: u32 where [kind_defs]: "KIND_JOB_ACCEPTED = 43002"
definition KIND_JOB_PROGRESS :: u32 where [kind_defs]: "KIND_JOB_PROGRESS = 43003"
definition KIND_JOB_RESULT :: u32 where [kind_defs]: "KIND_JOB_RESULT = 43004"
definition KIND_JOB_CANCEL :: u32 where [kind_defs]: "KIND_JOB_CANCEL = 43005"
definition KIND_JOB_ERROR :: u32 where [kind_defs]: "KIND_JOB_ERROR = 43006"
definition KIND_MEMBER_ADDED_NOTIFICATION :: u32 where [kind_defs]: "KIND_MEMBER_ADDED_NOTIFICATION = 44100"
definition KIND_MEMBER_REMOVED_NOTIFICATION :: u32 where [kind_defs]: "KIND_MEMBER_REMOVED_NOTIFICATION = 44101"
definition KIND_AGENT_TURN_METRIC :: u32 where [kind_defs]: "KIND_AGENT_TURN_METRIC = 44200"
definition KIND_FORUM_POST :: u32 where [kind_defs]: "KIND_FORUM_POST = 45001"
definition KIND_FORUM_VOTE :: u32 where [kind_defs]: "KIND_FORUM_VOTE = 45002"
definition KIND_FORUM_COMMENT :: u32 where [kind_defs]: "KIND_FORUM_COMMENT = 45003"
definition KIND_WORKFLOW_TRIGGER :: u32 where [kind_defs]: "KIND_WORKFLOW_TRIGGER = 46020"
definition KIND_APPROVAL_GRANT :: u32 where [kind_defs]: "KIND_APPROVAL_GRANT = 46030"
definition KIND_APPROVAL_DENY :: u32 where [kind_defs]: "KIND_APPROVAL_DENY = 46031"
definition KIND_WORKFLOW_TRIGGERED :: u32 where [kind_defs]: "KIND_WORKFLOW_TRIGGERED = 46001"
definition KIND_WORKFLOW_STEP_STARTED :: u32 where [kind_defs]: "KIND_WORKFLOW_STEP_STARTED = 46002"
definition KIND_WORKFLOW_STEP_COMPLETED :: u32 where [kind_defs]: "KIND_WORKFLOW_STEP_COMPLETED = 46003"
definition KIND_WORKFLOW_STEP_FAILED :: u32 where [kind_defs]: "KIND_WORKFLOW_STEP_FAILED = 46004"
definition KIND_WORKFLOW_COMPLETED :: u32 where [kind_defs]: "KIND_WORKFLOW_COMPLETED = 46005"
definition KIND_WORKFLOW_FAILED :: u32 where [kind_defs]: "KIND_WORKFLOW_FAILED = 46006"
definition KIND_WORKFLOW_CANCELLED :: u32 where [kind_defs]: "KIND_WORKFLOW_CANCELLED = 46007"
definition KIND_WORKFLOW_APPROVAL_REQUESTED :: u32 where [kind_defs]: "KIND_WORKFLOW_APPROVAL_REQUESTED = 46010"
definition KIND_WORKFLOW_APPROVAL_GRANTED :: u32 where [kind_defs]: "KIND_WORKFLOW_APPROVAL_GRANTED = 46011"
definition KIND_WORKFLOW_APPROVAL_DENIED :: u32 where [kind_defs]: "KIND_WORKFLOW_APPROVAL_DENIED = 46012"
definition KIND_AUDIT_ENTRY :: u32 where [kind_defs]: "KIND_AUDIT_ENTRY = 48001"
definition KIND_HUDDLE_STARTED :: u32 where [kind_defs]: "KIND_HUDDLE_STARTED = 48100"
definition KIND_HUDDLE_PARTICIPANT_JOINED :: u32 where [kind_defs]: "KIND_HUDDLE_PARTICIPANT_JOINED = 48101"
definition KIND_HUDDLE_PARTICIPANT_LEFT :: u32 where [kind_defs]: "KIND_HUDDLE_PARTICIPANT_LEFT = 48102"
definition KIND_HUDDLE_ENDED :: u32 where [kind_defs]: "KIND_HUDDLE_ENDED = 48103"
definition KIND_HUDDLE_LIVENESS :: u32 where [kind_defs]: "KIND_HUDDLE_LIVENESS = 48104"
definition KIND_HUDDLE_GUIDELINES :: u32 where [kind_defs]: "KIND_HUDDLE_GUIDELINES = 48106"
definition KIND_MEDIA_UPLOAD :: u32 where [kind_defs]: "KIND_MEDIA_UPLOAD = 49001"
definition KIND_GIT_REPO_ANNOUNCEMENT :: u32 where [kind_defs]: "KIND_GIT_REPO_ANNOUNCEMENT = 30617"
definition KIND_GIT_REPO_STATE :: u32 where [kind_defs]: "KIND_GIT_REPO_STATE = 30618"
definition KIND_GIT_PATCH :: u32 where [kind_defs]: "KIND_GIT_PATCH = 1617"
definition KIND_GIT_PULL_REQUEST :: u32 where [kind_defs]: "KIND_GIT_PULL_REQUEST = 1618"
definition KIND_GIT_PR_UPDATE :: u32 where [kind_defs]: "KIND_GIT_PR_UPDATE = 1619"
definition KIND_GIT_ISSUE :: u32 where [kind_defs]: "KIND_GIT_ISSUE = 1621"
definition KIND_GIT_STATUS_OPEN :: u32 where [kind_defs]: "KIND_GIT_STATUS_OPEN = 1630"
definition KIND_GIT_STATUS_MERGED :: u32 where [kind_defs]: "KIND_GIT_STATUS_MERGED = 1631"
definition KIND_GIT_STATUS_CLOSED :: u32 where [kind_defs]: "KIND_GIT_STATUS_CLOSED = 1632"
definition KIND_GIT_STATUS_DRAFT :: u32 where [kind_defs]: "KIND_GIT_STATUS_DRAFT = 1633"
definition KIND_PROJECT :: u32 where [kind_defs]: "KIND_PROJECT = 30621"
section \<open>Read-gating sets and the registry\<close>

definition AUTHOR_ONLY_KINDS :: "u32 list" where
  "AUTHOR_ONLY_KINDS =
     [KIND_EVENT_REMINDER, KIND_PUSH_LEASE, KIND_DEVICE_SESSION, KIND_PRIVATE_MANAGED_AGENT]"

definition RESULT_GATED_KINDS :: "u32 list" where
  "RESULT_GATED_KINDS =
     [KIND_DM_VISIBILITY, KIND_AGENT_TURN_METRIC]"

definition P_GATED_KINDS :: "u32 list" where
  "P_GATED_KINDS =
     [KIND_AGENT_OBSERVER_FRAME, KIND_MEMBER_ADDED_NOTIFICATION,
     KIND_MEMBER_REMOVED_NOTIFICATION, KIND_GIFT_WRAP, KIND_DM_VISIBILITY,
     KIND_AGENT_TURN_METRIC]"

definition SHARED_GATED_KINDS :: "u32 list" where
  "SHARED_GATED_KINDS =
     [KIND_PERSONA, KIND_TEAM_CATALOG]"

definition ALL_KINDS :: "u32 list" where
  "ALL_KINDS =
     [KIND_PROFILE, KIND_TEXT_NOTE, KIND_CONTACT_LIST, KIND_MUTE_LIST, KIND_PIN_LIST,
     KIND_NIP65_RELAY_LIST_METADATA, KIND_BOOKMARK_LIST, KIND_EMOJI_LIST, KIND_FOLLOW_SET,
     KIND_BOOKMARK_SET, KIND_EMOJI_SET, KIND_CHANNEL_METADATA, KIND_DELETION, KIND_REACTION,
     KIND_GIFT_WRAP, KIND_FILE_METADATA, KIND_AGENT_PROFILE, KIND_AGENT_ENGRAM,
     KIND_EVENT_REMINDER, KIND_DEVICE_SESSION, KIND_PERSONA, KIND_TEAM, KIND_MANAGED_AGENT,
     KIND_TEAM_CATALOG, KIND_PRIVATE_MANAGED_AGENT, KIND_REPORT, KIND_PRODUCT_FEEDBACK,
     KIND_NIP29_PUT_USER, KIND_NIP29_REMOVE_USER, KIND_NIP29_EDIT_METADATA,
     KIND_NIP29_DELETE_EVENT, KIND_NIP29_CREATE_GROUP, KIND_NIP29_DELETE_GROUP,
     KIND_NIP29_CREATE_INVITE, KIND_NIP29_JOIN_REQUEST, KIND_NIP29_LEAVE_REQUEST,
     KIND_MODERATION_BAN, KIND_MODERATION_UNBAN, KIND_MODERATION_TIMEOUT,
     KIND_MODERATION_UNTIMEOUT, KIND_MODERATION_RESOLVE_REPORT, RELAY_ADMIN_ADD_MEMBER,
     RELAY_ADMIN_REMOVE_MEMBER, RELAY_ADMIN_CHANGE_ROLE, RELAY_ADMIN_SET_WORKSPACE_PROFILE,
     KIND_NIP43_MEMBERSHIP_LIST, KIND_NIP43_MEMBER_ADDED, KIND_NIP43_MEMBER_REMOVED,
     KIND_NIP43_LEAVE_REQUEST, KIND_IA_ARCHIVE_REQUEST, KIND_IA_UNARCHIVE_REQUEST,
     KIND_IA_ARCHIVED, KIND_IA_UNARCHIVED, KIND_IA_ARCHIVED_LIST, KIND_NIP29_GROUP_METADATA,
     KIND_NIP29_GROUP_ADMINS, KIND_NIP29_GROUP_MEMBERS, KIND_NIP29_GROUP_ROLES,
     KIND_THREAD_SUMMARY, KIND_WINDOW_BOUNDS, KIND_PRESENCE_UPDATE, KIND_TYPING_INDICATOR,
     KIND_DEVICE_STATUS, KIND_HUDDLE_REACTION, KIND_BLOSSOM_AUTH, KIND_PAIRING,
     KIND_AGENT_OBSERVER_FRAME, KIND_HTTP_AUTH, KIND_STREAM_MESSAGE, KIND_STREAM_MESSAGE_V2,
     KIND_STREAM_MESSAGE_EDIT, KIND_STREAM_MESSAGE_PINNED, KIND_STREAM_MESSAGE_BOOKMARKED,
     KIND_STREAM_MESSAGE_SCHEDULED, KIND_STREAM_REMINDER, KIND_STREAM_MESSAGE_DIFF, KIND_CANVAS,
     KIND_SYSTEM_MESSAGE, KIND_CHANNEL_SUMMARY, KIND_PRESENCE_SNAPSHOT, KIND_DM_VISIBILITY,
     KIND_DM_OPEN, KIND_DM_ADD_MEMBER, KIND_DM_HIDE, KIND_DM_CREATED, KIND_JOB_REQUEST,
     KIND_JOB_ACCEPTED, KIND_JOB_PROGRESS, KIND_JOB_RESULT, KIND_JOB_CANCEL, KIND_JOB_ERROR,
     KIND_MEMBER_ADDED_NOTIFICATION, KIND_MEMBER_REMOVED_NOTIFICATION, KIND_AGENT_TURN_METRIC,
     KIND_WORKFLOW_DEF, KIND_LONG_FORM, KIND_USER_STATUS, KIND_READ_STATE, KIND_FORUM_POST,
     KIND_FORUM_VOTE, KIND_FORUM_COMMENT, KIND_WORKFLOW_TRIGGER, KIND_APPROVAL_GRANT,
     KIND_APPROVAL_DENY, KIND_WORKFLOW_TRIGGERED, KIND_WORKFLOW_STEP_STARTED,
     KIND_WORKFLOW_STEP_COMPLETED, KIND_WORKFLOW_STEP_FAILED, KIND_WORKFLOW_COMPLETED,
     KIND_WORKFLOW_FAILED, KIND_WORKFLOW_CANCELLED, KIND_WORKFLOW_APPROVAL_REQUESTED,
     KIND_WORKFLOW_APPROVAL_GRANTED, KIND_WORKFLOW_APPROVAL_DENIED, KIND_AUDIT_ENTRY,
     KIND_HUDDLE_STARTED, KIND_HUDDLE_PARTICIPANT_JOINED, KIND_HUDDLE_PARTICIPANT_LEFT,
     KIND_HUDDLE_ENDED, KIND_HUDDLE_LIVENESS, KIND_HUDDLE_GUIDELINES, KIND_MEDIA_UPLOAD,
     KIND_GIT_REPO_ANNOUNCEMENT, KIND_GIT_REPO_STATE, KIND_GIT_PATCH, KIND_GIT_PULL_REQUEST,
     KIND_GIT_PR_UPDATE, KIND_GIT_ISSUE, KIND_GIT_STATUS_OPEN, KIND_GIT_STATUS_MERGED,
     KIND_GIT_STATUS_CLOSED, KIND_GIT_STATUS_DRAFT, KIND_PROJECT]"

section \<open>Classification\<close>

definition is_ephemeral :: "u32 \<Rightarrow> bool" where
  "is_ephemeral kind \<longleftrightarrow> EPHEMERAL_KIND_MIN \<le> kind \<and> kind \<le> EPHEMERAL_KIND_MAX"

definition is_replaceable :: "u32 \<Rightarrow> bool" where
  "is_replaceable kind \<longleftrightarrow>
     kind = 0 \<or> kind = 3 \<or> kind = KIND_CHANNEL_METADATA \<or> (10000 \<le> kind \<and> kind \<le> 19999)"

definition is_parameterized_replaceable :: "u32 \<Rightarrow> bool" where
  "is_parameterized_replaceable kind \<longleftrightarrow>
     PARAM_REPLACEABLE_KIND_MIN \<le> kind \<and> kind \<le> PARAM_REPLACEABLE_KIND_MAX"

definition is_workflow_execution_kind :: "u32 \<Rightarrow> bool" where
  "is_workflow_execution_kind kind \<longleftrightarrow>
     KIND_WORKFLOW_TRIGGERED \<le> kind \<and> kind \<le> KIND_WORKFLOW_APPROVAL_DENIED"

definition is_moderation_command_kind :: "u32 \<Rightarrow> bool" where
  "is_moderation_command_kind kind \<longleftrightarrow>
     kind \<in> {KIND_MODERATION_BAN, KIND_MODERATION_UNBAN, KIND_MODERATION_TIMEOUT,
             KIND_MODERATION_UNTIMEOUT, KIND_MODERATION_RESOLVE_REPORT}"

definition is_relay_admin_kind :: "u32 \<Rightarrow> bool" where
  "is_relay_admin_kind kind \<longleftrightarrow>
     kind \<in> {RELAY_ADMIN_ADD_MEMBER, RELAY_ADMIN_REMOVE_MEMBER, RELAY_ADMIN_CHANGE_ROLE,
             RELAY_ADMIN_SET_WORKSPACE_PROFILE}"

definition is_identity_archive_request_kind :: "u32 \<Rightarrow> bool" where
  "is_identity_archive_request_kind kind \<longleftrightarrow>
     kind \<in> {KIND_IA_ARCHIVE_REQUEST, KIND_IA_UNARCHIVE_REQUEST}"

definition is_command_kind :: "u32 \<Rightarrow> bool" where
  "is_command_kind kind \<longleftrightarrow>
     kind \<in> {KIND_WORKFLOW_DEF, KIND_DM_OPEN, KIND_DM_ADD_MEMBER, KIND_DM_HIDE,
             KIND_WORKFLOW_TRIGGER, KIND_APPROVAL_GRANT, KIND_APPROVAL_DENY}"

definition is_relay_only_kind :: "u32 \<Rightarrow> bool" where
  "is_relay_only_kind kind \<longleftrightarrow>
     kind \<in> {KIND_NIP43_MEMBERSHIP_LIST, KIND_CHANNEL_SUMMARY, KIND_PRESENCE_SNAPSHOT,
             KIND_DM_VISIBILITY, KIND_THREAD_SUMMARY, KIND_WINDOW_BOUNDS}"

definition event_kind_u32 :: "nostr_event \<Rightarrow> u32" where
  "event_kind_u32 event = ucast (ev_kind event)"

definition event_kind_i32 :: "nostr_event \<Rightarrow> int" where
  "event_kind_i32 event = sint (ucast (ev_kind event) :: 32 word)"

lemmas kind_class_defs =
  is_ephemeral_def is_replaceable_def is_parameterized_replaceable_def
  is_workflow_execution_kind_def is_moderation_command_kind_def is_relay_admin_kind_def
  is_identity_archive_request_kind_def is_command_kind_def is_relay_only_kind_def

section \<open>The author-only-unless-shared gate\<close>

definition is_shared_gated_kind :: "u32 \<Rightarrow> bool" where
  "is_shared_gated_kind kind \<longleftrightarrow> kind \<in> set SHARED_GATED_KINDS"

text \<open>
  The loop of \<open>event_is_shared\<close>: a two-element \<open>shared\<close> tag must read \<open>"true"\<close> and is counted, a
  \<open>shared\<close> tag of any other length ends the loop with \<open>false\<close>.
\<close>

fun event_is_shared_loop :: "tag list \<Rightarrow> nat \<Rightarrow> bool" where
  "event_is_shared_loop [] n = (n = 1)"
| "event_is_shared_loop (parts # tags) n =
     (if length parts = 2 \<and> parts ! 0 = ''shared'' then
        (if parts ! 1 \<noteq> ''true'' then False else event_is_shared_loop tags (n + 1))
      else if parts \<noteq> [] \<and> parts ! 0 = ''shared'' then False
      else event_is_shared_loop tags n)"

definition event_is_shared :: "nostr_event \<Rightarrow> bool" where
  "event_is_shared event = event_is_shared_loop (ev_tags event) 0"

definition is_unshared_gated_event :: "nostr_event \<Rightarrow> bytes \<Rightarrow> bool" where
  "is_unshared_gated_event event requester_pubkey_bytes =
     (let kind = ucast (ev_kind event) in
      if \<not> is_shared_gated_kind kind then False
      else if ev_pubkey event = requester_pubkey_bytes then False
      else \<not> event_is_shared event)"

section \<open>Properties\<close>

definition is_shared_tag :: "tag \<Rightarrow> bool" where
  "is_shared_tag parts \<longleftrightarrow> parts \<noteq> [] \<and> hd parts = ''shared''"

lemma event_is_shared_loop_iff:
  "event_is_shared_loop tags n \<longleftrightarrow>
     (let ss = filter is_shared_tag tags in
      n + length ss = 1 \<and> set ss \<subseteq> {[''shared'', ''true'']})"
proof (induction tags n rule: event_is_shared_loop.induct)
  case (1 n)
  then show ?case by simp
next
  case (2 parts tags n)
  have two: "length parts = 2 \<Longrightarrow> parts = [parts ! 0, parts ! 1]"
    by (auto simp: length_Suc_conv numeral_2_eq_2)
  show ?case
  proof (cases "is_shared_tag parts")
    case False
    then have "\<not> (length parts = 2 \<and> parts ! 0 = ''shared'')"
      "\<not> (parts \<noteq> [] \<and> parts ! 0 = ''shared'')"
      by (cases parts; auto simp: is_shared_tag_def)+
    with 2 False show ?thesis by (auto simp: Let_def)
  next
    case sh: True
    then have zero: "parts \<noteq> []" "parts ! 0 = ''shared''"
      by (auto simp: is_shared_tag_def hd_conv_nth)
    show ?thesis
    proof (cases "length parts = 2 \<and> parts ! 1 = ''true''")
      case True
      with two zero have "parts = [''shared'', ''true'']" by metis
      with 2 True zero sh show ?thesis by (simp add: Let_def)
    next
      case False
      then have "parts \<noteq> [''shared'', ''true'']" by auto
      with False zero sh show ?thesis by (auto simp: Let_def)
    qed
  qed
qed

lemma filter_eq_singleton_iff:
  "filter P xs = [y] \<longleftrightarrow> length (filter P xs) = 1 \<and> set (filter P xs) \<subseteq> {y}"
  by (cases "filter P xs") (auto simp: length_Suc_conv)

lemma all_kinds_nat_distinct: "distinct (map unat ALL_KINDS)"
  by (simp add: ALL_KINDS_def kind_defs)

lemma event_is_shared_iff_one_tag:
  "event_is_shared event \<longleftrightarrow>
     filter is_shared_tag (ev_tags event) = [[''shared'', ''true'']]"
  by (simp add: event_is_shared_def event_is_shared_loop_iff Let_def
      filter_eq_singleton_iff [of is_shared_tag])

lemma kind_class_exclusive:
  "is_ephemeral k \<Longrightarrow> \<not> is_replaceable k"
  "is_ephemeral k \<Longrightarrow> \<not> is_parameterized_replaceable k"
  "is_replaceable k \<Longrightarrow> \<not> is_parameterized_replaceable k"
  by (auto simp: kind_class_defs kind_defs word_le_nat_alt)

lemma command_family_exclusive:
  "is_moderation_command_kind k \<Longrightarrow> \<not> is_ephemeral k \<and> \<not> is_replaceable k
     \<and> \<not> is_parameterized_replaceable k \<and> \<not> is_relay_admin_kind k
     \<and> \<not> is_identity_archive_request_kind k"
  "is_relay_admin_kind k \<Longrightarrow> \<not> is_ephemeral k \<and> \<not> is_replaceable k
     \<and> \<not> is_parameterized_replaceable k \<and> \<not> is_identity_archive_request_kind k"
  "is_identity_archive_request_kind k \<Longrightarrow> \<not> is_ephemeral k \<and> \<not> is_replaceable k
     \<and> \<not> is_parameterized_replaceable k"
  "is_command_kind k \<Longrightarrow> \<not> is_relay_only_kind k"
  by (auto simp: kind_class_defs kind_defs)

text \<open>The registry \<open>ALL_KINDS\<close> has no duplicate kind number, so no two features dispatch on the
  same integer, and every registered kind fits the \<open>u16\<close> a Nostr event carries.\<close>

theorem all_kinds_distinct:
  "distinct ALL_KINDS \<and> length ALL_KINDS = 133 \<and> list_all (\<lambda>k. k \<le> 65535) ALL_KINDS"
proof -
  have "distinct ALL_KINDS"
    using all_kinds_nat_distinct by (simp add: distinct_map)
  moreover have "length ALL_KINDS = 133 \<and> list_all (\<lambda>k. k \<le> 65535) ALL_KINDS"
    by (simp add: ALL_KINDS_def kind_defs)
  ultimately show ?thesis by blast
qed

text \<open>Storage dispatch is unambiguous: no kind is in two of the ephemeral, replaceable and
  parameterized-replaceable classes; the directly executed command families (moderation, relay
  admin, identity archival) are disjoint from one another, from every storage class with special
  treatment, and no kind is both a transactional command and relay-only.\<close>

theorem kind_dispatch_unambiguous:
  "length (filter (\<lambda>c. c k)
     [is_ephemeral, is_replaceable, is_parameterized_replaceable, is_moderation_command_kind,
      is_relay_admin_kind, is_identity_archive_request_kind]) \<le> 1
   \<and> \<not> (is_command_kind k \<and> is_relay_only_kind k)"
  using kind_class_exclusive [of k] command_family_exclusive [of k] by auto

text \<open>The shared gate withholds an event exactly when its kind is a persona or a team catalog,
  the reader is not the author, and the event's \<open>shared\<close> tags are anything other than the single
  tag \<open>["shared", "true"]\<close>.\<close>

theorem is_unshared_gated_event_iff:
  "is_unshared_gated_event event reader \<longleftrightarrow>
     event_kind_u32 event \<in> {KIND_PERSONA, KIND_TEAM_CATALOG}
     \<and> reader \<noteq> ev_pubkey event
     \<and> filter is_shared_tag (ev_tags event) \<noteq> [[''shared'', ''true'']]"
  by (auto simp: is_unshared_gated_event_def event_is_shared_iff_one_tag is_shared_gated_kind_def
      SHARED_GATED_KINDS_def event_kind_u32_def Let_def)

end
