(* ===== verification/Event_Filter.thy ===== *)
theory Event_Filter
  imports Kinds
begin

text \<open>
  Stored events, NIP-01 filter matching and NIP-10 thread markers of \<open>crates/maju-core/src\<close>:
  \<open>event.rs\<close> (\<open>StoredEvent\<close>), \<open>filter.rs\<close> (\<open>filters_match\<close>, \<open>filter_match_one\<close> and the result gate
  \<open>reader_authorized_for_event\<close>) and \<open>nip10.rs\<close> (\<open>parse_thread_markers\<close>, \<open>ThreadMarkers::resolve\<close>).

  The lemmas characterise a match declaratively, show that the prefix test on event ids is an
  equality test on the ids a filter can hold, describe the \<open>#h\<close> fallback to the stored channel, and
  that the thread-marker parser returns the last valid marker of each kind.
\<close>

section \<open>Stored events\<close>

record stored_event =
  se_event :: nostr_event
  se_received_at :: int
  se_channel_id :: "uuid option"
  se_verified :: bool

definition stored_event_new :: "int \<Rightarrow> nostr_event \<Rightarrow> uuid option \<Rightarrow> stored_event" where
  "stored_event_new now event channel_id =
     \<lparr>se_event = event, se_received_at = now, se_channel_id = channel_id, se_verified = False\<rparr>"

definition is_verified :: "stored_event \<Rightarrow> bool" where
  "is_verified ev = se_verified ev"

definition with_received_at ::
    "nostr_event \<Rightarrow> int \<Rightarrow> uuid option \<Rightarrow> bool \<Rightarrow> stored_event" where
  "with_received_at event received_at channel_id verified =
     \<lparr>se_event = event, se_received_at = received_at, se_channel_id = channel_id,
      se_verified = verified\<rparr>"

section \<open>Filters\<close>

definition p_letter :: single_letter_tag where
  "p_letter = slt_lower (CHR ''p'')"

text \<open>The body of the loop over \<open>generic_tags\<close>: \<open>False\<close> is the loop's \<open>return false\<close>.\<close>

definition tag_constraint_ok ::
    "nostr_api \<Rightarrow> stored_event \<Rightarrow> single_letter_tag \<times> string list \<Rightarrow> bool" where
  "tag_constraint_ok api ev kv =
     (let tag_key_str = api_slt_string api (fst kv);
          tag_values = snd kv;
          tags = ev_tags (se_event ev);
          has_match =
            list_ex (\<lambda>filter_val.
              list_ex (\<lambda>event_val. event_val = filter_val)
                (List.map_filter (api_tag_content api)
                  (filter (\<lambda>t. api_tag_kind api t = tag_key_str) tags))) tag_values
      in if \<not> has_match \<and> tag_key_str = ''h'' then
           (let event_has_h_tags = list_ex (\<lambda>t. api_tag_kind api t = ''h'') tags in
            if \<not> event_has_h_tags then
              (case se_channel_id ev of
                 Some ch_id \<Rightarrow> list_ex (\<lambda>v. v = api_uuid_string api ch_id) tag_values
               | None \<Rightarrow> False)
            else False)
         else has_match)"

definition filter_match_one :: "nostr_api \<Rightarrow> nostr_filter \<Rightarrow> stored_event \<Rightarrow> bool" where
  "filter_match_one api f ev =
     (if (case f_kinds f of Some kinds \<Rightarrow> ev_kind (se_event ev) \<notin> set kinds | None \<Rightarrow> False)
      then False
      else if (case f_authors f of Some authors \<Rightarrow> ev_pubkey (se_event ev) \<notin> set authors
               | None \<Rightarrow> False)
      then False
      else if (case f_since f of Some since \<Rightarrow> ev_created_at (se_event ev) < since | None \<Rightarrow> False)
      then False
      else if (case f_until f of Some until \<Rightarrow> ev_created_at (se_event ev) > until | None \<Rightarrow> False)
      then False
      else if (case f_ids f of
                 Some ids \<Rightarrow>
                   (let event_id_hex = api_hex api (ev_id (se_event ev)) in
                    \<not> list_ex (\<lambda>i. is_prefix (api_hex api i) event_id_hex) ids)
               | None \<Rightarrow> False)
      then False
      else list_all (tag_constraint_ok api ev) (f_generic_tags f))"

definition filters_match :: "nostr_api \<Rightarrow> nostr_filter list \<Rightarrow> stored_event \<Rightarrow> bool" where
  "filters_match api filters ev = list_ex (\<lambda>f. filter_match_one api f ev) filters"

definition reader_authorized_for_event :: "nostr_api \<Rightarrow> nostr_event \<Rightarrow> string \<Rightarrow> bool" where
  "reader_authorized_for_event api event reader_pubkey_hex =
     (let kind = event_kind_u32 event in
      if kind \<noteq> KIND_DM_VISIBILITY \<and> kind \<noteq> KIND_AGENT_TURN_METRIC then True
      else list_ex (\<lambda>t. api_tag_content api t = Some reader_pubkey_hex)
             (filter (api_tag_has_letter api p_letter) (ev_tags event)))"

section \<open>NIP-10 thread markers\<close>

record thread_markers =
  tm_root :: "string option"
  tm_reply :: "string option"

definition resolve :: "thread_markers \<Rightarrow> (string \<times> string) option" where
  "resolve m =
     (case (tm_root m, tm_reply m) of
        (Some root, Some reply) \<Rightarrow> Some (root, reply)
      | (None, Some reply) \<Rightarrow> Some (reply, reply)
      | (Some _, None) \<Rightarrow> None
      | (None, None) \<Rightarrow> None)"

definition is_ascii_hexdigit :: "char \<Rightarrow> bool" where
  "is_ascii_hexdigit c \<longleftrightarrow>
     (let n = of_char c :: nat in (48 \<le> n \<and> n \<le> 57) \<or> (65 \<le> n \<and> n \<le> 70) \<or> (97 \<le> n \<and> n \<le> 102))"

definition is_event_id_hex :: "string \<Rightarrow> bool" where
  "is_event_id_hex i \<longleftrightarrow> length i = 64 \<and> list_all is_ascii_hexdigit i"

definition thread_marker_step :: "tag \<Rightarrow> thread_markers \<Rightarrow> thread_markers" where
  "thread_marker_step parts m =
     (if 4 \<le> length parts \<and> parts ! 0 = ''e'' \<and> is_event_id_hex (parts ! 1) then
        (if parts ! 3 = ''root'' then m\<lparr>tm_root := Some (parts ! 1)\<rparr>
         else if parts ! 3 = ''reply'' then m\<lparr>tm_reply := Some (parts ! 1)\<rparr>
         else m)
      else m)"

definition parse_thread_markers_from_parts :: "tag list \<Rightarrow> thread_markers" where
  "parse_thread_markers_from_parts tags =
     fold thread_marker_step tags \<lparr>tm_root = None, tm_reply = None\<rparr>"

definition parse_thread_markers :: "tag list \<Rightarrow> thread_markers" where
  "parse_thread_markers tags = parse_thread_markers_from_parts tags"

section \<open>Lemmas on filters\<close>

lemma filters_match_iff:
  "filters_match api filters ev \<longleftrightarrow> (\<exists>f \<in> set filters. filter_match_one api f ev)"
  by (simp add: filters_match_def list_ex_iff)

lemma filter_match_oneD:
  assumes "filter_match_one api f ev"
  shows "f_kinds f = Some kinds \<Longrightarrow> ev_kind (se_event ev) \<in> set kinds"
    and "kv \<in> set (f_generic_tags f) \<Longrightarrow> tag_constraint_ok api ev kv"
  using assms by (auto simp: filter_match_one_def list_all_iff split: if_splits)

lemma set_map_filter: "x \<in> set (List.map_filter g xs) \<longleftrightarrow> (\<exists>y \<in> set xs. g y = Some x)"
  by (auto simp: List.map_filter_def intro: rev_image_eqI)

lemma tag_constraint_ok_iff:
  "tag_constraint_ok api ev (key, vals) \<longleftrightarrow>
     (\<exists>t \<in> set (ev_tags (se_event ev)).
        api_tag_kind api t = api_slt_string api key \<and> api_tag_content api t \<in> Some ` set vals)
     \<or> (api_slt_string api key = ''h''
        \<and> (\<forall>t \<in> set (ev_tags (se_event ev)). api_tag_kind api t \<noteq> ''h'')
        \<and> (\<exists>ch. se_channel_id ev = Some ch \<and> api_uuid_string api ch \<in> set vals))"
  by (auto simp: tag_constraint_ok_def Let_def list_ex_iff set_map_filter image_iff
      split: option.splits)

lemma hex_prefix_iff:
  assumes "nostr_api_ok api" and "length i = length j"
  shows "is_prefix (api_hex api i) (api_hex api j) \<longleftrightarrow> i = j"
  using assms by (auto simp: nostr_api_ok_def is_prefix_same_length dest: injD)

section \<open>Lemmas on thread markers\<close>

definition valid_marker :: "string \<Rightarrow> tag \<Rightarrow> bool" where
  "valid_marker marker parts \<longleftrightarrow>
     4 \<le> length parts \<and> parts ! 0 = ''e'' \<and> is_event_id_hex (parts ! 1) \<and> parts ! 3 = marker"

definition last_marker :: "string \<Rightarrow> tag list \<Rightarrow> string option" where
  "last_marker marker tags =
     (let ms = filter (valid_marker marker) tags in if ms = [] then None else Some (last ms ! 1))"

lemma parse_thread_markers_snoc:
  "parse_thread_markers_from_parts (tags @ [t]) =
     thread_marker_step t (parse_thread_markers_from_parts tags)"
  by (simp add: parse_thread_markers_from_parts_def)

lemma parse_thread_markers_last:
  "parse_thread_markers_from_parts tags =
     \<lparr>tm_root = last_marker ''root'' tags, tm_reply = last_marker ''reply'' tags\<rparr>"
proof (induction tags rule: rev_induct)
  case Nil
  show ?case by (simp add: parse_thread_markers_from_parts_def last_marker_def)
next
  case (snoc t tags)
  then show ?case
    by (auto simp: parse_thread_markers_snoc thread_marker_step_def last_marker_def
        valid_marker_def Let_def)
qed

section \<open>Properties\<close>

definition opt_holds :: "'a option \<Rightarrow> ('a \<Rightarrow> bool) \<Rightarrow> bool" where
  "opt_holds x P = (case x of None \<Rightarrow> True | Some v \<Rightarrow> P v)"

text \<open>For ids of the 32 bytes an event id has, a filter matches a stored event exactly when every
  field it sets is satisfied: kind and author by membership, the time window inclusively, the ids by
  equality (the prefix test degenerates to it), and every tag constraint by a tag of that name with
  one of the listed values or, for \<open>#h\<close> on an event without any \<open>h\<close> tag, by the stored channel.\<close>

theorem filter_match_one_iff:
  assumes "nostr_api_ok api"
    and "length (ev_id (se_event ev)) = 32"
    and "opt_holds (f_ids f) (list_all (\<lambda>i. length i = 32))"
  shows "filter_match_one api f ev \<longleftrightarrow>
     opt_holds (f_kinds f) (\<lambda>ks. ev_kind (se_event ev) \<in> set ks)
     \<and> opt_holds (f_authors f) (\<lambda>as. ev_pubkey (se_event ev) \<in> set as)
     \<and> opt_holds (f_since f) (\<lambda>s. s \<le> ev_created_at (se_event ev))
     \<and> opt_holds (f_until f) (\<lambda>u. ev_created_at (se_event ev) \<le> u)
     \<and> opt_holds (f_ids f) (\<lambda>is. ev_id (se_event ev) \<in> set is)
     \<and> (\<forall>(key, vals) \<in> set (f_generic_tags f).
          (\<exists>t \<in> set (ev_tags (se_event ev)).
             api_tag_kind api t = api_slt_string api key \<and> api_tag_content api t \<in> Some ` set vals)
          \<or> (api_slt_string api key = ''h''
             \<and> (\<forall>t \<in> set (ev_tags (se_event ev)). api_tag_kind api t \<noteq> ''h'')
             \<and> (\<exists>ch. se_channel_id ev = Some ch \<and> api_uuid_string api ch \<in> set vals)))"
proof -
  have ids: "(case f_ids f of
        Some ids \<Rightarrow>
          (let h = api_hex api (ev_id (se_event ev)) in \<not> list_ex (\<lambda>i. is_prefix (api_hex api i) h) ids)
      | None \<Rightarrow> False) \<longleftrightarrow> \<not> opt_holds (f_ids f) (\<lambda>is. ev_id (se_event ev) \<in> set is)"
    using assms(2,3) hex_prefix_iff [OF assms(1)]
    by (auto simp: opt_holds_def list_ex_iff list_all_iff Let_def split: option.splits)
  have tags: "list_all (tag_constraint_ok api ev) (f_generic_tags f) \<longleftrightarrow>
      (\<forall>(key, vals) \<in> set (f_generic_tags f). tag_constraint_ok api ev (key, vals))"
    by (auto simp: list_all_iff)
  have opts: "(case x of Some v \<Rightarrow> \<not> P v | None \<Rightarrow> False) \<longleftrightarrow> \<not> opt_holds x P" for x and P :: "'x \<Rightarrow> bool"
    by (simp add: opt_holds_def split: option.splits)
  show ?thesis
    unfolding filter_match_one_def ids opts not_le [symmetric] tags tag_constraint_ok_iff by argo
qed

theorem filter_match_one_iff_witness:
  "filter_match_one std_nostr_api
     \<lparr>f_ids = Some [replicate 32 7], f_authors = None, f_kinds = Some [9], f_since = None,
      f_until = Some 10, f_generic_tags = [(slt_lower (CHR ''p''), [''alice''])]\<rparr>
     \<lparr>se_event = \<lparr>ev_id = replicate 32 7, ev_pubkey = [], ev_created_at = 10, ev_kind = 9,
        ev_tags = [[''p'', ''alice'']], ev_content = ''''\<rparr>,
      se_received_at = 0, se_channel_id = None, se_verified = True\<rparr>"
  by (subst filter_match_one_iff [OF std_nostr_api_ok])
     (auto simp: opt_holds_def std_nostr_api_def slt_lower_def)

text \<open>Thread ancestry follows the last valid markers: an event resolves to a reply exactly when it
  has a valid \<open>reply\<close> marker, its parent is the id of the last such marker, and its root is the id of
  the last valid \<open>root\<close> marker, or the parent itself when there is none. A lone \<open>root\<close> marker or a
  marker whose id is not 64 hex characters never makes an event a reply.\<close>

theorem resolve_parse_thread_markers:
  "resolve (parse_thread_markers tags) =
     map_option (\<lambda>reply. (case last_marker ''root'' tags of Some root \<Rightarrow> root | None \<Rightarrow> reply, reply))
       (last_marker ''reply'' tags)"
  by (auto simp: resolve_def parse_thread_markers_def parse_thread_markers_last
      split: option.splits)

text \<open>The result gate refuses a reader exactly for the kinds of \<open>RESULT_GATED_KINDS\<close>, and there
  exactly when no \<open>p\<close> tag of the event names the reader.\<close>

theorem reader_refused_iff:
  "(\<not> reader_authorized_for_event api event reader) \<longleftrightarrow>
     event_kind_u32 event \<in> set RESULT_GATED_KINDS
     \<and> \<not> (\<exists>t \<in> set (ev_tags event).
            api_tag_has_letter api p_letter t \<and> api_tag_content api t = Some reader)"
  by (auto simp: reader_authorized_for_event_def RESULT_GATED_KINDS_def list_ex_iff Let_def)

end
