(* ===== verification/Subscription.thy ===== *)
theory Subscription
  imports Event_Filter
begin

text \<open>
  The live subscription registry of the relay, \<open>crates/maju-relay/src/subscription.rs\<close>.

  A registry maps a connection to its subscriptions and keeps five secondary indexes (channel and
  kind, channel wildcard, global kind, global kind and \<open>#p\<close> recipient, global wildcard). Registration
  writes an entry under its keys, removal retains everything else under the same keys, and fan-out
  consults only the indexes. The gauge \<open>maju_subscriptions_active\<close> is a field of the state.

  The registry is modelled one operation at a time: \<open>DashMap\<close> gives every operation its own map
  guard, and interleavings inside an operation are not modelled.

  What is shown: every operation keeps the indexes exact (an entry stands under a key exactly when
  its subscription has that key), so in every reachable registry fan-out equals the linear scan over
  all subscriptions; the operations refine updates of an abstract map from (connection, subscription)
  to entries; and the gauge always equals the number of subscriptions.
\<close>

section \<open>State\<close>

type_synonym conn_id = uuid
type_synonym sub_id = string
type_synonym community_id = uuid

datatype subscription_scope = Global | Channels "uuid list"

fun matches_channel :: "subscription_scope \<Rightarrow> uuid option \<Rightarrow> bool" where
  "matches_channel Global None = True"
| "matches_channel (Channels channels) (Some channel_id) = (channel_id \<in> set channels)"
| "matches_channel _ _ = False"

fun channel_ids :: "subscription_scope \<Rightarrow> uuid list" where
  "channel_ids Global = []"
| "channel_ids (Channels channels) = channels"

definition is_global :: "subscription_scope \<Rightarrow> bool" where
  "is_global s = (case s of Global \<Rightarrow> True | Channels _ \<Rightarrow> False)"

type_synonym sub_entry = "nostr_filter list \<times> community_id \<times> subscription_scope"

record index_key =
  ik_channel_id :: uuid
  ik_kind :: u16

record global_p_kind_index_key =
  gp_community_id :: community_id
  gp_kind :: u16
  gp_p :: string

record removed_subscription =
  rs_community_id :: community_id
  rs_scope :: subscription_scope

record channel_subscription_update =
  cu_sub_id :: sub_id
  cu_removed :: bool

type_synonym candidate = "conn_id \<times> sub_id"

record subscription_registry =
  subs :: "(conn_id, (sub_id, sub_entry) hmap) hmap"
  channel_kind_index :: "(community_id \<times> index_key, candidate list) hmap"
  channel_wildcard_index :: "(community_id \<times> uuid, candidate list) hmap"
  global_kind_index :: "(community_id \<times> u16, candidate list) hmap"
  global_p_kind_index :: "(global_p_kind_index_key, candidate list) hmap"
  global_wildcard_index :: "(community_id, candidate list) hmap"
  subscriptions_active :: int

definition registry_new :: subscription_registry where
  "registry_new =
     \<lparr>subs = [], channel_kind_index = [], channel_wildcard_index = [], global_kind_index = [],
      global_p_kind_index = [], global_wildcard_index = [], subscriptions_active = 0\<rparr>"

section \<open>Index keys\<close>

definition push_new :: "'a \<Rightarrow> 'a list \<Rightarrow> 'a list" where
  "push_new x xs = (if x \<in> set xs then xs else xs @ [x])"

fun extract_kinds_loop :: "nostr_filter list \<Rightarrow> u16 list \<Rightarrow> u16 list option" where
  "extract_kinds_loop [] kinds = Some kinds"
| "extract_kinds_loop (f # fs) kinds =
     (case f_kinds f of
        Some filter_kinds \<Rightarrow> extract_kinds_loop fs (fold push_new filter_kinds kinds)
      | None \<Rightarrow> None)"

definition extract_kinds_from_filters :: "nostr_filter list \<Rightarrow> u16 list option" where
  "extract_kinds_from_filters filters = extract_kinds_loop filters []"

definition gp_key :: "community_id \<Rightarrow> u16 \<Rightarrow> string \<Rightarrow> global_p_kind_index_key" where
  "gp_key c k p = \<lparr>gp_community_id = c, gp_kind = k, gp_p = p\<rparr>"

fun extract_global_p_kind_loop ::
    "community_id \<Rightarrow> nostr_filter list \<Rightarrow> global_p_kind_index_key list
     \<Rightarrow> global_p_kind_index_key list option" where
  "extract_global_p_kind_loop community_id [] keys = Some keys"
| "extract_global_p_kind_loop community_id (f # fs) keys =
     (case f_kinds f of
        None \<Rightarrow> None
      | Some kinds \<Rightarrow>
          if kinds = [] then extract_global_p_kind_loop community_id fs keys
          else (case map_of (f_generic_tags f) p_letter of
                  None \<Rightarrow> None
                | Some p_values \<Rightarrow>
                    if p_values = [] then None
                    else extract_global_p_kind_loop community_id fs
                      (fold (\<lambda>kind. fold (\<lambda>p. push_new (gp_key community_id kind p)) p_values)
                         kinds keys)))"

definition extract_global_p_kind_index_keys ::
    "community_id \<Rightarrow> nostr_filter list \<Rightarrow> global_p_kind_index_key list option" where
  "extract_global_p_kind_index_keys community_id filters =
     extract_global_p_kind_loop community_id filters []"

definition event_p_tag_values :: "nostr_api \<Rightarrow> stored_event \<Rightarrow> string list" where
  "event_p_tag_values api ev =
     fold (\<lambda>t values.
        if api_tag_kind api t \<noteq> ''p'' then values
        else (case api_tag_content api t of Some value \<Rightarrow> push_new value values | None \<Rightarrow> values))
       (ev_tags (se_event ev)) []"

section \<open>Removal from the indexes\<close>

definition not_entry :: "conn_id \<Rightarrow> sub_id \<Rightarrow> candidate \<Rightarrow> bool" where
  "not_entry conn_id sub_id e \<longleftrightarrow> \<not> (fst e = conn_id \<and> snd e = sub_id)"

definition remove_from_index ::
    "conn_id \<Rightarrow> sub_id \<Rightarrow> nostr_filter list \<Rightarrow> community_id \<Rightarrow> subscription_scope
     \<Rightarrow> subscription_registry \<Rightarrow> subscription_registry" where
  "remove_from_index conn_id sub_id filters community_id scope reg =
     (case scope of
        Channels chs \<Rightarrow>
          fold (\<lambda>ch_id reg.
            (case extract_kinds_from_filters filters of
               None \<Rightarrow>
                 channel_wildcard_index_update
                   (idx_retain (not_entry conn_id sub_id) (community_id, ch_id)) reg
             | Some kinds \<Rightarrow>
                 if kinds = [] then reg
                 else fold (\<lambda>kind. channel_kind_index_update
                        (idx_retain (not_entry conn_id sub_id)
                          (community_id, \<lparr>ik_channel_id = ch_id, ik_kind = kind\<rparr>))) kinds reg))
            chs reg
      | Global \<Rightarrow>
          (case extract_global_p_kind_index_keys community_id filters of
             Some keys \<Rightarrow>
               fold (\<lambda>key. global_p_kind_index_update
                 (idx_retain (not_entry conn_id sub_id) key)) keys reg
           | None \<Rightarrow>
               (case extract_kinds_from_filters filters of
                  None \<Rightarrow>
                    global_wildcard_index_update
                      (idx_retain (not_entry conn_id sub_id) community_id) reg
                | Some kinds \<Rightarrow>
                    if kinds = [] then reg
                    else fold (\<lambda>kind. global_kind_index_update
                           (idx_retain (not_entry conn_id sub_id) (community_id, kind))) kinds reg)))"

definition remove_subscription ::
    "conn_id \<Rightarrow> sub_id \<Rightarrow> subscription_registry
     \<Rightarrow> subscription_registry \<times> removed_subscription option" where
  "remove_subscription conn_id sub_id reg =
     (case map_of (subs reg) conn_id of
        None \<Rightarrow> (reg, None)
      | Some conn_subs \<Rightarrow>
          (case map_of conn_subs sub_id of
             None \<Rightarrow> (reg, None)
           | Some (filters, community_id, scope) \<Rightarrow>
               (let reg1 = reg\<lparr>subs := AList.update conn_id (AList.delete sub_id conn_subs) (subs reg)\<rparr>;
                    reg2 = remove_from_index conn_id sub_id filters community_id scope reg1
                in (reg2\<lparr>subscriptions_active := subscriptions_active reg2 - 1\<rparr>,
                    Some \<lparr>rs_community_id = community_id, rs_scope = scope\<rparr>))))"

definition remove_connection ::
    "conn_id \<Rightarrow> subscription_registry \<Rightarrow> subscription_registry \<times> removed_subscription list" where
  "remove_connection conn_id reg =
     (case map_of (subs reg) conn_id of
        None \<Rightarrow> (reg, [])
      | Some conn_subs \<Rightarrow>
          (let reg1 = reg\<lparr>subs := AList.delete conn_id (subs reg)\<rparr>;
               reg2 = fold (\<lambda>(sub_id, (filters, community_id, scope)).
                        remove_from_index conn_id sub_id filters community_id scope) conn_subs reg1
           in (reg2\<lparr>subscriptions_active := subscriptions_active reg2 - int (length conn_subs)\<rparr>,
               map (\<lambda>(sub_id, (filters, community_id, scope)).
                      \<lparr>rs_community_id = community_id, rs_scope = scope\<rparr>) conn_subs)))"

section \<open>Registration\<close>

definition add_to_index ::
    "conn_id \<Rightarrow> sub_id \<Rightarrow> nostr_filter list \<Rightarrow> community_id \<Rightarrow> subscription_scope
     \<Rightarrow> subscription_registry \<Rightarrow> subscription_registry" where
  "add_to_index conn_id sub_id filters community_id scope reg =
     (case scope of
        Channels chs \<Rightarrow>
          fold (\<lambda>ch_id reg.
            (case extract_kinds_from_filters filters of
               None \<Rightarrow>
                 channel_wildcard_index_update
                   (idx_push (community_id, ch_id) (conn_id, sub_id)) reg
             | Some kinds \<Rightarrow>
                 if kinds = [] then reg
                 else fold (\<lambda>kind. channel_kind_index_update
                        (idx_push (community_id, \<lparr>ik_channel_id = ch_id, ik_kind = kind\<rparr>)
                          (conn_id, sub_id))) kinds reg))
            chs reg
      | Global \<Rightarrow>
          (case extract_global_p_kind_index_keys community_id filters of
             Some keys \<Rightarrow>
               fold (\<lambda>key. global_p_kind_index_update (idx_push key (conn_id, sub_id))) keys reg
           | None \<Rightarrow>
               (case extract_kinds_from_filters filters of
                  None \<Rightarrow>
                    global_wildcard_index_update (idx_push community_id (conn_id, sub_id)) reg
                | Some kinds \<Rightarrow>
                    if kinds = [] then reg
                    else fold (\<lambda>kind. global_kind_index_update
                           (idx_push (community_id, kind) (conn_id, sub_id))) kinds reg)))"

definition register_with_scope ::
    "community_id \<Rightarrow> conn_id \<Rightarrow> sub_id \<Rightarrow> nostr_filter list \<Rightarrow> subscription_scope
     \<Rightarrow> subscription_registry \<Rightarrow> subscription_registry \<times> removed_subscription option" where
  "register_with_scope community_id conn_id sub_id filters scope reg =
     (let (reg1, removed) = remove_subscription conn_id sub_id reg;
          conn_subs = (case map_of (subs reg1) conn_id of None \<Rightarrow> [] | Some m \<Rightarrow> m);
          reg2 = reg1\<lparr>subs := AList.update conn_id
                   (AList.update sub_id (filters, community_id, scope) conn_subs) (subs reg1)\<rparr>;
          reg3 = reg2\<lparr>subscriptions_active := subscriptions_active reg2 + 1\<rparr>
      in (add_to_index conn_id sub_id filters community_id scope reg3, removed))"

definition register_scoped ::
    "community_id \<Rightarrow> conn_id \<Rightarrow> sub_id \<Rightarrow> nostr_filter list \<Rightarrow> uuid option
     \<Rightarrow> subscription_registry \<Rightarrow> subscription_registry \<times> removed_subscription option" where
  "register_scoped community_id conn_id sub_id filters channel_id reg =
     (let scope = (case channel_id of Some ch \<Rightarrow> Channels [ch] | None \<Rightarrow> Global)
      in register_with_scope community_id conn_id sub_id filters scope reg)"

definition register_channels_scoped ::
    "community_id \<Rightarrow> conn_id \<Rightarrow> sub_id \<Rightarrow> nostr_filter list \<Rightarrow> uuid list
     \<Rightarrow> subscription_registry \<Rightarrow> subscription_registry \<times> removed_subscription option" where
  "register_channels_scoped community_id conn_id sub_id filters chs reg =
     register_with_scope community_id conn_id sub_id filters (Channels chs) reg"

section \<open>Channel revocation\<close>

text \<open>
  One round of the loop of \<open>remove_channel_subscriptions_scoped\<close>. The two \<open>let .. else\<close> exits skip
  the subscription; the missing-connection exit ends the loop, which is the same as skipping every
  later round.
\<close>

definition remove_channel_step ::
    "community_id \<Rightarrow> conn_id \<Rightarrow> uuid \<Rightarrow> sub_id
     \<Rightarrow> subscription_registry \<times> channel_subscription_update list
     \<Rightarrow> subscription_registry \<times> channel_subscription_update list" where
  "remove_channel_step community_id conn_id channel_id sub_id st =
     (let (reg, updates) = st in
      case map_of (subs reg) conn_id of
        None \<Rightarrow> (reg, updates)
      | Some conn_subs \<Rightarrow>
          (case map_of conn_subs sub_id of
             None \<Rightarrow> (reg, updates)
           | Some (filters, sub_community_id, scope) \<Rightarrow>
               (case scope of
                  Global \<Rightarrow> (reg, updates)
                | Channels chs \<Rightarrow>
                    (let chs' = filter (\<lambda>candidate. candidate \<noteq> channel_id) chs;
                         removed = (chs' = []);
                         conn_subs' = AList.update sub_id (filters, sub_community_id, Channels chs') conn_subs;
                         reg1 = remove_from_index conn_id sub_id filters community_id
                                  (Channels [channel_id]) reg;
                         reg2 = reg1\<lparr>subs := AList.update conn_id
                                  (if removed then AList.delete sub_id conn_subs' else conn_subs')
                                  (subs reg1)\<rparr>;
                         reg3 = (if removed
                                 then reg2\<lparr>subscriptions_active := subscriptions_active reg2 - 1\<rparr>
                                 else reg2)
                     in (reg3, updates @ [\<lparr>cu_sub_id = sub_id, cu_removed = removed\<rparr>])))))"

definition channel_sub_ids ::
    "community_id \<Rightarrow> conn_id \<Rightarrow> uuid \<Rightarrow> subscription_registry \<Rightarrow> sub_id list" where
  "channel_sub_ids community_id conn_id channel_id reg =
     (case map_of (subs reg) conn_id of
        None \<Rightarrow> []
      | Some conn_subs \<Rightarrow>
          List.map_filter
            (\<lambda>(sub_id, (filters, sub_community_id, scope)).
               if sub_community_id = community_id \<and> channel_id \<in> set (channel_ids scope)
               then Some sub_id else None) conn_subs)"

definition remove_channel_subscriptions_scoped ::
    "community_id \<Rightarrow> conn_id \<Rightarrow> uuid \<Rightarrow> subscription_registry
     \<Rightarrow> subscription_registry \<times> channel_subscription_update list" where
  "remove_channel_subscriptions_scoped community_id conn_id channel_id reg =
     fold (remove_channel_step community_id conn_id channel_id)
       (channel_sub_ids community_id conn_id channel_id reg) (reg, [])"

section \<open>Queries\<close>

definition channel_subscriber_conns_scoped ::
    "community_id \<Rightarrow> uuid \<Rightarrow> subscription_registry \<Rightarrow> conn_id list" where
  "channel_subscriber_conns_scoped community_id channel_id reg =
     dedup
       (concat (map (\<lambda>(key, entries).
                  if fst key = community_id \<and> ik_channel_id (snd key) = channel_id
                  then map fst entries else [])
                (channel_kind_index reg))
        @ (case map_of (channel_wildcard_index reg) (community_id, channel_id) of
             Some entries \<Rightarrow> map fst entries
           | None \<Rightarrow> []))"

definition push_match ::
    "nostr_api \<Rightarrow> subscription_registry \<Rightarrow> community_id \<Rightarrow> stored_event
     \<Rightarrow> candidate \<Rightarrow> candidate list \<Rightarrow> candidate list" where
  "push_match api reg community_id event c results =
     (case map_of (subs reg) (fst c) of
        None \<Rightarrow> results
      | Some conn_subs \<Rightarrow>
          (case map_of conn_subs (snd c) of
             None \<Rightarrow> results
           | Some (filters, sub_community_id, scope) \<Rightarrow>
               if sub_community_id = community_id \<and> matches_channel scope (se_channel_id event)
                  \<and> filters_match api filters event
               then push_new c results
               else results))"

definition fan_out_scoped ::
    "nostr_api \<Rightarrow> community_id \<Rightarrow> stored_event \<Rightarrow> subscription_registry \<Rightarrow> candidate list" where
  "fan_out_scoped api community_id event reg =
     (let pm = push_match api reg community_id event;
          kind = ev_kind (se_event event) in
      case se_channel_id event of
        Some channel_id \<Rightarrow>
          (let r1 = fold pm (idx_get (channel_kind_index reg)
                      (community_id, \<lparr>ik_channel_id = channel_id, ik_kind = kind\<rparr>)) []
           in fold pm (idx_get (channel_wildcard_index reg) (community_id, channel_id)) r1)
      | None \<Rightarrow>
          (let r1 = fold (\<lambda>p. fold pm (idx_get (global_p_kind_index reg)
                      (gp_key community_id kind p))) (event_p_tag_values api event) [];
               r2 = fold pm (idx_get (global_kind_index reg) (community_id, kind)) r1
           in fold pm (idx_get (global_wildcard_index reg) community_id) r2))"

definition get_filters ::
    "conn_id \<Rightarrow> sub_id \<Rightarrow> subscription_registry \<Rightarrow> nostr_filter list option" where
  "get_filters conn_id sub_id reg =
     (case map_of (subs reg) conn_id of
        None \<Rightarrow> None
      | Some conn_subs \<Rightarrow> map_option fst (map_of conn_subs sub_id))"

definition total_subscriptions :: "subscription_registry \<Rightarrow> nat" where
  "total_subscriptions reg = sum_list (map (\<lambda>(c, m). length m) (subs reg))"

definition total_connections :: "subscription_registry \<Rightarrow> nat" where
  "total_connections reg = length (subs reg)"

definition per_community_subscriptions :: "subscription_registry \<Rightarrow> (community_id, nat) hmap" where
  "per_community_subscriptions reg =
     fold (\<lambda>(c, m). fold (\<lambda>(s, (fs, community_id, scope)) counts.
         AList.update community_id
           ((case map_of counts community_id of None \<Rightarrow> 0 | Some n \<Rightarrow> n) + 1) counts) m)
       (subs reg) []"

section \<open>The keys of a subscription\<close>

text \<open>
  \<open>index_key_kind\<close> names a bucket of one of the five indexes. \<open>keys_of\<close> is the set of buckets a
  subscription belongs to, \<open>index_keys\<close> the set of buckets it stands in, and \<open>event_keys\<close> the set of
  buckets that fan-out reads for an event.
\<close>

datatype bucket =
    Channel_Kind "community_id \<times> index_key"
  | Channel_Wildcard "community_id \<times> uuid"
  | Global_P_Kind global_p_kind_index_key
  | Global_Kind "community_id \<times> u16"
  | Global_Wildcard community_id

definition channel_kind_keys :: "sub_entry \<Rightarrow> (community_id \<times> index_key) list" where
  "channel_kind_keys e =
     (case e of (fs, com, scope) \<Rightarrow>
       (case extract_kinds_from_filters fs of
          None \<Rightarrow> []
        | Some kinds \<Rightarrow>
            concat (map (\<lambda>ch. map (\<lambda>k. (com, \<lparr>ik_channel_id = ch, ik_kind = k\<rparr>)) kinds)
              (channel_ids scope))))"

definition channel_wildcard_keys :: "sub_entry \<Rightarrow> (community_id \<times> uuid) list" where
  "channel_wildcard_keys e =
     (case e of (fs, com, scope) \<Rightarrow>
       (case extract_kinds_from_filters fs of
          None \<Rightarrow> map (Pair com) (channel_ids scope)
        | Some _ \<Rightarrow> []))"

definition global_p_kind_keys :: "sub_entry \<Rightarrow> global_p_kind_index_key list" where
  "global_p_kind_keys e =
     (case e of (fs, com, scope) \<Rightarrow>
       (if is_global scope
        then (case extract_global_p_kind_index_keys com fs of None \<Rightarrow> [] | Some ks \<Rightarrow> ks) else []))"

definition global_kind_keys :: "sub_entry \<Rightarrow> (community_id \<times> u16) list" where
  "global_kind_keys e =
     (case e of (fs, com, scope) \<Rightarrow>
       (if is_global scope \<and> extract_global_p_kind_index_keys com fs = None
        then (case extract_kinds_from_filters fs of None \<Rightarrow> [] | Some ks \<Rightarrow> map (Pair com) ks)
        else []))"

definition global_wildcard_keys :: "sub_entry \<Rightarrow> community_id list" where
  "global_wildcard_keys e =
     (case e of (fs, com, scope) \<Rightarrow>
       (if is_global scope \<and> extract_global_p_kind_index_keys com fs = None
           \<and> extract_kinds_from_filters fs = None
        then [com] else []))"

lemmas entry_key_defs =
  channel_kind_keys_def channel_wildcard_keys_def global_p_kind_keys_def global_kind_keys_def
  global_wildcard_keys_def is_global_def

definition keys_of :: "sub_entry \<Rightarrow> bucket set" where
  "keys_of e =
     Channel_Kind ` set (channel_kind_keys e) \<union> Channel_Wildcard ` set (channel_wildcard_keys e)
     \<union> Global_P_Kind ` set (global_p_kind_keys e) \<union> Global_Kind ` set (global_kind_keys e)
     \<union> Global_Wildcard ` set (global_wildcard_keys e)"

fun bucket_entries :: "subscription_registry \<Rightarrow> bucket \<Rightarrow> candidate list" where
  "bucket_entries reg (Channel_Kind k) = idx_get (channel_kind_index reg) k"
| "bucket_entries reg (Channel_Wildcard k) = idx_get (channel_wildcard_index reg) k"
| "bucket_entries reg (Global_P_Kind k) = idx_get (global_p_kind_index reg) k"
| "bucket_entries reg (Global_Kind k) = idx_get (global_kind_index reg) k"
| "bucket_entries reg (Global_Wildcard k) = idx_get (global_wildcard_index reg) k"

definition indexes_wf :: "subscription_registry \<Rightarrow> bool" where
  "indexes_wf reg \<longleftrightarrow>
     idx_wf (channel_kind_index reg) \<and> idx_wf (channel_wildcard_index reg)
     \<and> idx_wf (global_p_kind_index reg) \<and> idx_wf (global_kind_index reg)
     \<and> idx_wf (global_wildcard_index reg)"

section \<open>Index maintenance as five bucket updates\<close>

lemma fold_ck_update:
  "fold (\<lambda>k. channel_kind_index_update (g k)) ks reg = channel_kind_index_update (fold g ks) reg"
  by (induction ks arbitrary: reg) (simp_all add: comp_def)

lemma fold_cw_update:
  "fold (\<lambda>k. channel_wildcard_index_update (g k)) ks reg = channel_wildcard_index_update (fold g ks) reg"
  by (induction ks arbitrary: reg) (simp_all add: comp_def)

lemma fold_gp_update:
  "fold (\<lambda>k. global_p_kind_index_update (g k)) ks reg = global_p_kind_index_update (fold g ks) reg"
  by (induction ks arbitrary: reg) (simp_all add: comp_def)

lemma fold_gk_update:
  "fold (\<lambda>k. global_kind_index_update (g k)) ks reg = global_kind_index_update (fold g ks) reg"
  by (induction ks arbitrary: reg) (simp_all add: comp_def)

lemmas fold_record_updates = fold_ck_update fold_cw_update fold_gp_update fold_gk_update

lemma fold_concat_map:
  "fold g (concat (map (\<lambda>x. map (h x) ys) xs)) = fold (\<lambda>x. fold (\<lambda>y. g (h x y)) ys) xs"
  by (induction xs) (simp_all add: fold_map comp_def)

lemma if_Nil_fold: "(if ks = [] then reg else fold f ks reg) = fold f ks reg"
  by simp

lemma add_to_index_eq:
  "add_to_index c s fs com scope reg = reg
    \<lparr>channel_kind_index :=
       fold (\<lambda>k. idx_push k (c, s)) (channel_kind_keys (fs, com, scope)) (channel_kind_index reg),
     channel_wildcard_index :=
       fold (\<lambda>k. idx_push k (c, s)) (channel_wildcard_keys (fs, com, scope)) (channel_wildcard_index reg),
     global_p_kind_index :=
       fold (\<lambda>k. idx_push k (c, s)) (global_p_kind_keys (fs, com, scope)) (global_p_kind_index reg),
     global_kind_index :=
       fold (\<lambda>k. idx_push k (c, s)) (global_kind_keys (fs, com, scope)) (global_kind_index reg),
     global_wildcard_index :=
       fold (\<lambda>k. idx_push k (c, s)) (global_wildcard_keys (fs, com, scope)) (global_wildcard_index reg)\<rparr>"
  unfolding add_to_index_def if_Nil_fold
  by (simp add: entry_key_defs fold_record_updates fold_concat_map fold_map comp_def
      split: subscription_scope.split option.split)

lemma remove_from_index_eq:
  "remove_from_index c s fs com scope reg = reg
    \<lparr>channel_kind_index :=
       fold (idx_retain (not_entry c s)) (channel_kind_keys (fs, com, scope)) (channel_kind_index reg),
     channel_wildcard_index :=
       fold (idx_retain (not_entry c s)) (channel_wildcard_keys (fs, com, scope)) (channel_wildcard_index reg),
     global_p_kind_index :=
       fold (idx_retain (not_entry c s)) (global_p_kind_keys (fs, com, scope)) (global_p_kind_index reg),
     global_kind_index :=
       fold (idx_retain (not_entry c s)) (global_kind_keys (fs, com, scope)) (global_kind_index reg),
     global_wildcard_index :=
       fold (idx_retain (not_entry c s)) (global_wildcard_keys (fs, com, scope)) (global_wildcard_index reg)\<rparr>"
  unfolding remove_from_index_def if_Nil_fold
  by (simp add: entry_key_defs fold_record_updates fold_concat_map fold_map comp_def
      split: subscription_scope.split option.split)

lemma set_bucket_add:
  "indexes_wf reg \<Longrightarrow>
   set (bucket_entries (add_to_index c s fs com scope reg) k) =
     set (bucket_entries reg k) \<union> (if k \<in> keys_of (fs, com, scope) then {(c, s)} else {})"
  by (cases k) (auto simp: add_to_index_eq indexes_wf_def ix.set_get_push_all keys_of_def)

lemma set_bucket_remove:
  "indexes_wf reg \<Longrightarrow>
   set (bucket_entries (remove_from_index c s fs com scope reg) k) =
     set (bucket_entries reg k) - (if k \<in> keys_of (fs, com, scope) then {(c, s)} else {})"
  by (cases k)
     (auto simp: remove_from_index_eq indexes_wf_def ix.set_get_retain_all keys_of_def not_entry_def)

lemma indexes_wf_add: "indexes_wf reg \<Longrightarrow> indexes_wf (add_to_index c s fs com scope reg)"
  by (simp add: add_to_index_eq indexes_wf_def ix.invar_push_all)

lemma indexes_wf_remove: "indexes_wf reg \<Longrightarrow> indexes_wf (remove_from_index c s fs com scope reg)"
  by (simp add: remove_from_index_eq indexes_wf_def ix.invar_retain_all)

lemma subs_index_ops [simp]:
  "subs (add_to_index c s fs com scope reg) = subs reg"
  "subs (remove_from_index c s fs com scope reg) = subs reg"
  "subscriptions_active (add_to_index c s fs com scope reg) = subscriptions_active reg"
  "subscriptions_active (remove_from_index c s fs com scope reg) = subscriptions_active reg"
  by (simp_all add: add_to_index_eq remove_from_index_eq)

lemma bucket_entries_fields [simp]:
  "bucket_entries (reg\<lparr>subs := x\<rparr>) k = bucket_entries reg k"
  "bucket_entries (reg\<lparr>subscriptions_active := n\<rparr>) k = bucket_entries reg k"
  by (cases k; simp)+

lemma indexes_wf_fields [simp]:
  "indexes_wf (reg\<lparr>subs := x\<rparr>) = indexes_wf reg"
  "indexes_wf (reg\<lparr>subscriptions_active := n\<rparr>) = indexes_wf reg"
  by (simp_all add: indexes_wf_def)

lemma remove_from_index_fields:
  "remove_from_index c s fs com scope (reg\<lparr>subs := x\<rparr>) =
     (remove_from_index c s fs com scope reg)\<lparr>subs := x\<rparr>"
  by (simp add: remove_from_index_eq)

section \<open>The registry invariant\<close>

definition entry_of :: "subscription_registry \<Rightarrow> candidate \<Rightarrow> sub_entry option" where
  "entry_of reg p = (case map_of (subs reg) (fst p) of None \<Rightarrow> None | Some m \<Rightarrow> map_of m (snd p))"

definition opt_keys :: "sub_entry option \<Rightarrow> bucket set" where
  "opt_keys e = (case e of None \<Rightarrow> {} | Some e \<Rightarrow> keys_of e)"

lemma opt_keys_simps [simp]: "opt_keys None = {}" "opt_keys (Some e) = keys_of e"
  by (simp_all add: opt_keys_def)

definition subs_wf :: "subscription_registry \<Rightarrow> bool" where
  "subs_wf reg \<longleftrightarrow> hm_wf (subs reg) \<and> (\<forall>c m. map_of (subs reg) c = Some m \<longrightarrow> hm_wf m)"

definition indexes_exact :: "subscription_registry \<Rightarrow> bool" where
  "indexes_exact reg \<longleftrightarrow>
     (\<forall>p k. p \<in> set (bucket_entries reg k) \<longleftrightarrow> k \<in> opt_keys (entry_of reg p))"

definition reg_inv :: "subscription_registry \<Rightarrow> bool" where
  "reg_inv reg \<longleftrightarrow> subs_wf reg \<and> indexes_wf reg \<and> indexes_exact reg
     \<and> subscriptions_active reg = int (total_subscriptions reg)"

lemma subs_wf_fields [simp]:
  "subs_wf (reg\<lparr>subscriptions_active := n\<rparr>) = subs_wf reg"
  "entry_of (reg\<lparr>subscriptions_active := n\<rparr>) = entry_of reg"
  "total_subscriptions (reg\<lparr>subscriptions_active := n\<rparr>) = total_subscriptions reg"
  by (auto simp: subs_wf_def entry_of_def total_subscriptions_def fun_eq_iff)

lemma subs_wf_inner: "subs_wf reg \<Longrightarrow> map_of (subs reg) c = Some m \<Longrightarrow> hm_wf m"
  unfolding subs_wf_def by blast

lemma subs_wf_update: "subs_wf reg \<Longrightarrow> hm_wf m \<Longrightarrow> subs_wf (reg\<lparr>subs := AList.update c m (subs reg)\<rparr>)"
  by (simp add: subs_wf_def del: map_of_eq_Some_iff)

lemma subs_wf_delete: "subs_wf reg \<Longrightarrow> subs_wf (reg\<lparr>subs := AList.delete c (subs reg)\<rparr>)"
  by (simp add: subs_wf_def del: map_of_eq_Some_iff)

lemma length_AList_update:
  "length (AList.update k v m) = (if map_of m k = None then length m + 1 else length m)"
  by (induction m) auto

lemma length_AList_delete:
  "hm_wf m \<Longrightarrow> length (AList.delete k m) = (if map_of m k = None then length m else length m - 1)"
proof (induction m)
  case (Cons a m)
  then show ?case
    by (cases m) (auto simp: map_of_eq_None_iff delete_id split: prod.splits)
qed simp

definition opt_length :: "'a list option \<Rightarrow> nat" where
  "opt_length x = (case x of None \<Rightarrow> 0 | Some xs \<Rightarrow> length xs)"

lemma total_update:
  "int (sum_list (map (\<lambda>(c, m). length m) (AList.update c m xs))) =
     int (sum_list (map (\<lambda>(c, m). length m) xs)) - int (opt_length (map_of xs c)) + int (length m)"
  by (induction xs) (auto simp: opt_length_def)

lemma total_delete:
  "hm_wf xs \<Longrightarrow> int (sum_list (map (\<lambda>(c, m). length m) (AList.delete c xs))) =
     int (sum_list (map (\<lambda>(c, m). length m) xs)) - int (opt_length (map_of xs c))"
  by (induction xs) (auto simp: opt_length_def delete_id map_of_eq_None_iff)

section \<open>Removing a subscription\<close>

text \<open>
  A change of one entry keeps the indexes exact when exactly that entry's buckets change with it.
\<close>

lemma indexes_exact_upd:
  assumes "indexes_exact reg"
    and "entry_of reg' = (entry_of reg)(q := e)"
    and "\<And>k. set (bucket_entries reg' k) - {q} = set (bucket_entries reg k) - {q}"
    and "\<And>k. q \<in> set (bucket_entries reg' k) \<longleftrightarrow> k \<in> opt_keys e"
  shows "indexes_exact reg'"
  unfolding indexes_exact_def
proof (intro allI)
  fix p k
  show "p \<in> set (bucket_entries reg' k) \<longleftrightarrow> k \<in> opt_keys (entry_of reg' p)"
  proof (cases "p = q")
    case True
    then show ?thesis using assms(2,4) by simp
  next
    case False
    then have "p \<in> set (bucket_entries reg' k) \<longleftrightarrow> p \<in> set (bucket_entries reg k)"
      using assms(3) [of k] by blast
    then show ?thesis using False assms(1,2) by (simp add: indexes_exact_def del: split_paired_All)
  qed
qed

lemma bucket_iff_keys:
  "reg_inv reg \<Longrightarrow> p \<in> set (bucket_entries reg k) \<longleftrightarrow> k \<in> opt_keys (entry_of reg p)"
  unfolding reg_inv_def indexes_exact_def by blast

lemma entry_of_subs_update:
  assumes "map_of (subs reg) c = Some m \<or> (map_of (subs reg) c = None \<and> m = [])"
  shows "entry_of (reg\<lparr>subs := AList.update c (AList.delete s m) (subs reg)\<rparr>)
           = (entry_of reg)((c, s) := None)"
    and "entry_of (reg\<lparr>subs := AList.update c (AList.update s e m) (subs reg)\<rparr>)
           = (entry_of reg)((c, s) := Some e)"
  using assms by (auto simp: entry_of_def fun_eq_iff split: option.splits)

lemma entry_of_subs_cong: "subs reg = subs reg' \<Longrightarrow> entry_of reg = entry_of reg'"
  by (simp add: entry_of_def fun_eq_iff)

lemma subs_wf_cong: "subs_wf reg \<Longrightarrow> subs reg' = subs reg \<Longrightarrow> subs_wf reg'"
  by (simp add: subs_wf_def)

lemma remove_subscription_none:
  "entry_of reg (c, s) = None \<Longrightarrow> remove_subscription c s reg = (reg, None)"
  by (auto simp: remove_subscription_def entry_of_def split: option.splits)

lemma remove_subscription_some:
  assumes "entry_of reg (c, s) = Some (fs, com, scope)"
  obtains m where "map_of (subs reg) c = Some m" and "map_of m s = Some (fs, com, scope)"
    and "remove_subscription c s reg =
      ((remove_from_index c s fs com scope reg)
         \<lparr>subs := AList.update c (AList.delete s m) (subs reg),
          subscriptions_active := subscriptions_active reg - 1\<rparr>,
       Some \<lparr>rs_community_id = com, rs_scope = scope\<rparr>)"
  using assms
  by (auto simp: remove_subscription_def entry_of_def Let_def remove_from_index_fields
      split: option.splits)

lemma entry_of_remove_subscription:
  "entry_of (fst (remove_subscription c s reg)) = (entry_of reg)((c, s) := None)"
proof (cases "entry_of reg (c, s)")
  case None
  then show ?thesis by (simp add: remove_subscription_none fun_upd_idem)
next
  case (Some e)
  obtain fs com scope where e: "e = (fs, com, scope)" by (cases e)
  from Some obtain m where m: "map_of (subs reg) c = Some m"
    and r: "remove_subscription c s reg =
      ((remove_from_index c s fs com scope reg)
         \<lparr>subs := AList.update c (AList.delete s m) (subs reg),
          subscriptions_active := subscriptions_active reg - 1\<rparr>,
       Some \<lparr>rs_community_id = com, rs_scope = scope\<rparr>)"
    unfolding e by (rule remove_subscription_some)
  have "entry_of (fst (remove_subscription c s reg))
      = entry_of (reg\<lparr>subs := AList.update c (AList.delete s m) (subs reg)\<rparr>)"
    by (rule entry_of_subs_cong) (simp add: r)
  then show ?thesis using m by (simp add: entry_of_subs_update(1))
qed

lemma remove_subscription_total:
  assumes "subs_wf reg" and "map_of (subs reg) c = Some m" and "map_of m s = Some e"
  shows "int (total_subscriptions (reg\<lparr>subs := AList.update c (AList.delete s m) (subs reg)\<rparr>))
           = int (total_subscriptions reg) - 1"
proof -
  have "hm_wf m" using assms(1,2) by (rule subs_wf_inner)
  moreover from assms(3) have "0 < length m" by (cases m) auto
  ultimately show ?thesis
    using assms by (simp add: total_subscriptions_def total_update opt_length_def length_AList_delete
        of_nat_diff Suc_leI del: length_greater_0_conv)
qed

lemma remove_subscription_inv:
  assumes "reg_inv reg"
  shows "reg_inv (fst (remove_subscription c s reg))"
proof (cases "entry_of reg (c, s)")
  case None
  then show ?thesis using assms by (simp add: remove_subscription_none)
next
  case (Some e)
  obtain fs com scope where e: "e = (fs, com, scope)" by (cases e)
  from Some obtain m where m: "map_of (subs reg) c = Some m" "map_of m s = Some (fs, com, scope)"
    and r: "remove_subscription c s reg =
      ((remove_from_index c s fs com scope reg)
         \<lparr>subs := AList.update c (AList.delete s m) (subs reg),
          subscriptions_active := subscriptions_active reg - 1\<rparr>,
       Some \<lparr>rs_community_id = com, rs_scope = scope\<rparr>)"
    unfolding e by (rule remove_subscription_some)
  let ?reg = "fst (remove_subscription c s reg)"
  have wf: "subs_wf reg" "indexes_wf reg" using assms by (simp_all add: reg_inv_def)
  have b: "set (bucket_entries ?reg k) = set (bucket_entries reg k) -
      (if k \<in> keys_of (fs, com, scope) then {(c, s)} else {})" for k
    using wf(2) by (simp add: r set_bucket_remove)
  have "indexes_exact ?reg"
  proof (rule indexes_exact_upd)
    show "indexes_exact reg" using assms by (simp add: reg_inv_def)
    show "entry_of ?reg = (entry_of reg)((c, s) := None)" by (rule entry_of_remove_subscription)
    show "set (bucket_entries ?reg k) - {(c, s)} = set (bucket_entries reg k) - {(c, s)}" for k
      unfolding b by auto
    show "(c, s) \<in> set (bucket_entries ?reg k) \<longleftrightarrow> k \<in> opt_keys None" for k
      unfolding b using bucket_iff_keys [OF assms, of "(c, s)" k] Some e by auto
  qed
  moreover have "subs_wf ?reg"
    using subs_wf_update [OF wf(1), of "AList.delete s m" c] subs_wf_inner [OF wf(1) m(1)]
    by (simp add: r subs_wf_def)
  moreover have "indexes_wf ?reg" using wf(2) by (simp add: r indexes_wf_remove)
  moreover have "subscriptions_active ?reg = int (total_subscriptions ?reg)"
    using remove_subscription_total [OF wf(1) m] assms
    by (simp add: r reg_inv_def total_subscriptions_def)
  ultimately show ?thesis by (simp add: reg_inv_def)
qed

section \<open>Registering a subscription\<close>

definition insert_entry ::
    "conn_id \<Rightarrow> sub_id \<Rightarrow> sub_entry \<Rightarrow> subscription_registry \<Rightarrow> subscription_registry" where
  "insert_entry c s e reg =
     (case e of (fs, com, scope) \<Rightarrow>
       add_to_index c s fs com scope
         (reg\<lparr>subs := AList.update c (AList.update s e
                (case map_of (subs reg) c of None \<Rightarrow> [] | Some m \<Rightarrow> m)) (subs reg),
              subscriptions_active := subscriptions_active reg + 1\<rparr>))"

lemma register_with_scope_eq:
  "register_with_scope com c s fs scope reg =
     (insert_entry c s (fs, com, scope) (fst (remove_subscription c s reg)),
      snd (remove_subscription c s reg))"
  by (simp add: register_with_scope_def insert_entry_def Let_def split: prod.splits)

lemma entry_of_insert: "entry_of (insert_entry c s e reg) = (entry_of reg)((c, s) := Some e)"
proof -
  let ?m = "case map_of (subs reg) c of None \<Rightarrow> [] | Some m \<Rightarrow> m"
  have "entry_of (insert_entry c s e reg)
      = entry_of (reg\<lparr>subs := AList.update c (AList.update s e ?m) (subs reg)\<rparr>)"
    by (rule entry_of_subs_cong) (simp add: insert_entry_def split: prod.splits)
  also have "\<dots> = (entry_of reg)((c, s) := Some e)"
    by (rule entry_of_subs_update(2)) (simp split: option.splits)
  finally show ?thesis .
qed

lemma insert_entry_inv:
  assumes inv: "reg_inv reg" and fresh: "entry_of reg (c, s) = None"
  shows "reg_inv (insert_entry c s e reg)"
proof -
  obtain fs com scope where e: "e = (fs, com, scope)" by (cases e)
  let ?m = "case map_of (subs reg) c of None \<Rightarrow> [] | Some m \<Rightarrow> m"
  let ?reg = "insert_entry c s e reg"
  have wf: "subs_wf reg" "indexes_wf reg" using inv by (simp_all add: reg_inv_def)
  have b: "set (bucket_entries ?reg k) =
      set (bucket_entries reg k) \<union> (if k \<in> keys_of e then {(c, s)} else {})" for k
    using wf(2) by (simp add: insert_entry_def e set_bucket_add)
  have m: "hm_wf ?m" "map_of ?m s = None" "opt_length (map_of (subs reg) c) = length ?m"
    using subs_wf_inner [OF wf(1)] fresh
    by (auto simp: entry_of_def opt_length_def split: option.splits)
  have "indexes_exact ?reg"
  proof (rule indexes_exact_upd)
    show "indexes_exact reg" using inv by (simp add: reg_inv_def)
    show "entry_of ?reg = (entry_of reg)((c, s) := Some e)" by (rule entry_of_insert)
    show "set (bucket_entries ?reg k) - {(c, s)} = set (bucket_entries reg k) - {(c, s)}" for k
      unfolding b by auto
    show "(c, s) \<in> set (bucket_entries ?reg k) \<longleftrightarrow> k \<in> opt_keys (Some e)" for k
      unfolding b using bucket_iff_keys [OF inv, of "(c, s)" k] fresh by auto
  qed
  moreover have "subs_wf ?reg"
    using subs_wf_update [OF wf(1), of "AList.update s e ?m" c] m(1)
    by (simp add: insert_entry_def e subs_wf_def)
  moreover have "indexes_wf ?reg" using wf(2) by (simp add: insert_entry_def e indexes_wf_add)
  moreover have "subscriptions_active ?reg = int (total_subscriptions ?reg)"
    using inv m(2,3)
    by (simp add: insert_entry_def e reg_inv_def total_subscriptions_def total_update
        length_AList_update)
  ultimately show ?thesis by (simp add: reg_inv_def)
qed

lemma register_inv:
  "reg_inv reg \<Longrightarrow> reg_inv (fst (register_with_scope com c s fs scope reg))"
  by (simp add: register_with_scope_eq insert_entry_inv remove_subscription_inv
      entry_of_remove_subscription)

lemma entry_of_register:
  "entry_of (fst (register_with_scope com c s fs scope reg)) =
     (entry_of reg)((c, s) \<mapsto> (fs, com, scope))"
  by (simp add: register_with_scope_eq entry_of_insert entry_of_remove_subscription)

section \<open>Removing a connection\<close>

abbreviation remove_all_from_index ::
    "conn_id \<Rightarrow> (sub_id, sub_entry) hmap \<Rightarrow> subscription_registry \<Rightarrow> subscription_registry" where
  "remove_all_from_index c m \<equiv>
     fold (\<lambda>(s, (fs, com, scope)). remove_from_index c s fs com scope) m"

lemma remove_all_from_index_facts:
  assumes "indexes_wf reg"
  shows "indexes_wf (remove_all_from_index c m reg)
    \<and> subs (remove_all_from_index c m reg) = subs reg
    \<and> subscriptions_active (remove_all_from_index c m reg) = subscriptions_active reg
    \<and> set (bucket_entries (remove_all_from_index c m reg) k) =
        set (bucket_entries reg k) - {(c, s) | s e. (s, e) \<in> set m \<and> k \<in> keys_of e}"
  using assms
proof (induction m arbitrary: reg)
  case (Cons se m)
  obtain s fs com scope where se: "se = (s, (fs, com, scope))" by (cases se) auto
  show ?case
    using Cons.IH [OF indexes_wf_remove [OF Cons.prems]] Cons.prems
    by (auto simp: se set_bucket_remove simp del: split_paired_Ex split_paired_All)
qed simp

lemma entry_of_remove_connection:
  assumes "indexes_wf reg"
  shows "entry_of (fst (remove_connection c reg)) = (\<lambda>p. if fst p = c then None else entry_of reg p)"
  using remove_all_from_index_facts [of "reg\<lparr>subs := AList.delete c (subs reg)\<rparr>" c] assms
  by (auto simp: remove_connection_def Let_def entry_of_def fun_eq_iff split: option.splits)

lemma remove_connection_inv:
  assumes inv: "reg_inv reg"
  shows "reg_inv (fst (remove_connection c reg))"
proof (cases "map_of (subs reg) c")
  case None
  then show ?thesis using inv by (simp add: remove_connection_def)
next
  case (Some m)
  let ?reg = "fst (remove_connection c reg)"
  let ?reg1 = "reg\<lparr>subs := AList.delete c (subs reg)\<rparr>"
  have wf: "subs_wf reg" "indexes_wf reg" using inv by (simp_all add: reg_inv_def)
  have r: "?reg = (remove_all_from_index c m ?reg1)
      \<lparr>subscriptions_active := subscriptions_active reg - int (length m)\<rparr>"
    using remove_all_from_index_facts [of ?reg1 c m] wf(2) Some
    by (simp add: remove_connection_def Let_def)
  have f: "indexes_wf ?reg" "subs ?reg = AList.delete c (subs reg)"
    "set (bucket_entries ?reg k) =
        set (bucket_entries reg k) - {(c, s) | s e. (s, e) \<in> set m \<and> k \<in> keys_of e}" for k
    using remove_all_from_index_facts [of ?reg1 c m] wf(2) by (simp_all add: r)
  have "p \<in> set (bucket_entries ?reg k) \<longleftrightarrow> k \<in> opt_keys (entry_of ?reg p)" for p k
  proof -
    obtain c' s where p: "p = (c', s)" by (cases p)
    have m: "map_of m s = Some e \<longleftrightarrow> (s, e) \<in> set m" for e
      using subs_wf_inner [OF wf(1) Some] by simp
    show ?thesis
      using bucket_iff_keys [OF inv, of p k] Some m
      unfolding f(3) entry_of_remove_connection [OF wf(2)] p
      by (cases "map_of m s") (auto simp: entry_of_def simp del: split_paired_Ex split_paired_All)
  qed
  then have "indexes_exact ?reg" unfolding indexes_exact_def by blast
  moreover have "subs_wf ?reg" using subs_wf_delete [OF wf(1), of c] by (simp add: f(2) subs_wf_def)
  moreover have "subscriptions_active ?reg = int (total_subscriptions ?reg)"
    using inv Some wf(1) f(2)
    by (simp add: reg_inv_def total_subscriptions_def subs_wf_def total_delete opt_length_def)
       (simp add: r)
  ultimately show ?thesis using f(1) by (simp add: reg_inv_def)
qed

section \<open>Revoking a channel\<close>

definition drop_channel :: "uuid \<Rightarrow> sub_entry \<Rightarrow> sub_entry option" where
  "drop_channel ch e =
     (case e of (fs, com, scope) \<Rightarrow>
       (case scope of
          Global \<Rightarrow> Some e
        | Channels chs \<Rightarrow>
            (let chs' = filter (\<lambda>x. x \<noteq> ch) chs in
             if chs' = [] then None else Some (fs, com, Channels chs'))))"

definition in_channel :: "community_id \<Rightarrow> uuid \<Rightarrow> sub_entry option \<Rightarrow> bool" where
  "in_channel com ch x =
     (case x of None \<Rightarrow> False | Some (fs, com', scope) \<Rightarrow> com' = com \<and> ch \<in> set (channel_ids scope))"

lemma keys_of_channels:
  "keys_of (fs, com, Channels chs) =
     (case extract_kinds_from_filters fs of
        None \<Rightarrow> {Channel_Wildcard (com, ch) | ch. ch \<in> set chs}
      | Some ks \<Rightarrow> {Channel_Kind (com, \<lparr>ik_channel_id = ch, ik_kind = k\<rparr>) | ch k. ch \<in> set chs \<and> k \<in> set ks})"
  by (auto simp: keys_of_def entry_key_defs image_iff split: option.splits)

lemma keys_of_drop_channel:
  "opt_keys (drop_channel ch (fs, com, Channels chs)) =
     keys_of (fs, com, Channels chs) - keys_of (fs, com, Channels [ch])"
  unfolding drop_channel_def Let_def keys_of_channels
  by (auto simp: keys_of_channels filter_empty_conv split: option.splits if_splits)

lemma remove_channel_step_some:
  assumes "entry_of reg (c, s) = Some (fs, com, Channels chs)"
  obtains m where "map_of (subs reg) c = Some m" and "map_of m s = Some (fs, com, Channels chs)"
    and "remove_channel_step com c ch s (reg, ups) =
      ((remove_from_index c s fs com (Channels [ch]) reg)
         \<lparr>subs := AList.update c
            (case drop_channel ch (fs, com, Channels chs) of
               None \<Rightarrow> AList.delete s (AList.update s (fs, com, Channels []) m)
             | Some e \<Rightarrow> AList.update s e m) (subs reg),
          subscriptions_active := subscriptions_active reg -
            (if drop_channel ch (fs, com, Channels chs) = None then 1 else 0)\<rparr>,
       ups @ [\<lparr>cu_sub_id = s, cu_removed = (drop_channel ch (fs, com, Channels chs) = None)\<rparr>])"
  using assms
  by (auto simp: remove_channel_step_def entry_of_def drop_channel_def Let_def
      split: option.splits if_splits)

lemma remove_channel_step_inv:
  fixes ch :: uuid and ups :: "channel_subscription_update list"
  assumes inv: "reg_inv reg" and e: "entry_of reg (c, s) = Some (fs, com, Channels chs)"
  defines "st \<equiv> remove_channel_step com c ch s (reg, ups)"
  shows "reg_inv (fst st)"
    and "entry_of (fst st) = (entry_of reg)((c, s) := drop_channel ch (fs, com, Channels chs))"
    and "snd st = ups @
      [\<lparr>cu_sub_id = s, cu_removed = (drop_channel ch (fs, com, Channels chs) = None)\<rparr>]"
proof -
  let ?d = "drop_channel ch (fs, com, Channels chs)"
  from e obtain m where m: "map_of (subs reg) c = Some m" "map_of m s = Some (fs, com, Channels chs)"
    and r: "st = ((remove_from_index c s fs com (Channels [ch]) reg)
         \<lparr>subs := AList.update c
            (case ?d of None \<Rightarrow> AList.delete s (AList.update s (fs, com, Channels []) m)
             | Some e \<Rightarrow> AList.update s e m) (subs reg),
          subscriptions_active := subscriptions_active reg - (if ?d = None then 1 else 0)\<rparr>,
       ups @ [\<lparr>cu_sub_id = s, cu_removed = (?d = None)\<rparr>])"
    unfolding st_def by (rule remove_channel_step_some)
  let ?m = "case ?d of None \<Rightarrow> AList.delete s (AList.update s (fs, com, Channels []) m)
             | Some e \<Rightarrow> AList.update s e m"
  have wf: "subs_wf reg" "indexes_wf reg" using inv by (simp_all add: reg_inv_def)
  have hm: "hm_wf m" using wf(1) m(1) by (rule subs_wf_inner)
  have len: "int (length ?m) = int (length m) - (if ?d = None then 1 else 0)"
  proof -
    have "0 < length m" using m(2) by (cases m) auto
    then show ?thesis using m(2) hm
      by (cases ?d)
         (simp_all add: length_AList_delete length_AList_update of_nat_diff Suc_leI
          del: length_greater_0_conv map_of_eq_Some_iff)
  qed
  show snd: "snd st = ups @ [\<lparr>cu_sub_id = s, cu_removed = (?d = None)\<rparr>]" by (simp add: r)
  show eo: "entry_of (fst st) = (entry_of reg)((c, s) := ?d)"
  proof (rule ext)
    fix p
    show "entry_of (fst st) p = ((entry_of reg)((c, s) := ?d)) p"
      using m by (cases p; cases ?d) (simp_all add: r entry_of_def)
  qed
  have b: "set (bucket_entries (fst st) k) = set (bucket_entries reg k) -
      (if k \<in> keys_of (fs, com, Channels [ch]) then {(c, s)} else {})" for k
    using wf(2) by (simp add: r set_bucket_remove)
  have "indexes_exact (fst st)"
  proof (rule indexes_exact_upd [OF _ eo])
    show "indexes_exact reg" using inv by (simp add: reg_inv_def)
    show "set (bucket_entries (fst st) k) - {(c, s)} = set (bucket_entries reg k) - {(c, s)}" for k
      unfolding b by auto
    show "(c, s) \<in> set (bucket_entries (fst st) k) \<longleftrightarrow> k \<in> opt_keys ?d" for k
      unfolding b keys_of_drop_channel using bucket_iff_keys [OF inv, of "(c, s)" k] e by auto
  qed
  moreover have "subs_wf (fst st)"
  proof -
    have "hm_wf ?m" using hm by (cases ?d) simp_all
    from subs_wf_update [OF wf(1) this, of c] show ?thesis by (rule subs_wf_cong) (simp add: r)
  qed
  moreover have "indexes_wf (fst st)" using wf(2) by (simp add: r indexes_wf_remove)
  moreover have "subscriptions_active (fst st) = int (total_subscriptions (fst st))"
    using inv m(1) len
    by (simp add: r reg_inv_def total_subscriptions_def total_update opt_length_def)
  ultimately show "reg_inv (fst st)" by (simp add: reg_inv_def)
qed

lemma in_channel_cases:
  assumes "in_channel com ch (entry_of reg p)"
  obtains fs chs where "entry_of reg p = Some (fs, com, Channels chs)" and "ch \<in> set chs"
proof -
  from assms obtain fs scope where e: "entry_of reg p = Some (fs, com, scope)"
    and "ch \<in> set (channel_ids scope)"
    by (auto simp: in_channel_def split: option.splits)
  then show thesis using that by (cases scope) auto
qed

lemma remove_channel_fold:
  assumes "reg_inv reg" and "distinct ids"
    and "\<forall>s \<in> set ids. in_channel com ch (entry_of reg (c, s))"
  shows "reg_inv (fst (fold (remove_channel_step com c ch) ids (reg, ups)))
    \<and> entry_of (fst (fold (remove_channel_step com c ch) ids (reg, ups))) =
      (\<lambda>p. if fst p = c \<and> snd p \<in> set ids then Option.bind (entry_of reg p) (drop_channel ch)
           else entry_of reg p)"
  using assms
proof (induction ids arbitrary: reg ups)
  case (Cons s ids)
  from Cons.prems(3) have "in_channel com ch (entry_of reg (c, s))" by simp
  then obtain fs chs where e: "entry_of reg (c, s) = Some (fs, com, Channels chs)"
    by (rule in_channel_cases)
  obtain reg' ups' where st: "remove_channel_step com c ch s (reg, ups) = (reg', ups')"
    by (cases "remove_channel_step com c ch s (reg, ups)")
  have inv: "reg_inv reg'"
    and eo: "entry_of reg' = (entry_of reg)((c, s) := drop_channel ch (fs, com, Channels chs))"
    using remove_channel_step_inv(1,2) [OF Cons.prems(1) e, of ch ups] by (simp_all add: st)
  have "\<forall>t \<in> set ids. in_channel com ch (entry_of reg' (c, t))"
    using Cons.prems(2,3) by (auto simp: eo)
  with Cons.IH [OF inv, of ups'] Cons.prems(2) show ?case
    using e by (auto simp: st eo fun_eq_iff)
qed simp

lemma map_filter_keys:
  "List.map_filter (\<lambda>(k, v). if P v then Some k else None) m = map fst (filter (\<lambda>(k, v). P v) m)"
  by (induction m) (auto simp: List.map_filter_def split: if_splits)

lemma channel_sub_ids_facts:
  assumes "subs_wf reg"
  shows "distinct (channel_sub_ids com c ch reg)"
    and "set (channel_sub_ids com c ch reg) = {s. in_channel com ch (entry_of reg (c, s))}"
proof -
  let ?P = "\<lambda>e. in_channel com ch (Some e)"
  have eq: "channel_sub_ids com c ch reg =
      (case map_of (subs reg) c of None \<Rightarrow> []
       | Some m \<Rightarrow> map fst (filter (\<lambda>(s, e). ?P e) m))"
    unfolding channel_sub_ids_def map_filter_keys [symmetric]
    by (auto simp: in_channel_def split: option.splits intro!: arg_cong [of _ _ "\<lambda>f. List.map_filter f _"])
  have hm: "map_of (subs reg) c = Some m \<Longrightarrow> hm_wf m" for m using assms by (rule subs_wf_inner)
  show "distinct (channel_sub_ids com c ch reg)"
    using hm by (auto simp: eq distinct_map_filter split: option.splits)
  show "set (channel_sub_ids com c ch reg) = {s. in_channel com ch (entry_of reg (c, s))}"
  proof (cases "map_of (subs reg) c")
    case None
    then show ?thesis by (simp add: eq entry_of_def in_channel_def)
  next
    case (Some m)
    have "s \<in> set (channel_sub_ids com c ch reg) \<longleftrightarrow> (\<exists>e. map_of m s = Some e \<and> ?P e)" for s
      using hm [OF Some] by (auto simp: eq Some image_iff simp del: split_paired_Ex)
    then show ?thesis using Some
      by (auto simp: entry_of_def in_channel_def split: option.splits)
  qed
qed

lemma remove_channel_inv:
  "reg_inv reg \<Longrightarrow> reg_inv (fst (remove_channel_subscriptions_scoped com c ch reg))"
  using remove_channel_fold [of reg "channel_sub_ids com c ch reg" com ch c "[]"]
    channel_sub_ids_facts [of reg com c ch]
  by (simp add: remove_channel_subscriptions_scoped_def reg_inv_def)

lemma entry_of_remove_channel:
  "reg_inv reg \<Longrightarrow>
   entry_of (fst (remove_channel_subscriptions_scoped com c ch reg)) =
     (\<lambda>p. if fst p = c \<and> in_channel com ch (entry_of reg p)
          then Option.bind (entry_of reg p) (drop_channel ch) else entry_of reg p)"
  using remove_channel_fold [of reg "channel_sub_ids com c ch reg" com ch c "[]"]
    channel_sub_ids_facts [of reg com c ch]
  by (auto simp: remove_channel_subscriptions_scoped_def reg_inv_def fun_eq_iff)

section \<open>Fan-out\<close>

definition sub_matches ::
    "nostr_api \<Rightarrow> community_id \<Rightarrow> stored_event \<Rightarrow> sub_entry option \<Rightarrow> bool" where
  "sub_matches api com ev x =
     (case x of None \<Rightarrow> False
      | Some (fs, com', scope) \<Rightarrow>
          com' = com \<and> matches_channel scope (se_channel_id ev) \<and> filters_match api fs ev)"

definition event_keys :: "nostr_api \<Rightarrow> community_id \<Rightarrow> stored_event \<Rightarrow> bucket set" where
  "event_keys api com ev =
     (let kind = ev_kind (se_event ev) in
      case se_channel_id ev of
        Some ch \<Rightarrow> {Channel_Kind (com, \<lparr>ik_channel_id = ch, ik_kind = kind\<rparr>), Channel_Wildcard (com, ch)}
      | None \<Rightarrow> (\<lambda>p. Global_P_Kind (gp_key com kind p)) ` set (event_p_tag_values api ev)
                \<union> {Global_Kind (com, kind), Global_Wildcard com})"

lemma set_push_new [simp]: "set (push_new x xs) = insert x (set xs)"
  by (auto simp: push_new_def)

lemma distinct_push_new [simp]: "distinct (push_new x xs) = distinct xs"
  by (simp add: push_new_def)

lemma set_fold_push_new: "set (fold push_new xs ys) = set xs \<union> set ys"
  by (induction xs arbitrary: ys) auto

lemma push_match_eq:
  "push_match api reg com ev p results =
     (if sub_matches api com ev (entry_of reg p) then push_new p results else results)"
  by (auto simp: push_match_def sub_matches_def entry_of_def split: option.splits)

lemma set_fold_push_match:
  "set (fold (push_match api reg com ev) ps rs) =
     set rs \<union> {p \<in> set ps. sub_matches api com ev (entry_of reg p)}"
  by (induction ps arbitrary: rs) (auto simp: push_match_eq)

lemma distinct_fold_push_match:
  "distinct rs \<Longrightarrow> distinct (fold (push_match api reg com ev) ps rs)"
  by (induction ps arbitrary: rs) (auto simp: push_match_eq)

lemma set_fold_fold_push_match:
  "set (fold (\<lambda>x. fold (push_match api reg com ev) (g x)) xs rs) =
     set rs \<union> {p \<in> (\<Union>x \<in> set xs. set (g x)). sub_matches api com ev (entry_of reg p)}"
  by (induction xs arbitrary: rs) (auto simp: set_fold_push_match)

lemma distinct_fold_fold_push_match:
  "distinct rs \<Longrightarrow> distinct (fold (\<lambda>x. fold (push_match api reg com ev) (g x)) xs rs)"
  by (induction xs arbitrary: rs) (auto simp: distinct_fold_push_match)

lemma set_fan_out:
  "set (fan_out_scoped api com ev reg) =
     {p. (\<exists>k \<in> event_keys api com ev. p \<in> set (bucket_entries reg k))
         \<and> sub_matches api com ev (entry_of reg p)}"
  by (auto simp: fan_out_scoped_def event_keys_def Let_def set_fold_push_match
      set_fold_fold_push_match split: option.splits)

lemma distinct_fan_out: "distinct (fan_out_scoped api com ev reg)"
  by (simp add: fan_out_scoped_def Let_def distinct_fold_push_match distinct_fold_fold_push_match
      split: option.splits)

text \<open>A matching subscription stands in a bucket that fan-out reads.\<close>

lemma extract_kinds_loop_set:
  "extract_kinds_loop fs acc = Some ks \<Longrightarrow>
   set acc \<subseteq> set ks \<and> (\<forall>f \<in> set fs. \<exists>fk. f_kinds f = Some fk \<and> set fk \<subseteq> set ks)"
proof (induction fs acc rule: extract_kinds_loop.induct)
  case (2 f fs acc)
  then show ?case by (auto simp: set_fold_push_new split: option.splits)
qed simp

lemma extract_kinds_match:
  assumes "extract_kinds_from_filters fs = Some ks" and "filters_match api fs ev"
  shows "ev_kind (se_event ev) \<in> set ks"
  using assms extract_kinds_loop_set [of fs "[]" ks] filter_match_oneD(1)
  by (fastforce simp: filters_match_iff extract_kinds_from_filters_def)

lemma set_fold_gp:
  "set (fold (\<lambda>k. fold (\<lambda>p. push_new (gp_key com k p)) ps) ks acc) =
     set acc \<union> {gp_key com k p | k p. k \<in> set ks \<and> p \<in> set ps}"
proof (induction ks arbitrary: acc)
  case (Cons k ks)
  have "set (fold (\<lambda>p. push_new (gp_key com k p)) ps acc) = set acc \<union> gp_key com k ` set ps"
    by (induction ps arbitrary: acc) auto
  with Cons show ?case by auto
qed simp

lemma extract_gp_loop_set:
  "extract_global_p_kind_loop com fs acc = Some keys \<Longrightarrow>
   set acc \<subseteq> set keys \<and>
   (\<forall>f \<in> set fs. f_kinds f = Some [] \<or>
      (\<exists>ks ps. f_kinds f = Some ks \<and> (p_letter, ps) \<in> set (f_generic_tags f)
        \<and> (\<forall>k \<in> set ks. \<forall>p \<in> set ps. gp_key com k p \<in> set keys)))"
proof (induction com fs acc rule: extract_global_p_kind_loop.induct)
  case (2 com f fs acc)
  then show ?case
    by (force simp: set_fold_gp dest: map_of_SomeD split: option.splits if_splits)
qed simp

lemma event_p_tag_values_set:
  "set (event_p_tag_values api ev) =
     {v. \<exists>t \<in> set (ev_tags (se_event ev)). api_tag_kind api t = ''p'' \<and> api_tag_content api t = Some v}"
proof -
  have "set (fold (\<lambda>t values. if api_tag_kind api t \<noteq> ''p'' then values
          else (case api_tag_content api t of Some value \<Rightarrow> push_new value values | None \<Rightarrow> values)) ts acc)
     = set acc \<union> {v. \<exists>t \<in> set ts. api_tag_kind api t = ''p'' \<and> api_tag_content api t = Some v}" for ts acc
    by (induction ts arbitrary: acc) (auto split: option.splits)
  then show ?thesis by (simp add: event_p_tag_values_def)
qed

lemma extract_gp_match:
  assumes "nostr_api_ok api" and "extract_global_p_kind_index_keys com fs = Some keys"
    and "filters_match api fs ev"
  shows "\<exists>p \<in> set (event_p_tag_values api ev). gp_key com (ev_kind (se_event ev)) p \<in> set keys"
proof -
  from assms(3) obtain f where f: "f \<in> set fs" "filter_match_one api f ev"
    by (auto simp: filters_match_iff)
  from f(2) have "f_kinds f \<noteq> Some []" using filter_match_oneD(1) [of api f ev "[]"] by auto
  with f(1) assms(2) obtain ks ps where ks: "f_kinds f = Some ks"
    and ps: "(p_letter, ps) \<in> set (f_generic_tags f)"
    and in_keys: "\<And>k p. k \<in> set ks \<Longrightarrow> p \<in> set ps \<Longrightarrow> gp_key com k p \<in> set keys"
    using extract_gp_loop_set [of com fs "[]" keys]
    unfolding extract_global_p_kind_index_keys_def by blast
  have p: "api_slt_string api p_letter = ''p''"
    using assms(1) by (simp add: nostr_api_ok_def p_letter_def)
  from filter_match_oneD(2) [OF f(2) ps] obtain t where "t \<in> set (ev_tags (se_event ev))"
    "api_tag_kind api t = ''p''" "api_tag_content api t \<in> Some ` set ps"
    by (auto simp: tag_constraint_ok_iff p)
  then show ?thesis
    using in_keys filter_match_oneD(1) [OF f(2) ks] by (auto simp: event_p_tag_values_set)
qed

lemma match_meets_event_keys:
  assumes "nostr_api_ok api" and "sub_matches api com ev (Some e)"
  shows "\<exists>k \<in> event_keys api com ev. k \<in> keys_of e"
proof -
  obtain fs scope where e: "e = (fs, com, scope)"
    and ch: "matches_channel scope (se_channel_id ev)" and fm: "filters_match api fs ev"
    using assms(2) by (cases e) (auto simp: sub_matches_def)
  have kinds: "\<And>ks. extract_kinds_from_filters fs = Some ks \<Longrightarrow> ev_kind (se_event ev) \<in> set ks"
    by (rule extract_kinds_match [OF _ fm])
  show ?thesis
  proof (cases scope)
    case Global
    with ch have none: "se_channel_id ev = None" by (cases "se_channel_id ev") auto
    show ?thesis
    proof (cases "extract_global_p_kind_index_keys com fs")
      case None
      then show ?thesis using kinds Global none
        by (cases "extract_kinds_from_filters fs")
           (auto simp: e keys_of_def entry_key_defs event_keys_def Let_def)
    next
      case (Some keys)
      from extract_gp_match [OF assms(1) Some fm]
      show ?thesis using Some Global none
        by (auto simp: e keys_of_def entry_key_defs event_keys_def Let_def)
    qed
  next
    case (Channels chs)
    with ch obtain c where c: "se_channel_id ev = Some c" "c \<in> set chs"
      by (cases "se_channel_id ev") auto
    show ?thesis using kinds
      by (cases "extract_kinds_from_filters fs")
         (auto simp: e Channels c keys_of_channels event_keys_def Let_def)
  qed
qed

lemma fan_out_exact:
  assumes "nostr_api_ok api" and "reg_inv reg"
  shows "set (fan_out_scoped api com ev reg) = {p. sub_matches api com ev (entry_of reg p)}"
proof -
  have "\<exists>k \<in> event_keys api com ev. p \<in> set (bucket_entries reg k)"
    if "sub_matches api com ev (entry_of reg p)" for p
  proof (cases "entry_of reg p")
    case None
    then show ?thesis using that by (simp add: sub_matches_def)
  next
    case (Some e)
    then show ?thesis
      using match_meets_event_keys [OF assms(1), of com ev e] that bucket_iff_keys [OF assms(2)]
      by auto
  qed
  then show ?thesis by (auto simp: set_fan_out)
qed

section \<open>Reachable registries\<close>

text \<open>The registries that sequences of public operations produce, from an empty one.\<close>

inductive reg_reachable :: "subscription_registry \<Rightarrow> bool" where
  reach_new: "reg_reachable registry_new"
| reach_register: "reg_reachable reg \<Longrightarrow>
    reg_reachable (fst (register_with_scope com c s fs scope reg))"
| reach_remove_subscription: "reg_reachable reg \<Longrightarrow> reg_reachable (fst (remove_subscription c s reg))"
| reach_remove_connection: "reg_reachable reg \<Longrightarrow> reg_reachable (fst (remove_connection c reg))"
| reach_remove_channel: "reg_reachable reg \<Longrightarrow>
    reg_reachable (fst (remove_channel_subscriptions_scoped com c ch reg))"

lemma reg_inv_new: "reg_inv registry_new"
proof -
  have "bucket_entries registry_new k = []" for k
    by (cases k) (simp_all add: registry_new_def)
  then show ?thesis
    by (simp add: reg_inv_def subs_wf_def indexes_wf_def indexes_exact_def entry_of_def
        total_subscriptions_def) (simp add: registry_new_def)
qed

lemma reachable_inv: "reg_reachable reg \<Longrightarrow> reg_inv reg"
  by (induction rule: reg_reachable.induct)
     (simp_all add: reg_inv_new register_inv remove_subscription_inv remove_connection_inv
       remove_channel_inv)

text \<open>Two registrations and the revocation of one of their channels, used by the witnesses.\<close>

definition sample_filter :: nostr_filter where
  "sample_filter = \<lparr>f_ids = None, f_authors = None, f_kinds = Some [9], f_since = None,
     f_until = None, f_generic_tags = []\<rparr>"

definition sample_registry :: subscription_registry where
  "sample_registry =
     fst (remove_channel_subscriptions_scoped 1 7 100
       (fst (register_with_scope 1 8 ''b'' [sample_filter] Global
         (fst (register_with_scope 1 7 ''a'' [sample_filter] (Channels [100, 101]) registry_new)))))"

definition sample_event :: stored_event where
  "sample_event = \<lparr>se_event = \<lparr>ev_id = [], ev_pubkey = [], ev_created_at = 0, ev_kind = 9,
     ev_tags = [], ev_content = ''''\<rparr>, se_received_at = 0, se_channel_id = Some 101,
     se_verified = True\<rparr>"

lemma sample_reachable: "reg_reachable sample_registry"
  unfolding sample_registry_def
  by (rule reach_remove_channel reach_register reach_new)+

section \<open>Properties\<close>

text \<open>C1. In every reachable registry, fan-out through the five indexes delivers an event to exactly
  the subscriptions that a scan over all of them would select: those of the event's community whose
  scope covers the event's channel (or, for a global event, that are global) and whose filters match.
  No subscription is returned twice. The index never loses a recipient, whatever registrations,
  replacements, disconnections and channel revocations came before.\<close>

theorem fan_out_equals_scan:
  assumes "nostr_api_ok api" and "reg_reachable reg"
  shows "set (fan_out_scoped api com ev reg) =
           {p. \<exists>fs scope. entry_of reg p = Some (fs, com, scope)
               \<and> matches_channel scope (se_channel_id ev) \<and> filters_match api fs ev}
         \<and> distinct (fan_out_scoped api com ev reg)"
  using fan_out_exact [OF assms(1) reachable_inv [OF assms(2)]] distinct_fan_out
  by (auto simp: sub_matches_def split: option.splits)

theorem fan_out_equals_scan_witness:
  "(7, ''a'') \<in> set (fan_out_scoped std_nostr_api 1 sample_event sample_registry)
   \<and> distinct (fan_out_scoped std_nostr_api 1 sample_event sample_registry)"
proof -
  have "entry_of sample_registry (7, ''a'') = Some ([sample_filter], 1, Channels [101])"
    unfolding sample_registry_def by code_simp
  moreover have "filters_match std_nostr_api [sample_filter] sample_event"
    by (simp add: filters_match_def filter_match_one_def sample_filter_def sample_event_def)
  moreover have "se_channel_id sample_event = Some 101" by (simp add: sample_event_def)
  ultimately show ?thesis
    using fan_out_equals_scan [OF std_nostr_api_ok sample_reachable, of 1 sample_event] by auto
qed

text \<open>Tenant and scope isolation of fan-out, for any registry at all: a connection that receives
  an event holds a subscription of the event's own community, and a channel event reaches only
  subscriptions scoped to that channel while a global event reaches only global ones.\<close>

theorem fan_out_isolated:
  "set (fan_out_scoped api com ev reg) \<subseteq>
     {p. \<exists>fs scope. entry_of reg p = Some (fs, com, scope) \<and>
         (case se_channel_id ev of
            None \<Rightarrow> is_global scope
          | Some ch \<Rightarrow> ch \<in> set (channel_ids scope))}"
  by (auto simp: set_fan_out sub_matches_def is_global_def split: option.splits
      elim!: matches_channel.elims)

text \<open>C2. The registry operations refine updates of the abstract map from (connection, subscription)
  to entries: registration overwrites one entry, a removal clears one, a disconnect clears the
  connection, and a channel revocation takes the channel out of the scopes of that connection's
  subscriptions in that community, dropping a subscription whose scope becomes empty.\<close>

theorem registry_refines_map:
  assumes "reg_reachable reg"
  shows "entry_of (fst (register_with_scope com c s fs scope reg)) =
           (entry_of reg)((c, s) \<mapsto> (fs, com, scope))
    \<and> entry_of (fst (remove_subscription c s reg)) = (entry_of reg)((c, s) := None)
    \<and> entry_of (fst (remove_connection c reg)) = (\<lambda>p. if fst p = c then None else entry_of reg p)
    \<and> entry_of (fst (remove_channel_subscriptions_scoped com c ch reg)) =
        (\<lambda>p. if fst p = c \<and> in_channel com ch (entry_of reg p)
             then Option.bind (entry_of reg p) (drop_channel ch) else entry_of reg p)"
  using reachable_inv [OF assms]
  by (auto simp: entry_of_register entry_of_remove_subscription entry_of_remove_channel
      entry_of_remove_connection reg_inv_def)

theorem registry_refines_map_witness:
  "entry_of (fst (remove_connection 7 sample_registry)) (7, ''a'') = None
   \<and> entry_of sample_registry (7, ''a'') = Some ([sample_filter], 1, Channels [101])"
proof -
  have "entry_of sample_registry (7, ''a'') = Some ([sample_filter], 1, Channels [101])"
    unfolding sample_registry_def by code_simp
  then show ?thesis
    using registry_refines_map [OF sample_reachable, of 0 7 "[]" "[]" Global 0]
    by simp
qed

text \<open>The gauge \<open>maju_subscriptions_active\<close> never drifts: after any sequence of operations it
  equals the number of registered subscriptions, and every index holds no empty bucket.\<close>

theorem gauge_equals_total:
  "reg_reachable reg \<Longrightarrow>
   subscriptions_active reg = int (total_subscriptions reg)
   \<and> [] \<notin> snd ` set (channel_kind_index reg) \<and> [] \<notin> snd ` set (channel_wildcard_index reg)
   \<and> [] \<notin> snd ` set (global_kind_index reg) \<and> [] \<notin> snd ` set (global_p_kind_index reg)
   \<and> [] \<notin> snd ` set (global_wildcard_index reg)"
  using reachable_inv [of reg] by (simp add: reg_inv_def indexes_wf_def idx_wf_def)

theorem gauge_equals_total_witness:
  "subscriptions_active sample_registry = 2 \<and> total_subscriptions sample_registry = 2"
proof -
  have "total_subscriptions sample_registry = 2"
    unfolding sample_registry_def by code_simp
  then show ?thesis using gauge_equals_total [OF sample_reachable] by simp
qed

end
