(* ===== verification/Channel.thy ===== *)
theory Channel
  imports Maju_Prelude
begin

text \<open>
  Channel vocabulary of \<open>crates/maju-core/src/channel.rs\<close>: channel visibility and type, the member
  roles with their permission levels, and the canonical channel name.

  Each enum comes with its canonical string and the parser of that string; the lemmas show the round
  trip. The roles are an instance of \<open>linorder\<close> by permission level, so that \<open>has_at_least\<close> is the
  order of the type. \<open>canonical_channel_name\<close> works on characters, here Unicode code points, because
  \<open>trim\<close> removes Unicode white space.
\<close>

section \<open>Enumerations and their strings\<close>

datatype channel_visibility = Open | Private

fun visibility_as_str :: "channel_visibility \<Rightarrow> string" where
  "visibility_as_str Open = ''open''"
| "visibility_as_str Private = ''private''"

text \<open>A parse error carries the offending string, which the code quotes in its message.\<close>

definition visibility_from_str :: "string \<Rightarrow> string + channel_visibility" where
  "visibility_from_str s =
     (if s = ''open'' then Inr Open else if s = ''private'' then Inr Private else Inl s)"

datatype channel_type = Stream | Forum | Dm | Workflow

fun channel_type_as_str :: "channel_type \<Rightarrow> string" where
  "channel_type_as_str Stream = ''stream''"
| "channel_type_as_str Forum = ''forum''"
| "channel_type_as_str Dm = ''dm''"
| "channel_type_as_str Workflow = ''workflow''"

definition channel_type_from_str :: "string \<Rightarrow> string + channel_type" where
  "channel_type_from_str s =
     (if s = ''stream'' then Inr Stream else if s = ''forum'' then Inr Forum
      else if s = ''dm'' then Inr Dm else if s = ''workflow'' then Inr Workflow else Inl s)"

datatype member_role = Owner | Admin | Member | Guest | Bot

fun role_as_str :: "member_role \<Rightarrow> string" where
  "role_as_str Owner = ''owner''"
| "role_as_str Admin = ''admin''"
| "role_as_str Member = ''member''"
| "role_as_str Guest = ''guest''"
| "role_as_str Bot = ''bot''"

definition role_from_str :: "string \<Rightarrow> string + member_role" where
  "role_from_str s =
     (if s = ''owner'' then Inr Owner else if s = ''admin'' then Inr Admin
      else if s = ''member'' then Inr Member else if s = ''guest'' then Inr Guest
      else if s = ''bot'' then Inr Bot else Inl s)"

definition is_elevated :: "member_role \<Rightarrow> bool" where
  "is_elevated r = (case r of Owner \<Rightarrow> True | Admin \<Rightarrow> True | _ \<Rightarrow> False)"

fun permission_level :: "member_role \<Rightarrow> u8" where
  "permission_level Owner = 4"
| "permission_level Admin = 3"
| "permission_level Member = 2"
| "permission_level Guest = 1"
| "permission_level Bot = 0"

definition has_at_least :: "member_role \<Rightarrow> member_role \<Rightarrow> bool" where
  "has_at_least r required \<longleftrightarrow> permission_level r \<ge> permission_level required"

section \<open>The canonical channel name\<close>

type_synonym codepoint = nat

definition is_whitespace :: "codepoint \<Rightarrow> bool" where
  "is_whitespace c \<longleftrightarrow>
     (9 \<le> c \<and> c \<le> 13) \<or> c = 32 \<or> c = 133 \<or> c = 160 \<or> c = 5760 \<or> (8192 \<le> c \<and> c \<le> 8202)
     \<or> c = 8232 \<or> c = 8233 \<or> c = 8239 \<or> c = 8287 \<or> c = 12288"

definition trim_start_matches :: "('a \<Rightarrow> bool) \<Rightarrow> 'a list \<Rightarrow> 'a list" where
  "trim_start_matches p xs = dropWhile p xs"

definition trim_end_matches :: "('a \<Rightarrow> bool) \<Rightarrow> 'a list \<Rightarrow> 'a list" where
  "trim_end_matches p xs = rev (dropWhile p (rev xs))"

definition canonical_channel_name :: "codepoint list \<Rightarrow> codepoint list" where
  "canonical_channel_name name =
     trim_end_matches is_whitespace (trim_start_matches (\<lambda>c. c = 35 \<or> is_whitespace c) name)"

section \<open>Lemmas\<close>

lemma permission_level_inj: "permission_level r = permission_level s \<longleftrightarrow> r = s"
  by (cases r; cases s) simp_all

instantiation member_role :: linorder
begin

definition less_eq_member_role :: "member_role \<Rightarrow> member_role \<Rightarrow> bool" where
  "less_eq_member_role r s \<longleftrightarrow> permission_level r \<le> permission_level s"

definition less_member_role :: "member_role \<Rightarrow> member_role \<Rightarrow> bool" where
  "less_member_role r s \<longleftrightarrow> permission_level r < permission_level s"

instance
  by standard
     (auto simp: less_eq_member_role_def less_member_role_def permission_level_inj [symmetric])

end

lemma has_at_least_iff: "has_at_least r required \<longleftrightarrow> required \<le> r"
  by (simp add: has_at_least_def less_eq_member_role_def)

lemma permission_level_less: "permission_level r < permission_level s \<longleftrightarrow> r < s"
  "permission_level r \<le> permission_level s \<longleftrightarrow> r \<le> s"
  by (simp_all add: less_member_role_def less_eq_member_role_def)

lemma role_order: "Bot < Guest" "Guest < Member" "Member < Admin" "Admin < Owner"
  by (simp_all add: less_member_role_def)

lemma role_from_str_iff: "role_from_str s = Inr r \<longleftrightarrow> s = role_as_str r"
  by (cases r) (auto simp: role_from_str_def)

lemma visibility_from_str_iff: "visibility_from_str s = Inr v \<longleftrightarrow> s = visibility_as_str v"
  by (cases v) (auto simp: visibility_from_str_def)

lemma channel_type_from_str_iff: "channel_type_from_str s = Inr t \<longleftrightarrow> s = channel_type_as_str t"
  by (cases t) (auto simp: channel_type_from_str_def)

lemma trim_end_matches_append:
  "\<exists>w. xs = trim_end_matches p xs @ w \<and> (\<forall>x \<in> set w. p x)"
proof (intro exI conjI)
  show "xs = trim_end_matches p xs @ rev (takeWhile p (rev xs))"
    unfolding trim_end_matches_def by (metis rev_append rev_rev_ident takeWhile_dropWhile_id)
qed (auto dest: set_takeWhileD)

lemma trim_end_matches_last:
  "trim_end_matches p xs \<noteq> [] \<Longrightarrow> \<not> p (last (trim_end_matches p xs))"
  unfolding trim_end_matches_def by (simp add: last_rev hd_dropWhile)

lemma dropWhile_id: "xs = [] \<or> \<not> p (hd xs) \<Longrightarrow> dropWhile p xs = xs"
  by (cases xs) auto

section \<open>Properties\<close>

text \<open>The canonical strings of visibilities, channel types and roles are exactly the strings their
  parsers accept: parsing succeeds with a value if and only if the string is the one that value
  prints, so printing and parsing are inverse to each other and no two values share a string.\<close>

theorem channel_enum_roundtrip:
  "(visibility_from_str s = Inr v \<longleftrightarrow> s = visibility_as_str v)
   \<and> (channel_type_from_str s = Inr t \<longleftrightarrow> s = channel_type_as_str t)
   \<and> (role_from_str s = Inr r \<longleftrightarrow> s = role_as_str r)"
  by (simp add: visibility_from_str_iff channel_type_from_str_iff role_from_str_iff)

text \<open>The canonical channel name is a contiguous part of the given name, never starts with a hash
  or white space and never ends in white space, what is cut off is only such characters, and
  canonicalising twice changes nothing.\<close>

theorem canonical_channel_name_spec:
  "\<exists>pre post. name = pre @ canonical_channel_name name @ post
     \<and> list_all (\<lambda>c. c = 35 \<or> is_whitespace c) pre \<and> list_all is_whitespace post
     \<and> (canonical_channel_name name = []
        \<or> hd (canonical_channel_name name) \<noteq> 35
          \<and> \<not> is_whitespace (hd (canonical_channel_name name))
          \<and> \<not> is_whitespace (last (canonical_channel_name name)))
     \<and> canonical_channel_name (canonical_channel_name name) = canonical_channel_name name"
proof -
  let ?p = "\<lambda>c. c = 35 \<or> is_whitespace c" and ?c = "canonical_channel_name name"
  let ?pre = "takeWhile ?p name" and ?m = "dropWhile ?p name"
  obtain w where w: "?m = trim_end_matches is_whitespace ?m @ w" "\<forall>x \<in> set w. is_whitespace x"
    using trim_end_matches_append [of ?m is_whitespace] by (elim exE conjE) (rule that)
  have c: "?c = trim_end_matches is_whitespace ?m"
    by (simp add: canonical_channel_name_def trim_start_matches_def)
  have ends: "?c = [] \<or> (\<not> ?p (hd ?c) \<and> \<not> is_whitespace (last ?c))"
  proof (cases "?c = []")
    case False
    have "hd ?m = hd (?c @ w)" unfolding c w(1) [symmetric] by simp
    then have "hd ?c = hd ?m" using False by simp
    moreover have "?m \<noteq> []"
    proof
      assume "?m = []"
      then have "?c = []" unfolding c by (simp only: trim_end_matches_def rev.simps dropWhile.simps)
      with False show False ..
    qed
    ultimately show ?thesis
      using hd_dropWhile [of ?p name] trim_end_matches_last [of is_whitespace ?m] False c by metis
  qed simp
  have idem: "canonical_channel_name ?c = ?c"
  proof -
    have "dropWhile ?p ?c = ?c" using ends by (intro dropWhile_id) auto
    moreover have "dropWhile is_whitespace (rev ?c) = rev ?c"
      using ends by (intro dropWhile_id) (auto simp: hd_rev)
    ultimately show ?thesis
      by (simp add: canonical_channel_name_def [of ?c] trim_start_matches_def trim_end_matches_def)
  qed
  have split: "name = ?pre @ ?c @ w" unfolding c w(1) [symmetric] by simp
  have pre: "list_all ?p ?pre" by (auto simp: list_all_iff dest: set_takeWhileD)
  have post: "list_all is_whitespace w" using w(2) by (simp add: list_all_iff)
  have ends': "?c = [] \<or> hd ?c \<noteq> 35 \<and> \<not> is_whitespace (hd ?c) \<and> \<not> is_whitespace (last ?c)"
    using ends by blast
  show ?thesis using split pre post ends' idem by blast
qed

end
