(* ===== verification/Git_Perms.thy ===== *)
theory Git_Perms
  imports Channel
begin

text \<open>
  The git push policy of \<open>crates/maju-core/src/git_perms.rs\<close>: ref patterns, the \<open>maju-protect\<close> tag
  parser, the union of matching rules and the evaluation of a push.

  A pattern matcher that reaches the \<open>unreachable!()\<close> arm is the value \<open>None\<close>; the lemmas show that
  a parsed pattern never gets there. The main results: a push is accepted exactly when every update
  meets the built-in default and every constraint of every matching rule, whatever the order of the
  rules; more rules or a lower role never accept more; and the pattern parser accepts exactly the
  grammar and keeps the text it parsed.
\<close>

section \<open>Ref patterns\<close>

definition GIT_NO_CHANNEL_BINDING_TOKEN :: string where
  "GIT_NO_CHANNEL_BINDING_TOKEN = ''no_channel_binding''"

definition GIT_NO_CHANNEL_BINDING_BODY :: string where
  "GIT_NO_CHANNEL_BINDING_BODY = ''no_channel_binding: repository has no channel binding''"

definition MAX_PROTECTION_RULES :: nat where "MAX_PROTECTION_RULES = 50"
definition MAX_PATTERN_LENGTH :: nat where "MAX_PATTERN_LENGTH = 256"
definition MAX_WILDCARDS_PER_PATTERN :: nat where "MAX_WILDCARDS_PER_PATTERN = 3"

datatype pattern_segment = Literal string | Wildcard | RecursiveWildcard

record ref_pattern =
  rp_raw :: string
  rp_segments :: "pattern_segment list"

datatype pattern_error =
    PatternEmpty | PatternTooLong | MissingRefsPrefix | InvalidSegment string | TooManyWildcards

definition is_ascii_alphanumeric :: "char \<Rightarrow> bool" where
  "is_ascii_alphanumeric c \<longleftrightarrow>
     (let n = of_char c :: nat in (48 \<le> n \<and> n \<le> 57) \<or> (65 \<le> n \<and> n \<le> 90) \<or> (97 \<le> n \<and> n \<le> 122))"

definition segment_char :: "char \<Rightarrow> bool" where
  "segment_char c \<longleftrightarrow> is_ascii_alphanumeric c \<or> c = CHR ''.'' \<or> c = CHR ''_'' \<or> c = CHR ''-''"

text \<open>The loop of \<open>RefPattern::parse\<close>; a part is the last one when no part follows it.\<close>

fun parse_segments ::
    "string list \<Rightarrow> nat \<Rightarrow> pattern_segment list \<Rightarrow> pattern_error + pattern_segment list" where
  "parse_segments [] wildcard_count segments = Inr segments"
| "parse_segments (part # parts) wildcard_count segments =
     (if part = ''**'' then
        (if parts \<noteq> [] then Inl (InvalidSegment ''** must be the last segment'')
         else if wildcard_count + 1 > MAX_WILDCARDS_PER_PATTERN then Inl TooManyWildcards
         else parse_segments parts (wildcard_count + 1) (segments @ [RecursiveWildcard]))
      else if part = ''*'' then
        (if wildcard_count + 1 > MAX_WILDCARDS_PER_PATTERN then Inl TooManyWildcards
         else parse_segments parts (wildcard_count + 1) (segments @ [Wildcard]))
      else if part = [] then Inl (InvalidSegment [])
      else if CHR ''*'' \<in> set part \<or> CHR ''?'' \<in> set part \<or> CHR 0x5B \<in> set part
              \<or> CHR 0x5D \<in> set part
      then Inl (InvalidSegment part)
      else if \<not> list_all segment_char part then Inl (InvalidSegment part)
      else parse_segments parts wildcard_count (segments @ [Literal part]))"

definition ref_pattern_parse :: "string \<Rightarrow> pattern_error + ref_pattern" where
  "ref_pattern_parse pattern =
     (if pattern = [] then Inl PatternEmpty
      else if length pattern > MAX_PATTERN_LENGTH then Inl PatternTooLong
      else if \<not> is_prefix ''refs/'' pattern then Inl MissingRefsPrefix
      else (case parse_segments (split_on (CHR ''/'') pattern) 0 [] of
              Inl e \<Rightarrow> Inl e
            | Inr segments \<Rightarrow> Inr \<lparr>rp_raw = pattern, rp_segments = segments\<rparr>))"

text \<open>The \<open>zip(..).all(..)\<close> of \<open>matches\<close>, which stops at the first mismatch.\<close>

fun segments_match :: "pattern_segment list \<Rightarrow> string list \<Rightarrow> bool option" where
  "segments_match (Wildcard # ps) (s # ss) = segments_match ps ss"
| "segments_match (Literal lit # ps) (s # ss) = (if lit = s then segments_match ps ss else Some False)"
| "segments_match (RecursiveWildcard # ps) (s # ss) = None"
| "segments_match [] ss = Some True"
| "segments_match ps [] = Some True"

definition ref_pattern_matches :: "ref_pattern \<Rightarrow> string \<Rightarrow> bool option" where
  "ref_pattern_matches p ref_name =
     (let ref_segments = split_on (CHR ''/'') ref_name; segs = rp_segments p in
      if segs \<noteq> [] \<and> last segs = RecursiveWildcard then
        (let prefix_len = length segs - 1 in
         if length ref_segments \<le> prefix_len then Some False
         else segments_match (take prefix_len segs) (take prefix_len ref_segments))
      else if length ref_segments \<noteq> length segs then Some False
      else segments_match segs ref_segments)"

definition ref_pattern_as_str :: "ref_pattern \<Rightarrow> string" where
  "ref_pattern_as_str p = rp_raw p"

section \<open>Ref updates\<close>

datatype update_kind = Create | FastForward | NonFastForward | Delete

definition ZERO_OID :: string where
  "ZERO_OID = replicate 40 (CHR ''0'')"

definition classify :: "string \<Rightarrow> string \<Rightarrow> bool \<Rightarrow> update_kind" where
  "classify old_oid new_oid is_ancestor =
     (if old_oid = ZERO_OID then Create
      else if new_oid = ZERO_OID then Delete
      else if is_ancestor then FastForward
      else NonFastForward)"

record ref_update =
  ru_ref_name :: string
  ru_kind :: update_kind
  ru_old_oid :: string
  ru_new_oid :: string

section \<open>Protection rules\<close>

record protection_rule =
  pr_pattern :: ref_pattern
  pr_push_role :: "member_role option"
  pr_no_force_push :: bool
  pr_no_delete :: bool
  pr_require_patch :: bool

datatype rule_parse_error =
    TooFewValues | TooManyRules | InvalidPattern pattern_error | UnknownRule string
  | InvalidRole string

definition strictest :: "member_role option \<Rightarrow> member_role \<Rightarrow> member_role option" where
  "strictest push_role role =
     Some (case push_role of
             None \<Rightarrow> role
           | Some existing \<Rightarrow>
               if permission_level role > permission_level existing then role else existing)"

text \<open>The loop over the rule strings of one tag; the unknown strings are collected in order.\<close>

fun parse_rules ::
    "string list \<Rightarrow> protection_rule \<Rightarrow> string list
     \<Rightarrow> rule_parse_error + (protection_rule \<times> string list)" where
  "parse_rules [] rule unknown_rules = Inr (rule, unknown_rules)"
| "parse_rules (rule_str # rest) rule unknown_rules =
     (if is_prefix ''push:'' rule_str then
        (let role_str = drop 5 rule_str in
         case role_from_str role_str of
           Inl _ \<Rightarrow> Inl (InvalidRole role_str)
         | Inr role \<Rightarrow>
             if role = Bot \<or> role = Guest then Inl (InvalidRole role_str)
             else parse_rules rest (rule\<lparr>pr_push_role := strictest (pr_push_role rule) role\<rparr>)
                    unknown_rules)
      else if rule_str = ''no-force-push'' then
        parse_rules rest (rule\<lparr>pr_no_force_push := True\<rparr>) unknown_rules
      else if rule_str = ''no-delete'' then
        parse_rules rest (rule\<lparr>pr_no_delete := True\<rparr>) unknown_rules
      else if rule_str = ''require-patch'' then
        parse_rules rest (rule\<lparr>pr_require_patch := True\<rparr>) unknown_rules
      else parse_rules rest rule (unknown_rules @ [rule_str]))"

definition parse_protection_tag_with_warnings ::
    "string list \<Rightarrow> rule_parse_error + (protection_rule \<times> string list)" where
  "parse_protection_tag_with_warnings values =
     (if length values < 2 then Inl TooFewValues
      else (case ref_pattern_parse (values ! 0) of
              Inl e \<Rightarrow> Inl (InvalidPattern e)
            | Inr pattern \<Rightarrow>
                parse_rules (drop 1 values)
                  \<lparr>pr_pattern = pattern, pr_push_role = None, pr_no_force_push = False,
                   pr_no_delete = False, pr_require_patch = False\<rparr> []))"

definition parse_protection_tag :: "string list \<Rightarrow> rule_parse_error + protection_rule" where
  "parse_protection_tag values =
     (case parse_protection_tag_with_warnings values of
        Inl e \<Rightarrow> Inl e
      | Inr (rule, _) \<Rightarrow> Inr rule)"

record parsed_protection =
  pp_rules :: "protection_rule list"
  pp_unknown_rules :: "string list"

fun parse_protection_loop ::
    "string list list \<Rightarrow> protection_rule list \<Rightarrow> string list \<Rightarrow> rule_parse_error + parsed_protection" where
  "parse_protection_loop [] rules unknown_rules =
     Inr \<lparr>pp_rules = rules, pp_unknown_rules = unknown_rules\<rparr>"
| "parse_protection_loop (tag # tags) rules unknown_rules =
     (if \<not> (tag \<noteq> [] \<and> hd tag = ''maju-protect'') then parse_protection_loop tags rules unknown_rules
      else if length rules \<ge> MAX_PROTECTION_RULES then Inl TooManyRules
      else (case parse_protection_tag_with_warnings (tl tag) of
              Inl e \<Rightarrow> Inl e
            | Inr (rule, unknowns) \<Rightarrow>
                parse_protection_loop tags (rules @ [rule]) (unknown_rules @ unknowns)))"

definition parse_protection_tags :: "string list list \<Rightarrow> rule_parse_error + parsed_protection" where
  "parse_protection_tags tags = parse_protection_loop tags [] []"

definition default_min_role :: "string \<Rightarrow> update_kind \<Rightarrow> member_role" where
  "default_min_role ref_name kind =
     (let is_branch = is_prefix ''refs/heads/'' ref_name;
          is_tag = is_prefix ''refs/tags/'' ref_name in
      case kind of
        Create \<Rightarrow> if is_branch \<or> is_tag then Member else Admin
      | FastForward \<Rightarrow> if is_branch then Member else if is_tag then Admin else Admin
      | NonFastForward \<Rightarrow> Admin
      | Delete \<Rightarrow> Admin)"

section \<open>Evaluating a push\<close>

record effective_rules =
  er_push_role :: "member_role option"
  er_no_force_push :: bool
  er_no_delete :: bool
  er_require_patch :: bool
  er_has_explicit_match :: bool

text \<open>A rule whose pattern would panic is the outer \<open>None\<close>.\<close>

fun for_ref_loop :: "string \<Rightarrow> protection_rule list \<Rightarrow> effective_rules \<Rightarrow> effective_rules option" where
  "for_ref_loop ref_name [] e = Some e"
| "for_ref_loop ref_name (rule # rules) e =
     (case ref_pattern_matches (pr_pattern rule) ref_name of
        None \<Rightarrow> None
      | Some False \<Rightarrow> for_ref_loop ref_name rules e
      | Some True \<Rightarrow>
          for_ref_loop ref_name rules
            \<lparr>er_push_role =
               (case pr_push_role rule of
                  Some role \<Rightarrow> strictest (er_push_role e) role
                | None \<Rightarrow> er_push_role e),
             er_no_force_push = (er_no_force_push e \<or> pr_no_force_push rule),
             er_no_delete = (er_no_delete e \<or> pr_no_delete rule),
             er_require_patch = (er_require_patch e \<or> pr_require_patch rule),
             er_has_explicit_match = True\<rparr>)"

definition for_ref :: "string \<Rightarrow> protection_rule list \<Rightarrow> effective_rules option" where
  "for_ref ref_name rules =
     for_ref_loop ref_name rules
       \<lparr>er_push_role = None, er_no_force_push = False, er_no_delete = False,
        er_require_patch = False, er_has_explicit_match = False\<rparr>"

record denial =
  dn_ref_name :: string
  dn_reason :: string

definition role_reason :: "member_role \<Rightarrow> member_role \<Rightarrow> string" where
  "role_reason min_role role =
     ''requires '' @ role_as_str min_role @ '' role (you have '' @ role_as_str role @ '')''"

definition evaluate_ref_update ::
    "ref_update \<Rightarrow> member_role \<Rightarrow> protection_rule list \<Rightarrow> (denial + unit) option" where
  "evaluate_ref_update update role rules =
     (case for_ref (ru_ref_name update) rules of
        None \<Rightarrow> None
      | Some effective \<Rightarrow>
          (let deny = (\<lambda>reason. Inl \<lparr>dn_ref_name = ru_ref_name update, dn_reason = reason\<rparr>);
               default_role = default_min_role (ru_ref_name update) (ru_kind update) in
           Some (
             if \<not> er_has_explicit_match effective then
               (if \<not> has_at_least role default_role
                then deny (role_reason default_role role @ '', using built-in defaults'')
                else Inr ())
             else if er_require_patch effective then
               deny ''direct push denied: require-patch is set, submit a NIP-34 patch''
             else
               (let min_role =
                      (case er_push_role effective of
                         Some explicit \<Rightarrow>
                           if permission_level explicit \<ge> permission_level default_role
                           then explicit else default_role
                       | None \<Rightarrow> default_role)
                in if \<not> has_at_least role min_role then deny (role_reason min_role role)
                   else if er_no_force_push effective \<and> ru_kind update = NonFastForward
                   then deny ''non-fast-forward update denied: no-force-push is set''
                   else if er_no_delete effective \<and> ru_kind update = Delete
                   then deny ''ref deletion denied: no-delete is set''
                   else Inr ()))))"

fun collect_denials ::
    "ref_update list \<Rightarrow> member_role \<Rightarrow> protection_rule list \<Rightarrow> denial list option" where
  "collect_denials [] role rules = Some []"
| "collect_denials (update # updates) role rules =
     (case evaluate_ref_update update role rules of
        None \<Rightarrow> None
      | Some r \<Rightarrow>
          (case collect_denials updates role rules of
             None \<Rightarrow> None
           | Some ds \<Rightarrow> Some (case r of Inl d \<Rightarrow> d # ds | Inr _ \<Rightarrow> ds)))"

definition evaluate_push ::
    "ref_update list \<Rightarrow> member_role \<Rightarrow> protection_rule list \<Rightarrow> (denial list + unit) option" where
  "evaluate_push updates role rules =
     (case collect_denials updates role rules of
        None \<Rightarrow> None
      | Some denials \<Rightarrow> Some (if denials = [] then Inr () else Inl denials))"

section \<open>Lemmas on patterns\<close>

fun segment_text :: "pattern_segment \<Rightarrow> string" where
  "segment_text (Literal s) = s"
| "segment_text Wildcard = ''*''"
| "segment_text RecursiveWildcard = ''**''"

text \<open>What a pattern means: literals and \<open>*\<close> take one path segment each, a final \<open>**\<close> takes one or
  more.\<close>

fun pattern_spec :: "pattern_segment list \<Rightarrow> string list \<Rightarrow> bool" where
  "pattern_spec [] ss \<longleftrightarrow> ss = []"
| "pattern_spec (Literal l # ps) ss \<longleftrightarrow> (\<exists>rest. ss = l # rest \<and> pattern_spec ps rest)"
| "pattern_spec (Wildcard # ps) ss \<longleftrightarrow> (\<exists>s rest. ss = s # rest \<and> pattern_spec ps rest)"
| "pattern_spec (RecursiveWildcard # ps) ss \<longleftrightarrow> ps = [] \<and> ss \<noteq> []"

definition valid_part :: "string \<Rightarrow> bool" where
  "valid_part part \<longleftrightarrow> part = ''*'' \<or> part = ''**'' \<or> (part \<noteq> [] \<and> list_all segment_char part)"

definition is_wildcard_part :: "string \<Rightarrow> bool" where
  "is_wildcard_part part \<longleftrightarrow> part = ''*'' \<or> part = ''**''"

lemma segment_char_glob:
  "\<not> segment_char (CHR ''*'')" "\<not> segment_char (CHR ''?'')"
  "\<not> segment_char (CHR 0x5B)" "\<not> segment_char (CHR 0x5D)"
  by (simp_all add: segment_char_def is_ascii_alphanumeric_def)

lemma literal_part:
  "list_all segment_char part \<Longrightarrow>
   CHR ''*'' \<notin> set part \<and> CHR ''?'' \<notin> set part \<and> CHR 0x5B \<notin> set part \<and> CHR 0x5D \<notin> set part"
  using segment_char_glob by (auto simp: list_all_iff)

lemma parse_segments_sound:
  "parse_segments parts n acc = Inr segs \<Longrightarrow> n \<le> 3 \<Longrightarrow>
   \<exists>new. segs = acc @ new \<and> map segment_text new = parts \<and> RecursiveWildcard \<notin> set (butlast new)
     \<and> list_all valid_part parts \<and> ''**'' \<notin> set (butlast parts)
     \<and> n + length (filter is_wildcard_part parts) \<le> 3"
proof (induction parts n acc rule: parse_segments.induct)
  case (2 part parts n acc)
  then show ?case
    by (auto simp: valid_part_def is_wildcard_part_def MAX_WILDCARDS_PER_PATTERN_def
        split: if_splits)
qed simp

lemma parse_segments_complete:
  assumes "list_all valid_part parts" and "''**'' \<notin> set (butlast parts)"
    and "n + length (filter is_wildcard_part parts) \<le> 3"
  shows "\<exists>segs. parse_segments parts n acc = Inr segs"
  using assms
proof (induction parts n acc rule: parse_segments.induct)
  case (2 part parts n acc)
  then show ?case using literal_part [of part] segment_char_glob
    by (auto simp: valid_part_def is_wildcard_part_def MAX_WILDCARDS_PER_PATTERN_def
        split: if_splits)
qed simp

lemma parsed_pattern:
  assumes "ref_pattern_parse s = Inr p"
  shows "rp_raw p = s" and "map segment_text (rp_segments p) = split_on (CHR ''/'') s"
    and "RecursiveWildcard \<notin> set (butlast (rp_segments p))"
  using assms parse_segments_sound [of "split_on (CHR ''/'') s" 0 "[]"]
  by (fastforce simp: ref_pattern_parse_def split: if_splits sum.splits)+

lemma segments_match_spec:
  "RecursiveWildcard \<notin> set ps \<Longrightarrow> length ps = length ss \<Longrightarrow>
   segments_match ps ss = Some (pattern_spec ps ss)"
  by (induction ps ss rule: segments_match.induct) auto

lemma pattern_spec_recursive:
  "RecursiveWildcard \<notin> set ps \<Longrightarrow>
   pattern_spec (ps @ [RecursiveWildcard]) ss \<longleftrightarrow>
     length ps < length ss \<and> pattern_spec ps (take (length ps) ss)"
proof (induction ps arbitrary: ss)
  case (Cons q ps)
  then show ?case by (cases q; cases ss) auto
qed auto

lemma pattern_spec_length:
  "RecursiveWildcard \<notin> set ps \<Longrightarrow> pattern_spec ps ss \<Longrightarrow> length ps = length ss"
  by (induction ps ss rule: pattern_spec.induct) auto

lemma ref_pattern_matches_spec:
  assumes wf: "RecursiveWildcard \<notin> set (butlast (rp_segments p))"
  shows "ref_pattern_matches p name = Some (pattern_spec (rp_segments p) (split_on (CHR ''/'') name))"
proof (cases "rp_segments p \<noteq> [] \<and> last (rp_segments p) = RecursiveWildcard")
  case True
  define ps where "ps = butlast (rp_segments p)"
  have segs: "rp_segments p = ps @ [RecursiveWildcard]"
    using True by (simp add: ps_def) (metis append_butlast_last_id)
  have ps: "RecursiveWildcard \<notin> set ps" using wf by (simp add: ps_def)
  show ?thesis
    unfolding ref_pattern_matches_def Let_def segs
    using segments_match_spec [OF ps] pattern_spec_recursive [OF ps] by auto
next
  case False
  have ps: "RecursiveWildcard \<notin> set (rp_segments p)"
  proof
    assume r: "RecursiveWildcard \<in> set (rp_segments p)"
    then have "rp_segments p \<noteq> []" by auto
    with r wf False show False
      by (metis UnE append_butlast_last_id empty_iff list.set(1) set_ConsD set_append)
  qed
  have segs: "(rp_segments p \<noteq> [] \<and> last (rp_segments p) = RecursiveWildcard) = False"
    using False by simp
  show ?thesis
    unfolding ref_pattern_matches_def Let_def segs if_False
    using segments_match_spec [OF ps] pattern_spec_length [OF ps] by auto
qed

section \<open>Lemmas on rules\<close>

abbreviation rule_wf :: "protection_rule \<Rightarrow> bool" where
  "rule_wf r \<equiv> RecursiveWildcard \<notin> set (butlast (rp_segments (pr_pattern r)))"

definition rule_applies :: "protection_rule \<Rightarrow> string \<Rightarrow> bool" where
  "rule_applies r name \<longleftrightarrow>
     pattern_spec (rp_segments (pr_pattern r)) (split_on (CHR ''/'') name)"

definition role_meets :: "member_role \<Rightarrow> member_role option \<Rightarrow> bool" where
  "role_meets role required = (case required of None \<Rightarrow> True | Some q \<Rightarrow> q \<le> role)"

definition permitted :: "ref_update \<Rightarrow> member_role \<Rightarrow> protection_rule list \<Rightarrow> bool" where
  "permitted u role rules \<longleftrightarrow>
     default_min_role (ru_ref_name u) (ru_kind u) \<le> role
     \<and> (\<forall>r \<in> set rules. rule_applies r (ru_ref_name u) \<longrightarrow>
          \<not> pr_require_patch r \<and> role_meets role (pr_push_role r)
          \<and> \<not> (pr_no_force_push r \<and> ru_kind u = NonFastForward)
          \<and> \<not> (pr_no_delete r \<and> ru_kind u = Delete))"

lemma role_meets_simps [simp]: "role_meets role None" "role_meets role (Some q) \<longleftrightarrow> q \<le> role"
  by (simp_all add: role_meets_def)

lemma role_meets_strictest:
  "role_meets role (strictest x q) \<longleftrightarrow> role_meets role x \<and> q \<le> role"
  by (auto simp: role_meets_def strictest_def permission_level_less split: option.splits)

lemma for_ref_loop_spec:
  assumes "list_all rule_wf rules"
  shows "\<exists>e'. for_ref_loop name rules e = Some e'
    \<and> (er_has_explicit_match e' \<longleftrightarrow>
         er_has_explicit_match e \<or> (\<exists>r \<in> set rules. rule_applies r name))
    \<and> (er_require_patch e' \<longleftrightarrow>
         er_require_patch e \<or> (\<exists>r \<in> set rules. rule_applies r name \<and> pr_require_patch r))
    \<and> (er_no_force_push e' \<longleftrightarrow>
         er_no_force_push e \<or> (\<exists>r \<in> set rules. rule_applies r name \<and> pr_no_force_push r))
    \<and> (er_no_delete e' \<longleftrightarrow>
         er_no_delete e \<or> (\<exists>r \<in> set rules. rule_applies r name \<and> pr_no_delete r))
    \<and> (\<forall>role. role_meets role (er_push_role e') \<longleftrightarrow>
         role_meets role (er_push_role e)
         \<and> (\<forall>r \<in> set rules. rule_applies r name \<longrightarrow> role_meets role (pr_push_role r)))"
  using assms
proof (induction rules arbitrary: e)
  case Nil
  show ?case by simp
next
  case (Cons rule rules)
  have m: "ref_pattern_matches (pr_pattern rule) name = Some (rule_applies rule name)"
    using Cons.prems by (simp add: ref_pattern_matches_spec rule_applies_def)
  have wf: "list_all rule_wf rules" using Cons.prems by simp
  let ?e = "\<lparr>er_push_role = (case pr_push_role rule of Some role \<Rightarrow> strictest (er_push_role e) role
                              | None \<Rightarrow> er_push_role e),
             er_no_force_push = (er_no_force_push e \<or> pr_no_force_push rule),
             er_no_delete = (er_no_delete e \<or> pr_no_delete rule),
             er_require_patch = (er_require_patch e \<or> pr_require_patch rule),
             er_has_explicit_match = True\<rparr>"
  have role: "role_meets role (er_push_role ?e) \<longleftrightarrow>
      role_meets role (er_push_role e) \<and> role_meets role (pr_push_role rule)" for role
    by (cases "pr_push_role rule")
       (simp_all add: role_meets_strictest)
  show ?case
  proof (cases "rule_applies rule name")
    case True
    with m have step: "for_ref_loop name (rule # rules) e = for_ref_loop name rules ?e" by simp
    from Cons.IH [OF wf, of ?e] True show ?thesis unfolding step role by auto
  next
    case False
    with m Cons.IH [OF wf, of e] show ?thesis by auto
  qed
qed

definition grants_push :: "member_role option \<Rightarrow> bool" where
  "grants_push x = (case x of None \<Rightarrow> True | Some q \<Rightarrow> Member \<le> q)"

lemma grants_push_strictest:
  "grants_push x \<Longrightarrow> role \<noteq> Bot \<Longrightarrow> role \<noteq> Guest \<Longrightarrow> grants_push (strictest x role)"
  by (cases role)
     (auto simp: grants_push_def strictest_def less_eq_member_role_def split: option.splits)

lemma parse_rules_facts:
  "parse_rules rs rule us = Inr (rule', us') \<Longrightarrow> grants_push (pr_push_role rule) \<Longrightarrow>
   pr_pattern rule' = pr_pattern rule \<and> grants_push (pr_push_role rule')"
proof (induction rs rule us rule: parse_rules.induct)
  case (2 rule_str rest rule us)
  then show ?case
    by (auto simp: Let_def grants_push_strictest split: if_splits sum.splits)
qed simp

lemma parse_tag_facts:
  assumes "parse_protection_tag_with_warnings values = Inr (rule, us)"
  shows "rule_wf rule \<and> grants_push (pr_push_role rule)"
  using assms parse_rules_facts parsed_pattern(3)
  by (fastforce simp: parse_protection_tag_with_warnings_def grants_push_def
      split: if_splits sum.splits)

lemma parse_loop_facts:
  "parse_protection_loop tags rules us = Inr pp \<Longrightarrow>
   list_all (\<lambda>r. rule_wf r \<and> grants_push (pr_push_role r)) rules \<Longrightarrow>
   length rules \<le> MAX_PROTECTION_RULES \<Longrightarrow>
   list_all (\<lambda>r. rule_wf r \<and> grants_push (pr_push_role r)) (pp_rules pp)
     \<and> length (pp_rules pp) \<le> MAX_PROTECTION_RULES"
proof (induction tags arbitrary: rules us)
  case (Cons tag tags)
  show ?case
  proof (cases "tag \<noteq> [] \<and> hd tag = ''maju-protect''")
    case True
    with Cons.prems(1) obtain rule us' where
      r: "parse_protection_tag_with_warnings (tl tag) = Inr (rule, us')"
      and lt: "length rules < MAX_PROTECTION_RULES"
      and rest: "parse_protection_loop tags (rules @ [rule]) (us @ us') = Inr pp"
      by (auto split: if_splits sum.splits)
    show ?thesis
      by (rule Cons.IH [OF rest]) (use Cons.prems(2) lt parse_tag_facts [OF r] in auto)
  next
    case False
    then have "parse_protection_loop tags rules us = Inr pp" using Cons.prems(1) by simp
    then show ?thesis using Cons.prems(2,3) by (rule Cons.IH)
  qed
qed auto

lemmas parsed_rules = parse_loop_facts [of _ "[]" "[]", folded parse_protection_tags_def, simplified]

lemma list_all_rule_wf:
  "parse_protection_tags tags = Inr pp \<Longrightarrow> list_all rule_wf (pp_rules pp)"
  using parsed_rules [of tags pp] by (auto simp: list_all_iff)

lemma evaluate_ref_update_spec:
  assumes wf: "list_all rule_wf rules"
  obtains "permitted u role rules" and "evaluate_ref_update u role rules = Some (Inr ())"
  | d where "\<not> permitted u role rules" and "dn_ref_name d = ru_ref_name u"
      and "evaluate_ref_update u role rules = Some (Inl d)"
proof -
  let ?name = "ru_ref_name u" and ?min = "default_min_role (ru_ref_name u) (ru_kind u)"
  obtain e where e: "for_ref ?name rules = Some e"
    and has: "er_has_explicit_match e \<longleftrightarrow> (\<exists>r \<in> set rules. rule_applies r ?name)"
    and patch: "er_require_patch e \<longleftrightarrow> (\<exists>r \<in> set rules. rule_applies r ?name \<and> pr_require_patch r)"
    and force: "er_no_force_push e \<longleftrightarrow> (\<exists>r \<in> set rules. rule_applies r ?name \<and> pr_no_force_push r)"
    and del: "er_no_delete e \<longleftrightarrow> (\<exists>r \<in> set rules. rule_applies r ?name \<and> pr_no_delete r)"
    and push: "role_meets role (er_push_role e) \<longleftrightarrow>
      (\<forall>r \<in> set rules. rule_applies r ?name \<longrightarrow> role_meets role (pr_push_role r))"
    using for_ref_loop_spec [OF wf, of ?name "\<lparr>er_push_role = None, er_no_force_push = False,
        er_no_delete = False, er_require_patch = False, er_has_explicit_match = False\<rparr>"]
    unfolding for_ref_def [symmetric] by simp blast
  define min where "min = (case er_push_role e of
      Some explicit \<Rightarrow> if permission_level explicit \<ge> permission_level ?min then explicit else ?min
    | None \<Rightarrow> ?min)"
  have min: "min \<le> role \<longleftrightarrow> ?min \<le> role \<and> role_meets role (er_push_role e)"
    by (auto simp: min_def role_meets_def permission_level_less split: option.splits)
  have p: "permitted u role rules \<longleftrightarrow>
      (if er_has_explicit_match e
       then \<not> er_require_patch e \<and> min \<le> role
         \<and> \<not> (er_no_force_push e \<and> ru_kind u = NonFastForward)
         \<and> \<not> (er_no_delete e \<and> ru_kind u = Delete)
       else ?min \<le> role)"
    unfolding permitted_def min has patch force del push by auto
  have ev: "evaluate_ref_update u role rules = Some r \<longleftrightarrow>
      r = (let deny = (\<lambda>reason. Inl \<lparr>dn_ref_name = ?name, dn_reason = reason\<rparr>) in
           if \<not> er_has_explicit_match e then
             (if \<not> ?min \<le> role then deny (role_reason ?min role @ '', using built-in defaults'')
              else Inr ())
           else if er_require_patch e then
             deny ''direct push denied: require-patch is set, submit a NIP-34 patch''
           else if \<not> min \<le> role then deny (role_reason min role)
           else if er_no_force_push e \<and> ru_kind u = NonFastForward
           then deny ''non-fast-forward update denied: no-force-push is set''
           else if er_no_delete e \<and> ru_kind u = Delete
           then deny ''ref deletion denied: no-delete is set''
           else Inr ())" for r
    unfolding evaluate_ref_update_def e min_def [symmetric] option.case Let_def has_at_least_iff
    by auto
  show thesis
  proof (cases "permitted u role rules")
    case True
    with p have "evaluate_ref_update u role rules = Some (Inr ())"
      unfolding ev Let_def by (simp split: if_splits)
    with True show thesis by (rule that(1))
  next
    case False
    with p have "\<exists>d. dn_ref_name d = ?name \<and> evaluate_ref_update u role rules = Some (Inl d)"
      unfolding ev Let_def by (auto split: if_splits)
    with False show thesis using that(2) by blast
  qed
qed

lemma collect_denials_spec:
  assumes wf: "list_all rule_wf rules"
  obtains ds where "collect_denials us role rules = Some ds"
    and "map dn_ref_name ds = map ru_ref_name (filter (\<lambda>u. \<not> permitted u role rules) us)"
proof -
  have "\<exists>ds. collect_denials us role rules = Some ds
      \<and> map dn_ref_name ds = map ru_ref_name (filter (\<lambda>u. \<not> permitted u role rules) us)"
  proof (induction us)
    case (Cons u us)
    then show ?case by (cases rule: evaluate_ref_update_spec [OF wf, of u role]) auto
  qed simp
  with that show thesis by blast
qed

lemma evaluate_push_denials:
  assumes "list_all rule_wf rules"
  shows "\<exists>ds. evaluate_push us role rules = Some (if ds = [] then Inr () else Inl ds)
    \<and> map dn_ref_name ds = map ru_ref_name (filter (\<lambda>u. \<not> permitted u role rules) us)"
proof -
  obtain ds where "collect_denials us role rules = Some ds"
    and "map dn_ref_name ds = map ru_ref_name (filter (\<lambda>u. \<not> permitted u role rules) us)"
    by (rule collect_denials_spec [OF assms])
  then show ?thesis by (intro exI [of _ ds]) (simp add: evaluate_push_def)
qed

lemma evaluate_push_ok_iff:
  assumes "list_all rule_wf rules"
  shows "evaluate_push us role rules = Some (Inr ()) \<longleftrightarrow> (\<forall>u \<in> set us. permitted u role rules)"
proof -
  obtain ds where ds: "evaluate_push us role rules = Some (if ds = [] then Inr () else Inl ds)"
    and refs: "map dn_ref_name ds = map ru_ref_name (filter (\<lambda>u. \<not> permitted u role rules) us)"
    using evaluate_push_denials [OF assms] by blast
  have "ds = [] \<longleftrightarrow> filter (\<lambda>u. \<not> permitted u role rules) us = []"
    using arg_cong [OF refs, of length] by auto
  then show ?thesis by (simp add: ds filter_empty_conv)
qed

lemma role_meets_mono: "role_meets role x \<Longrightarrow> role \<le> role' \<Longrightarrow> role_meets role' x"
  by (cases x) auto

lemma permitted_mono:
  "permitted u role rules \<Longrightarrow> set rules' \<subseteq> set rules \<Longrightarrow> role \<le> role' \<Longrightarrow> permitted u role' rules'"
  unfolding permitted_def by (meson order_trans role_meets_mono subsetD)

section \<open>Properties\<close>

text \<open>C24. A push under the rules parsed from a repository announcement always gets a verdict (no rule
  pattern reaches the unreachable arm), and the denied refs are exactly, in order, the updates that
  are not permitted: an update is permitted when the pusher's role reaches the built-in default for
  that ref and kind of update and violates no constraint (\<open>require-patch\<close>, \<open>push:role\<close>,
  \<open>no-force-push\<close>, \<open>no-delete\<close>) of any rule whose pattern covers the ref. The push is accepted
  exactly when nothing is denied, and an explicit rule never weakens the default.\<close>

theorem evaluate_push_spec:
  assumes "parse_protection_tags tags = Inr pp"
  shows "\<exists>ds. evaluate_push updates role (pp_rules pp) = Some (if ds = [] then Inr () else Inl ds)
    \<and> map dn_ref_name ds =
        map ru_ref_name (filter (\<lambda>u. \<not> permitted u role (pp_rules pp)) updates)"
  using evaluate_push_denials [OF list_all_rule_wf [OF assms]] .

definition sample_tags :: "string list list" where
  "sample_tags = [[''d'', ''repo''], [''maju-protect'', ''refs/heads/main'', ''no-force-push'', ''push:admin''],
     [''maju-protect'', ''refs/heads/**'', ''no-delete'', ''future-rule'']]"

definition sample_updates :: "ref_update list" where
  "sample_updates =
     [\<lparr>ru_ref_name = ''refs/heads/topic/x'', ru_kind = FastForward, ru_old_oid = ''a'', ru_new_oid = ''b''\<rparr>,
      \<lparr>ru_ref_name = ''refs/heads/main'', ru_kind = FastForward, ru_old_oid = ''a'', ru_new_oid = ''b''\<rparr>]"

definition sample_protection :: parsed_protection where
  "sample_protection = \<lparr>pp_rules =
     [\<lparr>pr_pattern = \<lparr>rp_raw = ''refs/heads/main'',
          rp_segments = [Literal ''refs'', Literal ''heads'', Literal ''main'']\<rparr>,
        pr_push_role = Some Admin, pr_no_force_push = True, pr_no_delete = False,
        pr_require_patch = False\<rparr>,
      \<lparr>pr_pattern = \<lparr>rp_raw = ''refs/heads/**'',
          rp_segments = [Literal ''refs'', Literal ''heads'', RecursiveWildcard]\<rparr>,
        pr_push_role = None, pr_no_force_push = False, pr_no_delete = True,
        pr_require_patch = False\<rparr>],
     pp_unknown_rules = [''future-rule'']\<rparr>"

lemma sample_parses: "parse_protection_tags sample_tags = Inr sample_protection"
  by code_simp

theorem evaluate_push_spec_witness:
  "\<exists>ds. evaluate_push sample_updates Member (pp_rules sample_protection) = Some (Inl ds)
     \<and> map dn_ref_name ds = [''refs/heads/main'']"
proof -
  have p: "permitted (sample_updates ! 0) Member (pp_rules sample_protection)"
    "\<not> permitted (sample_updates ! 1) Member (pp_rules sample_protection)"
    by (simp_all add: permitted_def sample_updates_def sample_protection_def default_min_role_def
        rule_applies_def less_eq_member_role_def)
  then have "filter (\<lambda>u. \<not> permitted u Member (pp_rules sample_protection)) sample_updates
      = [sample_updates ! 1]"
    by (simp add: sample_updates_def)
  then show ?thesis
    using evaluate_push_spec [OF sample_parses, of sample_updates Member]
    by (auto simp: sample_updates_def split: if_splits)
qed

text \<open>Protection only ever restricts: if a push is accepted for some role under some rules, it is
  accepted for every role at least as high under every subset of those rules, in any order. Adding a
  \<open>maju-protect\<close> tag never lets through what was denied without it.\<close>

theorem push_constraints_monotone:
  assumes "parse_protection_tags tags = Inr pp" and "parse_protection_tags tags' = Inr pp'"
    and "set (pp_rules pp') \<subseteq> set (pp_rules pp)" and "has_at_least role' role"
    and "evaluate_push updates role (pp_rules pp) = Some (Inr ())"
  shows "evaluate_push updates role' (pp_rules pp') = Some (Inr ())"
  using assms(3-5) permitted_mono
  unfolding evaluate_push_ok_iff [OF list_all_rule_wf [OF assms(1)]]
    evaluate_push_ok_iff [OF list_all_rule_wf [OF assms(2)]] has_at_least_iff by blast

theorem push_constraints_monotone_witness:
  "evaluate_push [sample_updates ! 0] Owner [] = Some (Inr ())"
proof -
  have m: "evaluate_push [sample_updates ! 0] Member (pp_rules sample_protection) = Some (Inr ())"
    by code_simp
  have e: "parse_protection_tags [] = Inr \<lparr>pp_rules = [], pp_unknown_rules = []\<rparr>"
    by (simp add: parse_protection_tags_def)
  show ?thesis
    using push_constraints_monotone [OF sample_parses e _ _ m, of Owner]
    by (simp add: has_at_least_def)
qed

text \<open>The pattern parser accepts exactly the grammar: at most 256 bytes, starting with \<open>refs/\<close>,
  every slash-separated part \<open>*\<close>, \<open>**\<close> or a non-empty run of letters, digits, dots, underscores and
  dashes, \<open>**\<close> only as the last part, and at most three wildcards.\<close>

theorem ref_pattern_parse_accepts_iff:
  "(\<exists>p. ref_pattern_parse s = Inr p) \<longleftrightarrow>
     length s \<le> 256 \<and> is_prefix ''refs/'' s
     \<and> list_all valid_part (split_on (CHR ''/'') s)
     \<and> ''**'' \<notin> set (butlast (split_on (CHR ''/'') s))
     \<and> length (filter is_wildcard_part (split_on (CHR ''/'') s)) \<le> 3"
proof -
  let ?parts = "split_on (CHR ''/'') s"
  have "(\<exists>segs. parse_segments ?parts 0 [] = Inr segs) \<longleftrightarrow>
      list_all valid_part ?parts \<and> ''**'' \<notin> set (butlast ?parts)
      \<and> length (filter is_wildcard_part ?parts) \<le> 3"
    using parse_segments_sound [of ?parts 0 "[]"] parse_segments_complete [of ?parts 0 "[]"]
    by fastforce
  moreover have "(\<exists>p. ref_pattern_parse s = Inr p) \<longleftrightarrow>
      length s \<le> 256 \<and> is_prefix ''refs/'' s \<and> (\<exists>segs. parse_segments ?parts 0 [] = Inr segs)"
    by (auto simp: ref_pattern_parse_def MAX_PATTERN_LENGTH_def split: sum.splits)
  ultimately show ?thesis by blast
qed

text \<open>C25. A parsed pattern keeps its text (the segments print back to it) and matches a ref exactly as
  the grammar says: literals and \<open>*\<close> take one path segment each, a final \<open>**\<close> one or more. The
  matcher never reaches its unreachable arm.\<close>

theorem ref_pattern_matches_iff:
  assumes "ref_pattern_parse s = Inr p"
  shows "ref_pattern_matches p name =
           Some (pattern_spec (rp_segments p) (split_on (CHR ''/'') name))
    \<and> join_with (CHR ''/'') (map segment_text (rp_segments p)) = s \<and> ref_pattern_as_str p = s"
  using parsed_pattern [OF assms] by (simp add: ref_pattern_matches_spec ref_pattern_as_str_def)

theorem ref_pattern_matches_iff_witness:
  "ref_pattern_matches \<lparr>rp_raw = ''refs/*/v1'', rp_segments = [Literal ''refs'', Wildcard, Literal ''v1'']\<rparr>
     ''refs/tags/v1'' = Some True"
proof -
  have "ref_pattern_parse ''refs/*/v1'' =
      Inr \<lparr>rp_raw = ''refs/*/v1'', rp_segments = [Literal ''refs'', Wildcard, Literal ''v1'']\<rparr>"
    by code_simp
  from ref_pattern_matches_iff [OF this, of "''refs/tags/v1''"] show ?thesis by simp
qed

text \<open>A successful parse of an announcement's tags yields at most 50 rules, and no rule demands a
  role below member: \<open>push:bot\<close> and \<open>push:guest\<close> are refused, and several \<open>push:\<close> values of one tag
  keep the strictest.\<close>

theorem parse_protection_tags_bounds:
  assumes "parse_protection_tags tags = Inr pp"
  shows "length (pp_rules pp) \<le> 50
    \<and> list_all (\<lambda>r. case pr_push_role r of None \<Rightarrow> True | Some q \<Rightarrow> has_at_least q Member) (pp_rules pp)"
  using parsed_rules [OF assms]
  by (auto simp: MAX_PROTECTION_RULES_def grants_push_def has_at_least_iff list_all_iff
      split: option.splits)

theorem parse_protection_tags_bounds_witness:
  "length (pp_rules sample_protection) \<le> 50
   \<and> pr_push_role (pp_rules sample_protection ! 0) = Some Admin"
  using parse_protection_tags_bounds [OF sample_parses] by (simp add: sample_protection_def)

end
