(* ===== verification/Ifc.thy ===== *)
theory Ifc
  imports Maju_Prelude "HOL-Library.FSet"
begin

text \<open>
  Information-flow control, \<open>crates/ifc-core/src/lib.rs\<close>: reader sets, confidentiality labels, and
  the flow state of one computation boundary. A \<open>BTreeSet\<close> is a finite set.

  The \<open>flow_lattice\<close> contract says that flowing is a partial order with joins, meets and a least
  element; its lemmas are about folding joins. It is discharged for the reader sets of the code. The
  main result is that the flow state grants an egress exactly when every input it saw was labelled
  and may itself flow to the destination, for any sequence of inputs.
\<close>

section \<open>Reader sets and labels\<close>

datatype 'p reader_set = Everyone | Only "'p fset"

fun readers_can_flow_to :: "'p reader_set \<Rightarrow> 'p reader_set \<Rightarrow> bool" where
  "readers_can_flow_to Everyone _ = True"
| "readers_can_flow_to (Only _) Everyone = False"
| "readers_can_flow_to (Only source) (Only destination) = (destination |\<subseteq>| source)"

fun readers_join :: "'p reader_set \<Rightarrow> 'p reader_set \<Rightarrow> 'p reader_set" where
  "readers_join Everyone v = v"
| "readers_join v Everyone = v"
| "readers_join (Only left) (Only right) = Only (left |\<inter>| right)"

fun readers_meet :: "'p reader_set \<Rightarrow> 'p reader_set \<Rightarrow> 'p reader_set" where
  "readers_meet Everyone _ = Everyone"
| "readers_meet _ Everyone = Everyone"
| "readers_meet (Only left) (Only right) = Only (left |\<union>| right)"

fun explicit_readers :: "'p reader_set \<Rightarrow> 'p fset option" where
  "explicit_readers Everyone = None"
| "explicit_readers (Only readers) = Some readers"

definition explicit_count :: "'p reader_set \<Rightarrow> nat option" where
  "explicit_count r = map_option fcard (explicit_readers r)"

record ('u, 'p) confidentiality_label =
  cl_universe :: 'u
  cl_readers :: "'p reader_set"

datatype label_error = EmptyReaderSet | CrossUniverse

definition label_public :: "'u \<Rightarrow> ('u, 'p) confidentiality_label" where
  "label_public universe = \<lparr>cl_universe = universe, cl_readers = Everyone\<rparr>"

definition label_restricted ::
    "'u \<Rightarrow> 'p fset \<Rightarrow> label_error + ('u, 'p) confidentiality_label" where
  "label_restricted universe readers =
     (if readers = {||} then Inl EmptyReaderSet
      else Inr \<lparr>cl_universe = universe, cl_readers = Only readers\<rparr>)"

definition label_restricted_to :: "'u \<Rightarrow> 'p \<Rightarrow> ('u, 'p) confidentiality_label" where
  "label_restricted_to universe reader =
     \<lparr>cl_universe = universe, cl_readers = Only {|reader|}\<rparr>"

definition label_is_public :: "('u, 'p) confidentiality_label \<Rightarrow> bool" where
  "label_is_public l = (case cl_readers l of Everyone \<Rightarrow> True | Only _ \<Rightarrow> False)"

definition reader_count :: "('u, 'p) confidentiality_label \<Rightarrow> nat option" where
  "reader_count l = explicit_count (cl_readers l)"

definition label_can_flow_to ::
    "('u, 'p) confidentiality_label \<Rightarrow> ('u, 'p) confidentiality_label \<Rightarrow> bool" where
  "label_can_flow_to l destination \<longleftrightarrow>
     cl_universe l = cl_universe destination
     \<and> readers_can_flow_to (cl_readers l) (cl_readers destination)"

definition label_join ::
    "('u, 'p) confidentiality_label \<Rightarrow> ('u, 'p) confidentiality_label
     \<Rightarrow> label_error + ('u, 'p) confidentiality_label" where
  "label_join l other =
     (if cl_universe l \<noteq> cl_universe other then Inl CrossUniverse
      else Inr \<lparr>cl_universe = cl_universe l,
               cl_readers = readers_join (cl_readers l) (cl_readers other)\<rparr>)"

section \<open>Flow state\<close>

record ('u, 'p) flow_state =
  accumulated :: "('u, 'p) confidentiality_label option"
  unresolved_input :: bool

definition flow_default :: "('u, 'p) flow_state" where
  "flow_default = \<lparr>accumulated = None, unresolved_input = False\<rparr>"

definition observe ::
    "('u, 'p) confidentiality_label \<Rightarrow> ('u, 'p) flow_state \<Rightarrow> ('u, 'p) flow_state" where
  "observe label st =
     (case accumulated st of
        None \<Rightarrow> st\<lparr>accumulated := Some label\<rparr>
      | Some existing \<Rightarrow>
          (case label_join existing label of
             Inr combined \<Rightarrow> st\<lparr>accumulated := Some combined\<rparr>
           | Inl _ \<Rightarrow> st\<lparr>unresolved_input := True, accumulated := Some existing\<rparr>))"

definition mark_unknown :: "('u, 'p) flow_state \<Rightarrow> ('u, 'p) flow_state" where
  "mark_unknown st = st\<lparr>unresolved_input := True\<rparr>"

datatype egress_error = UnresolvedInput | DestinationUniverseMismatch | DestinationWidensReaders

definition check_egress ::
    "('u, 'p) flow_state \<Rightarrow> ('u, 'p) confidentiality_label \<Rightarrow> egress_error + unit" where
  "check_egress st destination =
     (if unresolved_input st then Inl UnresolvedInput
      else (case accumulated st of
              None \<Rightarrow> Inr ()
            | Some acc \<Rightarrow>
                if cl_universe acc \<noteq> cl_universe destination then Inl DestinationUniverseMismatch
                else if \<not> readers_can_flow_to (cl_readers acc) (cl_readers destination)
                then Inl DestinationWidensReaders
                else Inr ()))"

definition has_observed_input :: "('u, 'p) flow_state \<Rightarrow> bool" where
  "has_observed_input st = (accumulated st \<noteq> None)"

definition has_unresolved_input :: "('u, 'p) flow_state \<Rightarrow> bool" where
  "has_unresolved_input st = unresolved_input st"

record ('u, 'p) flow_snapshot =
  fs_accumulated :: "('u, 'p) confidentiality_label option"
  fs_unresolved_input :: bool

definition snapshot :: "('u, 'p) flow_state \<Rightarrow> ('u, 'p) flow_snapshot" where
  "snapshot st = \<lparr>fs_accumulated = accumulated st, fs_unresolved_input = unresolved_input st\<rparr>"

section \<open>The lattice contract\<close>

locale flow_lattice =
  fixes flows :: "'r \<Rightarrow> 'r \<Rightarrow> bool"
    and join :: "'r \<Rightarrow> 'r \<Rightarrow> 'r"
    and meet :: "'r \<Rightarrow> 'r \<Rightarrow> 'r"
    and public :: 'r
  assumes flows_refl: "flows a a"
    and flows_trans: "flows a b \<Longrightarrow> flows b c \<Longrightarrow> flows a c"
    and flows_antisym: "flows a b \<Longrightarrow> flows b a \<Longrightarrow> a = b"
    and join_flows_iff: "flows (join a b) c \<longleftrightarrow> flows a c \<and> flows b c"
    and flows_meet_iff: "flows c (meet a b) \<longleftrightarrow> flows c a \<and> flows c b"
    and public_flows: "flows public a"
begin

lemma join_upper: "flows a (join a b)" "flows b (join a b)"
  using join_flows_iff flows_refl by blast+

lemma meet_lower: "flows (meet a b) a" "flows (meet a b) b"
  using flows_meet_iff flows_refl by blast+

lemma join_commute: "join a b = join b a"
  by (rule flows_antisym) (simp_all add: join_flows_iff join_upper)

lemma join_assoc: "join (join a b) c = join a (join b c)"
  by (rule flows_antisym) (meson join_flows_iff join_upper flows_trans)+

lemma join_public: "join public a = a"
  by (rule flows_antisym) (auto simp: join_flows_iff join_upper public_flows flows_refl)

lemma absorb: "join a (meet a b) = a" "meet a (join a b) = a"
  by (rule flows_antisym; simp add: join_flows_iff flows_meet_iff join_upper meet_lower flows_refl)+

lemma fold_join_flows: "flows (fold join ls a) d \<longleftrightarrow> flows a d \<and> (\<forall>l \<in> set ls. flows l d)"
  by (induction ls arbitrary: a) (auto simp: join_flows_iff)

end

lemma readers_join_flows_iff:
  "readers_can_flow_to (readers_join a b) c \<longleftrightarrow> readers_can_flow_to a c \<and> readers_can_flow_to b c"
  by (cases a; cases b; cases c) auto

lemma flows_readers_meet_iff:
  "readers_can_flow_to c (readers_meet a b) \<longleftrightarrow> readers_can_flow_to c a \<and> readers_can_flow_to c b"
  by (cases a; cases b; cases c) auto

lemma readers_flow_trans:
  "readers_can_flow_to a b \<Longrightarrow> readers_can_flow_to b c \<Longrightarrow> readers_can_flow_to a c"
  by (cases a; cases b; cases c) auto

lemma readers_flow_antisym:
  "readers_can_flow_to a b \<Longrightarrow> readers_can_flow_to b a \<Longrightarrow> a = b"
  by (cases a; cases b) auto

interpretation rs: flow_lattice readers_can_flow_to readers_join readers_meet Everyone
proof
  show "readers_can_flow_to a a" for a :: "'p reader_set" by (cases a) auto
qed (auto simp: readers_join_flows_iff flows_readers_meet_iff intro: readers_flow_trans
    readers_flow_antisym)

section \<open>Sequences of inputs\<close>

datatype ('u, 'p) input = Labelled "('u, 'p) confidentiality_label" | Unknown

fun admit :: "('u, 'p) input \<Rightarrow> ('u, 'p) flow_state \<Rightarrow> ('u, 'p) flow_state" where
  "admit (Labelled l) st = observe l st"
| "admit Unknown st = mark_unknown st"

definition flow_after :: "('u, 'p) input list \<Rightarrow> ('u, 'p) flow_state" where
  "flow_after inputs = fold admit inputs flow_default"

lemma check_egress_observe:
  "check_egress (observe l st) d = Inr () \<longleftrightarrow> check_egress st d = Inr () \<and> label_can_flow_to l d"
  by (cases "accumulated st")
     (auto simp: check_egress_def observe_def label_can_flow_to_def label_join_def
       readers_join_flows_iff)

lemma check_egress_unknown: "check_egress (mark_unknown st) d \<noteq> Inr ()"
  by (simp add: check_egress_def mark_unknown_def)

lemma check_egress_fold:
  "check_egress (fold admit inputs st) d = Inr () \<longleftrightarrow>
     check_egress st d = Inr () \<and> Unknown \<notin> set inputs
     \<and> list_all (\<lambda>i. case i of Labelled l \<Rightarrow> label_can_flow_to l d | Unknown \<Rightarrow> False) inputs"
proof (induction inputs arbitrary: st)
  case (Cons i inputs)
  then show ?case
    by (cases i) (auto simp: check_egress_observe check_egress_unknown)
qed simp

lemma observe_mono:
  "unresolved_input st \<Longrightarrow> unresolved_input (admit i st)"
  by (cases i) (auto simp: observe_def mark_unknown_def split: option.splits sum.splits)

lemma unresolved_fold: "unresolved_input st \<Longrightarrow> unresolved_input (fold admit inputs st)"
  by (induction inputs arbitrary: st) (auto simp: observe_mono)

section \<open>Properties\<close>

text \<open>The flow state allows egress to a destination exactly when no input was unknown and every
  labelled input, taken alone, may flow to that destination: joining labels as they arrive loses
  nothing, admits nothing more, and does not depend on the order of the inputs.\<close>

theorem check_egress_iff:
  "check_egress (flow_after inputs) d = Inr () \<longleftrightarrow>
     list_all (\<lambda>i. case i of Labelled l \<Rightarrow> label_can_flow_to l d | Unknown \<Rightarrow> False) inputs"
proof -
  have "check_egress flow_default d = Inr ()" by (simp add: check_egress_def flow_default_def)
  then show ?thesis by (auto simp: flow_after_def check_egress_fold list_all_iff)
qed



text \<open>Reader sets form a lattice under flow: flow is a partial order with public information at
  the bottom, the join is the least label above two inputs (its readers may read both), the meet the
  greatest below, and join is associative, commutative and absorbs the meet.\<close>

theorem reader_sets_lattice:
  "(readers_can_flow_to (readers_join a b) c \<longleftrightarrow> readers_can_flow_to a c \<and> readers_can_flow_to b c)
   \<and> (readers_can_flow_to c (readers_meet a b) \<longleftrightarrow> readers_can_flow_to c a \<and> readers_can_flow_to c b)
   \<and> (readers_can_flow_to a b \<and> readers_can_flow_to b a \<longleftrightarrow> a = b)
   \<and> readers_join (readers_join a b) c = readers_join a (readers_join b c)
   \<and> readers_join a b = readers_join b a
   \<and> readers_join a (readers_meet a b) = a \<and> readers_meet a (readers_join a b) = a
   \<and> readers_can_flow_to Everyone a"
  using rs.flows_antisym [of a b] rs.flows_refl [of a] rs.join_commute [of a b]
    rs.join_assoc [of a b c] rs.absorb [of a b]
  unfolding rs.join_flows_iff rs.flows_meet_iff by auto

end
