(* ===== verification/Audit_Log.thy ===== *)
theory Audit_Log
  imports Maju_Prelude "HOL-Library.List_Lexorder" "HOL-Library.Char_ord"
begin

text \<open>
  The per-community hash-chain audit log, \<open>crates/maju-audit/src\<close>: actions (\<open>action.rs\<close>), entries
  (\<open>entry.rs\<close>), the hash of an entry and canonical JSON (\<open>hash.rs\<close>), appending, verifying and reading
  a chain (\<open>service.rs\<close>).

  The table \<open>audit_log\<close> is the list of its rows; the SQL statements of the service are selections
  from it, and an insert fails on the primary key \<open>(community_id, seq)\<close> or the unique index
  \<open>(community_id, hash)\<close>. The advisory lock makes an append atomic, which is how it is modelled.
  SHA-256, the rendering of timestamps and of JSON scalars, and the bytes of a UUID belong to other
  crates: they are fields of the parameter record \<open>audit_env\<close>.

  What is shown: logs built by appending verify over every range, the chain of each community is
  numbered without gaps and linked, two verified segments that end in the same hash agree on every
  hashed preimage unless SHA-256 collides, and (a finding) the preimage does not determine the entry.
\<close>

section \<open>Actions\<close>

datatype audit_action =
    EventCreated | EventDeleted | ChannelCreated | ChannelUpdated | ChannelDeleted
  | MemberAdded | MemberRemoved | AuthSuccess | AuthFailure | RateLimitExceeded | MediaUploaded

fun action_as_str :: "audit_action \<Rightarrow> string" where
  "action_as_str EventCreated = ''event_created''"
| "action_as_str EventDeleted = ''event_deleted''"
| "action_as_str ChannelCreated = ''channel_created''"
| "action_as_str ChannelUpdated = ''channel_updated''"
| "action_as_str ChannelDeleted = ''channel_deleted''"
| "action_as_str MemberAdded = ''member_added''"
| "action_as_str MemberRemoved = ''member_removed''"
| "action_as_str AuthSuccess = ''auth_success''"
| "action_as_str AuthFailure = ''auth_failure''"
| "action_as_str RateLimitExceeded = ''rate_limit_exceeded''"
| "action_as_str MediaUploaded = ''media_uploaded''"

definition ACTION_ALL :: "audit_action list" where
  "ACTION_ALL =
     [EventCreated, EventDeleted, ChannelCreated, ChannelUpdated, ChannelDeleted, MemberAdded,
      MemberRemoved, AuthSuccess, AuthFailure, RateLimitExceeded, MediaUploaded]"

definition action_from_str :: "string \<Rightarrow> string + audit_action" where
  "action_from_str s =
     (case List.find (\<lambda>a. action_as_str a = s) ACTION_ALL of
        Some a \<Rightarrow> Inr a
      | None \<Rightarrow> Inl s)"

section \<open>Entries\<close>

text \<open>\<open>JNumber\<close> stands for any \<open>serde_json\<close> number, named by its text.\<close>

datatype json =
    JNull | JBool bool | JNumber string | JString string | JArray "json list"
  | JObject "(string \<times> json) list"

record audit_entry =
  ae_community_id :: uuid
  ae_seq :: int
  ae_hash :: bytes
  ae_prev_hash :: "bytes option"
  ae_action :: audit_action
  ae_actor_pubkey :: "bytes option"
  ae_object_id :: "string option"
  ae_detail :: json
  ae_created_at :: int

record new_audit_entry =
  ne_community_id :: uuid
  ne_action :: audit_action
  ne_actor_pubkey :: "bytes option"
  ne_object_id :: "string option"
  ne_detail :: json

text \<open>A row of \<open>audit_log\<close>: an entry whose action is the stored text.\<close>

record audit_row =
  ar_community_id :: uuid
  ar_seq :: int
  ar_hash :: bytes
  ar_prev_hash :: "bytes option"
  ar_action :: string
  ar_actor_pubkey :: "bytes option"
  ar_object_id :: "string option"
  ar_detail :: json
  ar_created_at :: int

datatype audit_error =
    Database | ChainViolation int | HashMismatch int | UnknownAction | Serialization

section \<open>Hashing\<close>

text \<open>
  \<open>env_trunc6\<close> is \<open>trunc_subsecs(6)\<close>, \<open>env_rfc3339\<close> is \<open>to_rfc3339\<close>, \<open>env_scalar\<close> is
  \<open>serde_json::to_string\<close> of a value and \<open>env_key\<close> of a string; \<open>None\<close> is a serialization failure.
  \<open>env_timestamptz\<close> is what a \<open>TIMESTAMPTZ\<close> column returns for a stored instant.
\<close>

record audit_env =
  env_sha256 :: "bytes \<Rightarrow> bytes"
  env_uuid_bytes :: "uuid \<Rightarrow> bytes"
  env_trunc6 :: "int \<Rightarrow> int"
  env_rfc3339 :: "int \<Rightarrow> string"
  env_scalar :: "json \<Rightarrow> string option"
  env_key :: "string \<Rightarrow> string option"
  env_timestamptz :: "int \<Rightarrow> int"

definition GENESIS_HASH :: bytes where
  "GENESIS_HASH = replicate 32 0"

definition to_storage_precision :: "audit_env \<Rightarrow> int \<Rightarrow> int" where
  "to_storage_precision env created_at = env_trunc6 env created_at"

definition log_timestamp :: "audit_env \<Rightarrow> int \<Rightarrow> int" where
  "log_timestamp env now = to_storage_precision env now"

definition str_bytes :: "string \<Rightarrow> bytes" where
  "str_bytes s = map (\<lambda>c. of_char c) s"

definition i64_be_bytes :: "int \<Rightarrow> bytes" where
  "i64_be_bytes n = map (\<lambda>i. word_of_int (n div 2 ^ (8 * (7 - i)))) [0..<8]"

fun comma_separated :: "string option list \<Rightarrow> string option" where
  "comma_separated [] = Some []"
| "comma_separated [x] = x"
| "comma_separated (x # y # ys) =
     (case x of
        None \<Rightarrow> None
      | Some s \<Rightarrow> map_option (\<lambda>t. s @ '','' @ t) (comma_separated (y # ys)))"

lemma size_json_member [termination_simp]: "(k, v) \<in> set kvs \<Longrightarrow> size v < Suc (size_list (size_prod (\<lambda>_. 0) size) kvs)"
  by (induction kvs) auto

function canonical_json :: "audit_env \<Rightarrow> json \<Rightarrow> string option" where
  "canonical_json env (JObject kvs) =
     map_option (\<lambda>s. ''{'' @ s @ ''}'')
       (comma_separated
         (map (\<lambda>(k, member).
             (case env_key env k of
                None \<Rightarrow> None
              | Some ks \<Rightarrow> map_option (\<lambda>vs. ks @ '':'' @ vs) member))
           (sort_key fst (map (\<lambda>(k, v). (k, canonical_json env v)) kvs))))"
| "canonical_json env (JArray arr) =
     map_option (\<lambda>s. [CHR 0x5B] @ s @ [CHR 0x5D]) (comma_separated (map (canonical_json env) arr))"
| "canonical_json env JNull = env_scalar env JNull"
| "canonical_json env (JBool b) = env_scalar env (JBool b)"
| "canonical_json env (JNumber n) = env_scalar env (JNumber n)"
| "canonical_json env (JString s) = env_scalar env (JString s)"
  by pat_completeness auto

termination
  by (relation "measure (\<lambda>(env, j). size j)") (auto simp: size_json_member less_Suc_eq_le size_list_estimation')

definition optional_field :: "bytes option \<Rightarrow> bytes" where
  "optional_field x = (case x of Some b \<Rightarrow> 1 # b | None \<Rightarrow> [0])"

text \<open>The bytes fed to the hasher, in order.\<close>

definition hash_preimage :: "audit_env \<Rightarrow> audit_entry \<Rightarrow> bytes option" where
  "hash_preimage env e =
     map_option (\<lambda>detail.
       env_uuid_bytes env (ae_community_id e)
       @ i64_be_bytes (ae_seq e)
       @ str_bytes (env_rfc3339 env (to_storage_precision env (ae_created_at e)))
       @ str_bytes (action_as_str (ae_action e))
       @ optional_field (ae_actor_pubkey e)
       @ optional_field (map_option str_bytes (ae_object_id e))
       @ str_bytes detail
       @ (case ae_prev_hash e of Some h \<Rightarrow> h | None \<Rightarrow> GENESIS_HASH))
     (canonical_json env (ae_detail e))"

definition compute_hash :: "audit_env \<Rightarrow> audit_entry \<Rightarrow> audit_error + bytes" where
  "compute_hash env e =
     (case hash_preimage env e of
        None \<Rightarrow> Inl Serialization
      | Some p \<Rightarrow> Inr (env_sha256 env p))"

section \<open>The service\<close>

definition row_to_audit_entry :: "audit_row \<Rightarrow> audit_error + audit_entry" where
  "row_to_audit_entry row =
     (case action_from_str (ar_action row) of
        Inl _ \<Rightarrow> Inl UnknownAction
      | Inr action \<Rightarrow>
          Inr \<lparr>ae_community_id = ar_community_id row, ae_seq = ar_seq row, ae_hash = ar_hash row,
               ae_prev_hash = ar_prev_hash row, ae_action = action,
               ae_actor_pubkey = ar_actor_pubkey row, ae_object_id = ar_object_id row,
               ae_detail = ar_detail row, ae_created_at = ar_created_at row\<rparr>)"

definition audit_entry_row :: "audit_env \<Rightarrow> audit_entry \<Rightarrow> audit_row" where
  "audit_entry_row env e =
     \<lparr>ar_community_id = ae_community_id e, ar_seq = ae_seq e, ar_hash = ae_hash e,
      ar_prev_hash = ae_prev_hash e, ar_action = action_as_str (ae_action e),
      ar_actor_pubkey = ae_actor_pubkey e, ar_object_id = ae_object_id e,
      ar_detail = ae_detail e, ar_created_at = env_timestamptz env (ae_created_at e)\<rparr>"

text \<open>\<open>SELECT .. WHERE community_id = $1 ORDER BY seq DESC LIMIT 1\<close>.\<close>

definition chain_head :: "uuid \<Rightarrow> audit_row list \<Rightarrow> audit_row option" where
  "chain_head community_id rows =
     (case sort_key (\<lambda>r. - ar_seq r) (filter (\<lambda>r. ar_community_id r = community_id) rows) of
        [] \<Rightarrow> None
      | r # _ \<Rightarrow> Some r)"

definition insert_conflict :: "audit_row \<Rightarrow> audit_row list \<Rightarrow> bool" where
  "insert_conflict row rows =
     list_ex (\<lambda>r. ar_community_id r = ar_community_id row
                  \<and> (ar_seq r = ar_seq row \<or> ar_hash r = ar_hash row)) rows"

definition log_inner ::
    "audit_env \<Rightarrow> int \<Rightarrow> new_audit_entry \<Rightarrow> audit_row list
     \<Rightarrow> audit_row list \<times> (audit_error + audit_entry)" where
  "log_inner env now entry rows =
     (let community_id = ne_community_id entry;
          (prev_seq, prev_hash) =
            (case chain_head community_id rows of
               Some row \<Rightarrow> (ar_seq row, Some (ar_hash row))
             | None \<Rightarrow> (0, None));
          audit_entry =
            \<lparr>ae_community_id = community_id, ae_seq = prev_seq + 1, ae_hash = [],
             ae_prev_hash = prev_hash, ae_action = ne_action entry,
             ae_actor_pubkey = ne_actor_pubkey entry, ae_object_id = ne_object_id entry,
             ae_detail = ne_detail entry, ae_created_at = log_timestamp env now\<rparr>
      in case compute_hash env audit_entry of
           Inl e \<Rightarrow> (rows, Inl e)
         | Inr h \<Rightarrow>
             (let audit_entry = audit_entry\<lparr>ae_hash := h\<rparr>; row = audit_entry_row env audit_entry in
              if insert_conflict row rows then (rows, Inl Database)
              else (rows @ [row], Inr audit_entry)))"

fun verify_loop ::
    "audit_env \<Rightarrow> audit_row list \<Rightarrow> bytes option \<Rightarrow> audit_error + bool" where
  "verify_loop env [] expected_prev = Inr True"
| "verify_loop env (row # rows) expected_prev =
     (case row_to_audit_entry row of
        Inl e \<Rightarrow> Inl e
      | Inr entry \<Rightarrow>
          if (case expected_prev of
                Some expected \<Rightarrow> ae_prev_hash entry \<noteq> Some expected
              | None \<Rightarrow> False)
          then Inl (ChainViolation (ae_seq entry))
          else (case compute_hash env entry of
                  Inl e \<Rightarrow> Inl e
                | Inr computed \<Rightarrow>
                    if computed \<noteq> ae_hash entry then Inl (HashMismatch (ae_seq entry))
                    else verify_loop env rows (Some (ae_hash entry))))"

definition select_range :: "uuid \<Rightarrow> int \<Rightarrow> int \<Rightarrow> audit_row list \<Rightarrow> audit_row list" where
  "select_range community from_seq to_seq rows =
     sort_key ar_seq
       (filter (\<lambda>r. ar_community_id r = community \<and> from_seq \<le> ar_seq r \<and> ar_seq r \<le> to_seq) rows)"

definition verify_chain ::
    "audit_env \<Rightarrow> uuid \<Rightarrow> int \<Rightarrow> int \<Rightarrow> audit_row list \<Rightarrow> audit_error + bool" where
  "verify_chain env community from_seq to_seq table =
     (let rows = select_range community from_seq to_seq table in
      if rows = [] then Inr False else verify_loop env rows None)"

fun collect_entries :: "audit_row list \<Rightarrow> audit_error + audit_entry list" where
  "collect_entries [] = Inr []"
| "collect_entries (r # rs) =
     (case row_to_audit_entry r of
        Inl e \<Rightarrow> Inl e
      | Inr x \<Rightarrow> (case collect_entries rs of Inl e \<Rightarrow> Inl e | Inr xs \<Rightarrow> Inr (x # xs)))"

text \<open>Postgres refuses a negative \<open>LIMIT\<close>.\<close>

definition get_entries ::
    "uuid \<Rightarrow> int \<Rightarrow> int \<Rightarrow> audit_row list \<Rightarrow> audit_error + audit_entry list" where
  "get_entries community from_seq limit table =
     (if limit < 0 then Inl Database
      else collect_entries
        (take (nat limit)
          (sort_key ar_seq
            (filter (\<lambda>r. ar_community_id r = community \<and> from_seq \<le> ar_seq r) table))))"

section \<open>Chains\<close>

text \<open>The column type keeps what the code has already cut to its precision.\<close>

definition timestamps_ok :: "audit_env \<Rightarrow> bool" where
  "timestamps_ok env \<longleftrightarrow> (\<forall>t. env_timestamptz env (env_trunc6 env t) = env_trunc6 env t)"

definition row_hash_ok :: "audit_env \<Rightarrow> audit_row \<Rightarrow> bool" where
  "row_hash_ok env r \<longleftrightarrow>
     (\<exists>e. row_to_audit_entry r = Inr e \<and> compute_hash env e = Inr (ar_hash r))"

fun chain_from :: "audit_env \<Rightarrow> int \<Rightarrow> bytes option \<Rightarrow> audit_row list \<Rightarrow> bool" where
  "chain_from env n prev [] = True"
| "chain_from env n prev (r # rs) \<longleftrightarrow>
     ar_seq r = n \<and> ar_prev_hash r = prev \<and> row_hash_ok env r
     \<and> chain_from env (n + 1) (Some (ar_hash r)) rs"

abbreviation chain_of :: "uuid \<Rightarrow> audit_row list \<Rightarrow> audit_row list" where
  "chain_of c rows \<equiv> filter (\<lambda>r. ar_community_id r = c) rows"

definition audit_inv :: "audit_env \<Rightarrow> audit_row list \<Rightarrow> bool" where
  "audit_inv env rows \<longleftrightarrow> (\<forall>c. chain_from env 1 None (chain_of c rows))"

lemma action_from_str_iff: "action_from_str s = Inr a \<longleftrightarrow> s = action_as_str a"
proof
  assume "action_from_str s = Inr a"
  then show "s = action_as_str a"
    by (auto simp: action_from_str_def find_Some_iff split: option.splits)
next
  assume "s = action_as_str a"
  then show "action_from_str s = Inr a"
    by (cases a) (simp_all add: action_from_str_def ACTION_ALL_def)
qed

lemma row_to_audit_entry_fields:
  assumes "row_to_audit_entry r = Inr e"
  shows "ae_seq e = ar_seq r" "ae_hash e = ar_hash r" "ae_prev_hash e = ar_prev_hash r"
  using assms by (auto simp: row_to_audit_entry_def split: sum.splits)

lemma row_roundtrip:
  assumes "env_timestamptz env (ae_created_at e) = ae_created_at e"
  shows "row_to_audit_entry (audit_entry_row env e) = Inr e"
proof -
  have "action_from_str (action_as_str (ae_action e)) = Inr (ae_action e)"
    by (simp add: action_from_str_iff)
  with assms show ?thesis by (simp add: row_to_audit_entry_def audit_entry_row_def)
qed

lemma compute_hash_ignores_hash: "compute_hash env (e\<lparr>ae_hash := h\<rparr>) = compute_hash env e"
  by (simp add: compute_hash_def hash_preimage_def)

lemma chain_from_snoc:
  "chain_from env n prev (rs @ [r]) \<longleftrightarrow>
     chain_from env n prev rs \<and> ar_seq r = n + int (length rs) \<and> row_hash_ok env r
     \<and> ar_prev_hash r = (if rs = [] then prev else Some (ar_hash (last rs)))"
  by (induction rs arbitrary: n prev) auto

lemma chain_from_seqs:
  "chain_from env n prev rs \<Longrightarrow> (\<forall>r \<in> set rs. n \<le> ar_seq r) \<and> sorted_wrt (<) (map ar_seq rs)"
  by (induction rs arbitrary: n prev) (fastforce+)

lemma chain_from_sorted:
  "chain_from env n prev rs \<Longrightarrow> sorted (map ar_seq rs) \<and> distinct (map ar_seq rs)"
  using chain_from_seqs strict_sorted_iff by blast

lemma chain_head_last:
  assumes "chain_from env n prev (chain_of c rows)"
  shows "chain_head c rows = (if chain_of c rows = [] then None else Some (last (chain_of c rows)))"
proof -
  let ?rs = "chain_of c rows"
  note sd = chain_from_sorted [OF assms]
  have "sort_key (\<lambda>r. - ar_seq r) ?rs = rev ?rs"
  proof (rule sort_key_inj_key_eq)
    show "inj_on (\<lambda>r. - ar_seq r) (set ?rs)" using sd by (auto simp: distinct_map inj_on_def)
    show "sorted (map (\<lambda>r. - ar_seq r) (rev ?rs))"
      using sd by (simp add: sorted_iff_nth_mono rev_nth)
  qed simp
  then show ?thesis
    by (cases ?rs rule: rev_cases) (simp_all add: chain_head_def)
qed

section \<open>Appending\<close>

lemma log_inner_cases:
  obtains err where "log_inner env now x rows = (rows, Inl err)"
  | e where "log_inner env now x rows = (rows @ [audit_entry_row env e], Inr e)"
      and "ae_community_id e = ne_community_id x" and "ae_created_at e = log_timestamp env now"
      and "compute_hash env e = Inr (ae_hash e)"
      and "ae_seq e = (case chain_head (ne_community_id x) rows of None \<Rightarrow> 1 | Some r \<Rightarrow> ar_seq r + 1)"
      and "ae_prev_hash e = map_option ar_hash (chain_head (ne_community_id x) rows)"
proof -
  let ?c = "ne_community_id x"
  define e where "e =
    \<lparr>ae_community_id = ?c,
     ae_seq = (case chain_head ?c rows of None \<Rightarrow> 1 | Some r \<Rightarrow> ar_seq r + 1), ae_hash = [],
     ae_prev_hash = map_option ar_hash (chain_head ?c rows), ae_action = ne_action x,
     ae_actor_pubkey = ne_actor_pubkey x, ae_object_id = ne_object_id x,
     ae_detail = ne_detail x, ae_created_at = log_timestamp env now\<rparr>"
  have fields: "ae_community_id e = ?c" "ae_created_at e = log_timestamp env now"
    "ae_seq e = (case chain_head ?c rows of None \<Rightarrow> 1 | Some r \<Rightarrow> ar_seq r + 1)"
    "ae_prev_hash e = map_option ar_hash (chain_head ?c rows)"
    by (simp_all add: e_def)
  have log: "log_inner env now x rows =
      (case compute_hash env e of
         Inl err \<Rightarrow> (rows, Inl err)
       | Inr h \<Rightarrow> if insert_conflict (audit_entry_row env (e\<lparr>ae_hash := h\<rparr>)) rows
                 then (rows, Inl Database)
                 else (rows @ [audit_entry_row env (e\<lparr>ae_hash := h\<rparr>)], Inr (e\<lparr>ae_hash := h\<rparr>)))"
    by (cases "chain_head ?c rows") (auto simp: log_inner_def Let_def e_def split: sum.split)
  show thesis
  proof (cases "compute_hash env e")
    case (Inl err)
    then show thesis using log that(1) by simp
  next
    case (Inr h)
    show thesis
    proof (cases "insert_conflict (audit_entry_row env (e\<lparr>ae_hash := h\<rparr>)) rows")
      case True
      then show thesis using log Inr that(1) by simp
    next
      case False
      show thesis
        by (rule that(2) [of "e\<lparr>ae_hash := h\<rparr>"])
           (use log Inr False in \<open>simp_all add: compute_hash_ignores_hash fields\<close>)
    qed
  qed
qed

lemma log_inner_inv:
  assumes ts: "timestamps_ok env" and inv: "audit_inv env rows"
  shows "audit_inv env (fst (log_inner env now x rows))"
proof (cases rule: log_inner_cases [of env now x rows])
  case (1 err)
  then show ?thesis using inv by simp
next
  case (2 e)
  let ?c = "ne_community_id x" and ?r = "audit_entry_row env e"
  have chain: "chain_from env 1 None (chain_of ?c rows)" using inv by (simp add: audit_inv_def)
  have "row_to_audit_entry ?r = Inr e"
    using ts 2(3) by (simp add: row_roundtrip timestamps_ok_def log_timestamp_def to_storage_precision_def)
  then have "row_hash_ok env ?r"
    using 2(4) by (auto simp: row_hash_ok_def audit_entry_row_def)
  moreover have "ar_seq ?r = 1 + int (length (chain_of ?c rows))"
  proof (cases "chain_of ?c rows" rule: rev_cases)
    case Nil
    then show ?thesis using 2(5) chain_head_last [OF chain] by (simp add: audit_entry_row_def)
  next
    case (snoc rs r)
    then have "ar_seq r = 1 + int (length rs)" using chain by (simp add: chain_from_snoc)
    then show ?thesis using 2(5) chain_head_last [OF chain] snoc by (simp add: audit_entry_row_def)
  qed
  moreover have "ar_prev_hash ?r =
      (if chain_of ?c rows = [] then None else Some (ar_hash (last (chain_of ?c rows))))"
    using 2(6) chain_head_last [OF chain] by (simp add: audit_entry_row_def)
  ultimately have new: "chain_from env 1 None (chain_of ?c rows @ [?r])"
    using chain by (simp add: chain_from_snoc)
  have "chain_of c (rows @ [?r]) = (if c = ?c then chain_of ?c rows @ [?r] else chain_of c rows)" for c
    using 2(2) by (simp add: audit_entry_row_def)
  then show ?thesis using new inv 2(1) by (simp add: audit_inv_def)
qed

inductive audit_reachable :: "audit_env \<Rightarrow> audit_row list \<Rightarrow> bool" for env where
  empty_log: "audit_reachable env []"
| log_step: "audit_reachable env rows \<Longrightarrow> audit_reachable env (fst (log_inner env now x rows))"

lemma reachable_audit_inv:
  "audit_reachable env rows \<Longrightarrow> timestamps_ok env \<Longrightarrow> audit_inv env rows"
  by (induction rule: audit_reachable.induct) (simp_all add: audit_inv_def [of _ "[]"] log_inner_inv)

section \<open>Verifying\<close>

definition links :: "bytes option \<Rightarrow> audit_row \<Rightarrow> bool" where
  "links expected r = (case expected of None \<Rightarrow> True | Some h \<Rightarrow> ar_prev_hash r = Some h)"

lemma verify_loop_Cons:
  "verify_loop env (r # rs) expected = Inr True \<longleftrightarrow>
     row_hash_ok env r \<and> links expected r \<and> verify_loop env rs (Some (ar_hash r)) = Inr True"
  by (auto simp: row_hash_ok_def links_def row_to_audit_entry_fields split: sum.splits option.splits)

lemma verify_loop_snoc:
  "verify_loop env (rs @ [r]) expected = Inr True \<longleftrightarrow>
     verify_loop env rs expected = Inr True \<and> row_hash_ok env r
     \<and> links (if rs = [] then expected else Some (ar_hash (last rs))) r"
  by (induction rs arbitrary: expected) (auto simp: verify_loop_Cons simp del: verify_loop.simps(2))

lemma verify_range_of_chain:
  "chain_from env n prev rs \<Longrightarrow> expected = None \<or> (expected = prev \<and> a \<le> n) \<Longrightarrow>
   verify_loop env (filter (\<lambda>r. a \<le> ar_seq r \<and> ar_seq r \<le> b) rs) expected = Inr True"
proof (induction rs arbitrary: n prev expected)
  case (Cons r rs)
  show ?case
  proof (cases "n \<le> b")
    case True
    then show ?thesis
      using Cons.prems Cons.IH [of "n + 1" "Some (ar_hash r)"]
      by (auto simp: verify_loop_Cons links_def simp del: verify_loop.simps(2) split: option.splits)
  next
    case False
    then have "filter (\<lambda>r. a \<le> ar_seq r \<and> ar_seq r \<le> b) (r # rs) = []"
      using Cons.prems(1) chain_from_seqs [of env n prev "r # rs"] by (fastforce simp: filter_empty_conv)
    then show ?thesis by simp
  qed
qed simp

lemma select_range_chain:
  assumes "chain_from env n prev (chain_of c rows)"
  shows "select_range c a b rows = filter (\<lambda>r. a \<le> ar_seq r \<and> ar_seq r \<le> b) (chain_of c rows)"
proof -
  have eq: "filter (\<lambda>r. ar_community_id r = c \<and> a \<le> ar_seq r \<and> ar_seq r \<le> b) rows
      = filter (\<lambda>r. a \<le> ar_seq r \<and> ar_seq r \<le> b) (chain_of c rows)"
    by (simp add: conj_commute conj_left_commute)
  show ?thesis
    unfolding select_range_def eq using chain_from_sorted [OF assms]
    by - (rule sort_key_id_if_sorted, rule sorted_filter, simp)
qed

section \<open>Tamper evidence\<close>

definition row_preimage :: "audit_env \<Rightarrow> audit_row \<Rightarrow> bytes option" where
  "row_preimage env r = (case row_to_audit_entry r of Inl _ \<Rightarrow> None | Inr e \<Rightarrow> hash_preimage env e)"

lemma row_hash_ok_preimage:
  "row_hash_ok env r \<longleftrightarrow> (\<exists>p. row_preimage env r = Some p \<and> env_sha256 env p = ar_hash r)"
  by (auto simp: row_hash_ok_def row_preimage_def compute_hash_def split: sum.splits option.splits)

lemma preimage_suffix:
  assumes "row_preimage env r = Some p" and "ar_prev_hash r = Some h"
  shows "\<exists>q. p = q @ h"
  using assms row_to_audit_entry_fields(3)
  by (fastforce simp: row_preimage_def hash_preimage_def split: sum.splits)

lemma verified_segments_agree:
  assumes inj: "inj (env_sha256 env)" and len: "\<forall>x. length (env_sha256 env x) = 32"
  shows "length rs = length rs' \<Longrightarrow> rs \<noteq> [] \<Longrightarrow>
    verify_loop env rs None = Inr True \<Longrightarrow> verify_loop env rs' None = Inr True \<Longrightarrow>
    ar_hash (last rs) = ar_hash (last rs') \<Longrightarrow>
    map (row_preimage env) rs = map (row_preimage env) rs'"
proof (induction rs arbitrary: rs' rule: rev_induct)
  case (snoc r rs)
  then obtain r' us where rs': "rs' = us @ [r']" by (cases rs' rule: rev_cases) auto
  from snoc.prems(3,4) obtain p p' where p: "row_preimage env r = Some p" "env_sha256 env p = ar_hash r"
    and p': "row_preimage env r' = Some p'" "env_sha256 env p' = ar_hash r'"
    by (auto simp: rs' verify_loop_snoc row_hash_ok_preimage)
  have "ar_hash r = ar_hash r'" using snoc.prems(5) by (simp add: rs')
  then have eq: "p = p'" using p(2) p'(2) injD [OF inj] by metis
  show ?case
  proof (cases "rs = []")
    case True
    then show ?thesis using snoc.prems(1) p p' eq by (auto simp: rs')
  next
    case False
    have us: "us \<noteq> []" "length rs = length us" using False snoc.prems(1) by (auto simp: rs')
    let ?h = "ar_hash (last rs)" and ?h' = "ar_hash (last us)"
    have v: "verify_loop env rs None = Inr True" "verify_loop env us None = Inr True"
      and l: "ar_prev_hash r = Some ?h" "ar_prev_hash r' = Some ?h'"
      using snoc.prems(3,4) False us(1) by (auto simp: rs' verify_loop_snoc links_def)
    have h32: "length (ar_hash (last xs)) = 32"
      if "verify_loop env xs None = Inr True" "xs \<noteq> []" for xs
    proof -
      have "row_hash_ok env (last xs)"
        using that by (cases xs rule: rev_cases) (simp_all add: verify_loop_snoc)
      then show ?thesis using len by (metis row_hash_ok_preimage)
    qed
    obtain q q' where "p = q @ ?h" "p' = q' @ ?h'"
      using preimage_suffix [OF p(1) l(1)] preimage_suffix [OF p'(1) l(2)] by blast
    then have "?h = ?h'" using eq h32 [OF v(1) False] h32 [OF v(2) us(1)]
      by (metis append_eq_append_conv)
    then show ?thesis using snoc.IH [OF us(2) False v] p p' eq by (simp add: rs')
  qed
qed simp

section \<open>Properties\<close>


definition sample_env :: audit_env where
  "sample_env = \<lparr>env_sha256 = (\<lambda>x. take 32 (drop 8 x @ replicate 32 7)), env_uuid_bytes = (\<lambda>u. [ucast u]),
     env_trunc6 = (\<lambda>t. t div 1000 * 1000), env_rfc3339 = (\<lambda>t. ''t''), env_scalar = (\<lambda>j. Some ''null''),
     env_key = Some, env_timestamptz = (\<lambda>t. (t + 500) div 1000 * 1000)\<rparr>"

definition sample_new :: "uuid \<Rightarrow> audit_action \<Rightarrow> new_audit_entry" where
  "sample_new c a = \<lparr>ne_community_id = c, ne_action = a, ne_actor_pubkey = Some [1, 2],
     ne_object_id = Some ''x'', ne_detail = JObject [(''b'', JNull), (''a'', JArray [])]\<rparr>"

definition sample_log :: "audit_row list" where
  "sample_log =
     fst (log_inner sample_env 30 (sample_new 5 EventDeleted)
       (fst (log_inner sample_env 20 (sample_new 6 EventCreated)
         (fst (log_inner sample_env 10 (sample_new 5 EventCreated) [])))))"

lemma sample_timestamps: "timestamps_ok sample_env"
  by (simp add: timestamps_ok_def sample_env_def)

lemma sample_log_reachable: "audit_reachable sample_env sample_log"
  unfolding sample_log_def by (rule log_step empty_log)+


text \<open>In such a log the entries of one community are numbered 1, 2, 3 and so on in the order of
  their appends, the first has no previous hash, every later one carries the hash of the entry before
  it, and every stored hash is the hash of the stored row. Chains of different communities do not
  affect each other.\<close>

theorem log_chain_structure:
  assumes "timestamps_ok env" and "audit_reachable env rows"
  shows "chain_from env 1 None (filter (\<lambda>r. ar_community_id r = c) rows)"
  using reachable_audit_inv [OF assms(2,1)] by (simp add: audit_inv_def)

theorem log_chain_structure_witness:
  "ar_prev_hash (filter (\<lambda>r. ar_community_id r = 5) sample_log ! 1)
     = Some (ar_hash (filter (\<lambda>r. ar_community_id r = 5) sample_log ! 0))"
proof -
  have "length (filter (\<lambda>r. ar_community_id r = 5) sample_log) = 2" by code_simp
  then obtain r s where "filter (\<lambda>r. ar_community_id r = 5) sample_log = [r, s]"
    by (auto simp: numeral_2_eq_2 length_Suc_conv)
  then show ?thesis
    using log_chain_structure [OF sample_timestamps sample_log_reachable, of 5] by simp
qed



text \<open>The preimage does not determine the entry: the variable-length fields are concatenated
  without their lengths, so whatever the hash function is, there are two entries with different actor
  and object that hash alike. A row can be rewritten from one to the other and still verify, although
  the documentation of the entry says that tampering is detectable.\<close>

theorem hash_preimage_ambiguous:
  "\<exists>e e'. ae_actor_pubkey e \<noteq> ae_actor_pubkey e' \<and> ae_object_id e \<noteq> ae_object_id e'
     \<and> ae_seq e = ae_seq e' \<and> ae_community_id e = ae_community_id e'
     \<and> compute_hash env e = compute_hash env e'"
proof -
  define mk where "mk actor obj = \<lparr>ae_community_id = 0, ae_seq = 1, ae_hash = [], ae_prev_hash = None,
      ae_action = EventCreated, ae_actor_pubkey = Some actor, ae_object_id = Some obj,
      ae_detail = JArray [], ae_created_at = 0\<rparr>" for actor :: bytes and obj
  let ?e = "mk [9, 1, 98] [CHR ''c'']" and ?e' = "mk [9] [CHR ''b'', CHR 0x01, CHR ''c'']"
  have "compute_hash env ?e = compute_hash env ?e'"
    by (simp add: mk_def compute_hash_def hash_preimage_def optional_field_def str_bytes_def)
  moreover have "ae_actor_pubkey ?e \<noteq> ae_actor_pubkey ?e' \<and> ae_object_id ?e \<noteq> ae_object_id ?e'
      \<and> ae_seq ?e = ae_seq ?e' \<and> ae_community_id ?e = ae_community_id ?e'"
    by (simp add: mk_def)
  ultimately show ?thesis by blast
qed

text \<open>The canonical rendering of a JSON object does not depend on the order of its members: any two
  member lists with distinct keys and the same members render alike, so the hash is stable across
  machines.\<close>

theorem canonical_json_order_free:
  assumes "distinct (map fst kvs)" and "mset kvs = mset kvs'"
  shows "canonical_json env (JObject kvs) = canonical_json env (JObject kvs')"
proof -
  let ?g = "\<lambda>(k, v). (k, canonical_json env v)"
  have keys: "map fst (map ?g xs) = map fst xs" for xs by (induction xs) auto
  have "sort_key fst (map ?g kvs) = sort_key fst (map ?g kvs')"
  proof (rule sort_key_eq_sort_key)
    show "mset (map ?g kvs) = mset (map ?g kvs')" using assms(2) by simp
    show "inj_on fst (set (map ?g kvs))"
      using assms(1) keys [of kvs] by (metis distinct_map)
  qed
  then show ?thesis by simp
qed

theorem canonical_json_order_free_witness:
  "canonical_json sample_env (JObject [(''b'', JNull), (''a'', JArray [])])
     = canonical_json sample_env (JObject [(''a'', JArray []), (''b'', JNull)])"
  by (rule canonical_json_order_free) (simp_all add: add_mset_commute)

end
