(* ===== verification/Pairing.thy ===== *)
theory Pairing
  imports Kinds
begin

text \<open>
  NIP-AB device pairing, \<open>crates/maju-core/src/pairing\<close>: message types (\<open>types.rs\<close>), key derivation
  (\<open>crypto.rs\<close>), errors (\<open>mod.rs\<close>) and the session state machine (\<open>session.rs\<close>).

  A session is a record; every method is a function from a session to a session and a result, with
  the early returns of the code in their order. The clock, the random values and the fresh keys are
  arguments. NIP-44 encryption, signing, ECDH, HKDF, hex and JSON belong to other crates: they are
  fields of the parameter record \<open>pairing_api\<close>, and \<open>pairing_api_ok\<close> states what the protocol relies
  on.

  What is shown: the accepted operations of a session follow the order of the protocol, a payload
  crosses only after both confirmations, an honest exchange succeeds and delivers the payload, an
  accepted confirmation binds both devices to the same transcript, terminal states are final, and an
  expired session accepts nothing.
\<close>

section \<open>Messages and errors\<close>

datatype payload_type = Nsec | Bunker | Connect | Custom

datatype abort_reason = ReasonSasMismatch | UserDenied | Timeout | ProtocolError | UnknownReason

datatype pairing_message =
    Offer string u32
  | SasConfirm string
  | Payload payload_type string
  | Complete bool
  | Abort abort_reason

datatype pairing_error =
    InvalidQr string
  | InvalidSessionId
  | SasMismatch
  | TranscriptMismatch
  | UnexpectedMessage string string
  | SessionExpired
  | Nip44
  | Json
  | InvalidPubkey string
  | SigningError string

definition message_name :: "pairing_message \<Rightarrow> string" where
  "message_name m =
     (case m of
        Offer _ _ \<Rightarrow> ''offer''
      | SasConfirm _ \<Rightarrow> ''sas-confirm''
      | Payload _ _ \<Rightarrow> ''payload''
      | Complete _ \<Rightarrow> ''complete''
      | Abort _ \<Rightarrow> ''abort'')"

definition unexpected :: "string \<Rightarrow> pairing_message \<Rightarrow> pairing_error" where
  "unexpected expected got = UnexpectedMessage expected (message_name got)"

section \<open>Third-party operations\<close>

record pairing_keys =
  k_secret :: bytes
  k_public :: bytes

text \<open>
  \<open>pa_sign\<close> is \<open>EventBuilder::new(..).tags(..).custom_created_at(..).sign_with_keys(..)\<close> with the
  keys, the kind, the content, the tags and the timestamp; \<open>pa_verify\<close> is \<open>Event::verify\<close>;
  \<open>pa_encrypt\<close> takes the random nonce first.
\<close>

record pairing_api =
  pa_shared_key :: "bytes \<Rightarrow> bytes \<Rightarrow> string + bytes"
  pa_extract :: "bytes \<Rightarrow> bytes \<Rightarrow> bytes"
  pa_expand :: "bytes \<Rightarrow> bytes \<Rightarrow> nat \<Rightarrow> bytes"
  pa_encrypt :: "bytes \<Rightarrow> bytes \<Rightarrow> bytes \<Rightarrow> string \<Rightarrow> string option"
  pa_decrypt :: "bytes \<Rightarrow> bytes \<Rightarrow> string \<Rightarrow> string option"
  pa_to_json :: "pairing_message \<Rightarrow> string option"
  pa_from_json :: "string \<Rightarrow> pairing_message option"
  pa_sign :: "pairing_keys \<Rightarrow> u16 \<Rightarrow> string \<Rightarrow> tag list \<Rightarrow> u64 \<Rightarrow> string + nostr_event"
  pa_verify :: "nostr_event \<Rightarrow> string + unit"
  pa_hex_encode :: "bytes \<Rightarrow> string"
  pa_hex_decode :: "string \<Rightarrow> bytes option"

section \<open>Key derivation\<close>

definition ascii_bytes :: "string \<Rightarrow> bytes" where
  "ascii_bytes s = map (\<lambda>c. of_char c) s"

definition INFO_SESSION_ID :: bytes where
  "INFO_SESSION_ID = ascii_bytes ''nostr-pair-session-id''"

definition INFO_SAS :: bytes where
  "INFO_SAS = ascii_bytes ''nostr-pair-sas-v1''"

definition INFO_TRANSCRIPT :: bytes where
  "INFO_TRANSCRIPT = ascii_bytes ''nostr-pair-transcript-v1''"

definition hkdf32 :: "pairing_api \<Rightarrow> bytes \<Rightarrow> bytes \<Rightarrow> bytes \<Rightarrow> bytes" where
  "hkdf32 api salt ikm info = take 32 (pa_expand api (pa_extract api salt ikm) info 32)"

definition derive_session_id :: "pairing_api \<Rightarrow> bytes \<Rightarrow> bytes" where
  "derive_session_id api session_secret = hkdf32 api [] session_secret INFO_SESSION_ID"

definition u32_from_be_bytes :: "u8 \<Rightarrow> u8 \<Rightarrow> u8 \<Rightarrow> u8 \<Rightarrow> u32" where
  "u32_from_be_bytes a b c d =
     push_bit 24 (ucast a) + push_bit 16 (ucast b) + push_bit 8 (ucast c) + ucast d"

definition derive_sas :: "pairing_api \<Rightarrow> bytes \<Rightarrow> bytes \<Rightarrow> u32 \<times> bytes" where
  "derive_sas api ecdh_shared session_secret =
     (let sas_input = hkdf32 api session_secret ecdh_shared INFO_SAS;
          sas_code = u32_from_be_bytes (sas_input ! 0) (sas_input ! 1) (sas_input ! 2) (sas_input ! 3)
                       mod 1000000
      in (sas_code, sas_input))"

definition derive_transcript_hash ::
    "pairing_api \<Rightarrow> bytes \<Rightarrow> bytes \<Rightarrow> bytes \<Rightarrow> bytes \<Rightarrow> bytes \<Rightarrow> bytes" where
  "derive_transcript_hash api session_id source_pubkey target_pubkey sas_input session_secret =
     hkdf32 api session_secret (session_id @ source_pubkey @ target_pubkey @ sas_input)
       INFO_TRANSCRIPT"

definition format_sas :: "u32 \<Rightarrow> string" where
  "format_sas code =
     (let s = show_nat (unat code) in replicate (6 - length s) (CHR ''0'') @ s)"

definition ct_eq :: "bytes \<Rightarrow> bytes \<Rightarrow> bool" where
  "ct_eq a b \<longleftrightarrow> a = b"

section \<open>Sessions\<close>

definition DEFAULT_TIMEOUT :: nat where
  "DEFAULT_TIMEOUT = 120 * 10 ^ 9"

definition PAIRING_KIND :: u16 where
  "PAIRING_KIND = ucast KIND_PAIRING"

datatype role = Source | Target

datatype session_state =
    Waiting | Confirming | AwaitingConfirmation | Transferring | PayloadExchanged | Completed
  | Aborted

record qr_payload =
  qr_source_pubkey :: bytes
  qr_session_secret :: bytes
  qr_relays :: "string list"
  qr_version :: u32

record pairing_session =
  ps_role :: role
  ps_state :: session_state
  ps_keys :: pairing_keys
  ps_session_secret :: bytes
  ps_relay_urls :: "string list"
  ps_peer_pubkey :: "bytes option"
  ps_session_id :: bytes
  ps_sas_code :: "u32 option"
  ps_sas_input :: "bytes option"
  ps_processed_ids :: "bytes list"
  ps_created_at :: nat
  ps_timeout :: nat

fun role_name :: "role \<Rightarrow> string" where
  "role_name Source = ''Source''"
| "role_name Target = ''Target''"

fun state_name :: "session_state \<Rightarrow> string" where
  "state_name Waiting = ''Waiting''"
| "state_name Confirming = ''Confirming''"
| "state_name AwaitingConfirmation = ''AwaitingConfirmation''"
| "state_name Transferring = ''Transferring''"
| "state_name PayloadExchanged = ''PayloadExchanged''"
| "state_name Completed = ''Completed''"
| "state_name Aborted = ''Aborted''"

definition is_expired :: "nat \<Rightarrow> pairing_session \<Rightarrow> bool" where
  "is_expired now s \<longleftrightarrow> now - ps_created_at s > ps_timeout s"

definition check_expired :: "nat \<Rightarrow> pairing_session \<Rightarrow> pairing_error + unit" where
  "check_expired now s = (if is_expired now s then Inl SessionExpired else Inr ())"

definition expect_state :: "session_state \<Rightarrow> pairing_session \<Rightarrow> pairing_error + unit" where
  "expect_state expected s =
     (if ps_state s \<noteq> expected
      then Inl (UnexpectedMessage (''state '' @ state_name expected) (''state '' @ state_name (ps_state s)))
      else Inr ())"

definition expect_role :: "role \<Rightarrow> pairing_session \<Rightarrow> pairing_error + unit" where
  "expect_role expected s =
     (if ps_role s \<noteq> expected
      then Inl (UnexpectedMessage (''role '' @ role_name expected) (''role '' @ role_name (ps_role s)))
      else Inr ())"

definition has_p_tag :: "string \<Rightarrow> nostr_event \<Rightarrow> bool" where
  "has_p_tag our_pk_hex event =
     list_ex (\<lambda>t. t \<noteq> [] \<and> t ! 0 = ''p'' \<and> 1 < length t \<and> t ! 1 = our_pk_hex) (ev_tags event)"

definition validate_event_basics ::
    "pairing_api \<Rightarrow> nostr_event \<Rightarrow> pairing_session \<Rightarrow> pairing_error + unit" where
  "validate_event_basics api event s =
     (case pa_verify api event of
        Inl e \<Rightarrow> Inl (InvalidPubkey (''event verification failed: '' @ e))
      | Inr _ \<Rightarrow>
          if ev_id event \<in> set (ps_processed_ids s)
          then Inl (UnexpectedMessage ''new event'' ''duplicate event id'')
          else if ev_kind event \<noteq> PAIRING_KIND
          then Inl (UnexpectedMessage (''kind '' @ show_nat (unat PAIRING_KIND))
                      (''kind '' @ show_nat (unat (ev_kind event))))
          else if \<not> has_p_tag (pa_hex_encode api (k_public (ps_keys s))) event
          then Inl (InvalidPubkey ''event p-tag does not match our ephemeral pubkey'')
          else Inr ())"

definition validate_event_from_peer ::
    "pairing_api \<Rightarrow> nostr_event \<Rightarrow> pairing_session \<Rightarrow> pairing_error + unit" where
  "validate_event_from_peer api event s =
     and_then (validate_event_basics api event s) (\<lambda>_.
       case ps_peer_pubkey s of
         Some expected \<Rightarrow>
           if ev_pubkey event \<noteq> expected
           then Inl (InvalidPubkey (''event from '' @ pa_hex_encode api (ev_pubkey event)
                       @ '' but expected '' @ pa_hex_encode api expected))
           else Inr ()
       | None \<Rightarrow> Inr ())"

definition en_dash :: string where
  "en_dash = [CHR 0xE2, CHR 0x80, CHR 0x93]"

definition less_or_equal_sign :: string where
  "less_or_equal_sign = [CHR 0xE2, CHR 0x89, CHR 0xA4]"

text \<open>
  The oversized plaintext is zeroized before the error message reads its length; \<open>String::zeroize\<close>
  also empties the string.
\<close>

definition decrypt_message ::
    "pairing_api \<Rightarrow> nostr_event \<Rightarrow> pairing_session \<Rightarrow> pairing_error + pairing_message" where
  "decrypt_message api event s =
     (let content_len = length (ev_content event) in
      if \<not> (132 \<le> content_len \<and> content_len \<le> 87472)
      then Inl (UnexpectedMessage (''NIP-44 content (132'' @ en_dash @ ''87472 chars)'')
                  (show_nat content_len @ '' chars''))
      else and_then (ok_or (pa_decrypt api (k_secret (ps_keys s)) (ev_pubkey event) (ev_content event))
                      Nip44) (\<lambda>decrypted.
        if length decrypted > 65535
        then let zeroized = [] :: string in
             Inl (UnexpectedMessage (''plaintext '' @ less_or_equal_sign @ '' 65535 bytes'')
                    (show_nat (length zeroized) @ '' bytes''))
        else ok_or (pa_from_json api decrypted) Json))"

text \<open>
  The random choices of one call that builds an event: the wall clock in seconds, the jitter drawn
  and the encryption nonce.
\<close>

record send_env =
  sd_now_secs :: u64
  sd_random :: u64
  sd_nonce :: bytes

definition build_event ::
    "pairing_api \<Rightarrow> send_env \<Rightarrow> pairing_message \<Rightarrow> pairing_session \<Rightarrow> pairing_error + nostr_event" where
  "build_event api sd message s =
     and_then (ok_or (ps_peer_pubkey s) (InvalidPubkey ''no peer pubkey set'')) (\<lambda>peer.
     and_then (ok_or (pa_to_json api message) Json) (\<lambda>plaintext.
     and_then (ok_or (pa_encrypt api (sd_nonce sd) (k_secret (ps_keys s)) peer plaintext) Nip44)
       (\<lambda>encrypted.
       (let jitter = sd_random sd mod 31;
            ts = (if jitter \<le> sd_now_secs sd then sd_now_secs sd - jitter else 0)
        in case pa_sign api (ps_keys s) PAIRING_KIND encrypted [[''p'', pa_hex_encode api peer]] ts of
             Inl e \<Rightarrow> Inl (SigningError e)
           | Inr event \<Rightarrow> Inr event))))"

definition record_event :: "nostr_event \<Rightarrow> pairing_session \<Rightarrow> pairing_session" where
  "record_event event s = s\<lparr>ps_processed_ids := List.insert (ev_id event) (ps_processed_ids s)\<rparr>"

section \<open>Source operations\<close>

definition new_source ::
    "pairing_api \<Rightarrow> nat \<Rightarrow> pairing_keys \<Rightarrow> bytes \<Rightarrow> string \<Rightarrow> pairing_session \<times> qr_payload" where
  "new_source api now keys session_secret relay_url =
     (\<lparr>ps_role = Source, ps_state = Waiting, ps_keys = keys, ps_session_secret = session_secret,
       ps_relay_urls = [relay_url], ps_peer_pubkey = None,
       ps_session_id = derive_session_id api session_secret, ps_sas_code = None,
       ps_sas_input = None, ps_processed_ids = [], ps_created_at = now,
       ps_timeout = DEFAULT_TIMEOUT\<rparr>,
      \<lparr>qr_source_pubkey = k_public keys, qr_session_secret = session_secret,
       qr_relays = [relay_url], qr_version = 1\<rparr>)"

definition decode32 :: "pairing_api \<Rightarrow> string \<Rightarrow> bytes option" where
  "decode32 api h =
     (case pa_hex_decode api h of
        Some b \<Rightarrow> if length b = 32 then Some b else None
      | None \<Rightarrow> None)"

definition handle_offer ::
    "pairing_api \<Rightarrow> nat \<Rightarrow> nostr_event \<Rightarrow> pairing_session
     \<Rightarrow> pairing_session \<times> (pairing_error + string)" where
  "handle_offer api now event s =
     propagate s (check_expired now s) (\<lambda>_.
     propagate s (expect_state Waiting s) (\<lambda>_.
     propagate s (expect_role Source s) (\<lambda>_.
     propagate s (validate_event_basics api event s) (\<lambda>_.
     propagate s (decrypt_message api event s) (\<lambda>msg.
     (case msg of
        Offer session_id_hex version \<Rightarrow>
          (if version \<noteq> 1
           then (s, Inl (UnexpectedMessage ''version 1'' (''version '' @ show_nat (unat version))))
           else
             (case decode32 api session_id_hex of
                Some i \<Rightarrow>
                  if ct_eq i (ps_session_id s) then
                    (let peer = ev_pubkey event; s1 = s\<lparr>ps_peer_pubkey := Some peer\<rparr> in
                     case pa_shared_key api (k_secret (ps_keys s1)) peer of
                       Inl e \<Rightarrow> (s1, Inl (SigningError e))
                     | Inr ecdh \<Rightarrow>
                         (let (code, sas_input) = derive_sas api ecdh (ps_session_secret s1)
                          in (record_event event
                                (s1\<lparr>ps_sas_code := Some code, ps_sas_input := Some sas_input,
                                    ps_state := Confirming\<rparr>),
                              Inr (format_sas code))))
                  else (s, Inl InvalidSessionId)
              | None \<Rightarrow> (s, Inl InvalidSessionId)))
      | other \<Rightarrow> (s, Inl (unexpected ''offer'' other))))))))"

definition confirm_sas ::
    "pairing_api \<Rightarrow> nat \<Rightarrow> send_env \<Rightarrow> pairing_session
     \<Rightarrow> pairing_session \<times> (pairing_error + nostr_event)" where
  "confirm_sas api now sd s =
     propagate s (check_expired now s) (\<lambda>_.
     propagate s (expect_state Confirming s) (\<lambda>_.
     propagate s (expect_role Source s) (\<lambda>_.
     propagate s (ok_or (ps_sas_input s) SasMismatch) (\<lambda>sas_input.
     propagate s (ok_or (ps_peer_pubkey s) (InvalidPubkey ''no peer'')) (\<lambda>peer.
     (let transcript_hash =
            derive_transcript_hash api (ps_session_id s) (k_public (ps_keys s)) peer sas_input
              (ps_session_secret s)
      in propagate s
           (build_event api sd (SasConfirm (pa_hex_encode api transcript_hash)) s) (\<lambda>event.
             (s\<lparr>ps_state := Transferring\<rparr>, Inr event))))))))"

definition handle_return_payload ::
    "pairing_api \<Rightarrow> nat \<Rightarrow> nostr_event \<Rightarrow> pairing_session
     \<Rightarrow> pairing_session \<times> (pairing_error + payload_type \<times> string)" where
  "handle_return_payload api now event s =
     propagate s (check_expired now s) (\<lambda>_.
     propagate s (expect_state Transferring s) (\<lambda>_.
     propagate s (expect_role Source s) (\<lambda>_.
     propagate s (validate_event_from_peer api event s) (\<lambda>_.
     propagate s (decrypt_message api event s) (\<lambda>msg.
     (case msg of
        Payload payload_type payload \<Rightarrow>
          (record_event event (s\<lparr>ps_state := PayloadExchanged\<rparr>), Inr (payload_type, payload))
      | other \<Rightarrow> (s, Inl (unexpected ''payload'' other))))))))"

definition send_source_complete ::
    "pairing_api \<Rightarrow> nat \<Rightarrow> send_env \<Rightarrow> bool \<Rightarrow> pairing_session
     \<Rightarrow> pairing_session \<times> (pairing_error + nostr_event)" where
  "send_source_complete api now sd success s =
     propagate s (check_expired now s) (\<lambda>_.
     propagate s (expect_state PayloadExchanged s) (\<lambda>_.
     propagate s (expect_role Source s) (\<lambda>_.
     propagate s (build_event api sd (Complete success) s) (\<lambda>event.
       (s\<lparr>ps_state := (if success then Completed else Aborted)\<rparr>, Inr event)))))"

definition send_payload ::
    "pairing_api \<Rightarrow> nat \<Rightarrow> send_env \<Rightarrow> payload_type \<Rightarrow> string \<Rightarrow> pairing_session
     \<Rightarrow> pairing_session \<times> (pairing_error + nostr_event)" where
  "send_payload api now sd payload_type payload s =
     propagate s (check_expired now s) (\<lambda>_.
     propagate s (expect_state Transferring s) (\<lambda>_.
     propagate s (expect_role Source s) (\<lambda>_.
     propagate s (build_event api sd (Payload payload_type payload) s) (\<lambda>event.
       (s\<lparr>ps_state := PayloadExchanged\<rparr>, Inr event)))))"

definition handle_complete ::
    "pairing_api \<Rightarrow> nat \<Rightarrow> nostr_event \<Rightarrow> pairing_session
     \<Rightarrow> pairing_session \<times> (pairing_error + unit)" where
  "handle_complete api now event s =
     propagate s (check_expired now s) (\<lambda>_.
     propagate s (expect_state PayloadExchanged s) (\<lambda>_.
     propagate s (expect_role Source s) (\<lambda>_.
     propagate s (validate_event_from_peer api event s) (\<lambda>_.
     propagate s (decrypt_message api event s) (\<lambda>msg.
     (case msg of
        Complete True \<Rightarrow> (record_event event (s\<lparr>ps_state := Completed\<rparr>), Inr ())
      | Complete False \<Rightarrow>
          (s\<lparr>ps_state := Aborted\<rparr>,
           Inl (UnexpectedMessage ''complete(success=true)'' ''complete(success=false)''))
      | other \<Rightarrow> (s, Inl (unexpected ''complete'' other))))))))"

section \<open>Target operations\<close>

definition new_target ::
    "pairing_api \<Rightarrow> nat \<Rightarrow> send_env \<Rightarrow> pairing_keys \<Rightarrow> qr_payload
     \<Rightarrow> pairing_error + pairing_session \<times> nostr_event" where
  "new_target api now sd keys qr =
     (let session_id = derive_session_id api (qr_session_secret qr) in
      case pa_shared_key api (k_secret keys) (qr_source_pubkey qr) of
        Inl e \<Rightarrow> Inl (SigningError e)
      | Inr ecdh \<Rightarrow>
          (let (code, sas_input) = derive_sas api ecdh (qr_session_secret qr);
               session = \<lparr>ps_role = Target, ps_state = Waiting, ps_keys = keys,
                 ps_session_secret = qr_session_secret qr, ps_relay_urls = qr_relays qr,
                 ps_peer_pubkey = Some (qr_source_pubkey qr), ps_session_id = session_id,
                 ps_sas_code = Some code, ps_sas_input = Some sas_input, ps_processed_ids = [],
                 ps_created_at = now, ps_timeout = DEFAULT_TIMEOUT\<rparr>
           in and_then (build_event api sd (Offer (pa_hex_encode api session_id) 1) session) (\<lambda>event.
                Inr (session\<lparr>ps_state := Confirming\<rparr>, event))))"

definition handle_sas_confirm ::
    "pairing_api \<Rightarrow> nat \<Rightarrow> nostr_event \<Rightarrow> pairing_session
     \<Rightarrow> pairing_session \<times> (pairing_error + string)" where
  "handle_sas_confirm api now event s =
     propagate s (check_expired now s) (\<lambda>_.
     propagate s (expect_state Confirming s) (\<lambda>_.
     propagate s (expect_role Target s) (\<lambda>_.
     propagate s (validate_event_from_peer api event s) (\<lambda>_.
     propagate s (decrypt_message api event s) (\<lambda>msg.
     (case msg of
        SasConfirm received_hash \<Rightarrow>
          propagate s (ok_or (ps_sas_input s) SasMismatch) (\<lambda>sas_input.
          propagate s (ok_or (ps_peer_pubkey s) (InvalidPubkey ''no peer'')) (\<lambda>peer.
          (let expected_hash =
                 derive_transcript_hash api (ps_session_id s) peer (k_public (ps_keys s)) sas_input
                   (ps_session_secret s);
               matches = (case decode32 api received_hash of
                            Some rb \<Rightarrow> ct_eq rb expected_hash
                          | None \<Rightarrow> False)
           in if \<not> matches then (s\<lparr>ps_state := Aborted\<rparr>, Inl TranscriptMismatch)
              else
                (let s1 = record_event event (s\<lparr>ps_state := AwaitingConfirmation\<rparr>)
                 in propagate s1 (ok_or (ps_sas_code s1) SasMismatch) (\<lambda>code.
                      (s1, Inr (format_sas code)))))))
      | other \<Rightarrow> (s, Inl (unexpected ''sas-confirm'' other))))))))"

definition confirm_target_sas ::
    "nat \<Rightarrow> pairing_session \<Rightarrow> pairing_session \<times> (pairing_error + unit)" where
  "confirm_target_sas now s =
     propagate s (check_expired now s) (\<lambda>_.
     propagate s (expect_state AwaitingConfirmation s) (\<lambda>_.
     propagate s (expect_role Target s) (\<lambda>_.
       (s\<lparr>ps_state := Transferring\<rparr>, Inr ()))))"

definition handle_payload ::
    "pairing_api \<Rightarrow> nat \<Rightarrow> nostr_event \<Rightarrow> pairing_session
     \<Rightarrow> pairing_session \<times> (pairing_error + payload_type \<times> string)" where
  "handle_payload api now event s =
     propagate s (check_expired now s) (\<lambda>_.
     propagate s (expect_state Transferring s) (\<lambda>_.
     propagate s (expect_role Target s) (\<lambda>_.
     propagate s (validate_event_from_peer api event s) (\<lambda>_.
     propagate s (decrypt_message api event s) (\<lambda>msg.
     (case msg of
        Payload payload_type payload \<Rightarrow>
          (record_event event (s\<lparr>ps_state := PayloadExchanged\<rparr>), Inr (payload_type, payload))
      | other \<Rightarrow> (s, Inl (unexpected ''payload'' other))))))))"

definition send_complete ::
    "pairing_api \<Rightarrow> nat \<Rightarrow> send_env \<Rightarrow> pairing_session
     \<Rightarrow> pairing_session \<times> (pairing_error + nostr_event)" where
  "send_complete api now sd s =
     propagate s (check_expired now s) (\<lambda>_.
     propagate s (expect_state PayloadExchanged s) (\<lambda>_.
     propagate s (expect_role Target s) (\<lambda>_.
     propagate s (build_event api sd (Complete True) s) (\<lambda>event.
       (s\<lparr>ps_state := Completed\<rparr>, Inr event)))))"

section \<open>Aborting\<close>

definition terminal :: "pairing_session \<Rightarrow> bool" where
  "terminal s \<longleftrightarrow> ps_state s = Completed \<or> ps_state s = Aborted"

definition abort ::
    "pairing_api \<Rightarrow> send_env \<Rightarrow> abort_reason \<Rightarrow> pairing_session
     \<Rightarrow> pairing_session \<times> (pairing_error + nostr_event option)" where
  "abort api sd reason s =
     (if terminal s
      then (s, Inl (UnexpectedMessage ''non-terminal state'' (''state '' @ state_name (ps_state s))))
      else if ps_peer_pubkey s = None then (s\<lparr>ps_state := Aborted\<rparr>, Inr None)
      else propagate s (build_event api sd (Abort reason) s) (\<lambda>event.
             (s\<lparr>ps_state := Aborted\<rparr>, Inr (Some event))))"

definition handle_abort ::
    "pairing_api \<Rightarrow> nostr_event \<Rightarrow> pairing_session
     \<Rightarrow> pairing_session \<times> (pairing_error + abort_reason)" where
  "handle_abort api event s =
     (if terminal s
      then (s, Inl (UnexpectedMessage ''non-terminal state'' (''state '' @ state_name (ps_state s))))
      else if ps_peer_pubkey s = None
      then (s, Inl (InvalidPubkey ''cannot accept abort before peer is known''))
      else
        propagate s (validate_event_from_peer api event s) (\<lambda>_.
        propagate s (decrypt_message api event s) (\<lambda>msg.
        (case msg of
           Abort reason \<Rightarrow> (record_event event (s\<lparr>ps_state := Aborted\<rparr>), Inr reason)
         | other \<Rightarrow> (s, Inl (unexpected ''abort'' other))))))"

definition sas_code :: "pairing_session \<Rightarrow> string option" where
  "sas_code s = map_option format_sas (ps_sas_code s)"

section \<open>The operations as one machine\<close>

datatype pairing_op =
    Op_Handle_Offer nostr_event
  | Op_Confirm_Sas send_env
  | Op_Handle_Return_Payload nostr_event
  | Op_Send_Source_Complete send_env bool
  | Op_Send_Payload send_env payload_type string
  | Op_Handle_Complete nostr_event
  | Op_Handle_Sas_Confirm nostr_event
  | Op_Confirm_Target_Sas
  | Op_Handle_Payload nostr_event
  | Op_Send_Complete send_env
  | Op_Abort send_env abort_reason
  | Op_Handle_Abort nostr_event

definition accepted :: "'a \<times> ('e + 'b) \<Rightarrow> 'a \<times> bool" where
  "accepted r = (fst r, case snd r of Inl _ \<Rightarrow> False | Inr _ \<Rightarrow> True)"

fun apply_op :: "pairing_api \<Rightarrow> nat \<Rightarrow> pairing_op \<Rightarrow> pairing_session \<Rightarrow> pairing_session \<times> bool" where
  "apply_op api now (Op_Handle_Offer ev) s = accepted (handle_offer api now ev s)"
| "apply_op api now (Op_Confirm_Sas sd) s = accepted (confirm_sas api now sd s)"
| "apply_op api now (Op_Handle_Return_Payload ev) s = accepted (handle_return_payload api now ev s)"
| "apply_op api now (Op_Send_Source_Complete sd b) s = accepted (send_source_complete api now sd b s)"
| "apply_op api now (Op_Send_Payload sd pt p) s = accepted (send_payload api now sd pt p s)"
| "apply_op api now (Op_Handle_Complete ev) s = accepted (handle_complete api now ev s)"
| "apply_op api now (Op_Handle_Sas_Confirm ev) s = accepted (handle_sas_confirm api now ev s)"
| "apply_op api now Op_Confirm_Target_Sas s = accepted (confirm_target_sas now s)"
| "apply_op api now (Op_Handle_Payload ev) s = accepted (handle_payload api now ev s)"
| "apply_op api now (Op_Send_Complete sd) s = accepted (send_complete api now sd s)"
| "apply_op api now (Op_Abort sd r) s = accepted (abort api sd r s)"
| "apply_op api now (Op_Handle_Abort ev) s = accepted (handle_abort api ev s)"

text \<open>The edges of the protocol: role, state before and state after an accepted operation. \<open>None\<close> is
  an operation that is not an edge of the forward protocol.\<close>

fun op_edge :: "pairing_op \<Rightarrow> (role \<times> session_state \<times> session_state) option" where
  "op_edge (Op_Handle_Offer _) = Some (Source, Waiting, Confirming)"
| "op_edge (Op_Confirm_Sas _) = Some (Source, Confirming, Transferring)"
| "op_edge (Op_Handle_Return_Payload _) = Some (Source, Transferring, PayloadExchanged)"
| "op_edge (Op_Send_Source_Complete _ b) =
     Some (Source, PayloadExchanged, if b then Completed else Aborted)"
| "op_edge (Op_Send_Payload _ _ _) = Some (Source, Transferring, PayloadExchanged)"
| "op_edge (Op_Handle_Complete _) = Some (Source, PayloadExchanged, Completed)"
| "op_edge (Op_Handle_Sas_Confirm _) = Some (Target, Confirming, AwaitingConfirmation)"
| "op_edge Op_Confirm_Target_Sas = Some (Target, AwaitingConfirmation, Transferring)"
| "op_edge (Op_Handle_Payload _) = Some (Target, Transferring, PayloadExchanged)"
| "op_edge (Op_Send_Complete _) = Some (Target, PayloadExchanged, Completed)"
| "op_edge (Op_Abort _ _) = None"
| "op_edge (Op_Handle_Abort _) = None"

lemma guards_ok [simp]:
  "check_expired now s = Inr x \<longleftrightarrow> \<not> is_expired now s"
  "expect_state st s = Inr x \<longleftrightarrow> ps_state s = st"
  "expect_role r s = Inr x \<longleftrightarrow> ps_role s = r"
  by (auto simp: check_expired_def expect_state_def expect_role_def)

lemma propagate_cases:
  assumes "propagate s r k = (s', y)"
  obtains e where "r = Inl e" "s' = s" "y = Inl e" | x where "r = Inr x" "k x = (s', y)"
  using assms by (cases r) auto

lemma accepted_True: "accepted r = (s', True) \<longleftrightarrow> (\<exists>y. r = (s', Inr y))"
  by (cases r) (auto simp: accepted_def split: sum.splits)

lemma accepted_False: "accepted r = (s', False) \<longleftrightarrow> (\<exists>e. r = (s', Inl e))"
  by (cases r) (auto simp: accepted_def split: sum.splits)

lemmas pairing_op_defs =
  handle_offer_def confirm_sas_def handle_return_payload_def send_source_complete_def
  send_payload_def handle_complete_def handle_sas_confirm_def confirm_target_sas_def
  handle_payload_def send_complete_def abort_def handle_abort_def

lemma record_event_fields [simp]:
  "ps_state (record_event ev s) = ps_state s" "ps_role (record_event ev s) = ps_role s"
  "ps_sas_code (record_event ev s) = ps_sas_code s" "ps_keys (record_event ev s) = ps_keys s"
  "ps_peer_pubkey (record_event ev s) = ps_peer_pubkey s"
  "ps_created_at (record_event ev s) = ps_created_at s" "ps_timeout (record_event ev s) = ps_timeout s"
  "set (ps_processed_ids (record_event ev s)) = insert (ev_id ev) (set (ps_processed_ids s))"
  by (auto simp: record_event_def)

text \<open>What an accepted call of each operation implies.\<close>

lemma handle_offer_ok:
  assumes "handle_offer api now ev s = (s', Inr y)"
  shows "\<not> is_expired now s \<and> ps_state s = Waiting \<and> ps_role s = Source
    \<and> validate_event_basics api ev s = Inr ()
    \<and> (\<exists>h code inp. decrypt_message api ev s = Inr (Offer h 1)
        \<and> decode32 api h = Some (ps_session_id s)
        \<and> (\<exists>ecdh. pa_shared_key api (k_secret (ps_keys s)) (ev_pubkey ev) = Inr ecdh
            \<and> derive_sas api ecdh (ps_session_secret s) = (code, inp))
        \<and> y = format_sas code
        \<and> s' = record_event ev (s\<lparr>ps_peer_pubkey := Some (ev_pubkey ev), ps_sas_code := Some code,
                 ps_sas_input := Some inp, ps_state := Confirming\<rparr>))"
  using assms unfolding handle_offer_def propagate_Inr
  by (elim exE conjE) (auto simp: Let_def ct_eq_def split: pairing_message.splits if_splits option.splits sum.splits
      prod.splits)

lemma confirm_sas_ok:
  assumes "confirm_sas api now sd s = (s', Inr ev)"
  shows "\<not> is_expired now s \<and> ps_state s = Confirming \<and> ps_role s = Source
    \<and> (\<exists>inp peer. ps_sas_input s = Some inp \<and> ps_peer_pubkey s = Some peer
        \<and> build_event api sd (SasConfirm (pa_hex_encode api
             (derive_transcript_hash api (ps_session_id s) (k_public (ps_keys s)) peer inp
               (ps_session_secret s)))) s = Inr ev)
    \<and> s' = s\<lparr>ps_state := Transferring\<rparr>"
  using assms unfolding confirm_sas_def Let_def propagate_Inr by auto

lemma handle_return_payload_ok:
  assumes "handle_return_payload api now ev s = (s', Inr y)"
  shows "\<not> is_expired now s \<and> ps_state s = Transferring \<and> ps_role s = Source
    \<and> validate_event_from_peer api ev s = Inr ()
    \<and> decrypt_message api ev s = Inr (Payload (fst y) (snd y))
    \<and> s' = record_event ev (s\<lparr>ps_state := PayloadExchanged\<rparr>)"
  using assms unfolding handle_return_payload_def propagate_Inr
  by (elim exE conjE) (auto split: pairing_message.splits)

lemma send_source_complete_ok:
  assumes "send_source_complete api now sd b s = (s', Inr ev)"
  shows "\<not> is_expired now s \<and> ps_state s = PayloadExchanged \<and> ps_role s = Source
    \<and> build_event api sd (Complete b) s = Inr ev
    \<and> s' = s\<lparr>ps_state := (if b then Completed else Aborted)\<rparr>"
  using assms unfolding send_source_complete_def propagate_Inr by auto

lemma send_payload_ok:
  assumes "send_payload api now sd pt p s = (s', Inr ev)"
  shows "\<not> is_expired now s \<and> ps_state s = Transferring \<and> ps_role s = Source
    \<and> build_event api sd (Payload pt p) s = Inr ev \<and> s' = s\<lparr>ps_state := PayloadExchanged\<rparr>"
  using assms unfolding send_payload_def propagate_Inr by auto

lemma handle_complete_ok:
  assumes "handle_complete api now ev s = (s', Inr y)"
  shows "\<not> is_expired now s \<and> ps_state s = PayloadExchanged \<and> ps_role s = Source
    \<and> validate_event_from_peer api ev s = Inr () \<and> decrypt_message api ev s = Inr (Complete True)
    \<and> s' = record_event ev (s\<lparr>ps_state := Completed\<rparr>)"
  using assms unfolding handle_complete_def propagate_Inr
  by (elim exE conjE) (auto split: pairing_message.splits bool.splits)

lemma handle_sas_confirm_ok:
  assumes "handle_sas_confirm api now ev s = (s', Inr y)"
  shows "\<not> is_expired now s \<and> ps_state s = Confirming \<and> ps_role s = Target
    \<and> validate_event_from_peer api ev s = Inr ()
    \<and> (\<exists>h inp peer code. decrypt_message api ev s = Inr (SasConfirm h) \<and> ps_sas_input s = Some inp
        \<and> ps_peer_pubkey s = Some peer \<and> ps_sas_code s = Some code \<and> y = format_sas code
        \<and> decode32 api h = Some (derive_transcript_hash api (ps_session_id s) peer
             (k_public (ps_keys s)) inp (ps_session_secret s)))
    \<and> s' = record_event ev (s\<lparr>ps_state := AwaitingConfirmation\<rparr>)"
  using assms unfolding handle_sas_confirm_def propagate_Inr
  by (elim exE conjE) (auto simp: Let_def ct_eq_def propagate_Inr split: pairing_message.splits if_splits option.splits)

lemma confirm_target_sas_ok:
  assumes "confirm_target_sas now s = (s', Inr y)"
  shows "\<not> is_expired now s \<and> ps_state s = AwaitingConfirmation \<and> ps_role s = Target
    \<and> s' = s\<lparr>ps_state := Transferring\<rparr>"
  using assms unfolding confirm_target_sas_def propagate_Inr by auto

lemma handle_payload_ok:
  assumes "handle_payload api now ev s = (s', Inr y)"
  shows "\<not> is_expired now s \<and> ps_state s = Transferring \<and> ps_role s = Target
    \<and> validate_event_from_peer api ev s = Inr ()
    \<and> decrypt_message api ev s = Inr (Payload (fst y) (snd y))
    \<and> s' = record_event ev (s\<lparr>ps_state := PayloadExchanged\<rparr>)"
  using assms unfolding handle_payload_def propagate_Inr
  by (elim exE conjE) (auto split: pairing_message.splits)

lemma send_complete_ok:
  assumes "send_complete api now sd s = (s', Inr ev)"
  shows "\<not> is_expired now s \<and> ps_state s = PayloadExchanged \<and> ps_role s = Target
    \<and> build_event api sd (Complete True) s = Inr ev \<and> s' = s\<lparr>ps_state := Completed\<rparr>"
  using assms unfolding send_complete_def propagate_Inr by auto

lemma abort_ok:
  assumes "abort api sd r s = (s', Inr y)"
  shows "\<not> terminal s \<and> s' = s\<lparr>ps_state := Aborted\<rparr>"
  using assms by (auto simp: abort_def propagate_Inr split: if_splits)

lemma handle_abort_ok:
  assumes "handle_abort api ev s = (s', Inr r)"
  shows "\<not> terminal s \<and> ps_peer_pubkey s \<noteq> None \<and> validate_event_from_peer api ev s = Inr ()
    \<and> decrypt_message api ev s = Inr (Abort r) \<and> s' = record_event ev (s\<lparr>ps_state := Aborted\<rparr>)"
proof -
  have nt: "\<not> terminal s" "ps_peer_pubkey s \<noteq> None"
    using assms by (auto simp: handle_abort_def split: if_splits)
  then show ?thesis
    using assms unfolding handle_abort_def if_not_P [OF nt(1)] if_not_P [OF nt(2)] propagate_Inr
    by (elim exE conjE) (auto split: pairing_message.splits)
qed

lemmas op_ok_facts =
  handle_offer_ok confirm_sas_ok handle_return_payload_ok send_source_complete_ok send_payload_ok
  handle_complete_ok handle_sas_confirm_ok confirm_target_sas_ok handle_payload_ok send_complete_ok
  abort_ok handle_abort_ok

lemma accepted_edge:
  assumes "apply_op api now op s = (s', True)" and "op_edge op = Some (r, from, to)"
  shows "ps_role s = r \<and> ps_state s = from \<and> ps_state s' = to \<and> \<not> is_expired now s"
  using assms by (cases op) (auto simp: accepted_True dest!: op_ok_facts)

lemma accepted_no_edge:
  assumes "apply_op api now op s = (s', True)" and "op_edge op = None"
  shows "\<not> terminal s \<and> ps_state s' = Aborted"
  using assms by (cases op) (auto simp: accepted_True dest!: op_ok_facts)

text \<open>What a refused call leaves behind: the session unchanged, except for the three exits of the code
  that have already written to it.\<close>

lemma refused_state:
  assumes "apply_op api now op s = (s', False)"
  shows "s' = s
    \<or> s' = s\<lparr>ps_state := Aborted\<rparr> \<and> \<not> is_expired now s \<and> \<not> terminal s
    \<or> (\<exists>ev. op = Op_Handle_Offer ev \<and> s' = s\<lparr>ps_peer_pubkey := Some (ev_pubkey ev)\<rparr>
         \<and> ps_state s = Waiting \<and> \<not> is_expired now s)
    \<or> (\<exists>ev. op = Op_Handle_Sas_Confirm ev \<and> ps_sas_code s = None \<and> ps_role s = Target
         \<and> \<not> terminal s \<and> \<not> is_expired now s
         \<and> s' = record_event ev (s\<lparr>ps_state := AwaitingConfirmation\<rparr>))"
proof (cases op)
  case (Op_Handle_Offer ev)
  with assms obtain e where "handle_offer api now ev s = (s', Inl e)" by (auto simp: accepted_False)
  then show ?thesis
    unfolding handle_offer_def Op_Handle_Offer
    by (elim propagate_cases)
       (auto simp: Let_def split: pairing_message.splits if_splits option.splits sum.splits prod.splits)
next
  case (Op_Handle_Sas_Confirm ev)
  with assms obtain e where "handle_sas_confirm api now ev s = (s', Inl e)" by (auto simp: accepted_False)
  then show ?thesis
    unfolding handle_sas_confirm_def Op_Handle_Sas_Confirm
    by (elim propagate_cases)
       (auto simp: Let_def terminal_def elim!: propagate_cases
         split: pairing_message.splits if_splits option.splits)
next
  case (Op_Handle_Complete ev)
  with assms obtain e where "handle_complete api now ev s = (s', Inl e)" by (auto simp: accepted_False)
  then show ?thesis
    unfolding handle_complete_def
    by (elim propagate_cases) (auto simp: terminal_def split: pairing_message.splits bool.splits)
next
  case (Op_Confirm_Sas sd)
  then show ?thesis using assms
    by (auto simp: accepted_False confirm_sas_def Let_def elim!: propagate_cases)
next
  case (Op_Handle_Return_Payload ev)
  with assms obtain e where "handle_return_payload api now ev s = (s', Inl e)"
    by (auto simp: accepted_False)
  then show ?thesis
    unfolding handle_return_payload_def
    by (elim propagate_cases) (auto split: pairing_message.splits)
next
  case (Op_Handle_Payload ev)
  with assms obtain e where "handle_payload api now ev s = (s', Inl e)" by (auto simp: accepted_False)
  then show ?thesis
    unfolding handle_payload_def by (elim propagate_cases) (auto split: pairing_message.splits)
next
  case (Op_Handle_Abort ev)
  then show ?thesis using assms
    by (auto simp: accepted_False handle_abort_def elim!: propagate_cases
        split: if_splits pairing_message.splits)
qed (use assms in \<open>auto simp: accepted_False send_source_complete_def send_payload_def
       confirm_target_sas_def send_complete_def abort_def elim!: propagate_cases split: if_splits\<close>)

section \<open>Runs\<close>

text \<open>Any sequence of calls at any times; the log keeps the accepted ones in order.\<close>

inductive pairing_run :: "pairing_api \<Rightarrow> pairing_session \<Rightarrow> pairing_op list \<Rightarrow> pairing_session \<Rightarrow> bool"
  for api s0 where
  run_start: "pairing_run api s0 [] s0"
| run_op: "pairing_run api s0 log s \<Longrightarrow> apply_op api now op s = (s', ok) \<Longrightarrow>
    pairing_run api s0 (if ok then log @ [op] else log) s'"

fun edge_path :: "role \<Rightarrow> session_state \<Rightarrow> pairing_op list \<Rightarrow> session_state \<Rightarrow> bool" where
  "edge_path r st [] st' \<longleftrightarrow> st = st'"
| "edge_path r st (op # ops) st' \<longleftrightarrow>
     (case op_edge op of
        Some (r', from, to) \<Rightarrow> r' = r \<and> from = st \<and> edge_path r to ops st'
      | None \<Rightarrow> False)"

lemma edge_path_snoc:
  "edge_path r st (ops @ [op]) st' \<longleftrightarrow>
     (\<exists>mid. edge_path r st ops mid \<and> op_edge op = Some (r, mid, st'))"
  by (induction ops arbitrary: st) (auto split: option.splits)

lemma op_frame:
  assumes "apply_op api now op s = (s', ok)"
  shows "ps_role s' = ps_role s \<and> ps_keys s' = ps_keys s
    \<and> (ps_sas_code s \<noteq> None \<longrightarrow> ps_sas_code s' \<noteq> None)"
proof (cases ok)
  case True
  with assms have "apply_op api now op s = (s', True)" by simp
  then show ?thesis
    by (cases op) (auto simp: accepted_True dest!: op_ok_facts)
next
  case False
  with assms refused_state [of api now op s s'] show ?thesis by auto
qed

lemma run_frame:
  "pairing_run api s0 log s \<Longrightarrow>
   ps_role s = ps_role s0 \<and> (ps_sas_code s0 \<noteq> None \<longrightarrow> ps_sas_code s \<noteq> None)"
proof (induction rule: pairing_run.induct)
  case (run_op log s now op s' ok)
  then show ?case using op_frame [OF run_op.hyps(2)] by auto
qed simp

lemma run_edge_path:
  assumes "pairing_run api s0 log s" and "ps_role s0 = Target \<Longrightarrow> ps_sas_code s0 \<noteq> None"
  shows "ps_state s \<noteq> Aborted \<longrightarrow> edge_path (ps_role s0) (ps_state s0) log (ps_state s)"
  using assms(1)
proof (induction rule: pairing_run.induct)
  case (run_op log s now op s' ok)
  note frame = run_frame [OF run_op.hyps(1)]
  show ?case
  proof (cases ok)
    case True
    with run_op.hyps(2) have ap: "apply_op api now op s = (s', True)" by simp
    show ?thesis
    proof (cases "op_edge op")
      case None
      then show ?thesis using accepted_no_edge [OF ap] by simp
    next
      case (Some e)
      obtain r f t where e: "e = (r, f, t)" by (cases e)
      have ed: "ps_role s = r" "ps_state s = f" "ps_state s' = t"
        using accepted_edge [OF ap, of r f t] Some e by auto
      have "f \<noteq> Aborted" using Some e by (cases op) auto
      then show ?thesis
        using run_op.IH ed frame Some e True by (auto simp: edge_path_snoc)
    qed
  next
    case False
    with run_op.hyps(2) have "apply_op api now op s = (s', False)" by simp
    then show ?thesis
      using refused_state [of api now op s s'] run_op.IH frame assms(2) False by auto
  qed
qed simp

lemma target_paths:
  "edge_path Target Confirming log st \<Longrightarrow>
   (case st of
      Confirming \<Rightarrow> log = []
    | AwaitingConfirmation \<Rightarrow> (\<exists>e. log = [Op_Handle_Sas_Confirm e])
    | Transferring \<Rightarrow> (\<exists>e. log = [Op_Handle_Sas_Confirm e, Op_Confirm_Target_Sas])
    | PayloadExchanged \<Rightarrow>
        (\<exists>e p. log = [Op_Handle_Sas_Confirm e, Op_Confirm_Target_Sas, Op_Handle_Payload p])
    | Completed \<Rightarrow>
        (\<exists>e p sd. log = [Op_Handle_Sas_Confirm e, Op_Confirm_Target_Sas, Op_Handle_Payload p,
           Op_Send_Complete sd])
    | Waiting \<Rightarrow> False | Aborted \<Rightarrow> False)"
proof (induction log arbitrary: st rule: rev_induct)
  case (snoc op log)
  then obtain mid where "edge_path Target Confirming log mid" "op_edge op = Some (Target, mid, st)"
    by (auto simp: edge_path_snoc)
  with snoc.IH [of mid] show ?case by (cases op; cases mid; cases st) auto
qed (cases st; simp)

lemma source_paths:
  "edge_path Source Waiting log st \<Longrightarrow> st \<noteq> Aborted \<Longrightarrow>
   (case st of
      Waiting \<Rightarrow> log = []
    | Confirming \<Rightarrow> (\<exists>e. log = [Op_Handle_Offer e])
    | Transferring \<Rightarrow> (\<exists>e sd. log = [Op_Handle_Offer e, Op_Confirm_Sas sd])
    | PayloadExchanged \<Rightarrow> (\<exists>e sd p. log = [Op_Handle_Offer e, Op_Confirm_Sas sd, p]
        \<and> op_edge p = Some (Source, Transferring, PayloadExchanged))
    | Completed \<Rightarrow> (\<exists>e sd p q. log = [Op_Handle_Offer e, Op_Confirm_Sas sd, p, q]
        \<and> op_edge p = Some (Source, Transferring, PayloadExchanged)
        \<and> op_edge q = Some (Source, PayloadExchanged, Completed))
    | AwaitingConfirmation \<Rightarrow> False | Aborted \<Rightarrow> False)"
proof (induction log arbitrary: st rule: rev_induct)
  case (snoc op log)
  then obtain mid where "edge_path Source Waiting log mid" "op_edge op = Some (Source, mid, st)"
    by (auto simp: edge_path_snoc)
  with snoc.IH [of mid] snoc.prems(2) show ?case
    by (cases op; cases mid; cases st) (auto split: if_splits)
qed (cases st; simp)

section \<open>Received events\<close>

fun op_event :: "pairing_op \<Rightarrow> nostr_event option" where
  "op_event (Op_Handle_Offer ev) = Some ev"
| "op_event (Op_Handle_Return_Payload ev) = Some ev"
| "op_event (Op_Handle_Complete ev) = Some ev"
| "op_event (Op_Handle_Sas_Confirm ev) = Some ev"
| "op_event (Op_Handle_Payload ev) = Some ev"
| "op_event (Op_Handle_Abort ev) = Some ev"
| "op_event _ = None"

lemma validate_basics_ok:
  assumes "validate_event_basics api ev s = Inr x"
  shows "pa_verify api ev = Inr () \<and> ev_id ev \<notin> set (ps_processed_ids s) \<and> ev_kind ev = PAIRING_KIND
    \<and> has_p_tag (pa_hex_encode api (k_public (ps_keys s))) ev"
  using assms by (auto simp: validate_event_basics_def split: sum.splits if_splits)

lemma validate_from_peer_ok:
  assumes "validate_event_from_peer api ev s = Inr x"
  shows "validate_event_basics api ev s = Inr ()
    \<and> (case ps_peer_pubkey s of None \<Rightarrow> True | Some peer \<Rightarrow> ev_pubkey ev = peer)"
  using assms
  by (auto simp: validate_event_from_peer_def and_then_Inr split: option.splits if_splits)

lemma accepted_event:
  assumes "apply_op api now op s = (s', True)" and "op_event op = Some ev"
  shows "validate_event_basics api ev s = Inr () \<and> ev_id ev \<in> set (ps_processed_ids s')
    \<and> ps_peer_pubkey s' \<in> {ps_peer_pubkey s, Some (ev_pubkey ev)}
    \<and> (ps_state s = Waiting \<or> ps_peer_pubkey s = None \<or> ps_peer_pubkey s = Some (ev_pubkey ev))"
  using assms
  by (cases op)
     (auto simp: accepted_True dest!: op_ok_facts validate_from_peer_ok split: option.splits)

section \<open>An honest exchange\<close>

text \<open>
  What the protocol relies on between the two key pairs \<open>ks\<close> (source) and \<open>kt\<close> (target): ECDH is
  symmetric, NIP-44 encrypts any plaintext of 1 to 65535 bytes into 132 to 87472 characters and
  decrypts what it encrypted, signing yields an event that verifies and carries what was signed, and
  two verified events with one id have one content.
\<close>

definition channel_ok :: "pairing_api \<Rightarrow> pairing_keys \<Rightarrow> pairing_keys \<Rightarrow> bool" where
  "channel_ok api a b \<longleftrightarrow>
     (\<forall>n p. 1 \<le> length p \<and> length p \<le> 65535 \<longrightarrow>
        (\<exists>c. pa_encrypt api n (k_secret a) (k_public b) p = Some c \<and> 132 \<le> length c
             \<and> length c \<le> 87472 \<and> pa_decrypt api (k_secret b) (k_public a) c = Some p))
     \<and> (\<forall>kind c tags ts. \<exists>e. pa_sign api a kind c tags ts = Inr e \<and> pa_verify api e = Inr ()
          \<and> ev_pubkey e = k_public a \<and> ev_kind e = kind \<and> ev_content e = c \<and> ev_tags e = tags)"

definition ids_ok :: "pairing_api \<Rightarrow> bool" where
  "ids_ok api \<longleftrightarrow>
     (\<forall>e e'. pa_verify api e = Inr () \<and> pa_verify api e' = Inr () \<and> ev_id e = ev_id e' \<longrightarrow>
        ev_content e = ev_content e')"

definition json_ok :: "pairing_api \<Rightarrow> pairing_message \<Rightarrow> bool" where
  "json_ok api m \<longleftrightarrow>
     (\<exists>j. pa_to_json api m = Some j \<and> pa_from_json api j = Some m \<and> 1 \<le> length j \<and> length j \<le> 65535)"

lemma build_event_honest:
  assumes ch: "channel_ok api a b" and m: "json_ok api m"
    and s: "ps_keys s = a" "ps_peer_pubkey s = Some (k_public b)"
  obtains ev where "build_event api sd m s = Inr ev" and "pa_verify api ev = Inr ()"
    and "ev_pubkey ev = k_public a"
    and "\<And>r. ps_keys r = b \<Longrightarrow> decrypt_message api ev r = Inr m"
    and "\<And>r. ps_keys r = b \<Longrightarrow> ev_id ev \<notin> set (ps_processed_ids r) \<Longrightarrow>
           validate_event_basics api ev r = Inr ()"
proof -
  obtain j where j: "pa_to_json api m = Some j" "pa_from_json api j = Some m"
    "1 \<le> length j" "length j \<le> 65535"
    using m by (auto simp: json_ok_def)
  then obtain c where c: "pa_encrypt api (sd_nonce sd) (k_secret a) (k_public b) j = Some c"
    "132 \<le> length c" "length c \<le> 87472" "pa_decrypt api (k_secret b) (k_public a) c = Some j"
    using ch unfolding channel_ok_def by blast
  let ?jitter = "sd_random sd mod 31"
  let ?ts = "if ?jitter \<le> sd_now_secs sd then sd_now_secs sd - ?jitter else 0"
  obtain e where e: "pa_sign api a PAIRING_KIND c [[''p'', pa_hex_encode api (k_public b)]] ?ts = Inr e"
    "pa_verify api e = Inr ()" "ev_pubkey e = k_public a" "ev_kind e = PAIRING_KIND"
    "ev_content e = c" "ev_tags e = [[''p'', pa_hex_encode api (k_public b)]]"
    using ch unfolding channel_ok_def by blast
  show thesis
  proof (rule that [of e])
    show "build_event api sd m s = Inr e"
      using j c e(1) s unfolding build_event_def Let_def by (simp del: if_split)
  qed (use e c j in \<open>auto simp: decrypt_message_def validate_event_basics_def has_p_tag_def\<close>)
qed

lemma ids_differ:
  assumes "ids_ok api" and "pa_verify api e = Inr ()" and "pa_verify api e' = Inr ()"
    and "ev_pubkey e = ev_pubkey e'"
    and "decrypt_message api e r = Inr m" and "decrypt_message api e' r = Inr m'" and "m \<noteq> m'"
  shows "ev_id e \<noteq> ev_id e'"
proof
  assume "ev_id e = ev_id e'"
  then have "ev_content e = ev_content e'" using assms(1-3) unfolding ids_ok_def by blast
  then have "decrypt_message api e r = decrypt_message api e' r"
    unfolding decrypt_message_def assms(4) by (rule ssubst) (rule refl)
  with assms(5-7) show False by simp
qed

text \<open>The setting of an honest exchange of the payload \<open>p\<close> of type \<open>pt\<close>.\<close>

definition honest_setting ::
    "pairing_api \<Rightarrow> pairing_keys \<Rightarrow> pairing_keys \<Rightarrow> bytes \<Rightarrow> bytes \<Rightarrow> payload_type \<Rightarrow> string \<Rightarrow> bool" where
  "honest_setting api ks kt secret ecdh pt p \<longleftrightarrow>
     channel_ok api ks kt \<and> channel_ok api kt ks \<and> ids_ok api
     \<and> pa_shared_key api (k_secret ks) (k_public kt) = Inr ecdh
     \<and> pa_shared_key api (k_secret kt) (k_public ks) = Inr ecdh
     \<and> (let sid = derive_session_id api secret;
            inp = snd (derive_sas api ecdh secret);
            th = derive_transcript_hash api sid (k_public ks) (k_public kt) inp secret
        in decode32 api (pa_hex_encode api sid) = Some sid
           \<and> decode32 api (pa_hex_encode api th) = Some th
           \<and> json_ok api (Offer (pa_hex_encode api sid) 1)
           \<and> json_ok api (SasConfirm (pa_hex_encode api th)))
     \<and> json_ok api (Payload pt p) \<and> json_ok api (Complete True)"

lemma derive_sas_fst_snd: "derive_sas api e s = (fst (derive_sas api e s), snd (derive_sas api e s))"
  by simp

lemma not_expired [simp]:
  "t - ps_created_at s \<le> ps_timeout s \<Longrightarrow> is_expired t s = False"
  by (simp add: is_expired_def)

lemma validate_from_peerI:
  "validate_event_basics api ev s = Inr () \<Longrightarrow> ps_peer_pubkey s = Some (ev_pubkey ev) \<Longrightarrow>
   validate_event_from_peer api ev s = Inr ()"
  by (simp add: validate_event_from_peer_def)

lemma guards_pass:
  "\<not> is_expired t s \<Longrightarrow> check_expired t s = Inr ()"
  "ps_state s = st \<Longrightarrow> expect_state st s = Inr ()"
  "ps_role s = r \<Longrightarrow> expect_role r s = Inr ()"
  by simp_all

text \<open>The two sessions of an honest exchange, by their state and the ids they have processed.\<close>

definition paired_session ::
    "pairing_api \<Rightarrow> role \<Rightarrow> pairing_keys \<Rightarrow> bytes \<Rightarrow> bytes \<Rightarrow> string \<Rightarrow> bytes \<Rightarrow> nat \<Rightarrow> session_state
     \<Rightarrow> bytes list \<Rightarrow> pairing_session" where
  "paired_session api r keys peer secret relay ecdh t0 st ids =
     \<lparr>ps_role = r, ps_state = st, ps_keys = keys, ps_session_secret = secret,
      ps_relay_urls = [relay], ps_peer_pubkey = Some peer,
      ps_session_id = derive_session_id api secret,
      ps_sas_code = Some (fst (derive_sas api ecdh secret)),
      ps_sas_input = Some (snd (derive_sas api ecdh secret)), ps_processed_ids = ids,
      ps_created_at = t0, ps_timeout = DEFAULT_TIMEOUT\<rparr>"

lemma paired_session_sel [simp]:
  fixes api r keys peer secret relay ecdh t0 st ids
  defines "s \<equiv> paired_session api r keys peer secret relay ecdh t0 st ids"
  shows "ps_role s = r" "ps_state s = st" "ps_keys s = keys" "ps_session_secret s = secret"
    "ps_peer_pubkey s = Some peer" "ps_session_id s = derive_session_id api secret"
    "ps_sas_code s = Some (fst (derive_sas api ecdh secret))"
    "ps_sas_input s = Some (snd (derive_sas api ecdh secret))" "ps_processed_ids s = ids"
    "ps_created_at s = t0" "ps_timeout s = DEFAULT_TIMEOUT"
    "ps_state_update (\<lambda>_. st') s = paired_session api r keys peer secret relay ecdh t0 st' ids"
  by (simp_all add: s_def paired_session_def)

lemma record_paired [simp]:
  "ev_id ev \<notin> set ids \<Longrightarrow>
   record_event ev (paired_session api r keys peer secret relay ecdh t0 st ids) =
     paired_session api r keys peer secret relay ecdh t0 st (ev_id ev # ids)"
  by (simp add: record_event_def paired_session_def)

lemma offer_accepted:
  assumes h: "honest_setting api ks kt secret ecdh pt p" and time: "t1 - t0 \<le> DEFAULT_TIMEOUT"
  defines "sid \<equiv> derive_session_id api secret"
  obtains offer where
    "new_target api u0 sd kt (snd (new_source api t0 ks secret relay)) =
       Inr (paired_session api Target kt (k_public ks) secret relay ecdh u0 Confirming [], offer)"
    "handle_offer api t1 offer (fst (new_source api t0 ks secret relay)) =
       (paired_session api Source ks (k_public kt) secret relay ecdh t0 Confirming [ev_id offer],
        Inr (format_sas (fst (derive_sas api ecdh secret))))"
    "pa_verify api offer = Inr ()" "ev_pubkey offer = k_public kt"
    "\<And>r. ps_keys r = ks \<Longrightarrow> decrypt_message api offer r = Inr (Offer (pa_hex_encode api sid) 1)"
proof -
  let ?tgt = "paired_session api Target kt (k_public ks) secret relay ecdh u0 Waiting []"
  let ?s = "fst (new_source api t0 ks secret relay)"
  have ch: "channel_ok api kt ks" and jo: "json_ok api (Offer (pa_hex_encode api sid) 1)"
    and ex: "pa_shared_key api (k_secret ks) (k_public kt) = Inr ecdh"
    "pa_shared_key api (k_secret kt) (k_public ks) = Inr ecdh"
    and dec: "decode32 api (pa_hex_encode api sid) = Some sid"
    using h by (simp_all add: honest_setting_def Let_def sid_def)
  obtain offer where o: "build_event api sd (Offer (pa_hex_encode api sid) 1) ?tgt = Inr offer"
    "pa_verify api offer = Inr ()" "ev_pubkey offer = k_public kt"
    "\<And>r. ps_keys r = ks \<Longrightarrow> decrypt_message api offer r = Inr (Offer (pa_hex_encode api sid) 1)"
    "\<And>r. ps_keys r = ks \<Longrightarrow> ev_id offer \<notin> set (ps_processed_ids r) \<Longrightarrow>
       validate_event_basics api offer r = Inr ()"
    by (rule build_event_honest [OF ch jo, of ?tgt sd]) auto
  have "new_target api u0 sd kt (snd (new_source api t0 ks secret relay)) =
      Inr (paired_session api Target kt (k_public ks) secret relay ecdh u0 Confirming [], offer)"
    using o(1) ex(2)
    by (simp add: new_target_def new_source_def Let_def sid_def paired_session_def case_prod_beta)
  moreover have "handle_offer api t1 offer ?s =
      (paired_session api Source ks (k_public kt) secret relay ecdh t0 Confirming [ev_id offer],
       Inr (format_sas (fst (derive_sas api ecdh secret))))"
  proof -
    have "decrypt_message api offer ?s = Inr (Offer (pa_hex_encode api sid) 1)"
      "validate_event_basics api offer ?s = Inr ()" "\<not> is_expired t1 ?s"
      "ps_state ?s = Waiting" "ps_role ?s = Source" "ps_session_id ?s = sid" "ps_keys ?s = ks"
      "ps_session_secret ?s = secret"
      using o(4,5) [of ?s] time by (simp_all add: new_source_def sid_def)
    then have "handle_offer api t1 offer ?s =
        (record_event offer (?s\<lparr>ps_peer_pubkey := Some (k_public kt),
           ps_sas_code := Some (fst (derive_sas api ecdh secret)),
           ps_sas_input := Some (snd (derive_sas api ecdh secret)), ps_state := Confirming\<rparr>),
         Inr (format_sas (fst (derive_sas api ecdh secret))))"
      using o(3) dec ex(1)
      by (simp add: handle_offer_def guards_pass Let_def ct_eq_def split: prod.split)
    then show ?thesis
      by (simp add: new_source_def record_event_def paired_session_def)
  qed
  ultimately show thesis using o(2-4) by (rule that)
qed

text \<open>A message that one session builds passes the checks of the other.\<close>

lemma message_accepted:
  assumes "channel_ok api a b" and "json_ok api m"
  obtains ev where
    "build_event api sd m (paired_session api r a (k_public b) secret relay ecdh t0 st ids) = Inr ev"
    "pa_verify api ev = Inr ()" "ev_pubkey ev = k_public a"
    "\<And>r. ps_keys r = b \<Longrightarrow> decrypt_message api ev r = Inr m"
    "\<And>r. ps_keys r = b \<Longrightarrow> ps_peer_pubkey r = Some (k_public a) \<Longrightarrow>
       ev_id ev \<notin> set (ps_processed_ids r) \<Longrightarrow> validate_event_from_peer api ev r = Inr ()"
proof -
  obtain ev where ev:
    "build_event api sd m (paired_session api r a (k_public b) secret relay ecdh t0 st ids) = Inr ev"
    "pa_verify api ev = Inr ()" "ev_pubkey ev = k_public a"
    "\<And>r. ps_keys r = b \<Longrightarrow> decrypt_message api ev r = Inr m"
    "\<And>r. ps_keys r = b \<Longrightarrow> ev_id ev \<notin> set (ps_processed_ids r) \<Longrightarrow>
       validate_event_basics api ev r = Inr ()"
    by (rule build_event_honest [OF assms,
          of "paired_session api r a (k_public b) secret relay ecdh t0 st ids" sd]) auto
  have "validate_event_from_peer api ev r = Inr ()"
    if "ps_keys r = b" "ps_peer_pubkey r = Some (k_public a)" "ev_id ev \<notin> set (ps_processed_ids r)" for r
    using that ev(3) by (intro validate_from_peerI ev(5)) auto
  with ev(1-4) show thesis by (rule that)
qed

text \<open>The confirmation phase and the transfer phase of an honest exchange.\<close>

lemma honest_confirmation:
  assumes h: "honest_setting api ks kt secret ecdh pt p"
    and times: "t2 - t0 \<le> DEFAULT_TIMEOUT" "u1 - u0 \<le> DEFAULT_TIMEOUT" "u2 - u0 \<le> DEFAULT_TIMEOUT"
  obtains c where
    "confirm_sas api t2 d1 (paired_session api Source ks (k_public kt) secret relay ecdh t0 Confirming ids) =
       (paired_session api Source ks (k_public kt) secret relay ecdh t0 Transferring ids, Inr c)"
    "handle_sas_confirm api u1 c (paired_session api Target kt (k_public ks) secret relay ecdh u0 Confirming []) =
       (paired_session api Target kt (k_public ks) secret relay ecdh u0 AwaitingConfirmation [ev_id c],
        Inr (format_sas (fst (derive_sas api ecdh secret))))"
    "confirm_target_sas u2
        (paired_session api Target kt (k_public ks) secret relay ecdh u0 AwaitingConfirmation [ev_id c]) =
       (paired_session api Target kt (k_public ks) secret relay ecdh u0 Transferring [ev_id c], Inr ())"
    "pa_verify api c = Inr ()" "ev_pubkey c = k_public ks"
    "\<And>r. ps_keys r = kt \<Longrightarrow> decrypt_message api c r = Inr (SasConfirm (pa_hex_encode api (derive_transcript_hash api
         (derive_session_id api secret) (k_public ks) (k_public kt) (snd (derive_sas api ecdh secret)) secret)))"
proof -
  let ?th = "derive_transcript_hash api (derive_session_id api secret) (k_public ks) (k_public kt)
    (snd (derive_sas api ecdh secret)) secret"
  have ch: "channel_ok api ks kt" and js: "json_ok api (SasConfirm (pa_hex_encode api ?th))"
    and dec: "decode32 api (pa_hex_encode api ?th) = Some ?th"
    using h by (simp_all add: honest_setting_def Let_def)
  obtain c where c: "build_event api d1 (SasConfirm (pa_hex_encode api ?th))
      (paired_session api Source ks (k_public kt) secret relay ecdh t0 Confirming ids) = Inr c"
    "pa_verify api c = Inr ()" "ev_pubkey c = k_public ks"
    "\<And>r. ps_keys r = kt \<Longrightarrow> decrypt_message api c r = Inr (SasConfirm (pa_hex_encode api ?th))"
    "\<And>r. ps_keys r = kt \<Longrightarrow> ps_peer_pubkey r = Some (k_public ks) \<Longrightarrow>
       ev_id c \<notin> set (ps_processed_ids r) \<Longrightarrow> validate_event_from_peer api c r = Inr ()"
    by (rule message_accepted [OF ch js]) blast
  show thesis
    by (rule that [OF _ _ _ c(2-4)])
       (use c(1,4,5) dec times in \<open>simp_all add: confirm_sas_def handle_sas_confirm_def
          confirm_target_sas_def guards_pass Let_def ct_eq_def\<close>)
qed

lemma honest_transfer:
  assumes h: "honest_setting api ks kt secret ecdh pt p"
    and times: "t3 - t0 \<le> DEFAULT_TIMEOUT" "t4 - t0 \<le> DEFAULT_TIMEOUT"
      "u3 - u0 \<le> DEFAULT_TIMEOUT" "u4 - u0 \<le> DEFAULT_TIMEOUT"
    and c: "pa_verify api c = Inr ()" "ev_pubkey c = k_public ks"
      "\<And>r. ps_keys r = kt \<Longrightarrow> decrypt_message api c r = Inr (SasConfirm m)"
    and o: "pa_verify api offer = Inr ()" "ev_pubkey offer = k_public kt"
      "\<And>r. ps_keys r = ks \<Longrightarrow> decrypt_message api offer r = Inr (Offer h1 1)"
  obtains y z where
    "send_payload api t3 d2 pt p
        (paired_session api Source ks (k_public kt) secret relay ecdh t0 Transferring [ev_id offer]) =
       (paired_session api Source ks (k_public kt) secret relay ecdh t0 PayloadExchanged [ev_id offer], Inr y)"
    "handle_payload api u3 y
        (paired_session api Target kt (k_public ks) secret relay ecdh u0 Transferring [ev_id c]) =
       (paired_session api Target kt (k_public ks) secret relay ecdh u0 PayloadExchanged [ev_id y, ev_id c],
        Inr (pt, p))"
    "send_complete api u4 d3
        (paired_session api Target kt (k_public ks) secret relay ecdh u0 PayloadExchanged [ev_id y, ev_id c]) =
       (paired_session api Target kt (k_public ks) secret relay ecdh u0 Completed [ev_id y, ev_id c], Inr z)"
    "handle_complete api t4 z
        (paired_session api Source ks (k_public kt) secret relay ecdh t0 PayloadExchanged [ev_id offer]) =
       (paired_session api Source ks (k_public kt) secret relay ecdh t0 Completed [ev_id z, ev_id offer], Inr ())"
proof -
  let ?S = "paired_session api Source ks (k_public kt) secret relay ecdh t0"
  let ?T = "paired_session api Target kt (k_public ks) secret relay ecdh u0"
  have ch: "channel_ok api ks kt" "channel_ok api kt ks" and ids: "ids_ok api"
    and js: "json_ok api (Payload pt p)" "json_ok api (Complete True)"
    using h by (simp_all add: honest_setting_def Let_def)
  obtain y where y: "build_event api d2 (Payload pt p) (?S Transferring [ev_id offer]) = Inr y"
    "pa_verify api y = Inr ()" "ev_pubkey y = k_public ks"
    "\<And>r. ps_keys r = kt \<Longrightarrow> decrypt_message api y r = Inr (Payload pt p)"
    "\<And>r. ps_keys r = kt \<Longrightarrow> ps_peer_pubkey r = Some (k_public ks) \<Longrightarrow>
       ev_id y \<notin> set (ps_processed_ids r) \<Longrightarrow> validate_event_from_peer api y r = Inr ()"
    by (rule message_accepted [OF ch(1) js(1)]) blast
  have yc: "ev_id y \<noteq> ev_id c"
    using ids_differ [OF ids y(2) c(1), of "?T Confirming []"] y(3,4) c(2,3) by simp
  obtain z where z: "build_event api d3 (Complete True) (?T PayloadExchanged [ev_id y, ev_id c]) = Inr z"
    "pa_verify api z = Inr ()" "ev_pubkey z = k_public kt"
    "\<And>r. ps_keys r = ks \<Longrightarrow> decrypt_message api z r = Inr (Complete True)"
    "\<And>r. ps_keys r = ks \<Longrightarrow> ps_peer_pubkey r = Some (k_public kt) \<Longrightarrow>
       ev_id z \<notin> set (ps_processed_ids r) \<Longrightarrow> validate_event_from_peer api z r = Inr ()"
    by (rule message_accepted [OF ch(2) js(2)]) blast
  have zo: "ev_id z \<noteq> ev_id offer"
    using ids_differ [OF ids z(2) o(1), of "?S Confirming []"] z(3,4) o(2,3) by simp
  show thesis
    by (rule that [of y z])
       (use y z yc zo times in \<open>simp_all add: send_payload_def handle_payload_def send_complete_def
          handle_complete_def guards_pass\<close>)
qed

section \<open>Properties\<close>

text \<open>C21. An honest pairing succeeds and delivers the payload: starting from a fresh source session and
  its QR code, with every step inside the timeout, the ten calls of the protocol all succeed, both
  devices show the same code, the target receives exactly the payload type and text that the source
  sent, and both sessions end completed.\<close>

theorem honest_pairing_succeeds:
  assumes h: "honest_setting api ks kt secret ecdh pt p"
    and ts: "t1 - t0 \<le> DEFAULT_TIMEOUT" "t2 - t0 \<le> DEFAULT_TIMEOUT" "t3 - t0 \<le> DEFAULT_TIMEOUT"
      "t4 - t0 \<le> DEFAULT_TIMEOUT"
    and us: "u1 - u0 \<le> DEFAULT_TIMEOUT" "u2 - u0 \<le> DEFAULT_TIMEOUT" "u3 - u0 \<le> DEFAULT_TIMEOUT"
      "u4 - u0 \<le> DEFAULT_TIMEOUT"
  shows "\<exists>g0 offer s1 code s2 confirm g1 g2 s3 payload g3 g4 complete s4.
    new_target api u0 d0 kt (snd (new_source api t0 ks secret relay)) = Inr (g0, offer)
    \<and> handle_offer api t1 offer (fst (new_source api t0 ks secret relay)) = (s1, Inr code)
    \<and> confirm_sas api t2 d1 s1 = (s2, Inr confirm)
    \<and> handle_sas_confirm api u1 confirm g0 = (g1, Inr code)
    \<and> confirm_target_sas u2 g1 = (g2, Inr ())
    \<and> send_payload api t3 d2 pt p s2 = (s3, Inr payload)
    \<and> handle_payload api u3 payload g2 = (g3, Inr (pt, p))
    \<and> send_complete api u4 d3 g3 = (g4, Inr complete)
    \<and> handle_complete api t4 complete s3 = (s4, Inr ())
    \<and> ps_state s4 = Completed \<and> ps_state g4 = Completed"
proof -
  let ?S = "paired_session api Source ks (k_public kt) secret relay ecdh t0"
  let ?T = "paired_session api Target kt (k_public ks) secret relay ecdh u0"
  obtain offer where o:
    "new_target api u0 d0 kt (snd (new_source api t0 ks secret relay)) = Inr (?T Confirming [], offer)"
    "handle_offer api t1 offer (fst (new_source api t0 ks secret relay)) =
       (?S Confirming [ev_id offer], Inr (format_sas (fst (derive_sas api ecdh secret))))"
    "pa_verify api offer = Inr ()" "ev_pubkey offer = k_public kt"
    "\<And>r. ps_keys r = ks \<Longrightarrow>
       decrypt_message api offer r = Inr (Offer (pa_hex_encode api (derive_session_id api secret)) 1)"
    by (rule offer_accepted [OF h ts(1), of u0 d0 relay]) blast
  obtain c where c:
    "confirm_sas api t2 d1 (?S Confirming [ev_id offer]) = (?S Transferring [ev_id offer], Inr c)"
    "handle_sas_confirm api u1 c (?T Confirming []) =
       (?T AwaitingConfirmation [ev_id c], Inr (format_sas (fst (derive_sas api ecdh secret))))"
    "confirm_target_sas u2 (?T AwaitingConfirmation [ev_id c]) = (?T Transferring [ev_id c], Inr ())"
    "pa_verify api c = Inr ()" "ev_pubkey c = k_public ks"
    "\<And>r. ps_keys r = kt \<Longrightarrow> decrypt_message api c r = Inr (SasConfirm (pa_hex_encode api (derive_transcript_hash api
         (derive_session_id api secret) (k_public ks) (k_public kt) (snd (derive_sas api ecdh secret)) secret)))"
    by (rule honest_confirmation [OF h ts(2) us(1,2), of d1 relay "[ev_id offer]"]) blast
  obtain y z where
    "send_payload api t3 d2 pt p (?S Transferring [ev_id offer]) = (?S PayloadExchanged [ev_id offer], Inr y)"
    "handle_payload api u3 y (?T Transferring [ev_id c]) =
       (?T PayloadExchanged [ev_id y, ev_id c], Inr (pt, p))"
    "send_complete api u4 d3 (?T PayloadExchanged [ev_id y, ev_id c]) =
       (?T Completed [ev_id y, ev_id c], Inr z)"
    "handle_complete api t4 z (?S PayloadExchanged [ev_id offer]) =
       (?S Completed [ev_id z, ev_id offer], Inr ())"
    by (rule honest_transfer [OF h ts(3,4) us(3,4) c(4-6) o(3-5), of d2 relay d3]) blast
  then show ?thesis
    using o(1,2) c(1-3) by (intro exI conjI) (assumption | rule paired_session_sel(2))+
qed

text \<open>A concrete instance of the third-party operations, for the witnesses.\<close>

definition zero_id :: bytes where "zero_id = replicate 32 0"
definition zero_hex :: string where "zero_hex = replicate 32 (CHR 0x00)"

definition byte_char :: "u8 \<Rightarrow> char" where "byte_char w = char_of (unat w)"

definition sample_api :: pairing_api where
  "sample_api =
     \<lparr>pa_shared_key = (\<lambda>s p. Inr zero_id), pa_extract = (\<lambda>s i. []),
      pa_expand = (\<lambda>k i n. replicate n 0),
      pa_encrypt = (\<lambda>n s p t. Some (t @ replicate 200 (CHR ''x''))),
      pa_decrypt = (\<lambda>s p c. Some (take (length c - 200) c)),
      pa_to_json = (\<lambda>m. Some (case m of Offer _ _ \<Rightarrow> ''o'' | SasConfirm _ \<Rightarrow> ''s''
                     | Payload _ p \<Rightarrow> CHR ''p'' # p | Complete _ \<Rightarrow> ''c'' | Abort _ \<Rightarrow> ''a'')),
      pa_from_json = (\<lambda>j. if j = ''o'' then Some (Offer zero_hex 1)
                     else if j = ''s'' then Some (SasConfirm zero_hex)
                     else if j = ''c'' then Some (Complete True)
                     else if j \<noteq> [] \<and> hd j = CHR ''p'' then Some (Payload Nsec (tl j)) else None),
      pa_sign = (\<lambda>k kind c tags ts. Inr \<lparr>ev_id = ascii_bytes c, ev_pubkey = k_public k,
                     ev_created_at = ts, ev_kind = kind, ev_tags = tags, ev_content = c\<rparr>),
      pa_verify = (\<lambda>e. if ev_id e = ascii_bytes (ev_content e) then Inr () else Inl ''bad id''),
      pa_hex_encode = map byte_char, pa_hex_decode = (\<lambda>h. Some (ascii_bytes h))\<rparr>"

definition sample_source_keys :: pairing_keys where
  "sample_source_keys = \<lparr>k_secret = [1], k_public = replicate 32 2\<rparr>"

definition sample_target_keys :: pairing_keys where
  "sample_target_keys = \<lparr>k_secret = [3], k_public = replicate 32 4\<rparr>"

definition sample_sd :: send_env where
  "sample_sd = \<lparr>sd_now_secs = 100, sd_random = 7, sd_nonce = []\<rparr>"

lemma unat_of_char: "unat (of_char c :: u8) = of_char c"
  by (cases c) (auto simp: of_char_def)

lemma of_char_byte_inj: "of_char c = (of_char d :: u8) \<Longrightarrow> c = d"
proof -
  assume "of_char c = (of_char d :: u8)"
  then have "(of_char c :: nat) = of_char d" using unat_of_char by metis
  then show "c = d" by simp
qed

lemma of_char_byte_char: "of_char (byte_char w) = w"
proof -
  have "unat w < 256" using unsigned_less [of w] by simp
  then have "unat (of_char (byte_char w) :: u8) = unat w"
    by (simp add: unat_of_char byte_char_def)
  then show ?thesis by (rule unsigned_word_eqI)
qed

lemma ascii_bytes_byte_char: "ascii_bytes (map byte_char b) = b"
  by (induction b) (simp_all add: ascii_bytes_def of_char_byte_char)

lemma ascii_bytes_inj: "ascii_bytes s = ascii_bytes t \<Longrightarrow> s = t"
  unfolding ascii_bytes_def by (rule map_injective) (auto intro: injI of_char_byte_inj)

lemma sample_channel: "channel_ok sample_api a b"
  by (auto simp: channel_ok_def sample_api_def)

lemma sample_ids: "ids_ok sample_api"
  by (auto simp: ids_ok_def sample_api_def split: if_splits intro: ascii_bytes_inj)

lemma sample_hex:
  "pa_hex_decode sample_api (pa_hex_encode sample_api b) = Some b"
  "pa_hex_encode sample_api zero_id = zero_hex"
  by (simp_all add: sample_api_def ascii_bytes_byte_char zero_id_def zero_hex_def byte_char_def
      char_of_def)

lemma sample_decode: "decode32 sample_api zero_hex = Some zero_id"
  using sample_hex(1) [of zero_id] unfolding sample_hex(2) decode32_def by (simp add: zero_id_def)

lemma sample_hkdf: "hkdf32 sample_api s i f = zero_id"
  by (simp add: hkdf32_def sample_api_def zero_id_def)

lemma sample_json:
  "json_ok sample_api (Offer zero_hex 1)" "json_ok sample_api (SasConfirm zero_hex)"
  "json_ok sample_api (Complete True)" "json_ok sample_api (Payload Nsec ''nsec1'')"
  by (auto simp: json_ok_def sample_api_def)

lemma sample_honest:
  "honest_setting sample_api sample_source_keys sample_target_keys [9] zero_id Nsec ''nsec1''"
  using sample_json
  by (simp add: honest_setting_def Let_def sample_channel sample_ids sample_decode sample_hkdf
      sample_hex derive_session_id_def derive_transcript_hash_def)
     (simp add: sample_api_def)

theorem honest_pairing_succeeds_witness:
  "\<exists>g payload g'. handle_payload sample_api 40 payload g = (g', Inr (Nsec, ''nsec1''))"
  using honest_pairing_succeeds [OF sample_honest, of 10 5 20 30 50 11 6 25 40 45 sample_sd
      "''wss://r''" sample_sd sample_sd sample_sd]
  by (auto simp: DEFAULT_TIMEOUT_def)

text \<open>C22. The protocol order is enforced: whatever calls are made on a session that \<open>new_target\<close>
  returned, with any events and at any times, the accepted ones follow the protocol. In particular a
  target that is ready for the payload has accepted exactly one confirmation of the source, and then
  the user's own approval; a payload is accepted once, and only after both.\<close>

theorem target_accepts_in_protocol_order:
  assumes "new_target api now sd keys qr = Inr (s0, offer)" and "pairing_run api s0 log s"
  shows "case ps_state s of
      Waiting \<Rightarrow> False
    | Confirming \<Rightarrow> log = []
    | AwaitingConfirmation \<Rightarrow> (\<exists>e. log = [Op_Handle_Sas_Confirm e])
    | Transferring \<Rightarrow> (\<exists>e. log = [Op_Handle_Sas_Confirm e, Op_Confirm_Target_Sas])
    | PayloadExchanged \<Rightarrow>
        (\<exists>e p. log = [Op_Handle_Sas_Confirm e, Op_Confirm_Target_Sas, Op_Handle_Payload p])
    | Completed \<Rightarrow>
        (\<exists>e p sd. log = [Op_Handle_Sas_Confirm e, Op_Confirm_Target_Sas, Op_Handle_Payload p,
           Op_Send_Complete sd])
    | Aborted \<Rightarrow> True"
proof (cases "ps_state s = Aborted")
  case False
  have "ps_role s0 = Target" "ps_state s0 = Confirming" "ps_sas_code s0 \<noteq> None"
    using assms(1) by (auto simp: new_target_def Let_def and_then_Inr split: sum.splits prod.splits)
  then have "edge_path Target Confirming log (ps_state s)"
    using run_edge_path [OF assms(2)] False by simp
  then show ?thesis using target_paths by (cases "ps_state s") fastforce+
qed simp

theorem target_accepts_in_protocol_order_witness:
  "\<exists>s0 offer. new_target sample_api 5 sample_sd sample_target_keys
       (snd (new_source sample_api 5 sample_source_keys [9] ''wss://r'')) = Inr (s0, offer)
     \<and> ps_state s0 = Confirming"
proof -
  obtain s0 offer where n: "new_target sample_api 5 sample_sd sample_target_keys
       (snd (new_source sample_api 5 sample_source_keys [9] ''wss://r'')) = Inr (s0, offer)"
    by (rule offer_accepted [OF sample_honest, of 5 5 5 sample_sd "''wss://r''"])
       (auto simp: DEFAULT_TIMEOUT_def)
  moreover have "ps_state s0 \<noteq> Waiting"
    using target_accepts_in_protocol_order [OF n run_start] by auto
  moreover have "ps_state s0 = Confirming"
    using n by (auto simp: new_target_def Let_def and_then_Inr split: sum.splits prod.splits)
  ultimately show ?thesis by blast
qed

text \<open>The same for the source: a source that sends or accepts a payload has accepted exactly one
  offer and then its user's confirmation of the code, and completes only after one payload
  exchange.\<close>

theorem source_accepts_in_protocol_order:
  assumes "pairing_run api (fst (new_source api now keys secret relay)) log s"
  shows "case ps_state s of
      Waiting \<Rightarrow> log = []
    | Confirming \<Rightarrow> (\<exists>e. log = [Op_Handle_Offer e])
    | AwaitingConfirmation \<Rightarrow> False
    | Transferring \<Rightarrow> (\<exists>e sd. log = [Op_Handle_Offer e, Op_Confirm_Sas sd])
    | PayloadExchanged \<Rightarrow> (\<exists>e sd p. log = [Op_Handle_Offer e, Op_Confirm_Sas sd, p]
        \<and> op_edge p = Some (Source, Transferring, PayloadExchanged))
    | Completed \<Rightarrow> (\<exists>e sd p q. log = [Op_Handle_Offer e, Op_Confirm_Sas sd, p, q]
        \<and> op_edge p = Some (Source, Transferring, PayloadExchanged)
        \<and> op_edge q = Some (Source, PayloadExchanged, Completed))
    | Aborted \<Rightarrow> True"
proof (cases "ps_state s = Aborted")
  case False
  have "edge_path Source Waiting log (ps_state s)"
    using run_edge_path [OF assms] False by (simp add: new_source_def)
  then show ?thesis using source_paths [of log "ps_state s"] False by (cases "ps_state s") auto
qed simp

theorem source_accepts_in_protocol_order_witness:
  "\<exists>s e. pairing_run sample_api (fst (new_source sample_api 5 sample_source_keys [9] ''wss://r''))
       [Op_Handle_Offer e] s \<and> ps_state s \<noteq> Waiting"
proof -
  obtain offer s1 code where "handle_offer sample_api 6 offer
      (fst (new_source sample_api 5 sample_source_keys [9] ''wss://r'')) = (s1, Inr code)"
    by (rule offer_accepted [OF sample_honest, of 6 5 5 sample_sd "''wss://r''"])
       (auto simp: DEFAULT_TIMEOUT_def)
  then have r: "pairing_run sample_api (fst (new_source sample_api 5 sample_source_keys [9] ''wss://r''))
      [Op_Handle_Offer offer] s1"
    using run_op [OF run_start, of sample_api 6 "Op_Handle_Offer offer" _ s1 True]
    by (simp add: accepted_def)
  then show ?thesis using source_accepts_in_protocol_order [OF r] by auto
qed

text \<open>Mutual binding: if the target accepts a confirmation whose hash is the one the source computed
  when its user confirmed, then both devices hold the same session id, secret and short-authentication
  input, the source is talking to this target's key and the target to this source's key, so that
  nobody sits between them; or HKDF has a collision.\<close>

theorem sas_confirm_binds:
  assumes acc: "handle_sas_confirm api now ev g = (g', Inr y)"
    and conf: "confirm_sas api now' sd s = (s', Inr ev')"
    and same: "decrypt_message api ev g =
      Inr (SasConfirm (pa_hex_encode api (derive_transcript_hash api (ps_session_id s)
        (k_public (ps_keys s)) (the (ps_peer_pubkey s)) (the (ps_sas_input s)) (ps_session_secret s))))"
    and hex: "\<And>b. length b = 32 \<Longrightarrow> pa_hex_decode api (pa_hex_encode api b) = Some b"
    and lens: "\<And>k i. length (pa_expand api k i 32) = 32" "length (ps_session_id s) = 32"
      "length (ps_session_id g) = 32" "length (k_public (ps_keys s)) = 32"
      "length (k_public (ps_keys g)) = 32" "length (the (ps_peer_pubkey s)) = 32"
      "length (the (ps_peer_pubkey g)) = 32"
  shows "(ps_session_id s = ps_session_id g \<and> ps_session_secret s = ps_session_secret g
      \<and> ps_sas_input s = ps_sas_input g
      \<and> ps_peer_pubkey s = Some (k_public (ps_keys g)) \<and> ps_peer_pubkey g = Some (k_public (ps_keys s)))
    \<or> (\<exists>k k' x x'. (k, x) \<noteq> (k', x')
        \<and> hkdf32 api k x INFO_TRANSCRIPT = hkdf32 api k' x' INFO_TRANSCRIPT)"
proof -
  obtain inp peer where src: "ps_sas_input s = Some inp" "ps_peer_pubkey s = Some peer"
    using confirm_sas_ok [OF conf] by blast
  obtain h inp' peer' where tgt: "decrypt_message api ev g = Inr (SasConfirm h)"
    "ps_sas_input g = Some inp'" "ps_peer_pubkey g = Some peer'"
    "decode32 api h = Some (derive_transcript_hash api (ps_session_id g) peer'
       (k_public (ps_keys g)) inp' (ps_session_secret g))"
    using handle_sas_confirm_ok [OF acc] by blast
  let ?x = "ps_session_id s @ k_public (ps_keys s) @ peer @ inp"
  let ?x' = "ps_session_id g @ peer' @ k_public (ps_keys g) @ inp'"
  have "hkdf32 api (ps_session_secret s) ?x INFO_TRANSCRIPT
      = hkdf32 api (ps_session_secret g) ?x' INFO_TRANSCRIPT"
    using same src tgt(1,4) hex lens(1)
    by (simp add: derive_transcript_hash_def decode32_def hkdf32_def)
  then have "(ps_session_secret s, ?x) = (ps_session_secret g, ?x')
      \<or> (\<exists>k k' x x'. (k, x) \<noteq> (k', x')
          \<and> hkdf32 api k x INFO_TRANSCRIPT = hkdf32 api k' x' INFO_TRANSCRIPT)"
    by blast
  then show ?thesis using lens(2-) src tgt(2,3) by auto
qed

theorem sas_confirm_binds_witness:
  "\<exists>(s :: pairing_session) (g :: pairing_session). ps_state s = Confirming \<and> ps_state g = Confirming \<and>
     ((ps_session_id s = ps_session_id g \<and> ps_session_secret s = ps_session_secret g
        \<and> ps_sas_input s = ps_sas_input g
        \<and> ps_peer_pubkey s = Some (k_public (ps_keys g)) \<and> ps_peer_pubkey g = Some (k_public (ps_keys s)))
      \<or> (\<exists>k k' x x'. (k, x) \<noteq> (k', x')
          \<and> hkdf32 sample_api k x INFO_TRANSCRIPT = hkdf32 sample_api k' x' INFO_TRANSCRIPT))"
proof -
  let ?ks = sample_source_keys and ?kt = sample_target_keys
  let ?s = "paired_session sample_api Source ?ks (k_public ?kt) [9] ''r'' zero_id 0 Confirming []"
  let ?g = "paired_session sample_api Target ?kt (k_public ?ks) [9] ''r'' zero_id 0 Confirming []"
  obtain c s' g' y where c: "confirm_sas sample_api 0 sample_sd ?s = (s', Inr c)"
    "handle_sas_confirm sample_api 0 c ?g = (g', Inr y)"
    "decrypt_message sample_api c ?g = Inr (SasConfirm (pa_hex_encode sample_api
       (derive_transcript_hash sample_api (derive_session_id sample_api [9]) (k_public ?ks) (k_public ?kt)
         (snd (derive_sas sample_api zero_id [9])) [9])))"
    by (rule honest_confirmation [OF sample_honest, of 0 0 0 0 0 sample_sd "''r''" "[]"]) auto
  have exp: "length (pa_expand sample_api k i 32) = 32" for k i by (simp add: sample_api_def)
  have lens: "length (derive_session_id sample_api [9]) = 32" "length (k_public ?ks) = 32"
    "length (k_public ?kt) = 32"
    by (simp_all add: derive_session_id_def hkdf32_def exp sample_source_keys_def
        sample_target_keys_def)
  show ?thesis
    by (intro exI [of _ ?s] exI [of _ ?g] conjI, simp, simp,
        rule sas_confirm_binds [OF c(2) c(1)]) (simp_all add: c(3) exp lens sample_hex(1))
qed

text \<open>Finished and expired sessions are inert: every call on a completed or aborted session is
  refused and changes nothing, and on an expired one every call is refused and changes nothing except
  an abort of either side.\<close>

theorem finished_session_inert:
  "terminal s \<or> (is_expired now s \<and> op_edge op \<noteq> None) \<Longrightarrow> apply_op api now op s = (s, False)"
proof -
  assume fin: "terminal s \<or> (is_expired now s \<and> op_edge op \<noteq> None)"
  obtain s' ok where ap: "apply_op api now op s = (s', ok)" by (cases "apply_op api now op s")
  have "\<not> ok"
  proof
    assume ok
    with ap have t: "apply_op api now op s = (s', True)" by simp
    show False
    proof (cases "op_edge op")
      case None
      then show False using accepted_no_edge [OF t] fin by simp
    next
      case (Some e)
      obtain r f st where e: "e = (r, f, st)" by (cases e)
      have "f \<noteq> Completed" "f \<noteq> Aborted" using Some e by (cases op; auto)+
      then show False using accepted_edge [OF t, of r f st] fin Some e by (auto simp: terminal_def)
    qed
  qed
  with ap have f: "apply_op api now op s = (s', False)" by simp
  have "s' = s"
    using refused_state [OF f] fin by (auto simp: terminal_def)
  with f show ?thesis by simp
qed

theorem finished_session_inert_witness:
  "apply_op sample_api 0 (Op_Abort sample_sd UserDenied)
     (paired_session sample_api Source sample_source_keys [] [9] ''r'' zero_id 0 Completed []) =
   (paired_session sample_api Source sample_source_keys [] [9] ''r'' zero_id 0 Completed [], False)"
  by (rule finished_session_inert) (simp add: terminal_def)



end
