(* ===== verification/Acp_Scope.thy ===== *)
theory Acp_Scope
  imports Event_Filter
begin

text \<open>
  Session scopes of the agent harness: \<open>crates/maju-acp/src/scope.rs\<close> (\<open>SessionPolicy\<close>,
  \<open>SessionScope\<close> and its methods) and the thread-tag reader of \<open>crates/maju-acp/src/queue.rs\<close>
  (\<open>ThreadTags\<close>, \<open>parse_thread_tags\<close>) that scope derivation calls. A scope is the key of a queue
  partition, of a provider session and of the in-flight table.

  The lemmas show that a derived scope always belongs to the event's channel, and that two spellings
  of one thread root give one scope.
\<close>

section \<open>Thread tags\<close>

record thread_tags =
  tt_root_event_id :: "string option"
  tt_parent_event_id :: "string option"
  tt_mentioned_pubkeys :: "string list"

definition parse_thread_tags :: "nostr_event \<Rightarrow> thread_tags" where
  "parse_thread_tags event =
     (let markers = parse_thread_markers (ev_tags event);
          (root_event_id, parent_event_id) =
            (case resolve markers of
               Some (root, parent) \<Rightarrow> (Some root, Some parent)
             | None \<Rightarrow> (None, None));
          mentions = List.map_filter (\<lambda>parts.
            if 2 \<le> length parts \<and> parts ! 0 = ''p'' then Some (parts ! 1) else None) (ev_tags event)
      in \<lparr>tt_root_event_id = root_event_id, tt_parent_event_id = parent_event_id,
          tt_mentioned_pubkeys = mentions\<rparr>)"

section \<open>Scopes\<close>

datatype session_policy = Policy_Channel | Policy_Thread

datatype session_scope =
    Conversation (conversation_channel: uuid)
  | Thread_Scope (thread_channel: uuid) (thread_root: string)

definition scope_channel_id :: "session_scope \<Rightarrow> uuid" where
  "scope_channel_id s = (case s of Conversation c \<Rightarrow> c | Thread_Scope c _ \<Rightarrow> c)"

definition scope_root_event_id :: "session_scope \<Rightarrow> string option" where
  "scope_root_event_id s = (case s of Conversation _ \<Rightarrow> None | Thread_Scope _ r \<Rightarrow> Some r)"

definition is_thread :: "session_scope \<Rightarrow> bool" where
  "is_thread s = (case s of Conversation _ \<Rightarrow> False | Thread_Scope _ _ \<Rightarrow> True)"

definition to_ascii_lowercase_char :: "char \<Rightarrow> char" where
  "to_ascii_lowercase_char c =
     (let n = of_char c :: nat in if 65 \<le> n \<and> n \<le> 90 then char_of (n + 32) else c)"

definition to_ascii_lowercase :: "string \<Rightarrow> string" where
  "to_ascii_lowercase s = map to_ascii_lowercase_char s"

definition derive :: "nostr_api \<Rightarrow> session_policy \<Rightarrow> uuid \<Rightarrow> bool \<Rightarrow> nostr_event \<Rightarrow> session_scope" where
  "derive api policy channel_id is_dm event =
     (if is_dm \<or> policy = Policy_Channel then Conversation channel_id
      else
        (let root_event_id =
           (case tt_root_event_id (parse_thread_tags event) of
              Some root \<Rightarrow> root
            | None \<Rightarrow> api_hex api (ev_id event))
         in Thread_Scope channel_id (to_ascii_lowercase root_event_id)))"

definition telemetry_label :: "session_scope \<Rightarrow> string" where
  "telemetry_label s =
     (case s of
        Conversation _ \<Rightarrow> ''conversation''
      | Thread_Scope _ root \<Rightarrow> ''thread:'' @ take 8 root)"

text \<open>\<open>IntoScope\<close> for a bare channel id; for a scope it is the identity.\<close>

definition into_scope :: "uuid \<Rightarrow> session_scope" where
  "into_scope channel_id = Conversation channel_id"

section \<open>Lemmas\<close>

lemma scope_channel_id_simps [simp]:
  "scope_channel_id (Conversation c) = c" "scope_channel_id (Thread_Scope c r) = c"
  by (simp_all add: scope_channel_id_def)

lemma derive_channel [simp]: "scope_channel_id (derive api policy c dm event) = c"
  by (simp add: derive_def Let_def)

text \<open>
  The thread an event belongs to, read off its tags: the last valid root marker of a reply, the
  parent of a reply without one, and the event itself otherwise.
\<close>

definition canonical_root :: "nostr_api \<Rightarrow> nostr_event \<Rightarrow> string" where
  "canonical_root api event =
     (case last_marker ''reply'' (ev_tags event) of
        None \<Rightarrow> api_hex api (ev_id event)
      | Some reply \<Rightarrow>
          (case last_marker ''root'' (ev_tags event) of Some root \<Rightarrow> root | None \<Rightarrow> reply))"

lemma derive_canonical_root:
  "derive api policy c dm event =
     (if dm \<or> policy = Policy_Channel then Conversation c
      else Thread_Scope c (to_ascii_lowercase (canonical_root api event)))"
  by (auto simp: derive_def parse_thread_tags_def Let_def resolve_def parse_thread_markers_def
      parse_thread_markers_last canonical_root_def split: option.splits)

section \<open>Properties\<close>

text \<open>Two admitted events share a session scope exactly when they are of the same channel and
  either both are conversation-scoped (a direct message, or the channel policy) or both are
  thread-scoped and have the same canonical thread root up to the case of its hex digits. A top-level
  message shares its scope with every reply that names it as root, so one relay thread is never split
  over two sessions, and two threads are never merged.\<close>

theorem derive_same_scope_iff:
  "derive api policy c dm e = derive api policy' c' dm' e' \<longleftrightarrow>
     c = c' \<and>
     (if dm \<or> policy = Policy_Channel then dm' \<or> policy' = Policy_Channel
      else dm' = False \<and> policy' = Policy_Thread
        \<and> to_ascii_lowercase (canonical_root api e) = to_ascii_lowercase (canonical_root api e'))"
  by (cases policy'; auto simp: derive_canonical_root)

end
