(* ===== verification/Acp_Queue.thy ===== *)
theory Acp_Queue
  imports Acp_Scope
begin

text \<open>
  The event queue of the agent harness, \<open>crates/maju-acp/src/queue.rs\<close> (\<open>EventQueue\<close> and its
  methods): admission with per-scope and per-channel caps, the fair flush of one batch per scope with
  in-flight tracking and deadline expiry, retry with exponential backoff and dead-lettering, the
  carry-over of cancelled batches and the withholding of natively steered events.

  An \<open>Instant\<close> and a \<open>Duration\<close> are nanoseconds (\<^typ>\<open>nat\<close>); \<open>Instant::now()\<close> is the argument
  \<open>now\<close>. A \<open>HashMap\<close> is an association list and its iteration order is the order of that list,
  about which the theorems assume nothing. Seconds are \<open>u64\<close> words, whose sums wrap as in a release
  build. The retry counter is a number: the invariant bounds it by \<open>MAX_RETRIES\<close>, so it never wraps.
  Log lines are left out, and \<open>debug_assert_eq!\<close> in \<open>push\<close> is a hypothesis of the theorems.

  The lemmas give the invariant of the queue (caps, no empty partition, one deadline per in-flight
  scope, bounded counters), what every operation does to it, and which events each one keeps.
\<close>

section \<open>Constants and data\<close>

definition MAX_PENDING_PER_SCOPE :: nat where
  "MAX_PENDING_PER_SCOPE = 500"

definition MAX_PENDING_PER_CHANNEL :: nat where
  "MAX_PENDING_PER_CHANNEL = 500"

definition MAX_BATCH_EVENTS :: nat where
  "MAX_BATCH_EVENTS = 50"

definition MAX_RETRIES :: nat where
  "MAX_RETRIES = 10"

definition BASE_RETRY_DELAY_SECS :: nat where
  "BASE_RETRY_DELAY_SECS = 5"

definition MAX_RETRY_DELAY_SECS :: nat where
  "MAX_RETRY_DELAY_SECS = 300"

definition IN_FLIGHT_DEADLINE_BUFFER_SECS :: u64 where
  "IN_FLIGHT_DEADLINE_BUFFER_SECS = 100"

definition DEFAULT_IN_FLIGHT_DEADLINE_SECS :: u64 where
  "DEFAULT_IN_FLIGHT_DEADLINE_SECS = 7300"

type_synonym instant = nat
type_synonym duration = nat

definition from_secs :: "u64 \<Rightarrow> duration" where
  "from_secs s = unat s * 1000000000"

datatype acp_dedup_mode = Dedup_Drop | Dedup_Queue

record queued_event =
  qe_channel_id :: uuid
  qe_scope :: session_scope
  qe_event :: nostr_event
  qe_received_at :: instant
  qe_prompt_tag :: string

record batch_event =
  be_event :: nostr_event
  be_prompt_tag :: string
  be_received_at :: instant

datatype cancel_reason = Interrupt | Steer

record flush_batch =
  fb_channel_id :: uuid
  fb_scope :: session_scope
  fb_events :: "batch_event list"
  fb_cancelled_events :: "batch_event list"
  fb_cancel_reason :: "cancel_reason option"

type_synonym partitions = "(session_scope, queued_event list) hmap"

record event_queue =
  queues :: partitions
  in_flight_scopes :: "session_scope list"
  in_flight_deadlines :: "(session_scope, instant) hmap"
  in_flight_batch_sizes :: "(session_scope, nat) hmap"
  retry_after :: "(session_scope, instant) hmap"
  retry_counts :: "(session_scope, nat) hmap"
  dedup_mode :: acp_dedup_mode
  cancelled_batches :: "(session_scope, batch_event list) hmap"
  cancel_reasons :: "(session_scope, cancel_reason) hmap"
  withheld_native_steer :: partitions
  in_flight_deadline :: duration

definition event_queue_new :: "acp_dedup_mode \<Rightarrow> event_queue" where
  "event_queue_new mode =
     \<lparr>queues = [], in_flight_scopes = [], in_flight_deadlines = [], in_flight_batch_sizes = [],
      retry_after = [], retry_counts = [], dedup_mode = mode, cancelled_batches = [],
      cancel_reasons = [], withheld_native_steer = [],
      in_flight_deadline = from_secs DEFAULT_IN_FLIGHT_DEADLINE_SECS\<rparr>"

definition event_queue_default :: event_queue where
  "event_queue_default = event_queue_new Dedup_Drop"

definition with_in_flight_deadline :: "u64 \<Rightarrow> event_queue \<Rightarrow> event_queue" where
  "with_in_flight_deadline max_turn_duration_secs q =
     q\<lparr>in_flight_deadline := from_secs (max_turn_duration_secs + IN_FLIGHT_DEADLINE_BUFFER_SECS)\<rparr>"

definition extend_in_flight_deadline ::
    "instant \<Rightarrow> session_scope \<Rightarrow> u64 \<Rightarrow> event_queue \<Rightarrow> event_queue" where
  "extend_in_flight_deadline now scope max_turn_secs q =
     (case map_of (in_flight_deadlines q) scope of
        None \<Rightarrow> q
      | Some current \<Rightarrow>
          (let extended = now + from_secs (max_turn_secs + IN_FLIGHT_DEADLINE_BUFFER_SECS) in
           if extended > current
           then q\<lparr>in_flight_deadlines := AList.update scope extended (in_flight_deadlines q)\<rparr>
           else q))"

section \<open>Caps\<close>

definition channel_event_total :: "partitions \<Rightarrow> uuid \<Rightarrow> nat" where
  "channel_event_total qs channel_id =
     sum_list (map (\<lambda>(s, q). length q) (filter (\<lambda>(s, q). scope_channel_id s = channel_id) qs))"

text \<open>
  \<open>iter().min_by_key(|(_, q)| q.front().unwrap().received_at)\<close> over partitions that the caller has
  filtered to non-empty ones; of several minima the first one is returned.
\<close>

definition head_received_at :: "session_scope \<times> queued_event list \<Rightarrow> instant" where
  "head_received_at p = qe_received_at (hd (snd p))"

fun min_by_head :: "partitions \<Rightarrow> (session_scope \<times> queued_event list) option" where
  "min_by_head [] = None"
| "min_by_head (p # ps) =
     (case min_by_head ps of
        None \<Rightarrow> Some p
      | Some m \<Rightarrow> if head_received_at p \<le> head_received_at m then Some p else Some m)"

definition cap_victim :: "uuid \<Rightarrow> partitions \<Rightarrow> session_scope option" where
  "cap_victim channel_id qs =
     map_option fst
       (min_by_head (filter (\<lambda>(s, q). scope_channel_id s = channel_id \<and> q \<noteq> []) qs))"

text \<open>\<open>VecDeque::pop_front\<close> on the partition, which is removed once it is empty.\<close>

definition evict_head :: "session_scope \<Rightarrow> partitions \<Rightarrow> partitions" where
  "evict_head scope qs =
     (case map_of qs scope of
        None \<Rightarrow> qs
      | Some q \<Rightarrow> if tl q = [] then AList.delete scope qs else AList.update scope (tl q) qs)"

lemma min_by_head_in: "min_by_head ps = Some p \<Longrightarrow> p \<in> set ps"
  by (induction ps arbitrary: p) (auto split: option.splits if_splits)

lemma total_Cons [simp]:
  "channel_event_total ((s, q) # qs) c =
     (if scope_channel_id s = c then length q else 0) + channel_event_total qs c"
  by (simp add: channel_event_total_def)

lemma total_Nil [simp]: "channel_event_total [] c = 0"
  by (simp add: channel_event_total_def)

lemma total_AList_update:
  "channel_event_total (AList.update s q qs) c
     + (if scope_channel_id s = c then length (idx_get qs s) else 0)
   = channel_event_total qs c + (if scope_channel_id s = c then length q else 0)"
  by (induction qs) (auto simp: idx_get_def)

lemma total_AList_delete_le: "channel_event_total (AList.delete s qs) c \<le> channel_event_total qs c"
  by (induction qs) auto

lemma total_AList_delete_less:
  "(s, q) \<in> set qs \<Longrightarrow> q \<noteq> [] \<Longrightarrow>
   channel_event_total (AList.delete s qs) (scope_channel_id s) < channel_event_total qs (scope_channel_id s)"
proof (induction qs)
  case (Cons p qs)
  obtain t r where p: "p = (t, r)" by (cases p)
  show ?case
  proof (cases "t = s \<and> r \<noteq> []")
    case True
    then show ?thesis using p total_AList_delete_le [of s qs "scope_channel_id s"] by (cases r) auto
  next
    case False
    with Cons.prems p have "(s, q) \<in> set qs" by auto
    with Cons.IH Cons.prems(2) p show ?thesis by auto
  qed
qed simp

lemma cap_victim_in:
  "cap_victim c qs = Some s \<Longrightarrow> \<exists>q. (s, q) \<in> set qs \<and> q \<noteq> [] \<and> scope_channel_id s = c"
  by (auto simp: cap_victim_def dest!: min_by_head_in)

lemma evict_head_less:
  assumes "cap_victim c qs = Some s"
  shows "channel_event_total (evict_head s qs) c < channel_event_total qs c"
proof -
  obtain q where q: "(s, q) \<in> set qs" "q \<noteq> []" "scope_channel_id s = c"
    using cap_victim_in [OF assms] by blast
  then obtain q' where q': "map_of qs s = Some q'"
    by (metis map_of_eq_None_iff option.exhaust fst_conv imageI)
  show ?thesis
  proof (cases "tl q' = []")
    case True
    then show ?thesis using q q' total_AList_delete_less [of s q qs] by (simp add: evict_head_def)
  next
    case False
    then have "length (tl q') < length q'" by (cases q') auto
    then show ?thesis
      using False q q' total_AList_update [of s "tl q'" qs c] by (simp add: evict_head_def idx_get_def)
  qed
qed

function enforce_channel_cap :: "uuid \<Rightarrow> partitions \<Rightarrow> partitions" where
  "enforce_channel_cap channel_id qs =
     (if channel_event_total qs channel_id > MAX_PENDING_PER_CHANNEL then
        (case cap_victim channel_id qs of
           None \<Rightarrow> qs
         | Some scope \<Rightarrow> enforce_channel_cap channel_id (evict_head scope qs))
      else qs)"
  by pat_completeness auto

termination
  by (relation "measure (\<lambda>(c, qs). channel_event_total qs c)") (auto simp: evict_head_less)

declare enforce_channel_cap.simps [simp del]

text \<open>\<open>for x in xs.rev() { queue.push_front(x) }\<close> and \<open>while queue.len() > n { queue.pop_back() }\<close>.\<close>

definition push_front_all :: "'a list \<Rightarrow> 'a list \<Rightarrow> 'a list" where
  "push_front_all xs queue = fold (\<lambda>x q. x # q) (rev xs) queue"

function trim_back :: "nat \<Rightarrow> 'a list \<Rightarrow> 'a list" where
  "trim_back n queue = (if length queue > n then trim_back n (butlast queue) else queue)"
  by pat_completeness auto

termination
  by (relation "measure (\<lambda>(n, q). length q)") auto

declare trim_back.simps [simp del]

section \<open>Operations\<close>

definition push :: "queued_event \<Rightarrow> event_queue \<Rightarrow> event_queue \<times> bool" where
  "push event q =
     (if dedup_mode q = Dedup_Drop \<and> qe_scope event \<in> set (in_flight_scopes q) then (q, False)
      else
        (let channel_id = qe_channel_id event;
             scope = qe_scope event;
             queue = idx_get (queues q) scope;
             queue = (if length queue \<ge> MAX_PENDING_PER_SCOPE then tl queue else queue);
             qs = AList.update scope (queue @ [event]) (queues q)
         in (q\<lparr>queues := enforce_channel_cap channel_id qs\<rparr>, True)))"

definition recover_withheld_for_expired_scope :: "session_scope \<Rightarrow> event_queue \<Rightarrow> event_queue" where
  "recover_withheld_for_expired_scope scope q =
     (case map_of (withheld_native_steer q) scope of
        None \<Rightarrow> q
      | Some entries \<Rightarrow>
          (let channel_id = scope_channel_id scope;
               queue = push_front_all entries (idx_get (queues q) scope);
               queue = trim_back MAX_PENDING_PER_SCOPE queue
           in q\<lparr>withheld_native_steer := AList.delete scope (withheld_native_steer q),
                queues := enforce_channel_cap channel_id (AList.update scope queue (queues q))\<rparr>))"

text \<open>The expiry block that \<open>flush_next\<close> and \<open>has_flushable_work\<close> start with, and its loop body.\<close>

definition expire_scope :: "session_scope \<Rightarrow> event_queue \<Rightarrow> event_queue" where
  "expire_scope scope q =
     recover_withheld_for_expired_scope scope
       (q\<lparr>in_flight_batch_sizes := AList.delete scope (in_flight_batch_sizes q),
          in_flight_scopes := removeAll scope (in_flight_scopes q),
          in_flight_deadlines := AList.delete scope (in_flight_deadlines q)\<rparr>)"

definition expire_stuck :: "instant \<Rightarrow> event_queue \<Rightarrow> event_queue" where
  "expire_stuck now q =
     fold expire_scope (map fst (filter (\<lambda>(s, deadline). now \<ge> deadline) (in_flight_deadlines q))) q"

definition ready :: "instant \<Rightarrow> event_queue \<Rightarrow> session_scope \<times> queued_event list \<Rightarrow> bool" where
  "ready now q p =
     (snd p \<noteq> [] \<and> fst p \<notin> set (in_flight_scopes q)
      \<and> (case map_of (retry_after q) (fst p) of None \<Rightarrow> True | Some t \<Rightarrow> t \<le> now))"

definition batch_event_of :: "queued_event \<Rightarrow> batch_event" where
  "batch_event_of qe =
     \<lparr>be_event = qe_event qe, be_prompt_tag = qe_prompt_tag qe, be_received_at = qe_received_at qe\<rparr>"

definition unwrap_or_default :: "'a list option \<Rightarrow> 'a list" where
  "unwrap_or_default x = (case x of Some xs \<Rightarrow> xs | None \<Rightarrow> [])"

text \<open>The two endings of \<open>flush_next\<close>: re-dispatch of a cancelled batch, and the regular drain.\<close>

definition flush_cancelled ::
    "instant \<Rightarrow> session_scope \<Rightarrow> event_queue \<Rightarrow> event_queue \<times> flush_batch option" where
  "flush_cancelled now scope q =
     (let cancelled = unwrap_or_default (map_of (cancelled_batches q) scope);
          cancel_reason = map_of (cancel_reasons q) scope
      in (q\<lparr>cancelled_batches := AList.delete scope (cancelled_batches q),
            cancel_reasons := AList.delete scope (cancel_reasons q),
            in_flight_scopes := List.insert scope (in_flight_scopes q),
            in_flight_deadlines :=
              AList.update scope (now + in_flight_deadline q) (in_flight_deadlines q),
            in_flight_batch_sizes :=
              AList.update scope (length cancelled) (in_flight_batch_sizes q)\<rparr>,
          Some \<lparr>fb_channel_id = scope_channel_id scope, fb_scope = scope, fb_events = cancelled,
            fb_cancelled_events = [], fb_cancel_reason = cancel_reason\<rparr>))"

definition flush_scope ::
    "instant \<Rightarrow> session_scope \<Rightarrow> event_queue \<Rightarrow> event_queue \<times> flush_batch option" where
  "flush_scope now scope q =
     (let channel_id = scope_channel_id scope;
          queue = idx_get (queues q) scope;
          drain_count = min MAX_BATCH_EVENTS (length queue);
          drained = map batch_event_of (take drain_count queue);
          rest = drop drain_count queue;
          events = sort_key (\<lambda>be. ev_created_at (be_event be)) drained;
          qs = (if rest = [] then AList.delete scope (queues q)
                else AList.update scope rest (queues q));
          cancelled_events = unwrap_or_default (map_of (cancelled_batches q) scope);
          cancel_reason =
            (if cancelled_events = [] then None else map_of (cancel_reasons q) scope)
      in (q\<lparr>queues := qs,
            in_flight_scopes := List.insert scope (in_flight_scopes q),
            in_flight_deadlines :=
              AList.update scope (now + in_flight_deadline q) (in_flight_deadlines q),
            in_flight_batch_sizes :=
              AList.update scope (length events) (in_flight_batch_sizes q),
            cancelled_batches := AList.delete scope (cancelled_batches q),
            cancel_reasons := AList.delete scope (cancel_reasons q)\<rparr>,
          Some \<lparr>fb_channel_id = channel_id, fb_scope = scope, fb_events = events,
            fb_cancelled_events = cancelled_events, fb_cancel_reason = cancel_reason\<rparr>))"

definition flush_next :: "instant \<Rightarrow> event_queue \<Rightarrow> event_queue \<times> flush_batch option" where
  "flush_next now q0 =
     (let q = expire_stuck now q0 in
      case map_option fst (min_by_head (filter (ready now q) (queues q))) of
        Some scope \<Rightarrow> flush_scope now scope q
      | None \<Rightarrow>
          (case List.find (\<lambda>scope. scope \<notin> set (in_flight_scopes q)) (map fst (cancelled_batches q)) of
             Some scope \<Rightarrow> flush_cancelled now scope q
           | None \<Rightarrow> (q, None)))"

definition mark_complete :: "instant \<Rightarrow> session_scope \<Rightarrow> event_queue \<Rightarrow> event_queue" where
  "mark_complete now scope q0 =
     (let q = q0\<lparr>in_flight_scopes := removeAll scope (in_flight_scopes q0),
                 in_flight_deadlines := AList.delete scope (in_flight_deadlines q0),
                 in_flight_batch_sizes := AList.delete scope (in_flight_batch_sizes q0)\<rparr>
      in case map_of (retry_after q) scope of
           Some deadline \<Rightarrow>
             if deadline > now then q
             else q\<lparr>retry_after := AList.delete scope (retry_after q),
                    retry_counts := AList.delete scope (retry_counts q)\<rparr>
         | None \<Rightarrow> q\<lparr>retry_counts := AList.delete scope (retry_counts q)\<rparr>)"

text \<open>
  The backoff of \<open>requeue\<close>. The factor \<open>0.8 + nanos / u32::MAX * 0.4\<close> is an \<open>f64\<close> in the code; here
  the delay is the exact value of the expression, rounded to nanoseconds as \<open>from_secs_f64\<close> does.
  Rounding of the \<open>f64\<close> operations moves it by less than a nanosecond.
\<close>

definition backoff_secs :: "nat \<Rightarrow> nat" where
  "backoff_secs attempt =
     (let base_secs = min (BASE_RETRY_DELAY_SECS * 2 ^ min (attempt - 1) 6) (2 ^ 64 - 1)
      in min base_secs MAX_RETRY_DELAY_SECS)"

definition retry_delay :: "nat \<Rightarrow> nat \<Rightarrow> duration" where
  "retry_delay attempt nanos =
     (let u32_max = 2 ^ 32 - 1;
          num = backoff_secs attempt * 1000000000 * (8 * u32_max + 4 * nanos);
          den = 10 * u32_max
      in (2 * num + den) div (2 * den))"

definition queued_event_of :: "uuid \<Rightarrow> session_scope \<Rightarrow> batch_event \<Rightarrow> queued_event" where
  "queued_event_of channel_id scope be =
     \<lparr>qe_channel_id = channel_id, qe_scope = scope, qe_event = be_event be,
      qe_received_at = be_received_at be, qe_prompt_tag = be_prompt_tag be\<rparr>"

definition push_back_batch :: "flush_batch \<Rightarrow> partitions \<Rightarrow> partitions" where
  "push_back_batch b qs =
     AList.update (fb_scope b)
       (trim_back MAX_PENDING_PER_SCOPE
         (push_front_all (map (queued_event_of (fb_channel_id b) (fb_scope b)) (fb_events b))
           (idx_get qs (fb_scope b)))) qs"

definition requeue ::
    "instant \<Rightarrow> nat \<Rightarrow> flush_batch \<Rightarrow> event_queue \<Rightarrow> event_queue \<times> flush_batch option" where
  "requeue now nanos b q =
     (let channel_id = fb_channel_id b;
          scope = fb_scope b;
          attempt = (case map_of (retry_counts q) scope of Some n \<Rightarrow> n | None \<Rightarrow> 0) + 1;
          q = q\<lparr>retry_counts := AList.update scope attempt (retry_counts q)\<rparr>
      in if attempt > MAX_RETRIES then
           (q\<lparr>retry_counts := AList.delete scope (retry_counts q),
              retry_after := AList.delete scope (retry_after q)\<rparr>, Some b)
         else
           (q\<lparr>queues := enforce_channel_cap channel_id (push_back_batch b (queues q)),
              retry_after := AList.update scope (now + retry_delay attempt nanos) (retry_after q)\<rparr>,
            None))"

definition requeue_preserve_timestamps :: "flush_batch \<Rightarrow> event_queue \<Rightarrow> event_queue" where
  "requeue_preserve_timestamps b q0 =
     (let channel_id = fb_channel_id b;
          scope = fb_scope b;
          q = (if fb_cancelled_events b \<noteq> [] then
                 q0\<lparr>cancelled_batches :=
                      AList.update scope
                        (fb_cancelled_events b
                          @ unwrap_or_default (map_of (cancelled_batches q0) scope))
                        (cancelled_batches q0),
                    cancel_reasons :=
                      (case fb_cancel_reason b of
                         None \<Rightarrow> cancel_reasons q0
                       | Some reason \<Rightarrow>
                           (case map_of (cancel_reasons q0) scope of
                              None \<Rightarrow> AList.update scope reason (cancel_reasons q0)
                            | Some _ \<Rightarrow> cancel_reasons q0))\<rparr>
               else q0)
      in q\<lparr>queues := enforce_channel_cap channel_id (push_back_batch b (queues q))\<rparr>)"

definition requeue_as_cancelled :: "flush_batch \<Rightarrow> cancel_reason \<Rightarrow> event_queue \<Rightarrow> event_queue" where
  "requeue_as_cancelled b reason q =
     (let scope = fb_scope b;
          entry = unwrap_or_default (map_of (cancelled_batches q) scope)
      in q\<lparr>cancelled_batches :=
             AList.update scope (entry @ fb_cancelled_events b @ fb_events b) (cancelled_batches q),
           cancel_reasons := AList.update scope reason (cancel_reasons q)\<rparr>)"

definition has_flushable_work :: "instant \<Rightarrow> event_queue \<Rightarrow> event_queue \<times> bool" where
  "has_flushable_work now q0 =
     (let q = expire_stuck now q0 in
      (q, list_ex (ready now q) (queues q)
          \<or> list_ex (\<lambda>scope. scope \<notin> set (in_flight_scopes q)) (map fst (cancelled_batches q))))"

definition has_undispatched_work :: "event_queue \<Rightarrow> bool" where
  "has_undispatched_work q =
     (let has_queued = list_ex (\<lambda>(s, v). v \<noteq> [] \<and> s \<notin> set (in_flight_scopes q)) (queues q);
          has_cancelled = list_ex (\<lambda>(s, v). s \<notin> set (in_flight_scopes q)) (cancelled_batches q);
          has_withheld =
            list_ex (\<lambda>(s, v). v \<noteq> [] \<and> s \<notin> set (in_flight_scopes q)) (withheld_native_steer q)
      in has_queued \<or> has_cancelled \<or> has_withheld)"

definition pending_channels :: "event_queue \<Rightarrow> nat" where
  "pending_channels q = length (queues q)"

definition is_scope_in_flight :: "session_scope \<Rightarrow> event_queue \<Rightarrow> bool" where
  "is_scope_in_flight scope q \<longleftrightarrow> scope \<in> set (in_flight_scopes q)"

definition has_in_flight :: "event_queue \<Rightarrow> bool" where
  "has_in_flight q \<longleftrightarrow> in_flight_scopes q \<noteq> []"

definition event_hex :: "nostr_api \<Rightarrow> queued_event \<Rightarrow> string" where
  "event_hex api qe = api_hex api (ev_id (qe_event qe))"

definition outside_channel :: "uuid \<Rightarrow> (session_scope, 'v) hmap \<Rightarrow> (session_scope, 'v) hmap" where
  "outside_channel channel_id m = filter (\<lambda>(s, v). scope_channel_id s \<noteq> channel_id) m"

definition drain_channel :: "nostr_api \<Rightarrow> uuid \<Rightarrow> event_queue \<Rightarrow> event_queue \<times> string list" where
  "drain_channel api channel_id q =
     (let scopes = filter (\<lambda>s. scope_channel_id s = channel_id) (map fst (queues q));
          (qs, ids) = fold (\<lambda>scope (qs, ids).
              (case map_of qs scope of
                 None \<Rightarrow> (qs, ids)
               | Some v \<Rightarrow> (AList.delete scope qs, ids @ map (event_hex api) v)))
            scopes (queues q, [])
      in (q\<lparr>queues := qs,
            retry_after := outside_channel channel_id (retry_after q),
            retry_counts := outside_channel channel_id (retry_counts q),
            cancelled_batches := outside_channel channel_id (cancelled_batches q),
            cancel_reasons := outside_channel channel_id (cancel_reasons q),
            withheld_native_steer := outside_channel channel_id (withheld_native_steer q)\<rparr>, ids))"

fun position :: "('a \<Rightarrow> bool) \<Rightarrow> 'a list \<Rightarrow> nat option" where
  "position p [] = None"
| "position p (x # xs) = (if p x then Some 0 else map_option Suc (position p xs))"

definition remove_at :: "nat \<Rightarrow> 'a list \<Rightarrow> 'a list" where
  "remove_at i xs = take i xs @ drop (Suc i) xs"

text \<open>\<open>v.remove(pos)\<close> in a map entry that is dropped once it is empty.\<close>

definition take_at :: "session_scope \<Rightarrow> nat \<Rightarrow> partitions \<Rightarrow> partitions" where
  "take_at scope pos qs =
     (let v = remove_at pos (idx_get qs scope) in
      if v = [] then AList.delete scope qs else AList.update scope v qs)"

definition mark_native_steer_pending ::
    "nostr_api \<Rightarrow> session_scope \<Rightarrow> string \<Rightarrow> event_queue \<Rightarrow> event_queue \<times> bool" where
  "mark_native_steer_pending api scope event_id q =
     (case map_of (queues q) scope of
        None \<Rightarrow> (q, False)
      | Some v \<Rightarrow>
          (case position (\<lambda>qe. event_hex api qe = event_id) v of
             None \<Rightarrow> (q, False)
           | Some pos \<Rightarrow>
               (q\<lparr>queues := take_at scope pos (queues q),
                  withheld_native_steer := idx_push scope (v ! pos) (withheld_native_steer q)\<rparr>,
                True)))"

definition release_native_steer ::
    "nostr_api \<Rightarrow> session_scope \<Rightarrow> string \<Rightarrow> event_queue \<Rightarrow> event_queue" where
  "release_native_steer api scope event_id q =
     (case map_of (withheld_native_steer q) scope of
        None \<Rightarrow> q
      | Some entries \<Rightarrow>
          (case position (\<lambda>qe. event_hex api qe = event_id) entries of
             None \<Rightarrow> q
           | Some pos \<Rightarrow>
               (let channel_id = scope_channel_id scope;
                    queue = trim_back MAX_PENDING_PER_SCOPE
                      (entries ! pos # idx_get (queues q) scope)
                in q\<lparr>withheld_native_steer := take_at scope pos (withheld_native_steer q),
                     queues := enforce_channel_cap channel_id (AList.update scope queue (queues q))\<rparr>)))"

definition remove_event ::
    "nostr_api \<Rightarrow> session_scope \<Rightarrow> string \<Rightarrow> event_queue \<Rightarrow> event_queue" where
  "remove_event api scope event_id q =
     q\<lparr>withheld_native_steer :=
         idx_retain (\<lambda>qe. event_hex api qe \<noteq> event_id) scope (withheld_native_steer q),
       queues := idx_retain (\<lambda>qe. event_hex api qe \<noteq> event_id) scope (queues q)\<rparr>"

definition compact_expired_state :: "instant \<Rightarrow> event_queue \<Rightarrow> event_queue" where
  "compact_expired_state now q0 =
     (let q = q0\<lparr>retry_after := filter (\<lambda>(s, deadline). deadline > now) (retry_after q0)\<rparr>
      in q\<lparr>retry_counts := filter (\<lambda>(s, n).
             map_of (retry_after q) s \<noteq> None
             \<or> (case map_of (queues q) s of Some v \<Rightarrow> v \<noteq> [] | None \<Rightarrow> False)
             \<or> s \<in> set (in_flight_scopes q)) (retry_counts q)\<rparr>)"

section \<open>Partitions\<close>

definition owned :: "session_scope \<Rightarrow> queued_event \<Rightarrow> bool" where
  "owned s e \<longleftrightarrow> qe_scope e = s \<and> qe_channel_id e = scope_channel_id s"

text \<open>Partitions hold only their own events and are never empty; \<open>parts_ok\<close> adds the caps.\<close>

definition parts_wf :: "partitions \<Rightarrow> bool" where
  "parts_wf qs \<longleftrightarrow> idx_wf qs
     \<and> (\<forall>s. length (idx_get qs s) \<le> MAX_PENDING_PER_SCOPE \<and> list_all (owned s) (idx_get qs s))"

definition parts_ok :: "partitions \<Rightarrow> bool" where
  "parts_ok qs \<longleftrightarrow> parts_wf qs \<and> (\<forall>c. channel_event_total qs c \<le> MAX_PENDING_PER_CHANNEL)"

lemma push_front_all_eq [simp]: "push_front_all xs q = xs @ q"
proof -
  have "fold (\<lambda>x q. x # q) ys q = rev ys @ q" for ys
    by (induction ys arbitrary: q) auto
  then show ?thesis by (simp add: push_front_all_def)
qed

lemma trim_back_eq [simp]: "trim_back n q = take n q"
proof (induction n q rule: trim_back.induct)
  case (1 n q)
  then show ?case by (subst trim_back.simps) (auto simp: butlast_conv_take min_def)
qed

lemma idx_wf_empty_iff: "idx_wf m \<Longrightarrow> idx_get m s = [] \<longleftrightarrow> map_of m s = None"
  by (auto simp: idx_wf_def idx_get_def split: option.splits dest!: map_of_SomeD) force

lemma idx_wf_SomeD: "idx_wf m \<Longrightarrow> map_of m s = Some v \<Longrightarrow> v \<noteq> [] \<and> idx_get m s = v"
  using idx_wf_empty_iff [of m s] by (auto simp: idx_get_def)

lemma idx_in_set: "idx_wf m \<Longrightarrow> (s, v) \<in> set m \<longleftrightarrow> v \<noteq> [] \<and> idx_get m s = v"
proof -
  assume wf: "idx_wf m"
  then have "(s, v) \<in> set m \<longleftrightarrow> map_of m s = Some v" by (simp add: idx_wf_def hm_lookup_iff)
  then show ?thesis
    using wf idx_wf_SomeD [of m s] by (cases "map_of m s") (auto simp: idx_get_def)
qed

lemma total_AList_delete:
  "hm_wf qs \<Longrightarrow> channel_event_total (AList.delete s qs) c
     + (if scope_channel_id s = c then length (idx_get qs s) else 0) = channel_event_total qs c"
proof (induction qs)
  case (Cons p qs)
  obtain t r where p: "p = (t, r)" by (cases p)
  have "t \<notin> fst ` set qs" using Cons.prems p by simp
  then have "AList.delete t qs = qs" "map_of qs t = None"
    by (simp_all add: delete_id map_of_eq_None_iff)
  then show ?case using Cons p by (auto simp: idx_get_def)
qed (simp add: idx_get_def)

lemma min_by_head_None: "min_by_head ps = None \<longleftrightarrow> ps = []"
  by (cases ps) (auto split: option.splits)

lemma min_by_head_least:
  "min_by_head ps = Some m \<Longrightarrow> p \<in> set ps \<Longrightarrow> head_received_at m \<le> head_received_at p"
proof (induction ps arbitrary: m p)
  case (Cons x ps)
  show ?case
  proof (cases "min_by_head ps")
    case None
    then show ?thesis using Cons.prems by (simp add: min_by_head_None)
  next
    case (Some y)
    then show ?thesis using Cons.prems Cons.IH [OF Some] by (fastforce split: if_splits)
  qed
qed simp

lemma cap_victim_None: "cap_victim c qs = None \<Longrightarrow> channel_event_total qs c = 0"
  by (induction qs) (auto simp: cap_victim_def min_by_head_None split: if_splits)

lemma idx_get_evict [simp]:
  "idx_get (evict_head s qs) t = (if t = s then tl (idx_get qs s) else idx_get qs t)"
  by (auto simp: evict_head_def idx_get_def split: option.splits)

lemma idx_wf_evict: "idx_wf qs \<Longrightarrow> idx_wf (evict_head s qs)"
  by (auto simp: evict_head_def idx_wf_update idx_wf_delete split: option.splits)

lemma total_evict_other:
  "hm_wf qs \<Longrightarrow> scope_channel_id s \<noteq> c \<Longrightarrow>
   channel_event_total (evict_head s qs) c = channel_event_total qs c"
  using total_AList_delete [of qs s c] total_AList_update [of s "tl (idx_get qs s)" qs c]
  by (cases "map_of qs s") (auto simp: evict_head_def idx_get_def simp del: map_of_eq_Some_iff)

text \<open>The cap cuts a prefix off every partition of the channel and nothing else.\<close>

lemma enforce_cap_facts:
  assumes "idx_wf qs"
  shows "idx_wf (enforce_channel_cap c qs)
    \<and> channel_event_total (enforce_channel_cap c qs) c \<le> MAX_PENDING_PER_CHANNEL
    \<and> (\<forall>d. d \<noteq> c \<longrightarrow> channel_event_total (enforce_channel_cap c qs) d = channel_event_total qs d)
    \<and> (\<forall>s. \<exists>k. idx_get (enforce_channel_cap c qs) s = drop k (idx_get qs s)
          \<and> (scope_channel_id s \<noteq> c \<longrightarrow> k = 0))"
  using assms
proof (induction c qs rule: enforce_channel_cap.induct)
  case (1 c qs)
  show ?case
  proof (cases "channel_event_total qs c > MAX_PENDING_PER_CHANNEL")
    case False
    then have "enforce_channel_cap c qs = qs" by (simp add: enforce_channel_cap.simps)
    then show ?thesis using False "1.prems" by (auto intro: exI [of _ 0])
  next
    case True
    then obtain v where v: "cap_victim c qs = Some v"
      using cap_victim_None [of c qs] by (cases "cap_victim c qs") auto
    have e: "enforce_channel_cap c qs = enforce_channel_cap c (evict_head v qs)"
      using True v by (simp add: enforce_channel_cap.simps [of c qs])
    have c: "scope_channel_id v = c" using cap_victim_in [OF v] by auto
    note IH = "1.IH" [OF True v idx_wf_evict [OF "1.prems"]]
    have "\<exists>k. idx_get (enforce_channel_cap c qs) s = drop k (idx_get qs s)
          \<and> (scope_channel_id s \<noteq> c \<longrightarrow> k = 0)" for s
    proof -
      obtain k where k: "idx_get (enforce_channel_cap c qs) s = drop k (idx_get (evict_head v qs) s)"
        "scope_channel_id s \<noteq> c \<longrightarrow> k = 0"
        using IH e by metis
      show ?thesis
      proof (cases "s = v")
        case True
        then show ?thesis using k c by (auto intro!: exI [of _ "Suc k"] simp: drop_Suc)
      qed (use k in auto)
    qed
    then show ?thesis
      using IH e c total_evict_other [of qs v] "1.prems" by (auto simp: idx_wf_def)
  qed
qed

lemma enforce_cap_id:
  "channel_event_total qs c \<le> MAX_PENDING_PER_CHANNEL \<Longrightarrow> enforce_channel_cap c qs = qs"
  by (simp add: enforce_channel_cap.simps)

lemma enforce_cap_other:
  "idx_wf qs \<Longrightarrow> scope_channel_id s \<noteq> c \<Longrightarrow> idx_get (enforce_channel_cap c qs) s = idx_get qs s"
  using enforce_cap_facts [of qs c] by (metis drop0)

lemma list_all_drop: "list_all P xs \<Longrightarrow> list_all P (drop k xs)"
  by (auto simp: list_all_iff dest: in_set_dropD)

lemma parts_ok_enforce:
  assumes "parts_wf qs" and "\<And>d. d \<noteq> c \<Longrightarrow> channel_event_total qs d \<le> MAX_PENDING_PER_CHANNEL"
  shows "parts_ok (enforce_channel_cap c qs)"
proof -
  have wf: "idx_wf qs" using assms(1) by (simp add: parts_wf_def)
  note F = enforce_cap_facts [OF wf, of c]
  have "length (idx_get (enforce_channel_cap c qs) s) \<le> MAX_PENDING_PER_SCOPE
    \<and> list_all (owned s) (idx_get (enforce_channel_cap c qs) s)" for s
  proof -
    obtain k where k: "idx_get (enforce_channel_cap c qs) s = drop k (idx_get qs s)" using F by metis
    have "length (idx_get qs s) \<le> MAX_PENDING_PER_SCOPE" "list_all (owned s) (idx_get qs s)"
      using assms(1) by (simp_all add: parts_wf_def)
    then show ?thesis by (simp add: k list_all_drop)
  qed
  moreover have "channel_event_total (enforce_channel_cap c qs) d \<le> MAX_PENDING_PER_CHANNEL" for d
    using F assms(2) by (cases "d = c") auto
  ultimately show ?thesis using F by (simp add: parts_ok_def parts_wf_def)
qed

lemma parts_ok_put:
  assumes "parts_ok qs" and "v \<noteq> []" and "list_all (owned s) v" and "length v \<le> MAX_PENDING_PER_SCOPE"
  shows "parts_ok (enforce_channel_cap (scope_channel_id s) (AList.update s v qs))"
proof (rule parts_ok_enforce)
  show "parts_wf (AList.update s v qs)"
    using assms by (auto simp: parts_ok_def parts_wf_def idx_wf_update)
  show "channel_event_total (AList.update s v qs) d \<le> MAX_PENDING_PER_CHANNEL"
    if "d \<noteq> scope_channel_id s" for d
    using assms(1) that total_AList_update [of s v qs d] by (auto simp: parts_ok_def)
qed

lemma parts_ok_shrink:
  assumes "parts_ok qs" and "set v \<subseteq> set (idx_get qs s)" and "length v \<le> length (idx_get qs s)"
  shows "parts_ok (if v = [] then AList.delete s qs else AList.update s v qs)"
    (is "parts_ok ?q")
proof -
  have wf: "idx_wf qs" and le: "length (idx_get qs t) \<le> MAX_PENDING_PER_SCOPE"
    and own: "list_all (owned t) (idx_get qs t)"
    and tot: "channel_event_total qs d \<le> MAX_PENDING_PER_CHANNEL" for t d
    using assms(1) by (auto simp: parts_ok_def parts_wf_def)
  have "channel_event_total ?q d \<le> channel_event_total qs d" for d
    using total_AList_update [of s v qs d] total_AList_delete [of qs s d] wf assms(3)
    by (auto simp: idx_wf_def split: if_splits)
  then have "channel_event_total ?q d \<le> MAX_PENDING_PER_CHANNEL" for d
    using tot order_trans by blast
  moreover have "list_all (owned s) v" using own [of s] assms(2) by (auto simp: list_all_iff)
  moreover have "length v \<le> MAX_PENDING_PER_SCOPE" using assms(3) le [of s] by simp
  ultimately show ?thesis
    using wf le own by (auto simp: parts_ok_def parts_wf_def idx_wf_update idx_wf_delete)
qed

section \<open>The invariant\<close>

declare map_of_eq_Some_iff [simp del]

text \<open>Every in-flight scope has a deadline and a batch size, and nothing else has one.\<close>

definition flight_ok :: "event_queue \<Rightarrow> bool" where
  "flight_ok q \<longleftrightarrow> distinct (in_flight_scopes q)
     \<and> hm_wf (in_flight_deadlines q) \<and> hm_wf (in_flight_batch_sizes q)
     \<and> (\<forall>s. (s \<in> set (in_flight_scopes q) \<longleftrightarrow> map_of (in_flight_deadlines q) s \<noteq> None)
          \<and> (s \<in> set (in_flight_scopes q) \<longleftrightarrow> map_of (in_flight_batch_sizes q) s \<noteq> None))"

text \<open>A throttled scope has a counter, and counters stay within the retry limit.\<close>

definition retry_ok :: "event_queue \<Rightarrow> bool" where
  "retry_ok q \<longleftrightarrow> hm_wf (retry_after q) \<and> hm_wf (retry_counts q)
     \<and> (\<forall>s. map_of (retry_after q) s \<noteq> None \<longrightarrow> map_of (retry_counts q) s \<noteq> None)
     \<and> (\<forall>s n. map_of (retry_counts q) s = Some n \<longrightarrow> 1 \<le> n \<and> n \<le> MAX_RETRIES)"

definition cancel_ok :: "event_queue \<Rightarrow> bool" where
  "cancel_ok q \<longleftrightarrow> idx_wf (cancelled_batches q) \<and> hm_wf (cancel_reasons q)
     \<and> (\<forall>s. map_of (cancel_reasons q) s \<noteq> None \<longrightarrow> map_of (cancelled_batches q) s \<noteq> None)"

definition withheld_ok :: "partitions \<Rightarrow> bool" where
  "withheld_ok w \<longleftrightarrow> idx_wf w \<and> (\<forall>s. list_all (owned s) (idx_get w s))"

definition queue_inv :: "event_queue \<Rightarrow> bool" where
  "queue_inv q \<longleftrightarrow> parts_ok (queues q) \<and> flight_ok q \<and> retry_ok q \<and> cancel_ok q
     \<and> withheld_ok (withheld_native_steer q)"

text \<open>What a caller hands back is a batch that was flushed: it has events and names its own scope.\<close>

definition batch_ok :: "flush_batch \<Rightarrow> bool" where
  "batch_ok b \<longleftrightarrow> fb_events b \<noteq> [] \<and> fb_channel_id b = scope_channel_id (fb_scope b)"

lemma queue_inv_new: "queue_inv (event_queue_new mode)"
  by (simp add: queue_inv_def event_queue_new_def parts_ok_def parts_wf_def flight_ok_def retry_ok_def
      cancel_ok_def withheld_ok_def)

lemma inv_frame [simp]:
  "flight_ok (q\<lparr>queues := a\<rparr>) = flight_ok q"
  "flight_ok (q\<lparr>withheld_native_steer := b\<rparr>) = flight_ok q"
  "retry_ok (q\<lparr>queues := a\<rparr>) = retry_ok q"
  "retry_ok (q\<lparr>withheld_native_steer := b\<rparr>) = retry_ok q"
  "cancel_ok (q\<lparr>queues := a\<rparr>) = cancel_ok q"
  "cancel_ok (q\<lparr>withheld_native_steer := b\<rparr>) = cancel_ok q"
  by (simp_all add: flight_ok_def retry_ok_def cancel_ok_def)

lemma list_all_take: "list_all P xs \<Longrightarrow> list_all P (take k xs)"
  by (auto simp: list_all_iff dest: in_set_takeD)

lemma owned_tl: "list_all P xs \<Longrightarrow> list_all P (tl xs)"
  by (cases xs) auto

lemma parts_okD:
  "parts_ok qs \<Longrightarrow> list_all (owned s) (idx_get qs s) \<and> length (idx_get qs s) \<le> MAX_PENDING_PER_SCOPE
     \<and> idx_wf qs"
  by (simp add: parts_ok_def parts_wf_def)

lemma push_parts:
  "parts_ok (queues q) \<Longrightarrow> owned (qe_scope e) e \<Longrightarrow> parts_ok (queues (fst (push e q)))"
proof -
  assume ok: "parts_ok (queues q)" and own: "owned (qe_scope e) e"
  let ?q = "idx_get (queues q) (qe_scope e)"
  let ?v = "(if length ?q \<ge> MAX_PENDING_PER_SCOPE then tl ?q else ?q) @ [e]"
  have "list_all (owned (qe_scope e)) ?v" "length ?v \<le> MAX_PENDING_PER_SCOPE"
    using parts_okD [OF ok, of "qe_scope e"] own
    by (auto simp: owned_tl MAX_PENDING_PER_SCOPE_def)
  then have "parts_ok (enforce_channel_cap (scope_channel_id (qe_scope e))
      (AList.update (qe_scope e) ?v (queues q)))"
    by (intro parts_ok_put [OF ok]) auto
  then show ?thesis using ok own by (simp add: push_def Let_def owned_def)
qed

text \<open>Returning owned events to the front of their partition, the move that four operations share.\<close>

lemma parts_ok_return:
  assumes "parts_ok qs" and "list_all (owned s) es" and "es \<noteq> []"
  shows "parts_ok (enforce_channel_cap (scope_channel_id s)
    (AList.update s (trim_back MAX_PENDING_PER_SCOPE (push_front_all es (idx_get qs s))) qs))"
  using assms parts_okD [OF assms(1), of s]
  by (intro parts_ok_put) (auto simp: list_all_take MAX_PENDING_PER_SCOPE_def intro!: list_all_take)

lemma owned_queued_event_of:
  "c = scope_channel_id s \<Longrightarrow> list_all (owned s) (map (queued_event_of c s) bs)"
  by (simp add: list_all_iff owned_def queued_event_of_def)

lemma push_back_batch_parts:
  "parts_ok qs \<Longrightarrow> batch_ok b \<Longrightarrow>
   parts_ok (enforce_channel_cap (fb_channel_id b) (push_back_batch b qs))"
  using parts_ok_return [OF _ owned_queued_event_of, of qs "fb_channel_id b" "fb_scope b" "fb_events b"]
  by (simp add: batch_ok_def push_back_batch_def)

lemma recover_inv: "queue_inv q \<Longrightarrow> queue_inv (recover_withheld_for_expired_scope s q)"
proof (cases "map_of (withheld_native_steer q) s")
  case (Some es)
  assume inv: "queue_inv q"
  then have w: "withheld_ok (withheld_native_steer q)" and p: "parts_ok (queues q)"
    by (simp_all add: queue_inv_def)
  have "es \<noteq> []" "list_all (owned s) es"
    using w idx_wf_SomeD [OF _ Some] by (auto simp: withheld_ok_def)
  then show ?thesis
    using inv w parts_ok_return [OF p, of s es] Some
    by (auto simp: queue_inv_def recover_withheld_for_expired_scope_def Let_def withheld_ok_def
        idx_wf_delete)
qed (simp add: recover_withheld_for_expired_scope_def)

lemma distinct_removeAll_insert [simp]:
  "distinct xs \<Longrightarrow> distinct (removeAll x xs)" "distinct xs \<Longrightarrow> distinct (List.insert x xs)"
  by (simp_all add: distinct_removeAll distinct_insert)

lemma clear_flight_ok:
  "flight_ok q \<Longrightarrow>
   flight_ok (q\<lparr>in_flight_batch_sizes := AList.delete s (in_flight_batch_sizes q),
     in_flight_scopes := removeAll s (in_flight_scopes q),
     in_flight_deadlines := AList.delete s (in_flight_deadlines q)\<rparr>)"
  by (auto simp: flight_ok_def)

lemma expire_scope_inv: "queue_inv q \<Longrightarrow> queue_inv (expire_scope s q)"
  unfolding expire_scope_def using clear_flight_ok [of q s]
  by (intro recover_inv) (simp add: queue_inv_def retry_ok_def cancel_ok_def)

lemma expire_stuck_inv: "queue_inv q \<Longrightarrow> queue_inv (expire_stuck now q)"
proof -
  have "queue_inv q \<Longrightarrow> queue_inv (fold expire_scope ss q)" for ss
    by (induction ss arbitrary: q) (simp_all add: expire_scope_inv)
  then show "queue_inv q \<Longrightarrow> queue_inv (expire_stuck now q)" by (simp add: expire_stuck_def)
qed

lemma set_flight_ok:
  "flight_ok q \<Longrightarrow>
   flight_ok (q\<lparr>in_flight_scopes := List.insert s (in_flight_scopes q),
     in_flight_deadlines := AList.update s d (in_flight_deadlines q),
     in_flight_batch_sizes := AList.update s n (in_flight_batch_sizes q)\<rparr>)"
  by (auto simp: flight_ok_def)

lemma clear_cancel_ok:
  "cancel_ok q \<Longrightarrow>
   cancel_ok (q\<lparr>cancelled_batches := AList.delete s (cancelled_batches q),
     cancel_reasons := AList.delete s (cancel_reasons q)\<rparr>)"
  by (auto simp: cancel_ok_def idx_wf_delete)

lemma flush_cancelled_inv: "queue_inv q \<Longrightarrow> queue_inv (fst (flush_cancelled now s q))"
  using clear_cancel_ok [of q s] set_flight_ok [of q s]
  by (auto simp: queue_inv_def flush_cancelled_def Let_def flight_ok_def cancel_ok_def retry_ok_def)

lemma flush_scope_inv: "queue_inv q \<Longrightarrow> queue_inv (fst (flush_scope now s q))"
proof -
  assume inv: "queue_inv q"
  let ?v = "drop (min MAX_BATCH_EVENTS (length (idx_get (queues q) s))) (idx_get (queues q) s)"
  have "parts_ok (if ?v = [] then AList.delete s (queues q) else AList.update s ?v (queues q))"
    using inv by (intro parts_ok_shrink) (auto simp: queue_inv_def dest: in_set_dropD)
  then show ?thesis
    using inv clear_cancel_ok [of q s] set_flight_ok [of q s]
    by (auto simp: queue_inv_def flush_scope_def Let_def flight_ok_def cancel_ok_def retry_ok_def)
qed

lemma flush_next_inv: "queue_inv q \<Longrightarrow> queue_inv (fst (flush_next now q))"
  using expire_stuck_inv [of q now] flush_scope_inv flush_cancelled_inv
  by (auto simp: flush_next_def Let_def split: option.splits)

lemma mark_complete_inv: "queue_inv q \<Longrightarrow> queue_inv (mark_complete now s q)"
  using clear_flight_ok [of q s]
  by (auto simp: queue_inv_def mark_complete_def Let_def flight_ok_def cancel_ok_def retry_ok_def
      split: option.splits)

lemma requeue_inv: "queue_inv q \<Longrightarrow> batch_ok b \<Longrightarrow> queue_inv (fst (requeue now nanos b q))"
  using push_back_batch_parts [of "queues q" b]
  by (auto simp: queue_inv_def requeue_def Let_def flight_ok_def cancel_ok_def retry_ok_def
      split: option.splits)

lemma requeue_preserve_inv: "queue_inv q \<Longrightarrow> batch_ok b \<Longrightarrow> queue_inv (requeue_preserve_timestamps b q)"
  using push_back_batch_parts [of "queues q" b]
  by (auto simp: queue_inv_def requeue_preserve_timestamps_def Let_def flight_ok_def cancel_ok_def
      retry_ok_def idx_wf_update split: option.splits)

lemma requeue_as_cancelled_inv:
  "queue_inv q \<Longrightarrow> batch_ok b \<Longrightarrow> queue_inv (requeue_as_cancelled b reason q)"
  by (auto simp: queue_inv_def requeue_as_cancelled_def Let_def flight_ok_def cancel_ok_def
      retry_ok_def batch_ok_def idx_wf_update)

lemma extend_inv: "queue_inv q \<Longrightarrow> queue_inv (extend_in_flight_deadline now s secs q)"
  by (auto simp: queue_inv_def extend_in_flight_deadline_def Let_def flight_ok_def cancel_ok_def
      retry_ok_def split: option.splits)

lemma parts_ok_retain: "parts_ok qs \<Longrightarrow> parts_ok (idx_retain p s qs)"
  using parts_ok_shrink [of qs "filter p (idx_get qs s)" s]
  by (auto simp: idx_retain_def idx_get_def Let_def split: option.splits)

lemma remove_event_inv: "queue_inv q \<Longrightarrow> queue_inv (remove_event api s i q)"
  using parts_ok_retain [of "queues q"]
  by (auto simp: queue_inv_def remove_event_def withheld_ok_def idx_wf_retain idx_get_retain list_all_iff)

lemma position_Some: "position p xs = Some i \<Longrightarrow> i < length xs \<and> p (xs ! i)"
  by (induction xs arbitrary: i) (auto split: if_splits)

lemma remove_at_facts:
  assumes "i < length xs"
  shows "set (remove_at i xs) \<subseteq> set xs" "length (remove_at i xs) \<le> length xs"
    "mset xs = add_mset (xs ! i) (mset (remove_at i xs))"
proof -
  have "xs = take i xs @ xs ! i # drop (Suc i) xs" using assms by (rule id_take_nth_drop)
  then have "mset xs = mset (take i xs @ xs ! i # drop (Suc i) xs)" by simp
  then show "mset xs = add_mset (xs ! i) (mset (remove_at i xs))" by (simp add: remove_at_def)
  show "set (remove_at i xs) \<subseteq> set xs" by (auto simp: remove_at_def dest: in_set_takeD in_set_dropD)
  show "length (remove_at i xs) \<le> length xs" using assms by (simp add: remove_at_def)
qed

lemma parts_ok_take_at:
  "parts_ok qs \<Longrightarrow> i < length (idx_get qs s) \<Longrightarrow> parts_ok (take_at s i qs)"
  unfolding take_at_def Let_def
  by (intro parts_ok_shrink) (auto intro: remove_at_facts subsetD [OF remove_at_facts(1)])

lemma idx_get_take_at [simp]:
  "idx_get (take_at s i qs) t = (if t = s then remove_at i (idx_get qs s) else idx_get qs t)"
  by (simp add: take_at_def Let_def)

lemma withheld_ok_take_at:
  "withheld_ok w \<Longrightarrow> i < length (idx_get w s) \<Longrightarrow> withheld_ok (take_at s i w)"
  using remove_at_facts(1) [of i "idx_get w s"]
  by (fastforce simp: withheld_ok_def take_at_def Let_def idx_wf_update idx_wf_delete list_all_iff)

lemma withheld_ok_push: "withheld_ok w \<Longrightarrow> owned s e \<Longrightarrow> withheld_ok (idx_push s e w)"
  by (auto simp: withheld_ok_def ix.invar_push ix.get_push)

lemma mark_steer_inv: "queue_inv q \<Longrightarrow> queue_inv (fst (mark_native_steer_pending api s i q))"
proof -
  assume inv: "queue_inv q"
  show ?thesis
  proof (cases "\<exists>v pos. map_of (queues q) s = Some v \<and> position (\<lambda>qe. event_hex api qe = i) v = Some pos")
    case True
    then obtain v pos where m: "map_of (queues q) s = Some v"
      and pos: "position (\<lambda>qe. event_hex api qe = i) v = Some pos" by blast
    have v: "idx_get (queues q) s = v" using m by (simp add: idx_get_def)
    have "pos < length v" using position_Some [OF pos] by simp
    moreover have "owned s (v ! pos)"
      using inv v \<open>pos < length v\<close> parts_okD [of "queues q" s] by (auto simp: queue_inv_def list_all_length)
    ultimately show ?thesis
      using inv v m pos parts_ok_take_at [of "queues q" pos s]
        withheld_ok_push [of "withheld_native_steer q" s "v ! pos"]
      by (simp add: queue_inv_def mark_native_steer_pending_def)
  next
    case False
    then show ?thesis using inv by (auto simp: mark_native_steer_pending_def split: option.splits)
  qed
qed

lemma release_steer_inv: "queue_inv q \<Longrightarrow> queue_inv (release_native_steer api s i q)"
proof -
  assume inv: "queue_inv q"
  show ?thesis
  proof (cases "\<exists>v pos. map_of (withheld_native_steer q) s = Some v
      \<and> position (\<lambda>qe. event_hex api qe = i) v = Some pos")
    case True
    then obtain v pos where m: "map_of (withheld_native_steer q) s = Some v"
      and pos: "position (\<lambda>qe. event_hex api qe = i) v = Some pos" by blast
    have v: "idx_get (withheld_native_steer q) s = v" using m by (simp add: idx_get_def)
    have len: "pos < length v" using position_Some [OF pos] by simp
    then have "owned s (v ! pos)"
      using inv v by (auto simp: queue_inv_def withheld_ok_def list_all_length)
    then have "parts_ok (enforce_channel_cap (scope_channel_id s) (AList.update s
        (trim_back MAX_PENDING_PER_SCOPE (v ! pos # idx_get (queues q) s)) (queues q)))"
      using inv parts_ok_return [of "queues q" s "[v ! pos]"] by (simp add: queue_inv_def)
    then show ?thesis
      using inv v m pos len withheld_ok_take_at [of "withheld_native_steer q" pos s]
      by (simp add: queue_inv_def release_native_steer_def Let_def)
  next
    case False
    then show ?thesis using inv by (auto simp: release_native_steer_def split: option.splits)
  qed
qed

lemma compact_inv: "queue_inv q \<Longrightarrow> queue_inv (compact_expired_state now q)"
  by (auto simp: queue_inv_def compact_expired_state_def Let_def flight_ok_def cancel_ok_def retry_ok_def
      map_of_filter_kv split: option.splits if_splits)

lemma parts_ok_delete: "parts_ok qs \<Longrightarrow> parts_ok (AList.delete s qs)"
  using parts_ok_shrink [of qs "[]" s] by simp

lemma drain_fold:
  assumes "distinct ss"
  shows "fold (\<lambda>scope (qs, ids).
              (case map_of qs scope of
                 None \<Rightarrow> (qs, ids)
               | Some v \<Rightarrow> (AList.delete scope qs, ids @ map g v))) ss (qs, ids)
    = (fold AList.delete ss qs, ids @ concat (map (\<lambda>s. map g (idx_get qs s)) ss))"
  using assms
proof (induction ss arbitrary: qs ids)
  case (Cons s ss)
  have "map (\<lambda>t. map g (idx_get (AList.delete s qs) t)) ss = map (\<lambda>t. map g (idx_get qs t)) ss"
    using Cons.prems by auto
  note tail = this
  show ?case
  proof (cases "map_of qs s")
    case None
    then have "idx_get qs s = []" by (simp add: idx_get_def)
    moreover have "AList.delete s qs = qs" using None by (simp add: delete_id map_of_eq_None_iff)
    ultimately show ?thesis using Cons None by simp
  next
    case (Some v)
    then have "idx_get qs s = v" by (simp add: idx_get_def)
    then show ?thesis using Cons Some tail by (simp del: idx_get_delete map_eq_conv)
  qed
qed simp

definition channel_scopes :: "uuid \<Rightarrow> partitions \<Rightarrow> session_scope list" where
  "channel_scopes c qs = filter (\<lambda>s. scope_channel_id s = c) (map fst qs)"

lemma drain_channel_eq:
  "hm_wf (queues q) \<Longrightarrow> drain_channel api c q =
     (q\<lparr>queues := fold AList.delete (channel_scopes c (queues q)) (queues q),
        retry_after := outside_channel c (retry_after q),
        retry_counts := outside_channel c (retry_counts q),
        cancelled_batches := outside_channel c (cancelled_batches q),
        cancel_reasons := outside_channel c (cancel_reasons q),
        withheld_native_steer := outside_channel c (withheld_native_steer q)\<rparr>,
      concat (map (\<lambda>s. map (event_hex api) (idx_get (queues q) s)) (channel_scopes c (queues q))))"
  by (simp add: drain_channel_def Let_def drain_fold channel_scopes_def)

lemma map_of_outside_channel [simp]:
  "map_of (outside_channel c m) s = (if scope_channel_id s = c then None else map_of m s)"
  using map_of_filter_key [of "\<lambda>s. scope_channel_id s \<noteq> c" m s] by (simp add: outside_channel_def)

lemma outside_channel_wf: "hm_wf m \<Longrightarrow> hm_wf (outside_channel c m)"
  by (simp add: outside_channel_def)

lemma outside_channel_idx_wf: "idx_wf m \<Longrightarrow> idx_wf (outside_channel c m)"
  by (auto simp: idx_wf_def outside_channel_def)

lemma idx_get_outside_channel [simp]:
  "idx_get (outside_channel c m) s = (if scope_channel_id s = c then [] else idx_get m s)"
  by (simp add: idx_get_def)

lemma idx_get_drained:
  assumes "hm_wf qs"
  shows "idx_get (fold AList.delete (channel_scopes c qs) qs) s =
    (if scope_channel_id s = c then [] else idx_get qs s)"
proof (cases "s \<in> fst ` set qs")
  case False
  then have "map_of qs s = None" by (simp add: map_of_eq_None_iff)
  then show ?thesis using assms by (auto simp: idx_get_def hm.lookup_fold_delete)
next
  case True
  then show ?thesis
    using assms by (auto simp: idx_get_def hm.lookup_fold_delete channel_scopes_def)
qed

lemma drain_inv: "queue_inv q \<Longrightarrow> queue_inv (fst (drain_channel api c q))"
proof -
  assume inv: "queue_inv q"
  then have wf: "hm_wf (queues q)" by (simp add: queue_inv_def parts_ok_def parts_wf_def idx_wf_def)
  have "parts_ok qs \<Longrightarrow> parts_ok (fold AList.delete ss qs)" for ss qs
    by (induction ss arbitrary: qs) (simp_all add: parts_ok_delete)
  then show ?thesis
    using inv unfolding drain_channel_eq [OF wf]
    by (auto simp: queue_inv_def flight_ok_def retry_ok_def cancel_ok_def withheld_ok_def
        outside_channel_wf outside_channel_idx_wf)
qed

section \<open>Reachable queues\<close>

datatype acp_op =
    Op_Push queued_event
  | Op_Flush instant
  | Op_Has_Flushable instant
  | Op_Complete instant session_scope
  | Op_Requeue instant nat flush_batch
  | Op_Hold flush_batch
  | Op_Cancel flush_batch cancel_reason
  | Op_Extend instant session_scope u64
  | Op_Drain uuid
  | Op_Mark_Steer session_scope string
  | Op_Release_Steer session_scope string
  | Op_Remove_Event session_scope string
  | Op_Compact instant

fun apply_acp_op :: "nostr_api \<Rightarrow> acp_op \<Rightarrow> event_queue \<Rightarrow> event_queue" where
  "apply_acp_op api (Op_Push e) q = fst (push e q)"
| "apply_acp_op api (Op_Flush now) q = fst (flush_next now q)"
| "apply_acp_op api (Op_Has_Flushable now) q = fst (has_flushable_work now q)"
| "apply_acp_op api (Op_Complete now s) q = mark_complete now s q"
| "apply_acp_op api (Op_Requeue now nanos b) q = fst (requeue now nanos b q)"
| "apply_acp_op api (Op_Hold b) q = requeue_preserve_timestamps b q"
| "apply_acp_op api (Op_Cancel b r) q = requeue_as_cancelled b r q"
| "apply_acp_op api (Op_Extend now s secs) q = extend_in_flight_deadline now s secs q"
| "apply_acp_op api (Op_Drain c) q = fst (drain_channel api c q)"
| "apply_acp_op api (Op_Mark_Steer s i) q = fst (mark_native_steer_pending api s i q)"
| "apply_acp_op api (Op_Release_Steer s i) q = release_native_steer api s i q"
| "apply_acp_op api (Op_Remove_Event s i) q = remove_event api s i q"
| "apply_acp_op api (Op_Compact now) q = compact_expired_state now q"

text \<open>
  What the harness guarantees of its arguments: a pushed event names its own channel (the
  \<open>debug_assert_eq!\<close> of \<open>push\<close>), and a batch handed back has the shape of a flushed one.
\<close>

definition acp_op_ok :: "acp_op \<Rightarrow> bool" where
  "acp_op_ok op =
     (case op of
        Op_Push e \<Rightarrow> owned (qe_scope e) e
      | Op_Requeue _ _ b \<Rightarrow> batch_ok b
      | Op_Hold b \<Rightarrow> batch_ok b
      | Op_Cancel b _ \<Rightarrow> batch_ok b
      | _ \<Rightarrow> True)"

inductive acp_reachable :: "nostr_api \<Rightarrow> event_queue \<Rightarrow> bool" for api where
  acp_new: "acp_reachable api (event_queue_new mode)"
| acp_deadline: "acp_reachable api q \<Longrightarrow> acp_reachable api (with_in_flight_deadline secs q)"
| acp_step: "acp_reachable api q \<Longrightarrow> acp_op_ok op \<Longrightarrow> acp_reachable api (apply_acp_op api op q)"

lemma apply_acp_op_inv:
  assumes "queue_inv q" and "acp_op_ok op"
  shows "queue_inv (apply_acp_op api op q)"
proof (cases op)
  case (Op_Push e)
  then show ?thesis
    using assms push_parts [of q e] by (auto simp: acp_op_ok_def queue_inv_def push_def Let_def)
next
  case (Op_Has_Flushable now)
  then show ?thesis using assms expire_stuck_inv by (simp add: has_flushable_work_def Let_def)
qed (use assms in \<open>simp_all add: acp_op_ok_def flush_next_inv mark_complete_inv requeue_inv
    requeue_preserve_inv requeue_as_cancelled_inv extend_inv drain_inv mark_steer_inv
    release_steer_inv remove_event_inv compact_inv\<close>)

lemma acp_reachable_inv: "acp_reachable api q \<Longrightarrow> queue_inv q"
proof (induction rule: acp_reachable.induct)
  case (acp_deadline q secs)
  then show ?case
    by (auto simp: queue_inv_def with_in_flight_deadline_def flight_ok_def retry_ok_def cancel_ok_def)
qed (simp_all add: queue_inv_new apply_acp_op_inv)

section \<open>Which events a queue holds\<close>

definition gather :: "('v \<Rightarrow> batch_event) \<Rightarrow> (session_scope, 'v list) hmap \<Rightarrow> batch_event multiset" where
  "gather g m = sum_list (map (\<lambda>(s, v). mset (map g v)) m)"

text \<open>Every event the queue still has to deliver: queued, withheld or carried over.\<close>

definition pending :: "event_queue \<Rightarrow> batch_event multiset" where
  "pending q = gather batch_event_of (queues q) + gather batch_event_of (withheld_native_steer q)
     + gather (\<lambda>e. e) (cancelled_batches q)"

lemma gather_simps [simp]:
  "gather g [] = {#}" "gather g ((s, v) # m) = mset (map g v) + gather g m"
  by (simp_all add: gather_def)

lemma gather_update:
  "gather g (AList.update s v m) + mset (map g (idx_get m s)) = gather g m + mset (map g v)"
  by (induction m) (auto simp: idx_get_def ac_simps)

lemma gather_delete:
  "hm_wf m \<Longrightarrow> gather g (AList.delete s m) + mset (map g (idx_get m s)) = gather g m"
proof (induction m)
  case (Cons p m)
  obtain t r where p: "p = (t, r)" by (cases p)
  have "t \<notin> fst ` set m" using Cons.prems p by simp
  then have "AList.delete t m = m" by (simp add: delete_id)
  then show ?case using Cons p by (auto simp: idx_get_def ac_simps)
qed (simp add: idx_get_def)

lemma gather_put:
  "hm_wf m \<Longrightarrow> gather g (if v = [] then AList.delete s m else AList.update s v m)
     + mset (map g (idx_get m s)) = gather g m + mset (map g v)"
  using gather_update [of g s v m] gather_delete [of m g s] by auto

lemma gather_remove: "hm_wf m \<Longrightarrow> gather g (AList.delete s m) = gather g m - mset (map g (idx_get m s))"
  using gather_delete [of m g s] by (metis add_diff_cancel_right')

lemma idx_get_unwrap: "unwrap_or_default (map_of m s) = idx_get m s"
  by (simp add: unwrap_or_default_def idx_get_def)

lemma gather_take_at:
  assumes "hm_wf m" and "i < length (idx_get m s)"
  shows "add_mset (g (idx_get m s ! i)) (gather g (take_at s i m)) = gather g m"
proof -
  let ?v = "remove_at i (idx_get m s)"
  have "mset (map g (idx_get m s)) = add_mset (g (idx_get m s ! i)) (mset (map g ?v))"
    using remove_at_facts(3) [OF assms(2)] by (metis image_mset_add_mset mset_map)
  then show ?thesis
    using gather_put [OF assms(1), of g ?v s] by (simp add: take_at_def Let_def)
qed

lemma gather_push: "gather g (idx_push s e m) = add_mset (g e) (gather g m)"
  using gather_update [of g s "idx_get m s @ [e]" m] by (simp add: idx_push_def)

text \<open>A partition is part of its channel, so room in the channel is room in the partition.\<close>

lemma idx_get_le_total:
  "hm_wf qs \<Longrightarrow> length (idx_get qs s) \<le> channel_event_total qs (scope_channel_id s)"
  using total_AList_delete [of qs s "scope_channel_id s"] by simp

lemma return_with_room:
  assumes "hm_wf qs"
    and "channel_event_total qs (scope_channel_id s) + length es \<le> MAX_PENDING_PER_CHANNEL"
  shows "enforce_channel_cap (scope_channel_id s)
      (AList.update s (trim_back MAX_PENDING_PER_SCOPE (push_front_all es (idx_get qs s))) qs)
    = AList.update s (es @ idx_get qs s) qs"
proof -
  have "length (es @ idx_get qs s) \<le> MAX_PENDING_PER_SCOPE"
    using idx_get_le_total [OF assms(1), of s] assms(2)
    by (simp add: MAX_PENDING_PER_CHANNEL_def MAX_PENDING_PER_SCOPE_def)
  moreover have "channel_event_total (AList.update s (es @ idx_get qs s) qs) (scope_channel_id s)
      \<le> MAX_PENDING_PER_CHANNEL"
    using total_AList_update [of s "es @ idx_get qs s" qs "scope_channel_id s"] assms(2) by simp
  ultimately show ?thesis by (simp add: enforce_cap_id del: take_append)
qed

lemma push_back_with_room:
  assumes "hm_wf qs" and "batch_ok b"
    and "channel_event_total qs (fb_channel_id b) + length (fb_events b) \<le> MAX_PENDING_PER_CHANNEL"
  shows "enforce_channel_cap (fb_channel_id b) (push_back_batch b qs) =
    AList.update (fb_scope b)
      (map (queued_event_of (fb_channel_id b) (fb_scope b)) (fb_events b) @ idx_get qs (fb_scope b)) qs"
  using return_with_room [OF assms(1), of "fb_scope b"
      "map (queued_event_of (fb_channel_id b) (fb_scope b)) (fb_events b)"] assms(2,3)
  by (simp add: batch_ok_def push_back_batch_def del: push_front_all_eq trim_back_eq)

lemma batch_event_of_queued [simp]: "batch_event_of (queued_event_of c s be) = be"
  by (simp add: batch_event_of_def queued_event_of_def)

lemma queued_event_of_batch: "owned s e \<Longrightarrow> queued_event_of (scope_channel_id s) s (batch_event_of e) = e"
  by (simp add: owned_def batch_event_of_def queued_event_of_def)

lemma gather_evict: "hm_wf qs \<Longrightarrow> gather g (evict_head s qs) \<subseteq># gather g qs"
proof (cases "map_of qs s")
  case (Some v)
  assume wf: "hm_wf qs"
  have v: "idx_get qs s = v" using Some by (simp add: idx_get_def)
  have "mset (map g (tl v)) \<subseteq># mset (map g v)" by (cases v) auto
  moreover have "gather g (evict_head s qs) + mset (map g v) = gather g qs + mset (map g (tl v))"
    using gather_put [OF wf, of g "tl v" s] Some v by (simp add: evict_head_def)
  ultimately show ?thesis by (metis subset_mset.add_left_mono subset_mset.add_le_cancel_right)
qed (simp add: evict_head_def)

lemma gather_enforce: "idx_wf qs \<Longrightarrow> gather g (enforce_channel_cap c qs) \<subseteq># gather g qs"
proof (induction c qs rule: enforce_channel_cap.induct)
  case (1 c qs)
  show ?case
  proof (cases "channel_event_total qs c > MAX_PENDING_PER_CHANNEL \<and> cap_victim c qs \<noteq> None")
    case True
    then obtain v where v: "cap_victim c qs = Some v" by blast
    have "gather g (enforce_channel_cap c (evict_head v qs)) \<subseteq># gather g (evict_head v qs)"
      using "1.IH" [OF conjunct1 [OF True] v idx_wf_evict [OF "1.prems"]] .
    also have "\<dots> \<subseteq># gather g qs" using "1.prems" by (intro gather_evict) (simp add: idx_wf_def)
    finally show ?thesis using True v by (simp add: enforce_channel_cap.simps [of c qs])
  next
    case False
    then show ?thesis by (auto simp: enforce_channel_cap.simps [of c qs] split: option.splits)
  qed
qed

lemma gather_return_le:
  assumes "idx_wf qs" and "es \<noteq> []"
  shows "gather g (enforce_channel_cap c
      (AList.update s (trim_back MAX_PENDING_PER_SCOPE (push_front_all es (idx_get qs s))) qs))
    \<subseteq># gather g qs + mset (map g es)" (is "gather g (enforce_channel_cap c ?u) \<subseteq># _")
proof -
  let ?v = "take MAX_PENDING_PER_SCOPE (es @ idx_get qs s)"
  have "?v \<noteq> []" using assms(2) by (simp add: MAX_PENDING_PER_SCOPE_def)
  then have "idx_wf ?u" using assms(1) by (simp add: idx_wf_update del: take_append)
  then have "gather g (enforce_channel_cap c ?u) \<subseteq># gather g ?u" by (rule gather_enforce)
  moreover have "gather g ?u \<subseteq># gather g qs + mset (map g es)"
  proof -
    have "mset (map g (es @ idx_get qs s))
        = mset (map g ?v) + mset (map g (drop MAX_PENDING_PER_SCOPE (es @ idx_get qs s)))"
      unfolding mset_append [symmetric] map_append [symmetric] append_take_drop_id ..
    then have "mset (map g ?v) \<subseteq># mset (map g (es @ idx_get qs s))"
      by (simp only: mset_subset_eq_add_left)
    then have "mset (map g ?v) \<subseteq># mset (map g es) + mset (map g (idx_get qs s))"
      by (simp only: map_append mset_append)
    then have "gather g qs + mset (map g ?v)
        \<subseteq># gather g qs + (mset (map g es) + mset (map g (idx_get qs s)))"
      by (rule subset_mset.add_left_mono)
    moreover have "gather g ?u + mset (map g (idx_get qs s)) = gather g qs + mset (map g ?v)"
      using gather_update [of g s ?v qs] by (simp del: take_append)
    ultimately have "gather g ?u + mset (map g (idx_get qs s))
        \<subseteq># (gather g qs + mset (map g es)) + mset (map g (idx_get qs s))"
      by (simp only: add.assoc)
    then show ?thesis by (simp only: subset_mset.add_le_cancel_right)
  qed
  ultimately show ?thesis by (rule subset_mset.order_trans)
qed

lemma gather_return_room:
  "gather g (AList.update s (es @ idx_get qs s) qs) = gather g qs + mset (map g es)"
proof -
  have "gather g (AList.update s (es @ idx_get qs s) qs) + mset (map g (idx_get qs s))
      = gather g qs + mset (map g es) + mset (map g (idx_get qs s))"
    using gather_update [of g s "es @ idx_get qs s" qs] by (simp only: map_append mset_append add.assoc)
  then show ?thesis by (rule add_right_imp_eq)
qed

lemma queue_inv_wf:
  "queue_inv q \<Longrightarrow> idx_wf (queues q) \<and> hm_wf (queues q) \<and> idx_wf (withheld_native_steer q)
     \<and> hm_wf (withheld_native_steer q) \<and> idx_wf (cancelled_batches q) \<and> hm_wf (cancelled_batches q)"
  by (simp add: queue_inv_def parts_ok_def parts_wf_def withheld_ok_def cancel_ok_def idx_wf_def)

lemma recover_pending:
  "queue_inv q \<Longrightarrow> pending (recover_withheld_for_expired_scope s q) \<subseteq># pending q"
proof (cases "map_of (withheld_native_steer q) s")
  case (Some es)
  assume inv: "queue_inv q"
  note wf = queue_inv_wf [OF inv]
  have es: "es \<noteq> []" "idx_get (withheld_native_steer q) s = es"
    using wf idx_wf_SomeD [OF _ Some] by auto
  have "gather batch_event_of (withheld_native_steer q)
      = gather batch_event_of (AList.delete s (withheld_native_steer q)) + mset (map batch_event_of es)"
    using wf es gather_delete [of "withheld_native_steer q" batch_event_of s] by simp
  then show ?thesis
    using gather_return_le [of "queues q" es batch_event_of "scope_channel_id s" s] wf es Some
    by (auto simp: pending_def recover_withheld_for_expired_scope_def Let_def ac_simps
        simp del: push_front_all_eq trim_back_eq intro: subset_mset.add_mono
        subset_mset.order_trans)
qed (simp add: recover_withheld_for_expired_scope_def)

lemma expire_stuck_pending: "queue_inv q \<Longrightarrow> pending (expire_stuck now q) \<subseteq># pending q"
proof -
  have step: "queue_inv q \<Longrightarrow> pending (expire_scope s q) \<subseteq># pending q" for s q
  proof -
    assume inv: "queue_inv q"
    let ?q = "q\<lparr>in_flight_batch_sizes := AList.delete s (in_flight_batch_sizes q),
      in_flight_scopes := removeAll s (in_flight_scopes q),
      in_flight_deadlines := AList.delete s (in_flight_deadlines q)\<rparr>"
    have "queue_inv ?q"
      using inv clear_flight_ok [of q s] by (simp add: queue_inv_def retry_ok_def cancel_ok_def)
    then have "pending (expire_scope s q) \<subseteq># pending ?q"
      unfolding expire_scope_def by (rule recover_pending)
    then show ?thesis by (simp add: pending_def)
  qed
  have "queue_inv q \<Longrightarrow> pending (fold expire_scope ss q) \<subseteq># pending q" for ss
  proof (induction ss arbitrary: q)
    case (Cons s ss)
    then show ?case
      using step [of q s] Cons.IH [of "expire_scope s q"] expire_scope_inv [of q s]
        subset_mset.order_trans by auto
  qed simp
  then show "queue_inv q \<Longrightarrow> ?thesis" by (simp add: expire_stuck_def)
qed

lemma flush_scope_pending:
  assumes "queue_inv q" and "flush_scope now s q = (q', Some b)"
  shows "pending q = mset (fb_events b) + mset (fb_cancelled_events b) + pending q'"
proof -
  note wf = queue_inv_wf [OF assms(1)]
  let ?v = "idx_get (queues q) s" and ?n = "min MAX_BATCH_EVENTS (length (idx_get (queues q) s))"
  let ?rest = "if drop ?n ?v = [] then AList.delete s (queues q) else AList.update s (drop ?n ?v) (queues q)"
  have b: "mset (fb_events b) = mset (map batch_event_of (take ?n ?v))"
    "fb_cancelled_events b = idx_get (cancelled_batches q) s"
    and q': "queues q' = ?rest" "withheld_native_steer q' = withheld_native_steer q"
      "cancelled_batches q' = AList.delete s (cancelled_batches q)"
    using assms(2) by (auto simp: flush_scope_def Let_def idx_get_unwrap)
  have "mset (map batch_event_of ?v)
      = mset (map batch_event_of (take ?n ?v)) + mset (map batch_event_of (drop ?n ?v))"
    by (metis append_take_drop_id map_append mset_append)
  then have "gather batch_event_of (queues q) = mset (fb_events b) + gather batch_event_of (queues q')"
    using gather_put [of "queues q" batch_event_of "drop ?n ?v" s] wf b q' by (simp add: ac_simps)
  moreover have "gather (\<lambda>e. e) (cancelled_batches q)
      = mset (fb_cancelled_events b) + gather (\<lambda>e. e) (cancelled_batches q')"
    using gather_delete [of "cancelled_batches q" "\<lambda>e. e" s] wf b q' by (simp add: ac_simps)
  ultimately show ?thesis by (simp add: pending_def q' ac_simps)
qed

lemma flush_cancelled_pending:
  assumes "queue_inv q" and "flush_cancelled now s q = (q', Some b)"
  shows "pending q = mset (fb_events b) + mset (fb_cancelled_events b) + pending q'"
proof -
  have "b = \<lparr>fb_channel_id = scope_channel_id s, fb_scope = s, fb_events = idx_get (cancelled_batches q) s,
      fb_cancelled_events = [], fb_cancel_reason = map_of (cancel_reasons q) s\<rparr>"
    and "queues q' = queues q" "withheld_native_steer q' = withheld_native_steer q"
      "cancelled_batches q' = AList.delete s (cancelled_batches q)"
    using assms(2) by (auto simp: flush_cancelled_def Let_def idx_get_unwrap)
  then show ?thesis
    using gather_delete [of "cancelled_batches q" "\<lambda>e. e" s] queue_inv_wf [OF assms(1)]
    by (auto simp: pending_def ac_simps)
qed

lemma sort_key_Nil_iff [simp]: "sort_key f xs = [] \<longleftrightarrow> xs = []"
  by (metis length_0_conv length_sort)

lemma flush_next_cases:
  assumes "flush_next now q0 = (q', r)"
  obtains (regular) s v where "(s, v) \<in> set (queues (expire_stuck now q0))"
      "ready now (expire_stuck now q0) (s, v)"
      "\<And>p. p \<in> set (queues (expire_stuck now q0)) \<Longrightarrow> ready now (expire_stuck now q0) p \<Longrightarrow>
         head_received_at (s, v) \<le> head_received_at p"
      "flush_scope now s (expire_stuck now q0) = (q', r)"
  | (carried) s where "\<not> list_ex (ready now (expire_stuck now q0)) (queues (expire_stuck now q0))"
      "s \<in> fst ` set (cancelled_batches (expire_stuck now q0))"
      "s \<notin> set (in_flight_scopes (expire_stuck now q0))"
      "flush_cancelled now s (expire_stuck now q0) = (q', r)"
  | (idle) "\<not> list_ex (ready now (expire_stuck now q0)) (queues (expire_stuck now q0))"
      "\<forall>s \<in> fst ` set (cancelled_batches (expire_stuck now q0)).
         s \<in> set (in_flight_scopes (expire_stuck now q0))"
      "q' = expire_stuck now q0" "r = None"
proof -
  let ?q = "expire_stuck now q0"
  show thesis
  proof (cases "min_by_head (filter (ready now ?q) (queues ?q))")
    case (Some p)
    obtain s v where p: "p = (s, v)" by (cases p)
    have "p \<in> set (queues ?q) \<and> ready now ?q p" using min_by_head_in [OF Some] by simp
    then show thesis
      using regular [of s v] min_by_head_least [OF Some] Some p assms
      by (simp add: flush_next_def Let_def)
  next
    case None
    then have nr: "\<not> list_ex (ready now ?q) (queues ?q)"
      by (simp add: min_by_head_None filter_empty_conv list_ex_iff)
    show thesis
    proof (cases "List.find (\<lambda>s. s \<notin> set (in_flight_scopes ?q)) (map fst (cancelled_batches ?q))")
      case (Some s)
      then have "s \<in> fst ` set (cancelled_batches ?q)" "s \<notin> set (in_flight_scopes ?q)"
        by (auto simp: find_Some_iff in_set_conv_nth image_iff) (metis nth_mem fst_conv prod.collapse)
      then show thesis using carried [OF nr] Some None assms by (simp add: flush_next_def Let_def)
    next
      case find: None
      then have "\<forall>s \<in> fst ` set (cancelled_batches ?q). s \<in> set (in_flight_scopes ?q)"
        by (auto simp: find_None_iff)
      then show thesis using idle [OF nr] find None assms by (simp add: flush_next_def Let_def)
    qed
  qed
qed

lemma flush_next_pending:
  assumes "queue_inv q" and "flush_next now q = (q', Some b)"
  shows "pending (expire_stuck now q) = mset (fb_events b) + mset (fb_cancelled_events b) + pending q'"
  using assms(2)
proof (cases rule: flush_next_cases)
  case (regular s v)
  then show ?thesis using flush_scope_pending expire_stuck_inv [OF assms(1)] by blast
next
  case (carried s)
  then show ?thesis using flush_cancelled_pending expire_stuck_inv [OF assms(1)] by blast
qed simp

lemma flush_next_None: "flush_next now q = (q', None) \<Longrightarrow> q' = expire_stuck now q"
  by (erule flush_next_cases) (simp_all add: flush_scope_def flush_cancelled_def Let_def)

lemma expire_stuck_no_withheld:
  assumes "withheld_native_steer q = []"
  shows "queues (expire_stuck now q) = queues q \<and> pending (expire_stuck now q) = pending q
    \<and> withheld_native_steer (expire_stuck now q) = []"
proof -
  have "withheld_native_steer q = [] \<Longrightarrow> queues (fold expire_scope ss q) = queues q
      \<and> cancelled_batches (fold expire_scope ss q) = cancelled_batches q
      \<and> withheld_native_steer (fold expire_scope ss q) = []" for ss
    by (induction ss arbitrary: q)
       (simp_all add: expire_scope_def recover_withheld_for_expired_scope_def)
  with assms show ?thesis by (simp add: expire_stuck_def pending_def)
qed

lemma total_evict:
  "hm_wf qs \<Longrightarrow> idx_get qs w \<noteq> [] \<Longrightarrow>
   Suc (channel_event_total (evict_head w qs) (scope_channel_id w)) = channel_event_total qs (scope_channel_id w)"
proof (cases "map_of qs w")
  case (Some v)
  assume wf: "hm_wf qs" and ne: "idx_get qs w \<noteq> []"
  have v: "idx_get qs w = v" using Some by (simp add: idx_get_def)
  show ?thesis
    using total_AList_update [of w "tl v" qs "scope_channel_id w"]
      total_AList_delete [OF wf, of w "scope_channel_id w"] v ne Some
    by (cases v) (auto simp: evict_head_def)
qed (simp add: idx_get_def)

text \<open>One event over the cap costs exactly one event, the oldest head of the channel.\<close>

lemma enforce_cap_one:
  assumes "idx_wf qs" and "channel_event_total qs c = Suc MAX_PENDING_PER_CHANNEL"
  shows "\<exists>w. scope_channel_id w = c \<and> idx_get qs w \<noteq> [] \<and> enforce_channel_cap c qs = evict_head w qs
    \<and> list_all (\<lambda>p. scope_channel_id (fst p) = c \<and> snd p \<noteq> [] \<longrightarrow>
         head_received_at (w, idx_get qs w) \<le> head_received_at p) qs"
proof -
  obtain w where w: "cap_victim c qs = Some w" using cap_victim_None [of c qs] assms(2) by fastforce
  then obtain u where m: "min_by_head (filter (\<lambda>(s, q). scope_channel_id s = c \<and> q \<noteq> []) qs) = Some (w, u)"
    by (auto simp: cap_victim_def)
  have u: "u \<noteq> []" "scope_channel_id w = c" "idx_get qs w = u"
    using min_by_head_in [OF m] assms(1) by (auto simp: idx_in_set)
  have "channel_event_total (evict_head w qs) c \<le> MAX_PENDING_PER_CHANNEL"
    using total_evict [of qs w] assms u by (simp add: idx_wf_def)
  then have "enforce_channel_cap c qs = evict_head w qs"
    using w assms(2) by (simp add: enforce_channel_cap.simps [of c qs] enforce_cap_id)
  moreover have "list_all (\<lambda>p. scope_channel_id (fst p) = c \<and> snd p \<noteq> [] \<longrightarrow>
      head_received_at (w, u) \<le> head_received_at p) qs"
    using min_by_head_least [OF m] by (auto simp: list_all_iff)
  ultimately show ?thesis using u by blast
qed

lemma backoff_secs_eq: "backoff_secs (n + 1) = min (5 * 2 ^ n) 300"
proof (cases "n \<le> 6")
  case True
  then have "n \<in> {0, 1, 2, 3, 4, 5, 6}" by auto
  then show ?thesis
    by (elim insertE emptyE)
       (simp_all add: backoff_secs_def BASE_RETRY_DELAY_SECS_def MAX_RETRY_DELAY_SECS_def)
next
  case False
  then have "(2::nat) ^ 6 \<le> 2 ^ n" by (intro power_increasing) auto
  then show ?thesis
    using False by (simp add: backoff_secs_def BASE_RETRY_DELAY_SECS_def MAX_RETRY_DELAY_SECS_def)
qed

lemma retry_delay_bounds:
  assumes "n \<le> 9" and "nanos < 1000000000"
  shows "800000000 * min (5 * 2 ^ n) 300 \<le> retry_delay (n + 1) nanos"
    "retry_delay (n + 1) nanos \<le> 894000000 * min (5 * 2 ^ n) 300"
proof -
  have "n \<in> {0, 1, 2, 3, 4, 5, 6, 7, 8, 9}" using assms(1) by auto
  then show "800000000 * min (5 * 2 ^ n) 300 \<le> retry_delay (n + 1) nanos"
    "retry_delay (n + 1) nanos \<le> 894000000 * min (5 * 2 ^ n) 300"
    using assms(2) unfolding retry_delay_def backoff_secs_eq Let_def
    by (elim insertE emptyE; simp)+
qed

lemma take_min_length: "take (min n (length xs)) xs = take n xs"
  by (cases "n \<le> length xs") simp_all

lemma drop_min_length: "drop (min n (length xs)) xs = drop n xs"
  by (cases "n \<le> length xs") simp_all

lemma mark_complete_queues: "queues (mark_complete now s q) = queues q"
  by (simp add: mark_complete_def Let_def split: option.splits)

lemma requeue_preserve_queues:
  "queues (requeue_preserve_timestamps b q) =
     enforce_channel_cap (fb_channel_id b) (push_back_batch b (queues q))"
  by (simp add: requeue_preserve_timestamps_def Let_def)

text \<open>The side tables after a flush whose batch is held back.\<close>

lemma hold_side_tables:
  assumes "queue_inv q" and "v \<noteq> []" and "idx_get (queues q) w = v" and "ready now q (w, v)"
    and "flush_scope now w q = (q1, Some b)" and "now \<le> now'"
  defines "q2 \<equiv> mark_complete now' w (requeue_preserve_timestamps b q1)"
  shows "map_of (cancelled_batches q2) s = map_of (cancelled_batches q) s
    \<and> map_of (cancel_reasons q2) s = map_of (cancel_reasons q) s
    \<and> (is_scope_in_flight s q2 \<longleftrightarrow> is_scope_in_flight s q)
    \<and> map_of (retry_counts q2) w = None \<and> map_of (retry_after q2) w = None"
proof -
  have retry: "retry_after q1 = retry_after q"
    and throttle: "map_of (retry_after q) w = None \<or> (\<exists>t. map_of (retry_after q) w = Some t \<and> t \<le> now')"
    and flight: "set (in_flight_scopes q1) = insert w (set (in_flight_scopes q))" "w \<notin> set (in_flight_scopes q)"
    and b: "fb_scope b = w" "fb_cancelled_events b = idx_get (cancelled_batches q) w"
    and reason: "fb_cancel_reason b = (if idx_get (cancelled_batches q) w = [] then None
          else map_of (cancel_reasons q) w)"
    and tables: "cancelled_batches q1 = AList.delete w (cancelled_batches q)"
      "cancel_reasons q1 = AList.delete w (cancel_reasons q)"
    using assms(4-6) by (auto simp: flush_scope_def Let_def idx_get_unwrap ready_def split: option.splits)
  have "idx_get (cancelled_batches q) w = [] \<longleftrightarrow> map_of (cancelled_batches q) w = None"
    using queue_inv_wf [OF assms(1)] by (simp add: idx_wf_empty_iff)
  moreover have "map_of (cancelled_batches q) w = None \<Longrightarrow> map_of (cancel_reasons q) w = None"
    using assms(1) by (auto simp: queue_inv_def cancel_ok_def)
  moreover have "map_of (cancelled_batches q) w = Some (idx_get (cancelled_batches q) w)"
    if "map_of (cancelled_batches q) w \<noteq> None"
    using that by (auto simp: idx_get_def)
  ultimately have carry: "map_of (cancelled_batches q2) s = map_of (cancelled_batches q) s
      \<and> map_of (cancel_reasons q2) s = map_of (cancel_reasons q) s"
    unfolding q2_def
    by (auto simp: mark_complete_def requeue_preserve_timestamps_def Let_def tables b reason
        unwrap_or_default_def split: option.splits)
  have rest: "set (in_flight_scopes q2) = set (in_flight_scopes q)"
    "map_of (retry_counts q2) w = None" "map_of (retry_after q2) w = None"
    unfolding q2_def using throttle flight
    by (auto simp: mark_complete_def requeue_preserve_timestamps_def Let_def retry split: option.splits)
  with carry show ?thesis by (simp add: is_scope_in_flight_def)
qed

lemma total_channel_scopes:
  "hm_wf qs \<Longrightarrow>
   sum_list (map (\<lambda>s. length (idx_get qs s)) (channel_scopes c qs)) = channel_event_total qs c"
proof (induction qs)
  case (Cons p qs)
  obtain t r where p: "p = (t, r)" by (cases p)
  have "map (\<lambda>s. length (idx_get (p # qs) s)) (channel_scopes c qs)
      = map (\<lambda>s. length (idx_get qs s)) (channel_scopes c qs)"
    using Cons.prems p by (auto simp: channel_scopes_def idx_get_def)
  moreover have "channel_scopes c (p # qs) = (if scope_channel_id t = c then [t] else []) @ channel_scopes c qs"
    "idx_get (p # qs) t = r"
    by (simp_all add: p channel_scopes_def idx_get_def)
  ultimately show ?case using Cons p by (auto simp del: map_eq_conv)
qed (simp add: channel_scopes_def)

section \<open>Properties\<close>

text \<open>C27. Whatever sequence of operations the harness performs, the queue stays bounded and consistent:
  no partition and no channel ever holds more than 500 queued events however many threads it is split
  into, a queued event is in the partition of its own scope and no partition is empty, a scope is in
  flight exactly when it has a deadline (so a lost completion is always recovered by expiry), a
  throttled scope has a retry counter and no counter exceeds the retry limit.\<close>

theorem queue_stays_bounded:
  assumes "acp_reachable api q"
  shows "length (idx_get (queues q) s) \<le> 500
    \<and> channel_event_total (queues q) c \<le> 500
    \<and> map_of (queues q) s \<noteq> Some []
    \<and> list_all (\<lambda>e. qe_scope e = s \<and> qe_channel_id e = scope_channel_id s) (idx_get (queues q) s)
    \<and> (is_scope_in_flight s q \<longleftrightarrow> map_of (in_flight_deadlines q) s \<noteq> None)
    \<and> (map_of (retry_after q) s \<noteq> None \<longrightarrow> map_of (retry_counts q) s \<noteq> None)
    \<and> (\<forall>n. map_of (retry_counts q) s = Some n \<longrightarrow> 1 \<le> n \<and> n \<le> 10)"
proof -
  note inv = acp_reachable_inv [OF assms]
  then have w: "parts_wf (queues q)" by (simp add: queue_inv_def parts_ok_def)
  have "length (idx_get (queues q) s) \<le> 500 \<and> channel_event_total (queues q) c \<le> 500"
    using inv by (simp add: queue_inv_def parts_ok_def parts_wf_def MAX_PENDING_PER_SCOPE_def
        MAX_PENDING_PER_CHANNEL_def)
  moreover have "map_of (queues q) s \<noteq> Some []"
    using w idx_wf_SomeD [of "queues q" s "[]"] by (auto simp: parts_wf_def)
  moreover have "list_all (\<lambda>e. qe_scope e = s \<and> qe_channel_id e = scope_channel_id s)
      (idx_get (queues q) s)"
    using w by (auto simp: parts_wf_def list_all_iff owned_def)
  moreover have "is_scope_in_flight s q \<longleftrightarrow> map_of (in_flight_deadlines q) s \<noteq> None"
    using inv by (simp add: queue_inv_def flight_ok_def is_scope_in_flight_def)
  moreover have "(map_of (retry_after q) s \<noteq> None \<longrightarrow> map_of (retry_counts q) s \<noteq> None)
      \<and> (\<forall>n. map_of (retry_counts q) s = Some n \<longrightarrow> 1 \<le> n \<and> n \<le> 10)"
    using inv by (simp add: queue_inv_def retry_ok_def MAX_RETRIES_def)
  ultimately show ?thesis by blast
qed

text \<open>A sample: two events of one thread and a third of the channel conversation, in queue mode.\<close>

definition sample_event :: "nat \<Rightarrow> session_scope \<Rightarrow> queued_event" where
  "sample_event n s =
     \<lparr>qe_channel_id = scope_channel_id s, qe_scope = s,
      qe_event = \<lparr>ev_id = [of_nat n], ev_pubkey = [], ev_created_at = of_nat n, ev_kind = 9, ev_tags = [],
        ev_content = []\<rparr>,
      qe_received_at = n, qe_prompt_tag = ''mention''\<rparr>"

abbreviation sample_thread :: session_scope where
  "sample_thread \<equiv> Thread_Scope 7 ''ab''"

definition sample_queue :: event_queue where
  "sample_queue =
     fst (push (sample_event 3 sample_thread) (fst (push (sample_event 2 (Conversation 7))
       (fst (push (sample_event 1 sample_thread) (event_queue_new Dedup_Queue))))))"

lemma owned_sample [simp]: "owned (qe_scope (sample_event n s)) (sample_event n s)"
  by (simp add: owned_def sample_event_def)

lemma acp_push_reachable:
  "acp_reachable api q \<Longrightarrow> owned (qe_scope e) e \<Longrightarrow> acp_reachable api (fst (push e q))"
  using acp_step [of api q "Op_Push e"] by (simp add: acp_op_ok_def)

lemma sample_queue_reachable: "acp_reachable api sample_queue"
  unfolding sample_queue_def by (intro acp_push_reachable acp_new owned_sample)

lemma sample_queue_eq:
  "sample_queue = (event_queue_new Dedup_Queue)\<lparr>queues :=
     [(sample_thread, [sample_event 1 sample_thread, sample_event 3 sample_thread]),
      (Conversation 7, [sample_event 2 (Conversation 7)])]\<rparr>"
  by (simp add: sample_queue_def push_def Let_def event_queue_new_def sample_event_def idx_get_def
      MAX_PENDING_PER_SCOPE_def MAX_PENDING_PER_CHANNEL_def enforce_channel_cap.simps)

theorem queue_stays_bounded_witness:
  "channel_event_total (queues sample_queue) 7 \<le> 500"
  using queue_stays_bounded [OF sample_queue_reachable [of std_nostr_api], where c = 7] by blast

text \<open>C28. Fair dispatch. \<open>flush_next\<close> returns a batch exactly when \<open>has_flushable_work\<close> says so; the
  batch is of a scope that was not in flight (after expiry) and is in flight from then on, with a
  fresh deadline. If some partition is ready (non-empty, not in flight, not throttled) the chosen one
  has the oldest head event of all ready ones, the batch is its first at most 50 events in order of
  creation, and only these leave the queue. Otherwise the batch is the carried-over events of a
  cancelled turn.\<close>

theorem flush_next_dispatches_fairly:
  assumes "acp_reachable api q" and "has_flushable_work now q = (q1, work)"
    and "flush_next now q = (q', r)"
  shows "case r of
      None \<Rightarrow> \<not> work \<and> q' = q1
    | Some b \<Rightarrow> work \<and> batch_ok b \<and> \<not> is_scope_in_flight (fb_scope b) q1
        \<and> (\<forall>s. is_scope_in_flight s q' \<longleftrightarrow> s = fb_scope b \<or> is_scope_in_flight s q1)
        \<and> map_of (in_flight_deadlines q') (fb_scope b) = Some (now + in_flight_deadline q1)
        \<and> (if list_ex (ready now q1) (queues q1) then
             ready now q1 (fb_scope b, idx_get (queues q1) (fb_scope b))
             \<and> list_all (\<lambda>p. ready now q1 p \<longrightarrow>
                  head_received_at (fb_scope b, idx_get (queues q1) (fb_scope b)) \<le> head_received_at p)
                (queues q1)
             \<and> fb_events b = sort_key (\<lambda>e. ev_created_at (be_event e))
                 (map batch_event_of (take 50 (idx_get (queues q1) (fb_scope b))))
             \<and> fb_cancelled_events b = idx_get (cancelled_batches q1) (fb_scope b)
             \<and> (\<forall>s. idx_get (queues q') s =
                   (if s = fb_scope b then drop 50 (idx_get (queues q1) s) else idx_get (queues q1) s))
           else fb_events b = idx_get (cancelled_batches q1) (fb_scope b) \<and> queues q' = queues q1)"
proof -
  have q1: "q1 = expire_stuck now q"
    and work: "work \<longleftrightarrow> list_ex (ready now q1) (queues q1)
      \<or> (\<exists>s \<in> fst ` set (cancelled_batches q1). s \<notin> set (in_flight_scopes q1))"
    using assms(2) by (auto simp: has_flushable_work_def Let_def list_ex_iff)
  have inv: "queue_inv q1" using expire_stuck_inv acp_reachable_inv [OF assms(1)] q1 by simp
  note wf = queue_inv_wf [OF inv]
  show ?thesis using assms(3)
  proof (cases rule: flush_next_cases)
    case (regular s v)
    note reg = regular [folded q1]
    have v: "v \<noteq> []" "idx_get (queues q1) s = v" using reg(1) wf by (simp_all add: idx_in_set)
    have "work" "list_ex (ready now q1) (queues q1)" using reg(1,2) work by (auto simp: list_ex_iff)
    then show ?thesis
      using reg v
      by (auto simp: flush_scope_def Let_def batch_ok_def is_scope_in_flight_def ready_def list_all_iff
          idx_get_unwrap MAX_BATCH_EVENTS_def)
  next
    case (carried s)
    note car = carried [folded q1]
    have "idx_get (cancelled_batches q1) s \<noteq> []"
      using car(2) wf idx_wf_empty_iff [of "cancelled_batches q1" s] by (simp add: map_of_eq_None_iff)
    moreover have work using car(2,3) work by blast
    ultimately show ?thesis
      using car
      by (auto simp: flush_cancelled_def Let_def batch_ok_def is_scope_in_flight_def idx_get_unwrap)
  next
    case idle
    then show ?thesis using work q1 by auto
  qed
qed

lemma sample_flush:
  "flush_next 10 sample_queue =
     (sample_queue\<lparr>queues := [(Conversation 7, [sample_event 2 (Conversation 7)])],
        in_flight_scopes := [sample_thread],
        in_flight_deadlines := [(sample_thread, 7300000000010)],
        in_flight_batch_sizes := [(sample_thread, 2)]\<rparr>,
      Some \<lparr>fb_channel_id = 7, fb_scope = sample_thread,
        fb_events = map batch_event_of [sample_event 1 sample_thread, sample_event 3 sample_thread],
        fb_cancelled_events = [], fb_cancel_reason = None\<rparr>)"
  by (simp add: flush_next_def sample_queue_eq expire_stuck_def event_queue_new_def Let_def ready_def
      head_received_at_def sample_event_def flush_scope_def idx_get_def MAX_BATCH_EVENTS_def
      batch_event_of_def unwrap_or_default_def from_secs_def DEFAULT_IN_FLIGHT_DEADLINE_SECS_def)

theorem flush_next_dispatches_fairly_witness:
  "\<exists>b. snd (flush_next 10 sample_queue) = Some b \<and> fb_scope b = sample_thread \<and> batch_ok b"
  using flush_next_dispatches_fairly [OF sample_queue_reachable [of std_nostr_api] surjective_pairing
      sample_flush] sample_flush by auto

text \<open>C29. No queued event is lost or delivered twice by dispatching: the events of a flushed batch, its
  carried-over ones and what the queue holds afterwards are together exactly what it held after
  expiry, and expiry itself adds nothing and, when no event is withheld, drops nothing. A batch that
  is held back for lack of an agent returns completely if the channel has room for it, and a
  cancelled batch always returns completely.\<close>

theorem queue_conserves_events:
  assumes "acp_reachable api q" and "batch_ok b"
  shows "(case flush_next now q of (q', r) \<Rightarrow>
        pending q' + (case r of None \<Rightarrow> {#} | Some f \<Rightarrow> mset (fb_events f) + mset (fb_cancelled_events f))
          = pending (fst (has_flushable_work now q)))
    \<and> pending (fst (has_flushable_work now q)) \<subseteq># pending q
    \<and> (withheld_native_steer q = [] \<longrightarrow> pending (fst (has_flushable_work now q)) = pending q)
    \<and> pending (requeue_as_cancelled b reason q)
        = pending q + mset (fb_events b) + mset (fb_cancelled_events b)
    \<and> (channel_event_total (queues q) (fb_channel_id b) + length (fb_events b) \<le> 500 \<longrightarrow>
        pending (requeue_preserve_timestamps b q)
          = pending q + mset (fb_events b) + mset (fb_cancelled_events b))"
proof -
  note inv = acp_reachable_inv [OF assms(1)]
  note wf = queue_inv_wf [OF inv]
  have h: "fst (has_flushable_work now q) = expire_stuck now q"
    by (simp add: has_flushable_work_def Let_def)
  have flush: "case flush_next now q of (q', r) \<Rightarrow>
        pending q' + (case r of None \<Rightarrow> {#} | Some f \<Rightarrow> mset (fb_events f) + mset (fb_cancelled_events f))
          = pending (expire_stuck now q)"
  proof (cases "flush_next now q")
    case (Pair q' r)
    then show ?thesis
      using flush_next_pending [OF inv, of now q'] flush_next_None [of now q q']
      by (cases r) (simp_all add: ac_simps)
  qed
  have cancelled: "gather (\<lambda>e. e) (AList.update s (xs @ idx_get (cancelled_batches q) s) (cancelled_batches q))
      = gather (\<lambda>e. e) (cancelled_batches q) + mset xs" for s xs
    using gather_return_room [of "\<lambda>e. e" s xs "cancelled_batches q"] by simp
  have "gather (\<lambda>e. e) (AList.update s (idx_get (cancelled_batches q) s @ xs) (cancelled_batches q))
      = gather (\<lambda>e. e) (cancelled_batches q) + mset xs" for s xs
    using gather_update [of "\<lambda>e. e" s "idx_get (cancelled_batches q) s @ xs" "cancelled_batches q"] by simp
  then have "pending (requeue_as_cancelled b reason q)
      = pending q + mset (fb_events b) + mset (fb_cancelled_events b)"
    by (simp add: pending_def requeue_as_cancelled_def Let_def idx_get_unwrap ac_simps)
  moreover have "pending (requeue_preserve_timestamps b q)
          = pending q + mset (fb_events b) + mset (fb_cancelled_events b)"
    if "channel_event_total (queues q) (fb_channel_id b) + length (fb_events b) \<le> 500"
    using push_back_with_room [OF _ assms(2), of "queues q"] that wf cancelled
    by (simp add: pending_def requeue_preserve_timestamps_def Let_def idx_get_unwrap gather_return_room
        MAX_PENDING_PER_CHANNEL_def comp_def ac_simps)
  ultimately show ?thesis
    using flush expire_stuck_pending [OF inv] expire_stuck_no_withheld [of q now] unfolding h by simp
qed

definition sample_batch :: flush_batch where
  "sample_batch = \<lparr>fb_channel_id = 7, fb_scope = sample_thread,
     fb_events = map batch_event_of [sample_event 1 sample_thread, sample_event 3 sample_thread],
     fb_cancelled_events = [], fb_cancel_reason = None\<rparr>"

lemma sample_batch_ok [simp]: "batch_ok sample_batch"
  by (simp add: batch_ok_def sample_batch_def)

theorem queue_conserves_events_witness:
  "pending (requeue_preserve_timestamps sample_batch sample_queue)
     = pending sample_queue + mset (fb_events sample_batch)"
proof -
  have "channel_event_total (queues sample_queue) (fb_channel_id sample_batch)
      + length (fb_events sample_batch) \<le> 500" "fb_cancelled_events sample_batch = []"
    by (simp_all add: sample_queue_eq sample_batch_def)
  then show ?thesis
    using queue_conserves_events [OF sample_queue_reachable [of std_nostr_api] sample_batch_ok] by simp
qed

text \<open>Admission: an event is refused exactly in drop mode while its scope is in flight, and a refusal
  changes nothing. An accepted event goes to the back of its partition and at most one event leaves
  for it: the oldest of the partition when that is full, otherwise, when the channel is full, the head
  of a partition whose head is the oldest of the channel. Nothing else changes.\<close>

theorem push_admits_or_evicts_one:
  assumes "acp_reachable api q" and "owned (qe_scope e) e" and "push e q = (q', accepted)"
  shows "(accepted \<longleftrightarrow> \<not> (dedup_mode q = Dedup_Drop \<and> is_scope_in_flight (qe_scope e) q))
    \<and> q' = q\<lparr>queues := queues q'\<rparr> \<and> (\<not> accepted \<longrightarrow> q' = q)
    \<and> (accepted \<longrightarrow>
        (let v = idx_get (queues q) (qe_scope e);
             admitted = AList.update (qe_scope e) (v @ [e]) (queues q)
         in if length v = 500 then queues q' = AList.update (qe_scope e) (tl v @ [e]) (queues q)
            else if channel_event_total (queues q) (qe_channel_id e) = 500 then
              \<exists>w. scope_channel_id w = qe_channel_id e \<and> idx_get admitted w \<noteq> []
                \<and> queues q' = evict_head w admitted
                \<and> list_all (\<lambda>p. scope_channel_id (fst p) = qe_channel_id e \<and> snd p \<noteq> [] \<longrightarrow>
                     head_received_at (w, idx_get admitted w) \<le> head_received_at p) admitted
            else queues q' = admitted))"
proof -
  let ?s = "qe_scope e" and ?c = "qe_channel_id e"
  let ?v = "idx_get (queues q) ?s"
  let ?adm = "AList.update ?s (?v @ [e]) (queues q)"
  have p: "parts_ok (queues q)" using acp_reachable_inv [OF assms(1)] by (simp add: queue_inv_def)
  have wf: "idx_wf (queues q)" "hm_wf (queues q)" and c: "scope_channel_id ?s = ?c"
    and len: "length ?v \<le> 500" and tot: "channel_event_total (queues q) ?c \<le> 500"
    using p assms(2) by (simp_all add: parts_ok_def parts_wf_def idx_wf_def owned_def
        MAX_PENDING_PER_SCOPE_def MAX_PENDING_PER_CHANNEL_def)
  have full: "enforce_channel_cap ?c (AList.update ?s (tl ?v @ [e]) (queues q))
      = AList.update ?s (tl ?v @ [e]) (queues q)" if "length ?v = 500"
    using total_AList_update [of ?s "tl ?v @ [e]" "queues q" ?c] that tot c
    by (intro enforce_cap_id) (simp add: MAX_PENDING_PER_CHANNEL_def)
  have room: "enforce_channel_cap ?c ?adm = ?adm" if "channel_event_total (queues q) ?c \<noteq> 500"
    using total_AList_update [of ?s "?v @ [e]" "queues q" ?c] that tot c
    by (intro enforce_cap_id) (simp add: MAX_PENDING_PER_CHANNEL_def)
  have evict: "\<exists>w. scope_channel_id w = ?c \<and> idx_get ?adm w \<noteq> []
      \<and> enforce_channel_cap ?c ?adm = evict_head w ?adm
      \<and> list_all (\<lambda>p. scope_channel_id (fst p) = ?c \<and> snd p \<noteq> [] \<longrightarrow>
           head_received_at (w, idx_get ?adm w) \<le> head_received_at p) ?adm"
    if "channel_event_total (queues q) ?c = 500"
    using total_AList_update [of ?s "?v @ [e]" "queues q" ?c] that c wf
    by (intro enforce_cap_one) (simp_all add: MAX_PENDING_PER_CHANNEL_def idx_wf_update)
  show ?thesis
    using assms(3) full room evict len
    by (auto simp: push_def Let_def is_scope_in_flight_def MAX_PENDING_PER_SCOPE_def split: if_splits)
qed

theorem push_admits_or_evicts_one_witness:
  "queues (fst (push (sample_event 4 (Conversation 7)) sample_queue)) =
     AList.update (Conversation 7) [sample_event 2 (Conversation 7), sample_event 4 (Conversation 7)]
       (queues sample_queue)"
proof -
  have v: "idx_get (queues sample_queue) (Conversation 7) = [sample_event 2 (Conversation 7)]"
    "channel_event_total (queues sample_queue) 7 = 3" "dedup_mode sample_queue = Dedup_Queue"
    by (simp_all add: sample_queue_eq idx_get_def event_queue_new_def)
  have "qe_scope (sample_event 4 (Conversation 7)) = Conversation 7"
    "qe_channel_id (sample_event 4 (Conversation 7)) = 7"
    by (simp_all add: sample_event_def)
  then show ?thesis
    using push_admits_or_evicts_one [OF sample_queue_reachable [of std_nostr_api] owned_sample
        surjective_pairing, of 4 "Conversation 7"] v
    by (auto simp: Let_def)
qed

text \<open>The harness may put its agents to sleep: when nothing undispatched is reported and nothing is
  in flight, the queue holds no event at all, neither queued nor throttled nor withheld nor carried
  over from a cancelled turn.\<close>

theorem idle_queue_is_empty:
  assumes "acp_reachable api q"
  shows "\<not> has_undispatched_work q \<and> \<not> has_in_flight q \<longleftrightarrow> pending q = {#} \<and> in_flight_scopes q = []"
proof -
  note wf = queue_inv_wf [OF acp_reachable_inv [OF assms]]
  have g: "gather f m = {#} \<longleftrightarrow> m = []" if "idx_wf m" for f :: "'v \<Rightarrow> batch_event" and m
    using that by (cases m) (auto simp: idx_wf_def)
  have q: "list_ex (\<lambda>(s, v). v \<noteq> []) m \<longleftrightarrow> m \<noteq> []" if "idx_wf m"
    for m :: "(session_scope, 'v list) hmap"
    using that by (cases m) (auto simp: idx_wf_def)
  show ?thesis
    using wf g [of "queues q"] g [of "withheld_native_steer q"] g [of "cancelled_batches q"]
      q [of "queues q"] q [of "withheld_native_steer q"]
    by (cases "cancelled_batches q")
       (auto simp: has_undispatched_work_def has_in_flight_def pending_def Let_def)
qed

theorem idle_queue_is_empty_witness:
  "has_undispatched_work sample_queue \<or> has_in_flight sample_queue"
proof -
  have "pending sample_queue \<noteq> {#}" by (simp add: pending_def sample_queue_eq)
  then show ?thesis using idle_queue_is_empty [OF sample_queue_reachable [of std_nostr_api]] by blast
qed



text \<open>Holding a batch back is invisible: flushing a batch whose events were queued in order of
  creation, returning it with \<open>requeue_preserve_timestamps\<close> and marking the scope complete restores
  every partition, every carried-over batch with its reason and the set of scopes in flight; but it
  also forgets the failures of the scope so far, as a successful turn would.\<close>

theorem hold_restores_queue:
  assumes "acp_reachable api q" and "list_all (\<lambda>(s, deadline). now < deadline) (in_flight_deadlines q)"
    and "flush_next now q = (q1, Some b)" and "list_ex (ready now q) (queues q)"
    and "sorted (map (\<lambda>e. ev_created_at (qe_event e)) (take 50 (idx_get (queues q) (fb_scope b))))"
    and "now \<le> now'" and "q2 = mark_complete now' (fb_scope b) (requeue_preserve_timestamps b q1)"
  shows "idx_get (queues q2) s = idx_get (queues q) s
    \<and> map_of (cancelled_batches q2) s = map_of (cancelled_batches q) s
    \<and> map_of (cancel_reasons q2) s = map_of (cancel_reasons q) s
    \<and> (is_scope_in_flight s q2 \<longleftrightarrow> is_scope_in_flight s q)
    \<and> map_of (retry_counts q2) (fb_scope b) = None \<and> map_of (retry_after q2) (fb_scope b) = None"
proof -
  note inv = acp_reachable_inv [OF assms(1)]
  note wf = queue_inv_wf [OF inv]
  have no_expiry: "expire_stuck now q = q"
    using assms(2) by (simp add: expire_stuck_def list_all_iff filter_False split_def not_le)
  show ?thesis using assms(3)
  proof (cases rule: flush_next_cases)
    case (regular w v)
    note reg = regular [unfolded no_expiry]
    have v: "v \<noteq> []" "idx_get (queues q) w = v" using reg(1) wf by (simp_all add: idx_in_set)
    have b: "fb_scope b = w" "fb_channel_id b = scope_channel_id w"
      using reg(4) by (auto simp: flush_scope_def Let_def)
    have own: "list_all (owned w) v"
      using inv v parts_okD [of "queues q" w] by (simp add: queue_inv_def)
    have "sorted (map (\<lambda>be. ev_created_at (be_event be)) (map batch_event_of (take 50 v)))"
      using assms(5) b v by (simp add: comp_def batch_event_of_def)
    then have ev: "fb_events b = map batch_event_of (take 50 v)"
      using reg(4) v by (auto simp: flush_scope_def Let_def MAX_BATCH_EVENTS_def sort_key_id_if_sorted
          take_min_length)
    have restored: "map (queued_event_of (fb_channel_id b) w) (fb_events b) = take 50 v"
      using list_all_take [OF own, of 50]
      by (simp add: ev b list_all_iff queued_event_of_batch map_idI)
    have bok: "batch_ok b" using v b ev by (simp add: batch_ok_def)
    have q1: "queues q1 = (if drop 50 v = [] then AList.delete w (queues q) else AList.update w (drop 50 v) (queues q))"
      using reg(4) v by (auto simp: flush_scope_def Let_def MAX_BATCH_EVENTS_def drop_min_length)
    have total: "channel_event_total (queues q1) (scope_channel_id w) + length (fb_events b)
        = channel_event_total (queues q) (scope_channel_id w)"
      using total_AList_update [of w "drop 50 v" "queues q" "scope_channel_id w"]
        total_AList_delete [of "queues q" w "scope_channel_id w"] wf v
      by (auto simp: q1 ev split: if_splits)
    have "channel_event_total (queues q) (scope_channel_id w) \<le> MAX_PENDING_PER_CHANNEL"
      using inv by (simp add: queue_inv_def parts_ok_def)
    then have put: "enforce_channel_cap (fb_channel_id b) (push_back_batch b (queues q1))
        = AList.update w (take 50 v @ idx_get (queues q1) w) (queues q1)"
      using push_back_with_room [OF _ bok, of "queues q1"] total wf restored b by (simp add: q1)
    have parts: "idx_get (queues q2) s = idx_get (queues q) s"
      using put v b assms(7) by (simp add: q1 mark_complete_queues requeue_preserve_queues)
    show ?thesis
      using parts hold_side_tables [OF inv v reg(2,4) assms(6)] assms(7) b by simp
  next
    case (carried w)
    then show ?thesis using assms(4) no_expiry by simp
  qed simp
qed

theorem hold_restores_queue_witness:
  "\<forall>s. idx_get (queues (mark_complete 11 sample_thread
      (requeue_preserve_timestamps (the (snd (flush_next 10 sample_queue)))
        (fst (flush_next 10 sample_queue))))) s
   = idx_get (queues sample_queue) s"
proof -
  have pre: "list_all (\<lambda>(s, deadline). 10 < deadline) (in_flight_deadlines sample_queue)"
    "list_ex (ready 10 sample_queue) (queues sample_queue)"
    "sorted (map (\<lambda>e. ev_created_at (qe_event e)) (take 50 (idx_get (queues sample_queue) sample_thread)))"
    by (simp_all add: sample_queue_eq event_queue_new_def ready_def idx_get_def sample_event_def)
  show ?thesis
    using hold_restores_queue [OF sample_queue_reachable [of std_nostr_api] pre(1) sample_flush pre(2) _ _ refl,
        of 11] pre(3) sample_flush by simp
qed

text \<open>Leaving a channel removes everything that waits for it and nothing else: afterwards no scope of
  the channel has queued, withheld or carried-over events, a throttle or a retry counter, every table
  of the other channels is as before, scopes in flight keep their marker and deadline, and the ids
  returned for clean-up are those of exactly the dropped queued events.\<close>

theorem drain_channel_clears_exactly:
  assumes "acp_reachable api q" and "drain_channel api c q = (q', ids)"
  shows "(if scope_channel_id s = c then
       idx_get (queues q') s = [] \<and> idx_get (withheld_native_steer q') s = []
       \<and> map_of (cancelled_batches q') s = None \<and> map_of (cancel_reasons q') s = None
       \<and> map_of (retry_after q') s = None \<and> map_of (retry_counts q') s = None
     else
       idx_get (queues q') s = idx_get (queues q) s
       \<and> idx_get (withheld_native_steer q') s = idx_get (withheld_native_steer q) s
       \<and> map_of (cancelled_batches q') s = map_of (cancelled_batches q) s
       \<and> map_of (cancel_reasons q') s = map_of (cancel_reasons q) s
       \<and> map_of (retry_after q') s = map_of (retry_after q) s
       \<and> map_of (retry_counts q') s = map_of (retry_counts q) s)
    \<and> in_flight_scopes q' = in_flight_scopes q \<and> in_flight_deadlines q' = in_flight_deadlines q
    \<and> set ids = {event_hex api e |e t. e \<in> set (idx_get (queues q) t) \<and> scope_channel_id t = c}
    \<and> length ids = channel_event_total (queues q) c"
proof -
  note wf = queue_inv_wf [OF acp_reachable_inv [OF assms(1)]]
  have hw: "hm_wf (queues q)" using wf by simp
  have "set (channel_scopes c (queues q)) = {t. map_of (queues q) t \<noteq> None \<and> scope_channel_id t = c}"
    by (auto simp: channel_scopes_def map_of_eq_None_iff)
  moreover have "map_of (queues q) t = None \<Longrightarrow> idx_get (queues q) t = []" for t
    by (simp add: idx_get_def)
  ultimately have "set ids = {event_hex api e |e t. e \<in> set (idx_get (queues q) t) \<and> scope_channel_id t = c}"
    using assms(2) unfolding drain_channel_eq [OF hw] by fastforce
  moreover have "length ids = channel_event_total (queues q) c"
    using assms(2) total_channel_scopes [OF hw, of c] unfolding drain_channel_eq [OF hw]
    by (auto simp: length_concat comp_def)
  ultimately show ?thesis
    using assms(2) idx_get_drained [OF hw, of c s] unfolding drain_channel_eq [OF hw] by auto
qed

theorem drain_channel_clears_exactly_witness:
  "length (snd (drain_channel std_nostr_api 7 sample_queue)) = 3"
  using drain_channel_clears_exactly [OF sample_queue_reachable [of std_nostr_api] surjective_pairing, where c = 7]
  by (simp add: sample_queue_eq)

end
