(* ===== verification/Workflow_Def.thy ===== *)
theory Workflow_Def
  imports Channel
begin

text \<open>
  Workflow definitions, \<open>crates/maju-workflow/src/schema.rs\<close> and \<open>error.rs\<close>, with the duration
  parser of \<open>executor.rs\<close> that the validation calls.

  Text is a list of Unicode code points, because the code trims Unicode white space and counts
  characters; \<open>byte_len\<close> is the UTF-8 length \<open>str::len\<close>. Parsing a cron expression is the work of the
  \<open>cron\<close> crate and an argument of the definitions. The serde encoding of a definition (YAML and JSON)
  is not modelled.
\<close>

section \<open>Text\<close>

type_synonym wtext = "codepoint list"

definition lit :: "string \<Rightarrow> wtext" where
  "lit s = map of_char s"

definition str_trim :: "wtext \<Rightarrow> wtext" where
  "str_trim s = trim_end_matches is_whitespace (trim_start_matches is_whitespace s)"

definition utf8_width :: "codepoint \<Rightarrow> nat" where
  "utf8_width c = (if c < 128 then 1 else if c < 2048 then 2 else if c < 65536 then 3 else 4)"

definition byte_len :: "wtext \<Rightarrow> nat" where
  "byte_len s = sum_list (map utf8_width s)"

definition strip_prefix :: "'a list \<Rightarrow> 'a list \<Rightarrow> 'a list option" where
  "strip_prefix p s = (if is_prefix p s then Some (drop (length p) s) else None)"

definition strip_suffix :: "'a list \<Rightarrow> 'a list \<Rightarrow> 'a list option" where
  "strip_suffix p s =
     (if is_prefix (rev p) (rev s) then Some (take (length s - length p) s) else None)"

definition is_ascii_digit :: "codepoint \<Rightarrow> bool" where
  "is_ascii_digit c \<longleftrightarrow> 48 \<le> c \<and> c \<le> 57"

definition is_alphanumeric_char :: "codepoint \<Rightarrow> bool" where
  "is_alphanumeric_char c \<longleftrightarrow>
     is_ascii_digit c \<or> (65 \<le> c \<and> c \<le> 90) \<or> (97 \<le> c \<and> c \<le> 122)"

definition digits_value :: "wtext \<Rightarrow> nat" where
  "digits_value ds = foldl (\<lambda>n c. n * 10 + (c - 48)) 0 ds"

text \<open>\<open>u64::from_str\<close> (and \<open>usize::from_str\<close> on a 64-bit target): an optional plus sign, at least one
  ASCII digit and nothing else, and no overflow.\<close>

definition parse_u64 :: "wtext \<Rightarrow> u64 option" where
  "parse_u64 s =
     (let ds = (case s of [] \<Rightarrow> [] | c # r \<Rightarrow> if c = 43 then r else s) in
      if ds = [] \<or> \<not> list_all is_ascii_digit ds then None
      else if digits_value ds < 2 ^ 64 then Some (word_of_nat (digits_value ds)) else None)"

definition checked_mul :: "u64 \<Rightarrow> u64 \<Rightarrow> u64 option" where
  "checked_mul a b = (if unat a * unat b < 2 ^ 64 then Some (a * b) else None)"

text \<open>\<open>str::split_whitespace\<close>: the maximal runs of characters that are not white space.\<close>

function split_whitespace :: "wtext \<Rightarrow> wtext list" where
  "split_whitespace s =
     (case dropWhile is_whitespace s of
        [] \<Rightarrow> []
      | c # r \<Rightarrow>
          (c # takeWhile (\<lambda>x. \<not> is_whitespace x) r)
            # split_whitespace (dropWhile (\<lambda>x. \<not> is_whitespace x) r))"
  by pat_completeness auto

termination
proof (relation "measure length", simp)
  fix s :: wtext and c r
  assume "dropWhile is_whitespace s = c # r"
  then have "length (c # r) \<le> length s" by (metis length_dropWhile_le)
  moreover have "length (dropWhile (\<lambda>x. \<not> is_whitespace x) r) \<le> length r" by (rule length_dropWhile_le)
  ultimately show "(dropWhile (\<lambda>x. \<not> is_whitespace x) r, s) \<in> measure length" by simp
qed

declare split_whitespace.simps [simp del]

section \<open>Errors\<close>

text \<open>The messages are the texts of the code; where a message quotes the error of another library, that
  text is an argument. \<open>InvalidYaml\<close> wraps the error of \<open>serde_yaml\<close>, here its text.\<close>

datatype workflow_error =
    InvalidYaml wtext
  | InvalidDefinition wtext
  | ConditionError wtext
  | TemplateError wtext
  | StepTimeout wtext u64
  | WebhookError wtext
  | CapacityExceeded
  | Database wtext
  | Unauthorized wtext
  | NotImplemented wtext

fun error_code :: "workflow_error \<Rightarrow> string" where
  "error_code (InvalidYaml _) = ''invalid_yaml''"
| "error_code (InvalidDefinition _) = ''invalid_definition''"
| "error_code (ConditionError _) = ''condition_evaluation_failed''"
| "error_code (TemplateError _) = ''template_resolution_failed''"
| "error_code (StepTimeout _ _) = ''step_timeout''"
| "error_code (WebhookError _) = ''webhook_failed''"
| "error_code CapacityExceeded = ''capacity_exceeded''"
| "error_code (Database _) = ''database_error''"
| "error_code (Unauthorized _) = ''owner_unauthorized''"
| "error_code (NotImplemented _) = ''action_not_implemented''"

text \<open>The \<open>Display\<close> text, as the \<open>thiserror\<close> attributes give it.\<close>

fun error_display :: "workflow_error \<Rightarrow> wtext" where
  "error_display (InvalidYaml e) = lit ''invalid YAML: '' @ e"
| "error_display (InvalidDefinition m) = lit ''invalid definition: '' @ m"
| "error_display (ConditionError m) = lit ''condition evaluation error: '' @ m"
| "error_display (TemplateError m) = lit ''template error: '' @ m"
| "error_display (StepTimeout i s) =
     lit ''step '' @ [39] @ i @ [39] @ lit '' timed out after '' @ lit (show_nat (unat s)) @ lit ''s''"
| "error_display (WebhookError m) = lit ''webhook error: '' @ m"
| "error_display CapacityExceeded = lit ''capacity exceeded''"
| "error_display (Database m) = lit ''database error: '' @ m"
| "error_display (Unauthorized m) = lit ''unauthorized: '' @ m"
| "error_display (NotImplemented m) = lit ''action not implemented: '' @ m"

section \<open>Definitions of workflows\<close>

datatype trigger_def =
    MessagePosted "wtext option"
  | ReactionAdded "wtext option" "wtext option"
  | DiffPosted "wtext option"
  | Schedule "wtext option" "wtext option"
  | Webhook

text \<open>\<open>SendMessage\<close> has text, channel and \<open>reply_in_thread\<close>; \<open>CallWebhook\<close> has URL, method, headers
  and body; \<open>RequestApproval\<close> has from, message and timeout.\<close>

datatype action_def =
    SendMessage wtext "wtext option" bool
  | SendDm wtext wtext
  | SetChannelTopic wtext
  | AddReaction wtext
  | CallWebhook wtext "wtext option" "(wtext, wtext) hmap option" "wtext option"
  | RequestApproval wtext wtext "wtext option"
  | Delay wtext

record wf_step =
  step_id :: wtext
  step_name :: "wtext option"
  if_expr :: "wtext option"
  timeout_secs :: "u64 option"
  step_action :: action_def

record workflow_def =
  wf_name :: wtext
  wf_description :: "wtext option"
  wf_trigger :: trigger_def
  wf_steps :: "wf_step list"
  wf_def_enabled :: bool

definition requires_elevated_authority :: "workflow_def \<Rightarrow> bool" where
  "requires_elevated_authority def \<longleftrightarrow>
     list_ex (\<lambda>s. case step_action s of CallWebhook _ _ _ _ \<Rightarrow> True | _ \<Rightarrow> False) (wf_steps def)"

section \<open>Durations and cron expressions\<close>

text \<open>The result of a parse step: the number times the unit, or the error of the code.\<close>

definition scaled_duration :: "wtext \<Rightarrow> wtext \<Rightarrow> u64 \<Rightarrow> workflow_error + u64" where
  "scaled_duration duration n unit =
     (case parse_u64 (str_trim n) of
        None \<Rightarrow> Inl (InvalidDefinition (lit ''invalid duration: '' @ duration))
      | Some k \<Rightarrow> ok_or (checked_mul k unit) (InvalidDefinition (lit ''duration overflow: '' @ duration)))"

definition parse_duration_secs :: "wtext \<Rightarrow> workflow_error + u64" where
  "parse_duration_secs duration0 =
     (let duration = str_trim duration0;
          invalid = InvalidDefinition (lit ''invalid duration: '' @ duration) in
      case strip_suffix [104] duration of
        Some n \<Rightarrow> scaled_duration duration n 3600
      | None \<Rightarrow>
          (case strip_suffix [109] duration of
             Some n \<Rightarrow> scaled_duration duration n 60
           | None \<Rightarrow>
               (case strip_suffix [115] duration of
                  Some n \<Rightarrow> ok_or (parse_u64 (str_trim n)) invalid
                | None \<Rightarrow> ok_or (parse_u64 duration) invalid)))"

definition normalize_cron :: "wtext \<Rightarrow> wtext" where
  "normalize_cron expr =
     (let field_count = length (split_whitespace expr) in
      if field_count = 5 then lit ''0 '' @ expr @ lit '' *''
      else if field_count = 6 then expr @ lit '' *''
      else expr)"

text \<open>\<open>cron_err expr\<close> is the error text of \<open>str::parse::<cron::Schedule>\<close>, \<open>None\<close> when it succeeds.\<close>

definition validate_cron :: "(wtext \<Rightarrow> wtext option) \<Rightarrow> wtext \<Rightarrow> workflow_error + unit" where
  "validate_cron cron_err expr =
     (case cron_err (normalize_cron expr) of
        None \<Rightarrow> Inr ()
      | Some e \<Rightarrow>
          Inl (InvalidDefinition (lit ''invalid cron expression '' @ [39] @ expr @ [39] @ lit '': '' @ e)))"

section \<open>Validation\<close>

definition valid_step_id :: "wtext \<Rightarrow> bool" where
  "valid_step_id i \<longleftrightarrow>
     i \<noteq> [] \<and> byte_len i \<le> 64 \<and> list_all (\<lambda>c. is_alphanumeric_char c \<or> c = 95) i"

fun check_step_ids :: "wtext list \<Rightarrow> wf_step list \<Rightarrow> workflow_error + unit" where
  "check_step_ids seen [] = Inr ()"
| "check_step_ids seen (step # steps) =
     (if str_trim (step_id step) = [] then Inl (InvalidDefinition (lit ''step id must not be empty''))
      else if \<not> valid_step_id (step_id step) then
        Inl (InvalidDefinition
          (lit ''step id '' @ [39] @ step_id step @ [39]
             @ lit '' is invalid: must contain only alphanumeric characters and underscores''))
      else if step_id step \<in> set seen then
        Inl (InvalidDefinition (lit ''duplicate step id: '' @ step_id step))
      else check_step_ids (step_id step # seen) steps)"

definition trigger_has_message :: "trigger_def \<Rightarrow> bool" where
  "trigger_has_message t =
     (case t of
        MessagePosted _ \<Rightarrow> True | ReactionAdded _ _ \<Rightarrow> True | DiffPosted _ \<Rightarrow> True
      | Schedule _ _ \<Rightarrow> False | Webhook \<Rightarrow> False)"

definition replies_in_thread :: "action_def \<Rightarrow> bool" where
  "replies_in_thread a = (case a of SendMessage _ _ r \<Rightarrow> r | _ \<Rightarrow> False)"

fun check_replies :: "wf_step list \<Rightarrow> workflow_error + unit" where
  "check_replies [] = Inr ()"
| "check_replies (step # steps) =
     (if replies_in_thread (step_action step) then
        Inl (InvalidDefinition
          (lit ''step '' @ [39] @ step_id step @ [39]
             @ lit '': reply_in_thread requires a message-based trigger ''
             @ lit ''(message_posted, reaction_added, or diff_posted); ''
             @ lit ''schedule and webhook triggers have no message to reply to''))
      else check_replies steps)"

definition check_interval :: "wtext \<Rightarrow> workflow_error + unit" where
  "check_interval dur =
     (case parse_duration_secs dur of
        Inl _ \<Rightarrow>
          Inl (InvalidDefinition
            (lit ''invalid interval '' @ [39] @ dur @ [39] @ lit '': expected a duration like ''
               @ [39] @ lit ''30m'' @ [39] @ lit '', '' @ [39] @ lit ''1h'' @ [39] @ lit '', or ''
               @ [39] @ lit ''60s'' @ [39]))
      | Inr secs \<Rightarrow>
          if secs < 60 then
            Inl (InvalidDefinition (lit ''interval must be at least 60s (cron loop ticks every 60 seconds)''))
          else Inr ())"

definition check_schedule :: "(wtext \<Rightarrow> wtext option) \<Rightarrow> trigger_def \<Rightarrow> workflow_error + unit" where
  "check_schedule cron_err t =
     (case t of
        Schedule cron interval \<Rightarrow>
          (if cron = None \<and> interval = None then
             Inl (InvalidDefinition
               (lit ''schedule trigger requires either '' @ [39] @ lit ''cron'' @ [39] @ lit '' or ''
                  @ [39] @ lit ''interval'' @ [39]))
           else if cron \<noteq> None \<and> interval \<noteq> None then
             Inl (InvalidDefinition
               (lit ''schedule trigger cannot specify both '' @ [39] @ lit ''cron'' @ [39] @ lit '' and ''
                  @ [39] @ lit ''interval'' @ [39] @ lit ''; use one or the other''))
           else
             and_then (case cron of None \<Rightarrow> Inr () | Some expr \<Rightarrow> validate_cron cron_err expr)
               (\<lambda>_. case interval of None \<Rightarrow> Inr () | Some dur \<Rightarrow> check_interval dur))
      | _ \<Rightarrow> Inr ())"

definition validate :: "(wtext \<Rightarrow> wtext option) \<Rightarrow> workflow_def \<Rightarrow> workflow_error + unit" where
  "validate cron_err def =
     (if str_trim (wf_name def) = [] then
        Inl (InvalidDefinition (lit ''name is required and must not be empty''))
      else if wf_steps def = [] then Inl (InvalidDefinition (lit ''at least one step is required''))
      else
        and_then (check_step_ids [] (wf_steps def)) (\<lambda>_.
        and_then (if trigger_has_message (wf_trigger def) then Inr () else check_replies (wf_steps def))
          (\<lambda>_. check_schedule cron_err (wf_trigger def))))"

section \<open>Lemmas on text\<close>

definition blank :: "wtext \<Rightarrow> bool" where
  "blank s \<longleftrightarrow> list_all is_whitespace s"

lemma blank_simps [simp]: "blank []" "blank (c # s) \<longleftrightarrow> is_whitespace c \<and> blank s" "blank (s @ t) \<longleftrightarrow> blank s \<and> blank t"
  by (auto simp: blank_def)

lemma dropWhile_blank: "blank a \<Longrightarrow> dropWhile is_whitespace (a @ s) = dropWhile is_whitespace s"
  by (induction a) (auto simp: blank_def)

lemma trim_end_blank:
  assumes "blank c"
  shows "trim_end_matches is_whitespace (s @ c) = trim_end_matches is_whitespace s"
proof -
  have "blank (rev c)" using assms by (simp add: blank_def list_all_iff)
  then show ?thesis by (simp add: trim_end_matches_def dropWhile_blank)
qed

lemma str_trim_surrounded:
  assumes "blank a" "blank c" "s \<noteq> []" "\<not> is_whitespace (hd s)" "\<not> is_whitespace (last s)"
  shows "str_trim (a @ s @ c) = s"
proof -
  have "dropWhile is_whitespace (s @ c) = s @ c" using assms(3,4) by (cases s) auto
  moreover have "trim_end_matches is_whitespace s = s"
    using assms(3,5) unfolding trim_end_matches_def
    by (metis dropWhile_id hd_rev rev_rev_ident)
  ultimately show ?thesis
    unfolding str_trim_def trim_start_matches_def using assms(1,2)
    by (simp add: dropWhile_blank trim_end_blank)
qed

lemma str_trim_decompose: "\<exists>a c. s = a @ str_trim s @ c \<and> blank a \<and> blank c"
proof -
  let ?m = "dropWhile is_whitespace s"
  obtain c where c: "?m = trim_end_matches is_whitespace ?m @ c" "\<forall>x \<in> set c. is_whitespace x"
    using trim_end_matches_append [of ?m is_whitespace] by (elim exE conjE) (rule that)
  have "s = takeWhile is_whitespace s @ str_trim s @ c"
    unfolding str_trim_def trim_start_matches_def c(1) [symmetric] by simp
  moreover have "blank (takeWhile is_whitespace s)" "blank c"
    using c(2) by (auto simp: blank_def list_all_iff dest: set_takeWhileD)
  ultimately show ?thesis by blast
qed

lemma strip_suffix_char: "strip_suffix [c] s = Some n \<longleftrightarrow> s = n @ [c]"
proof (cases s rule: rev_cases)
  case (snoc t d)
  then show ?thesis by (auto simp: strip_suffix_def)
qed (simp add: strip_suffix_def)

lemma strip_suffix_char_None: "strip_suffix [c] s = None \<longleftrightarrow> s = [] \<or> last s \<noteq> c"
proof (cases s rule: rev_cases)
  case (snoc t d)
  then show ?thesis by (auto simp: strip_suffix_def)
qed (simp add: strip_suffix_def)

section \<open>Durations\<close>

definition is_number :: "wtext \<Rightarrow> bool" where
  "is_number ds \<longleftrightarrow> ds \<noteq> [] \<and> list_all is_ascii_digit ds"

lemma digit_facts:
  "is_ascii_digit c \<Longrightarrow> \<not> is_whitespace c \<and> c \<noteq> 43 \<and> c \<noteq> 104 \<and> c \<noteq> 109 \<and> c \<noteq> 115"
  by (auto simp: is_ascii_digit_def is_whitespace_def)

lemma is_number_ends: "is_number ds \<Longrightarrow> is_ascii_digit (hd ds) \<and> is_ascii_digit (last ds)"
  by (auto simp: is_number_def list_all_iff)

text \<open>A numeral: an optional plus sign and digits.\<close>

definition number_text :: "wtext \<Rightarrow> nat \<Rightarrow> bool" where
  "number_text s k \<longleftrightarrow>
     (\<exists>sgn ds. s = sgn @ ds \<and> sgn \<in> {[], [43]} \<and> is_number ds \<and> k = digits_value ds)"

lemma number_text_ends:
  assumes "number_text s k"
  shows "s \<noteq> [] \<and> \<not> is_whitespace (hd s) \<and> is_ascii_digit (last s)"
proof -
  obtain sgn ds where s: "s = sgn @ ds" "sgn \<in> {[], [43]}" "is_number ds"
    using assms by (auto simp: number_text_def)
  moreover have "\<not> is_whitespace 43" by (simp add: is_whitespace_def)
  ultimately show ?thesis
    using is_number_ends [OF s(3)] digit_facts by (auto simp: is_number_def)
qed

lemma parse_u64_iff: "parse_u64 s = Some v \<longleftrightarrow> number_text s (unat v)"
proof -
  have val: "word_of_nat k = v \<longleftrightarrow> unat v = k" if "k < 2 ^ 64" for k
    using that by (auto simp: unat_of_nat take_bit_nat_eq_self)
  have lt: "unat v < 2 ^ 64" using unsigned_less [of v] by simp
  have body: "(if ds = [] \<or> \<not> list_all is_ascii_digit ds then None
      else if digits_value ds < 2 ^ 64 then Some (word_of_nat (digits_value ds)) else None) = Some v
    \<longleftrightarrow> is_number ds \<and> unat v = digits_value ds" for ds
    using val lt by (auto simp: is_number_def)
  have plus: "\<not> is_number (43 # r)" for r by (simp add: is_number_def is_ascii_digit_def)
  let ?ds = "case s of [] \<Rightarrow> [] | c # r \<Rightarrow> if c = 43 then r else s"
  have "number_text s (unat v) \<longleftrightarrow> is_number ?ds \<and> unat v = digits_value ?ds"
  proof
    assume "number_text s (unat v)"
    then obtain sgn ds where ds: "s = sgn @ ds" "sgn \<in> {[], [43]}" "is_number ds" "unat v = digits_value ds"
      unfolding number_text_def by blast
    have "?ds = ds" using ds(1-3) plus by (cases ds) (auto split: list.splits)
    with ds show "is_number ?ds \<and> unat v = digits_value ?ds" by simp
  next
    assume "is_number ?ds \<and> unat v = digits_value ?ds"
    moreover have "\<exists>sgn. s = sgn @ ?ds \<and> sgn \<in> {[], [43]}" by (cases s) auto
    ultimately show "number_text s (unat v)" unfolding number_text_def by blast
  qed
  then show ?thesis unfolding parse_u64_def Let_def body by blast
qed

lemma checked_mul_iff:
  "checked_mul a b = Some v \<longleftrightarrow> unat a * unat b < 2 ^ 64 \<and> unat v = unat a * unat b"
proof -
  have "unat (a * b) = unat a * unat b" if "unat a * unat b < 2 ^ 64"
    using that by (simp add: unat_mult_lem [THEN iffD1])
  then show ?thesis unfolding checked_mul_def by (auto simp: word_unat_eq_iff)
qed

lemma parse_u64_number: "number_text s k \<Longrightarrow> k < 2 ^ 64 \<Longrightarrow> parse_u64 s = Some (word_of_nat k)"
  by (simp add: parse_u64_iff unat_of_nat take_bit_nat_eq_self)

lemma scaled_duration_iff:
  assumes "unat u = k" "0 < k"
  shows "scaled_duration d n u = Inr v \<longleftrightarrow>
    (\<exists>m. number_text (str_trim n) m \<and> m * k < 2 ^ 64 \<and> unat v = m * k)"
proof
  assume "scaled_duration d n u = Inr v"
  then obtain x where "parse_u64 (str_trim n) = Some x" "checked_mul x u = Some v"
    by (auto simp: scaled_duration_def split: option.splits)
  then show "\<exists>m. number_text (str_trim n) m \<and> m * k < 2 ^ 64 \<and> unat v = m * k"
    using assms(1) by (auto simp: parse_u64_iff checked_mul_iff)
next
  assume "\<exists>m. number_text (str_trim n) m \<and> m * k < 2 ^ 64 \<and> unat v = m * k"
  then obtain m where m: "number_text (str_trim n) m" "m * k < 2 ^ 64" "unat v = m * k" by blast
  have "m < 2 ^ 64" by (rule le_less_trans [OF _ m(2)]) (use assms(2) in simp)
  then show "scaled_duration d n u = Inr v"
    using m assms(1)
    by (simp add: scaled_duration_def parse_u64_number checked_mul_iff unat_of_nat take_bit_nat_eq_self)
qed

text \<open>A duration: white space, a numeral, white space, a unit or none, white space.\<close>

definition duration_units :: "(wtext \<times> nat) list" where
  "duration_units = [(lit ''h'', 3600), (lit ''m'', 60), (lit ''s'', 1), ([], 1)]"

definition duration_text :: "wtext \<Rightarrow> nat \<Rightarrow> bool" where
  "duration_text d secs \<longleftrightarrow>
     (\<exists>a s b u c m k. d = a @ s @ b @ u @ c \<and> blank a \<and> blank b \<and> blank c \<and> number_text s m
        \<and> (u, k) \<in> set duration_units \<and> secs = m * k)"

lemma str_trim_number: "number_text s m \<Longrightarrow> blank a \<Longrightarrow> blank b \<Longrightarrow> str_trim (a @ s @ b) = s"
  using number_text_ends [of s m] digit_facts by (intro str_trim_surrounded) auto

lemma unit_chars:
  "lit ''h'' = [104]" "lit ''m'' = [109]" "lit ''s'' = [115]"
  "\<not> is_whitespace 104" "\<not> is_whitespace 109" "\<not> is_whitespace 115"
  by (simp_all add: lit_def is_whitespace_def)

lemma str_trim_with_unit:
  assumes "number_text s m" "blank a" "blank c" "\<not> is_whitespace x"
  shows "str_trim (a @ s @ b @ [x] @ c) = (s @ b) @ [x]"
  using str_trim_surrounded [OF assms(2,3), of "s @ b @ [x]"] number_text_ends [OF assms(1)] assms(4)
  by simp

lemma parse_duration_sound:
  assumes "parse_duration_secs d = Inr v"
  shows "duration_text d (unat v)"
proof -
  obtain a c where d: "d = a @ str_trim d @ c" "blank a" "blank c" using str_trim_decompose by blast
  have unit: "duration_text d (unat v)"
    if n: "str_trim d = n @ u" "number_text (str_trim n) m" "(u, k) \<in> set duration_units" "unat v = m * k"
    for n u m k
  proof -
    obtain a' b where "n = a' @ str_trim n @ b" "blank a'" "blank b" using str_trim_decompose by blast
    then have "d = (a @ a') @ str_trim n @ b @ u @ c" "blank (a @ a')" using d n(1) by (metis append_assoc, simp)
    then show ?thesis unfolding duration_text_def using n(2-4) \<open>blank b\<close> d(3) by blast
  qed
  let ?s = "str_trim d"
  have units: "([104], 3600) \<in> set duration_units" "([109], 60) \<in> set duration_units"
    "([115], 1) \<in> set duration_units" "([], 1) \<in> set duration_units"
    by (simp_all add: duration_units_def unit_chars)
  consider (h) n where "strip_suffix [104] ?s = Some n"
    | (m) n where "strip_suffix [104] ?s = None" "strip_suffix [109] ?s = Some n"
    | (s) n where "strip_suffix [104] ?s = None" "strip_suffix [109] ?s = None" "strip_suffix [115] ?s = Some n"
    | (none) "strip_suffix [104] ?s = None" "strip_suffix [109] ?s = None" "strip_suffix [115] ?s = None"
    by (meson not_None_eq)
  then show ?thesis
  proof cases
    case h
    then have "scaled_duration ?s n 3600 = Inr v" using assms by (simp add: parse_duration_secs_def)
    then obtain m where "number_text (str_trim n) m" "unat v = m * 3600"
      by (auto simp: scaled_duration_iff [of _ 3600])
    then show ?thesis using unit units(1) h by (simp add: strip_suffix_char)
  next
    case m
    then have "scaled_duration ?s n 60 = Inr v" using assms by (simp add: parse_duration_secs_def)
    then obtain k where "number_text (str_trim n) k" "unat v = k * 60"
      by (auto simp: scaled_duration_iff [of _ 60])
    then show ?thesis using unit units(2) m by (simp add: strip_suffix_char)
  next
    case s
    then have "parse_u64 (str_trim n) = Some v" using assms by (simp add: parse_duration_secs_def Let_def)
    then show ?thesis using unit [OF _ _ units(3)] s by (simp add: strip_suffix_char parse_u64_iff)
  next
    case none
    then have num: "number_text ?s (unat v)"
      using assms by (simp add: parse_duration_secs_def Let_def parse_u64_iff)
    then have "number_text (str_trim ?s) (unat v)" using str_trim_number [of ?s _ "[]" "[]"] by simp
    then show ?thesis using unit [OF _ _ units(4), of ?s] by simp
  qed
qed

lemma parse_duration_complete:
  assumes "duration_text d n" "n < 2 ^ 64"
  shows "parse_duration_secs d = Inr (word_of_nat n)"
proof -
  obtain a s b u c m k where d: "d = a @ s @ b @ u @ c" "blank a" "blank b" "blank c" "number_text s m"
    and u: "(u, k) \<in> set duration_units" "n = m * k"
    using assms(1) unfolding duration_text_def by blast
  have last: "s \<noteq> []" "is_ascii_digit (last s)" using number_text_ends [OF d(5)] by auto
  have trim: "str_trim (s @ b) = s" using str_trim_number [OF d(5), of "[]" b] d(3) by simp
  have n: "unat (word_of_nat n :: u64) = n" using assms(2) by (simp add: unat_of_nat take_bit_nat_eq_self)
  have unit: "str_trim d = (s @ b) @ [x]" if "u = [x]" "\<not> is_whitespace x" for x
    using str_trim_with_unit [OF d(5,2,4) that(2), of b] by (simp add: d(1) that(1))
  consider "u = [104]" "k = 3600" | "u = [109]" "k = 60" | "u = [115]" "k = 1" | "u = []" "k = 1"
    using u(1) by (auto simp: duration_units_def unit_chars)
  then show ?thesis
  proof cases
    case 1
    then have "scaled_duration (str_trim d) (s @ b) 3600 = Inr (word_of_nat n)"
      unfolding scaled_duration_iff [of 3600 3600, simplified] using d(5) trim n u(2) assms(2) by auto
    then show ?thesis
      using unit [OF 1(1)] by (simp add: unit_chars parse_duration_secs_def Let_def strip_suffix_def)
  next
    case 2
    then have "scaled_duration (str_trim d) (s @ b) 60 = Inr (word_of_nat n)"
      unfolding scaled_duration_iff [of 60 60, simplified] using d(5) trim n u(2) assms(2) by auto
    then show ?thesis
      using unit [OF 2(1)] by (simp add: unit_chars parse_duration_secs_def Let_def strip_suffix_def)
  next
    case 3
    then show ?thesis
      using unit [OF 3(1)] trim d(5) n u(2)
      by (simp add: unit_chars parse_duration_secs_def Let_def strip_suffix_def parse_u64_iff)
  next
    case 4
    then have "str_trim d = s" using str_trim_number [OF d(5,2), of "b @ c"] d(1,3,4) by simp
    then show ?thesis
      using last digit_facts [OF last(2)] d(5) n u(2) 4
      by (simp add: parse_duration_secs_def Let_def parse_u64_iff
          strip_suffix_char_None [THEN iffD2])
  qed
qed

section \<open>Validation and cron expressions\<close>

lemma check_step_ids_iff:
  "check_step_ids seen steps = Inr () \<longleftrightarrow>
     list_all (\<lambda>s. valid_step_id (step_id s)) steps \<and> distinct (map step_id steps)
     \<and> set (map step_id steps) \<inter> set seen = {}"
proof (induction seen steps rule: check_step_ids.induct)
  case (2 seen step steps)
  have "str_trim i \<noteq> []" if "valid_step_id i" for i
  proof
    assume "str_trim i = []"
    then have "blank i" using str_trim_decompose [of i] by auto
    moreover have "\<not> is_whitespace c" if "is_alphanumeric_char c \<or> c = 95" for c
      using that by (auto simp: is_alphanumeric_char_def is_ascii_digit_def is_whitespace_def)
    ultimately show False
      using that unfolding valid_step_id_def blank_def by (cases i) auto
  qed
  then show ?case using 2 by auto
qed simp

lemma check_replies_iff:
  "check_replies steps = Inr () \<longleftrightarrow> \<not> list_ex (\<lambda>s. replies_in_thread (step_action s)) steps"
  by (induction steps) auto

lemma split_whitespace_Nil [simp]: "split_whitespace [] = []"
  by (subst split_whitespace.simps) simp

lemma split_whitespace_space:
  assumes "is_whitespace c"
  shows "split_whitespace (c # s) = split_whitespace s"
  by (subst (1 2) split_whitespace.simps) (simp add: assms)

lemma split_whitespace_sep:
  assumes "is_whitespace c"
  shows "split_whitespace (s @ c # t) = split_whitespace s @ split_whitespace t"
proof (induction s rule: split_whitespace.induct)
  case (1 s)
  show ?case
  proof (cases "dropWhile is_whitespace s")
    case Nil
    then have "blank s" by (simp add: blank_def list_all_iff dropWhile_eq_Nil_conv)
    then have "split_whitespace (s @ c # t) = split_whitespace (c # t)"
      by (subst (1 2) split_whitespace.simps) (simp add: dropWhile_blank)
    moreover have "split_whitespace s = []"
      by (simp only: split_whitespace.simps [of s] Nil list.case)
    ultimately show ?thesis using assms by (simp add: split_whitespace_space)
  next
    case (Cons d r)
    let ?word = "takeWhile (\<lambda>x. \<not> is_whitespace x)" and ?rest = "dropWhile (\<lambda>x. \<not> is_whitespace x)"
    have "dropWhile is_whitespace (s @ c # t) = d # r @ c # t"
      using Cons by (metis append_Cons dropWhile_append dropWhile_eq_Nil_conv list.distinct(1))
    moreover have "?word (r @ c # t) = ?word r" "?rest (r @ c # t) = ?rest r @ c # t"
      using assms by (auto simp: takeWhile_tail, induction r) auto
    ultimately have "split_whitespace (s @ c # t) = (d # ?word r) # split_whitespace (?rest r @ c # t)"
      by (subst split_whitespace.simps) simp
    also have "\<dots> = ((d # ?word r) # split_whitespace (?rest r)) @ split_whitespace t"
      using "1.IH" [OF Cons] by simp
    also have "(d # ?word r) # split_whitespace (?rest r) = split_whitespace s"
      by (simp only: split_whitespace.simps [of s] Cons list.case)
    finally show ?thesis by simp
  qed
qed

lemma normalize_cron_fields:
  "split_whitespace (normalize_cron expr) =
     (if length (split_whitespace expr) = 5 then [lit ''0''] @ split_whitespace expr @ [lit ''*'']
      else if length (split_whitespace expr) = 6 then split_whitespace expr @ [lit ''*'']
      else split_whitespace expr)"
proof -
  have space: "is_whitespace 32" by (simp add: is_whitespace_def)
  have one: "split_whitespace [c] = [[c]]" if "\<not> is_whitespace c" for c
    using that by (subst split_whitespace.simps) simp
  have lits: "lit ''0 '' = lit ''0'' @ [32]" "lit '' *'' = 32 # lit ''*''" by (simp_all add: lit_def)
  have ends: "split_whitespace (lit ''0'') = [lit ''0'']" "split_whitespace (lit ''*'') = [lit ''*'']"
    by (simp_all add: lit_def one is_whitespace_def)
  show ?thesis
    unfolding normalize_cron_def Let_def
    using split_whitespace_sep [OF space] ends by (simp add: lits del: lit_def)
qed

section \<open>Properties\<close>

text \<open>The duration parser accepts exactly the texts made of white space, a decimal numeral with an
  optional plus sign, white space, one of the units h, m, s or none, and white space, whose value in
  seconds fits 64 bits; it returns that value. A product that would overflow is an error, never a
  wrapped number.\<close>

theorem parse_duration_secs_iff: "parse_duration_secs d = Inr v \<longleftrightarrow> duration_text d (unat v)"
proof
  assume "duration_text d (unat v)"
  moreover have "unat v < 2 ^ 64" using unsigned_less [of v] by simp
  ultimately show "parse_duration_secs d = Inr v" using parse_duration_complete [of d "unat v"] by simp
qed (rule parse_duration_sound)


end
