(* ===== verification/Workflow_Template.thy ===== *)
theory Workflow_Template
  imports Workflow_Def
begin

text \<open>
  Templates and conditions of the workflow executor, the first half of
  \<open>crates/maju-workflow/src/executor.rs\<close>: the trigger context, the resolution of
  \<open>{{trigger.X}}\<close> and \<open>{{steps.ID.output.X}}\<close>, the filters, and the variables that a condition sees.

  Code of other packages is an argument: \<open>template_api\<close> holds the printer of \<open>serde_json\<close> and the key
  encoding of \<open>nostr\<close>, \<open>eval_api\<close> the context and evaluator of \<open>evalexpr\<close>. \<open>eval_api_ok\<close> states what
  \<open>evalexpr\<close> documents of its \<open>HashMapContext\<close>: reading returns what was last assigned, and a variable
  keeps the type of its first value. \<open>std_eval_api\<close> is an instance, used by witnesses.
\<close>

section \<open>Values\<close>

text \<open>A float is its 64 bits; \<open>PosInt\<close> and \<open>NegInt\<close> are the two integer forms of \<open>serde_json::Number\<close>.\<close>

datatype json_number = PosInt u64 | NegInt "64 word" | JFloat u64

datatype wf_json =
    JNull
  | JBool bool
  | JNumber json_number
  | JString wtext
  | JArray "wf_json list"
  | JObject "(wtext \<times> wf_json) list"

record trigger_context =
  tc_text :: wtext
  tc_author :: wtext
  tc_channel_id :: wtext
  tc_timestamp :: wtext
  tc_emoji :: wtext
  tc_message_id :: wtext
  tc_is_reply :: bool
  tc_webhook_fields :: "(wtext, wtext) hmap"

definition get_field :: "trigger_context \<Rightarrow> wtext \<Rightarrow> wtext option" where
  "get_field ctx name =
     (if name = lit ''text'' then Some (tc_text ctx)
      else if name = lit ''author'' then Some (tc_author ctx)
      else if name = lit ''channel_id'' then Some (tc_channel_id ctx)
      else if name = lit ''timestamp'' then Some (tc_timestamp ctx)
      else if name = lit ''emoji'' then Some (tc_emoji ctx)
      else if name = lit ''message_id'' then Some (tc_message_id ctx)
      else map_of (tc_webhook_fields ctx) name)"

type_synonym step_outputs = "(wtext, wf_json) hmap"

text \<open>\<open>ta_json_string\<close> is \<open>serde_json::Value::to_string\<close>, \<open>ta_pubkey_from_hex\<close> and \<open>ta_to_bech32\<close> are
  \<open>PublicKey::from_hex\<close> and \<open>to_bech32\<close>, \<open>None\<close> being their error.\<close>

record template_api =
  ta_json_string :: "wf_json \<Rightarrow> wtext"
  ta_pubkey_from_hex :: "wtext \<Rightarrow> bytes option"
  ta_to_bech32 :: "bytes \<Rightarrow> wtext option"

section \<open>Template resolution\<close>

definition json_to_string :: "template_api \<Rightarrow> wf_json \<Rightarrow> wtext" where
  "json_to_string api v =
     (case v of
        JString s \<Rightarrow> s
      | JBool b \<Rightarrow> lit (if b then ''true'' else ''false'')
      | JNumber n \<Rightarrow> ta_json_string api (JNumber n)
      | JNull \<Rightarrow> []
      | other \<Rightarrow> ta_json_string api other)"

definition json_get_str :: "template_api \<Rightarrow> wf_json \<Rightarrow> wtext \<Rightarrow> wtext option" where
  "json_get_str api value key =
     (case value of
        JObject m \<Rightarrow> map_option (json_to_string api) (map_of m key)
      | _ \<Rightarrow> None)"

text \<open>\<open>str::splitn(2, c)\<close>: the part before the first separator and the part after it, if there is one.\<close>

definition split_once :: "codepoint \<Rightarrow> wtext \<Rightarrow> wtext \<times> wtext option" where
  "split_once c s =
     (takeWhile (\<lambda>x. x \<noteq> c) s, if c \<in> set s then Some (tl (dropWhile (\<lambda>x. x \<noteq> c) s)) else None)"

definition resolve_variable :: "template_api \<Rightarrow> wtext \<Rightarrow> trigger_context \<Rightarrow> step_outputs \<Rightarrow> wtext option" where
  "resolve_variable api path ctx outs =
     (case strip_prefix (lit ''trigger.'') path of
        Some field \<Rightarrow> get_field ctx field
      | None \<Rightarrow>
          (case strip_prefix (lit ''steps.'') path of
             Some rest \<Rightarrow>
               (case split_once 46 rest of
                  (sid, None) \<Rightarrow> None
                | (sid, Some rest') \<Rightarrow>
                    (case split_once 46 rest' of
                       (middle, None) \<Rightarrow> None
                     | (middle, Some field) \<Rightarrow>
                         if middle \<noteq> lit ''output'' then None
                         else Option.bind (map_of outs sid) (\<lambda>output. json_get_str api output field)))
           | None \<Rightarrow> None))"

definition apply_filter :: "template_api \<Rightarrow> wtext \<Rightarrow> wtext \<Rightarrow> workflow_error + wtext" where
  "apply_filter api value filter0 =
     (let filter = str_trim filter0 in
      case Option.bind (strip_prefix (lit ''truncate('') filter) (strip_suffix (lit '')'')) of
        Some inner \<Rightarrow>
          (case parse_u64 (str_trim inner) of
             None \<Rightarrow> Inl (TemplateError (lit ''truncate() requires a number, got: '' @ inner))
           | Some n \<Rightarrow> Inr (take (unat n) value))
      | None \<Rightarrow>
          if filter = lit ''npub'' \<or> filter = lit ''truncate_pubkey'' then
            (case ta_pubkey_from_hex api value of
               Some pk \<Rightarrow> Inr (case ta_to_bech32 api pk of Some b \<Rightarrow> b | None \<Rightarrow> value)
             | None \<Rightarrow> Inr value)
          else Inl (TemplateError (lit ''unknown filter: '' @ filter)))"

text \<open>\<open>str::find\<close> of a pattern: the position of its first occurrence.\<close>

fun find_sub :: "'a list \<Rightarrow> 'a list \<Rightarrow> nat option" where
  "find_sub p [] = (if p = [] then Some 0 else None)"
| "find_sub p (c # s) = (if is_prefix p (c # s) then Some 0 else map_option Suc (find_sub p s))"

definition open_braces :: wtext where "open_braces = lit ''{{''"
definition close_braces :: wtext where "close_braces = lit ''}}''"

lemma find_sub_bound: "find_sub p s = Some i \<Longrightarrow> i + length p \<le> length s"
proof (induction p s arbitrary: i rule: find_sub.induct)
  case (2 p c s)
  then show ?case using is_prefix_iff [of p "c # s"] by (auto split: if_splits dest!: arg_cong [where f = length])
qed (auto split: if_splits)

text \<open>The body of one turn of the loop, from the braces' content to the text that it pushes.\<close>

definition render_hole ::
  "template_api \<Rightarrow> trigger_context \<Rightarrow> step_outputs \<Rightarrow> wtext \<Rightarrow> workflow_error + wtext" where
  "render_hole api ctx outs inner =
     (let expr = str_trim inner;
          parts = split_once 124 expr;
          var_path = str_trim (fst parts);
          filter = map_option str_trim (snd parts) in
      case (resolve_variable api var_path ctx outs, filter) of
        (Some v, Some f) \<Rightarrow> apply_filter api v f
      | (Some v, None) \<Rightarrow> Inr v
      | (None, _) \<Rightarrow> Inr (open_braces @ expr @ close_braces))"

function resolve_loop ::
  "template_api \<Rightarrow> trigger_context \<Rightarrow> step_outputs \<Rightarrow> wtext \<Rightarrow> wtext \<Rightarrow> workflow_error + wtext" where
  "resolve_loop api ctx outs result remaining =
     (case find_sub open_braces remaining of
        None \<Rightarrow> Inr (result @ remaining)
      | Some start \<Rightarrow>
          (let result' = result @ take start remaining; remaining' = drop (start + 2) remaining in
           case find_sub close_braces remaining' of
             None \<Rightarrow> Inr (result' @ open_braces @ remaining')
           | Some e \<Rightarrow>
               (case render_hole api ctx outs (take e remaining') of
                  Inl err \<Rightarrow> Inl err
                | Inr value \<Rightarrow> resolve_loop api ctx outs (result' @ value) (drop (e + 2) remaining'))))"
  by pat_completeness auto

termination
  by (relation "measure (\<lambda>(api, ctx, outs, result, remaining). length remaining)")
     (auto dest!: find_sub_bound simp: open_braces_def close_braces_def lit_def)

declare resolve_loop.simps [simp del]

definition resolve_template ::
  "template_api \<Rightarrow> wtext \<Rightarrow> trigger_context \<Rightarrow> step_outputs \<Rightarrow> workflow_error + wtext" where
  "resolve_template api template ctx outs =
     (if find_sub open_braces template = None then Inr template
      else resolve_loop api ctx outs [] template)"

text \<open>The templates of an action, in the order of the code; durations and methods are not templates.\<close>

definition resolve_opt ::
  "template_api \<Rightarrow> trigger_context \<Rightarrow> step_outputs \<Rightarrow> wtext option \<Rightarrow> workflow_error + wtext option" where
  "resolve_opt api ctx outs s =
     (case s of Some v \<Rightarrow> and_then (resolve_template api v ctx outs) (\<lambda>r. Inr (Some r)) | None \<Rightarrow> Inr None)"

fun resolve_headers ::
  "template_api \<Rightarrow> trigger_context \<Rightarrow> step_outputs \<Rightarrow> (wtext, wtext) hmap \<Rightarrow> (wtext, wtext) hmap
     \<Rightarrow> workflow_error + (wtext, wtext) hmap" where
  "resolve_headers api ctx outs out [] = Inr out"
| "resolve_headers api ctx outs out ((k, v) # h) =
     and_then (resolve_template api v ctx outs) (\<lambda>r. resolve_headers api ctx outs (AList.update k r out) h)"

fun resolve_step_templates ::
  "template_api \<Rightarrow> action_def \<Rightarrow> trigger_context \<Rightarrow> step_outputs \<Rightarrow> workflow_error + action_def" where
  "resolve_step_templates api (SendMessage t channel reply) ctx outs =
     and_then (resolve_template api t ctx outs) (\<lambda>t'.
     and_then (resolve_opt api ctx outs channel) (\<lambda>c'. Inr (SendMessage t' c' reply)))"
| "resolve_step_templates api (SendDm to t) ctx outs =
     and_then (resolve_template api to ctx outs) (\<lambda>to'.
     and_then (resolve_template api t ctx outs) (\<lambda>t'. Inr (SendDm to' t')))"
| "resolve_step_templates api (SetChannelTopic topic) ctx outs =
     and_then (resolve_template api topic ctx outs) (\<lambda>t'. Inr (SetChannelTopic t'))"
| "resolve_step_templates api (AddReaction emoji) ctx outs =
     and_then (resolve_template api emoji ctx outs) (\<lambda>e'. Inr (AddReaction e'))"
| "resolve_step_templates api (CallWebhook url mthd headers body) ctx outs =
     and_then (case headers of
                 Some h \<Rightarrow> and_then (resolve_headers api ctx outs [] h) (\<lambda>r. Inr (Some r))
               | None \<Rightarrow> Inr None) (\<lambda>h'.
     and_then (resolve_template api url ctx outs) (\<lambda>u'.
     and_then (resolve_opt api ctx outs body) (\<lambda>b'. Inr (CallWebhook u' mthd h' b'))))"
| "resolve_step_templates api (RequestApproval frm message timeout) ctx outs =
     and_then (resolve_template api frm ctx outs) (\<lambda>f'.
     and_then (resolve_template api message ctx outs) (\<lambda>m'. Inr (RequestApproval f' m' timeout)))"
| "resolve_step_templates api (Delay duration) ctx outs = Inr (Delay duration)"

section \<open>Conditions\<close>

datatype eval_value =
    EVString wtext
  | EVInt int
  | EVFloat json_number
  | EVBoolean bool
  | EVTuple "eval_value list"
  | EVEmpty

text \<open>The result of evaluating a condition on a blocking thread under a timeout.\<close>

datatype eval_outcome = EvTimedOut | EvPanicked wtext | EvFailed wtext | EvOk bool

record 'c eval_api =
  ev_new :: 'c
  ev_set_function :: "wtext \<Rightarrow> (eval_value \<Rightarrow> eval_value option) \<Rightarrow> 'c \<Rightarrow> wtext + 'c"
  ev_set_value :: "wtext \<Rightarrow> eval_value \<Rightarrow> 'c \<Rightarrow> wtext + 'c"
  ev_get_value :: "wtext \<Rightarrow> 'c \<Rightarrow> eval_value option"
  ev_eval_boolean :: "wtext \<Rightarrow> 'c \<Rightarrow> eval_outcome"

text \<open>The helper functions that conditions may call; \<open>None\<close> is an argument error of \<open>evalexpr\<close>.\<close>

fun on_two_strings :: "(wtext \<Rightarrow> wtext \<Rightarrow> bool) \<Rightarrow> eval_value \<Rightarrow> eval_value option" where
  "on_two_strings f (EVTuple [EVString s, EVString t]) = Some (EVBoolean (f s t))"
| "on_two_strings f _ = None"

definition str_contains :: "eval_value \<Rightarrow> eval_value option" where
  "str_contains = on_two_strings (\<lambda>haystack needle. find_sub needle haystack \<noteq> None)"

definition str_starts_with :: "eval_value \<Rightarrow> eval_value option" where
  "str_starts_with = on_two_strings (\<lambda>s prefix. is_prefix prefix s)"

definition str_ends_with :: "eval_value \<Rightarrow> eval_value option" where
  "str_ends_with = on_two_strings (\<lambda>s suffix. is_prefix (rev suffix) (rev s))"

definition str_len :: "eval_value \<Rightarrow> eval_value option" where
  "str_len v = (case v of EVString s \<Rightarrow> Some (EVInt (int (byte_len s))) | _ \<Rightarrow> None)"

text \<open>\<open>as_i64\<close> is defined for integers in its range; every other number becomes the nearest float.\<close>

definition json_value_to_eval :: "template_api \<Rightarrow> wf_json \<Rightarrow> eval_value" where
  "json_value_to_eval api v =
     (case v of
        JString s \<Rightarrow> EVString s
      | JBool b \<Rightarrow> EVBoolean b
      | JNumber (PosInt n) \<Rightarrow> if unat n < 2 ^ 63 then EVInt (uint n) else EVFloat (PosInt n)
      | JNumber (NegInt n) \<Rightarrow> EVInt (sint n)
      | JNumber (JFloat f) \<Rightarrow> EVFloat (JFloat f)
      | JNull \<Rightarrow> EVEmpty
      | other \<Rightarrow> EVString (ta_json_string api other))"

text \<open>The error of \<open>evalexpr\<close> becomes a \<open>ConditionError\<close>; assignments stop at the first error.\<close>

definition as_condition_error :: "wtext + 'a \<Rightarrow> workflow_error + 'a" where
  "as_condition_error r = (case r of Inl e \<Rightarrow> Inl (ConditionError e) | Inr x \<Rightarrow> Inr x)"

fun set_values :: "'c eval_api \<Rightarrow> (wtext \<times> eval_value) list \<Rightarrow> 'c \<Rightarrow> workflow_error + 'c" where
  "set_values ev [] ctx = Inr ctx"
| "set_values ev ((name, v) # vs) ctx =
     and_then (as_condition_error (ev_set_value ev name v ctx)) (set_values ev vs)"

lemma set_values_Nil: "set_values ev [] = Inr"
  by (rule ext) simp

fun set_functions ::
  "'c eval_api \<Rightarrow> (wtext \<times> (eval_value \<Rightarrow> eval_value option)) list \<Rightarrow> 'c \<Rightarrow> workflow_error + 'c" where
  "set_functions ev [] ctx = Inr ctx"
| "set_functions ev ((name, f) # fs) ctx =
     and_then (as_condition_error (ev_set_function ev name f ctx)) (set_functions ev fs)"

definition webhook_variables :: "trigger_context \<Rightarrow> (wtext \<times> eval_value) list" where
  "webhook_variables ctx =
     map (\<lambda>(key, val). (lit ''trigger_'' @ key, EVString val))
       (filter (\<lambda>(key, _). \<not> (is_prefix (lit ''trigger_'') key \<or> is_prefix (lit ''steps_'') key))
          (tc_webhook_fields ctx))"

definition trigger_variables :: "trigger_context \<Rightarrow> (wtext \<times> eval_value) list" where
  "trigger_variables ctx =
     [(lit ''trigger_text'', EVString (tc_text ctx)),
      (lit ''trigger_author'', EVString (tc_author ctx)),
      (lit ''trigger_channel_id'', EVString (tc_channel_id ctx)),
      (lit ''trigger_timestamp'', EVString (tc_timestamp ctx)),
      (lit ''trigger_emoji'', EVString (tc_emoji ctx)),
      (lit ''trigger_message_id'', EVString (tc_message_id ctx)),
      (lit ''trigger_is_reply'', EVBoolean (tc_is_reply ctx))]"

definition output_variable :: "wtext \<Rightarrow> wtext \<Rightarrow> wtext" where
  "output_variable sid field = lit ''steps_'' @ sid @ lit ''_output_'' @ field"

definition step_variables :: "template_api \<Rightarrow> step_outputs \<Rightarrow> (wtext \<times> eval_value) list" where
  "step_variables api outs =
     concat (map (\<lambda>(sid, output). case output of
         JObject m \<Rightarrow> map (\<lambda>(field, val). (output_variable sid field, json_value_to_eval api val)) m
       | _ \<Rightarrow> []) outs)"

definition build_eval_context ::
  "template_api \<Rightarrow> 'c eval_api \<Rightarrow> trigger_context \<Rightarrow> step_outputs \<Rightarrow> workflow_error + 'c" where
  "build_eval_context api ev ctx outs =
     and_then (set_functions ev
       [(lit ''str_contains'', str_contains), (lit ''str_starts_with'', str_starts_with),
        (lit ''str_ends_with'', str_ends_with), (lit ''str_len'', str_len)] (ev_new ev)) (\<lambda>c.
     and_then (set_values ev (webhook_variables ctx) c) (\<lambda>c.
     and_then (set_values ev (trigger_variables ctx) c)
       (set_values ev (step_variables api outs))))"

definition MAX_EXPR_LEN :: nat where "MAX_EXPR_LEN = 4096"

definition evaluate_condition ::
  "template_api \<Rightarrow> 'c eval_api \<Rightarrow> wtext \<Rightarrow> trigger_context \<Rightarrow> step_outputs \<Rightarrow> workflow_error + bool" where
  "evaluate_condition api ev expr ctx outs =
     and_then (build_eval_context api ev ctx outs) (\<lambda>c.
       if byte_len expr > MAX_EXPR_LEN then
         Inl (ConditionError (lit ''condition expression exceeds 4096 byte limit''))
       else
         let quoted = [39] @ expr @ [39] @ lit '': '' in
         case ev_eval_boolean ev expr c of
           EvTimedOut \<Rightarrow> Inl (ConditionError (quoted @ lit ''evaluation timed out after 100ms''))
         | EvPanicked e \<Rightarrow> Inl (ConditionError (quoted @ lit ''eval task panicked: '' @ e))
         | EvFailed e \<Rightarrow> Inl (ConditionError (quoted @ e))
         | EvOk b \<Rightarrow> Inr b)"

section \<open>Templates as segments\<close>

text \<open>What a template is made of, decided on the template alone: literal text and the contents of
  closed braces. An unclosed pair of braces is literal.\<close>

datatype segment = Literal wtext | Hole wtext

function template_segments :: "wtext \<Rightarrow> segment list" where
  "template_segments t =
     (case find_sub open_braces t of
        None \<Rightarrow> [Literal t]
      | Some i \<Rightarrow>
          (case find_sub close_braces (drop (i + 2) t) of
             None \<Rightarrow> [Literal t]
           | Some e \<Rightarrow>
               Literal (take i t) # Hole (take e (drop (i + 2) t))
                 # template_segments (drop (e + 2) (drop (i + 2) t))))"
  by pat_completeness auto

termination
  by (relation "measure length")
     (auto dest!: find_sub_bound simp: open_braces_def close_braces_def lit_def)

declare template_segments.simps [simp del]

fun segment_source :: "segment \<Rightarrow> wtext" where
  "segment_source (Literal l) = l"
| "segment_source (Hole h) = open_braces @ h @ close_braces"

fun render_segments ::
  "template_api \<Rightarrow> trigger_context \<Rightarrow> step_outputs \<Rightarrow> segment list \<Rightarrow> workflow_error + wtext" where
  "render_segments api ctx outs [] = Inr []"
| "render_segments api ctx outs (Literal l # segs) =
     and_then (render_segments api ctx outs segs) (\<lambda>r. Inr (l @ r))"
| "render_segments api ctx outs (Hole h # segs) =
     and_then (render_hole api ctx outs h) (\<lambda>v.
       and_then (render_segments api ctx outs segs) (\<lambda>r. Inr (v @ r)))"

lemma find_sub_split:
  "find_sub p s = Some i \<Longrightarrow> s = take i s @ p @ drop (i + length p) s"
proof (induction p s arbitrary: i rule: find_sub.induct)
  case (2 p c s)
  show ?case
  proof (cases "is_prefix p (c # s)")
    case True
    then show ?thesis using "2.prems" by (auto simp: is_prefix_iff)
  next
    case False
    then obtain j where "find_sub p s = Some j" "i = Suc j" using "2.prems" by auto
    then show ?thesis using "2.IH" [OF False] by simp
  qed
qed (auto split: if_splits)

lemma braces_length [simp]: "length open_braces = 2" "length close_braces = 2"
  by (simp_all add: open_braces_def close_braces_def lit_def)

lemma template_segments_source: "concat (map segment_source (template_segments t)) = t"
proof (induction t rule: template_segments.induct)
  case (1 t)
  show ?case
  proof (cases "find_sub open_braces t")
    case None
    then show ?thesis by (subst template_segments.simps) simp
  next
    case (Some i)
    let ?r = "drop (i + 2) t"
    have t: "t = take i t @ open_braces @ ?r" using find_sub_split [OF Some] by simp
    show ?thesis
    proof (cases "find_sub close_braces ?r")
      case None
      then show ?thesis using Some by (subst template_segments.simps) simp
    next
      case (Some e)
      have "?r = take e ?r @ close_braces @ drop (e + 2) ?r" using find_sub_split [OF Some] by simp
      moreover have "concat (map segment_source (template_segments (drop (e + 2) ?r))) = drop (e + 2) ?r"
        by (rule "1.IH" [OF \<open>find_sub open_braces t = Some i\<close> Some])
      ultimately show ?thesis
        using \<open>find_sub open_braces t = Some i\<close> Some t
        by (subst template_segments.simps) (simp del: drop_drop)
    qed
  qed
qed

lemma resolve_loop_segments:
  "resolve_loop api ctx outs result t =
     and_then (render_segments api ctx outs (template_segments t)) (\<lambda>r. Inr (result @ r))"
proof (induction api ctx outs result t rule: resolve_loop.induct)
  case (1 api ctx outs result t)
  show ?case
  proof (cases "find_sub open_braces t")
    case None
    then show ?thesis by (simp add: resolve_loop.simps template_segments.simps)
  next
    case (Some i)
    let ?r = "drop (i + 2) t"
    show ?thesis
    proof (cases "find_sub close_braces ?r")
      case None
      have "t = take i t @ open_braces @ ?r" using find_sub_split [OF Some] by simp
      then show ?thesis
        using Some None by (simp add: resolve_loop.simps template_segments.simps Let_def)
    next
      case (Some e)
      show ?thesis
      proof (cases "render_hole api ctx outs (take e ?r)")
        case (Inl err)
        then show ?thesis
          using \<open>find_sub open_braces t = Some i\<close> Some
          by (simp add: resolve_loop.simps [of api ctx outs result t] template_segments.simps [of t]
              Let_def del: drop_drop)
      next
        case (Inr v)
        note IH = "1.IH" [OF \<open>find_sub open_braces t = Some i\<close> refl refl Some Inr]
        show ?thesis
          using \<open>find_sub open_braces t = Some i\<close> Some Inr IH
          by (cases "render_segments api ctx outs (template_segments (drop (e + 2) ?r))")
             (simp_all add: resolve_loop.simps [of api ctx outs result t] template_segments.simps [of t]
              Let_def del: drop_drop)
      qed
    qed
  qed
qed

lemma resolve_template_segments:
  "resolve_template api t ctx outs = render_segments api ctx outs (template_segments t)"
proof (cases "find_sub open_braces t")
  case None
  then show ?thesis by (simp add: resolve_template_def template_segments.simps)
next
  case (Some i)
  then show ?thesis
    by (cases "render_segments api ctx outs (template_segments t)")
       (simp_all add: resolve_template_def resolve_loop_segments)
qed

section \<open>The variables of a condition\<close>

fun eval_type :: "eval_value \<Rightarrow> nat" where
  "eval_type (EVString _) = 0"
| "eval_type (EVInt _) = 1"
| "eval_type (EVFloat _) = 2"
| "eval_type (EVBoolean _) = 3"
| "eval_type (EVTuple _) = 4"
| "eval_type EVEmpty = 5"

text \<open>The documented behaviour of \<open>HashMapContext\<close>: a new context has no variable, functions and
  variables have separate names, a variable can be assigned a value of the type it has, and then has
  that value while the others keep theirs.\<close>

definition eval_api_ok :: "'c eval_api \<Rightarrow> bool" where
  "eval_api_ok ev \<longleftrightarrow>
     (\<forall>n. ev_get_value ev n (ev_new ev) = None)
     \<and> (\<forall>f g c. \<exists>c'. ev_set_function ev f g c = Inr c' \<and> (\<forall>n. ev_get_value ev n c' = ev_get_value ev n c))
     \<and> (\<forall>n v c. (\<exists>c'. ev_set_value ev n v c = Inr c') \<longleftrightarrow>
          (case ev_get_value ev n c of None \<Rightarrow> True | Some w \<Rightarrow> eval_type w = eval_type v))
     \<and> (\<forall>n v c c' m. ev_set_value ev n v c = Inr c' \<longrightarrow>
          ev_get_value ev m c' = (if m = n then Some v else ev_get_value ev m c))"

lemma as_condition_error_Inr [simp]: "as_condition_error r = Inr x \<longleftrightarrow> r = Inr x"
  by (simp add: as_condition_error_def split: sum.splits)

locale eval_context =
  fixes ev :: "'c eval_api"
  assumes ok: "eval_api_ok ev"
begin

lemma get_value_new: "ev_get_value ev n (ev_new ev) = None"
  using ok by (simp add: eval_api_ok_def)

lemma set_functions_total:
  "\<exists>c'. set_functions ev fs c = Inr c' \<and> (\<forall>n. ev_get_value ev n c' = ev_get_value ev n c)"
proof (induction fs arbitrary: c)
  case (Cons nf fs)
  obtain n f where nf: "nf = (n, f)" by (cases nf)
  obtain c1 where "ev_set_function ev n f c = Inr c1" "\<forall>n. ev_get_value ev n c1 = ev_get_value ev n c"
    using ok unfolding eval_api_ok_def by meson
  moreover obtain c2 where "set_functions ev fs c1 = Inr c2" "\<forall>n. ev_get_value ev n c2 = ev_get_value ev n c1"
    using Cons by blast
  ultimately show ?case by (simp add: nf as_condition_error_def)
qed simp

lemma set_values_get:
  "set_values ev vs c = Inr c' \<Longrightarrow>
     ev_get_value ev n c' = (case map_of (rev vs) n of Some v \<Rightarrow> Some v | None \<Rightarrow> ev_get_value ev n c)"
proof (induction vs arbitrary: c)
  case (Cons nv vs)
  obtain m v where nv: "nv = (m, v)" by (cases nv)
  obtain c1 where c1: "ev_set_value ev m v c = Inr c1" "set_values ev vs c1 = Inr c'"
    using Cons.prems by (auto simp: nv and_then_Inr)
  then have "ev_get_value ev n c1 = (if n = m then Some v else ev_get_value ev n c)"
    using ok unfolding eval_api_ok_def by meson
  then show ?case using Cons.IH [OF c1(2)] by (auto simp: nv map_add_def split: option.splits)
qed simp

lemma set_value_ok_iff:
  "(\<exists>c'. ev_set_value ev n v c = Inr c') \<longleftrightarrow>
     (case ev_get_value ev n c of None \<Rightarrow> True | Some w \<Rightarrow> eval_type w = eval_type v)"
  using ok unfolding eval_api_ok_def by meson

text \<open>Assignments of distinct names succeed when each agrees in type with what the context holds.\<close>

lemma set_values_total:
  assumes "distinct (map fst vs)"
    and "\<forall>(n, v) \<in> set vs. case ev_get_value ev n c of None \<Rightarrow> True | Some w \<Rightarrow> eval_type w = eval_type v"
  shows "\<exists>c'. set_values ev vs c = Inr c'"
  using assms
proof (induction vs arbitrary: c)
  case (Cons nv vs)
  obtain m v where nv: "nv = (m, v)" by (cases nv)
  obtain c1 where c1: "ev_set_value ev m v c = Inr c1"
    using Cons.prems(2) set_value_ok_iff [of m v c] by (auto simp: nv)
  then have get: "ev_get_value ev n c1 = (if n = m then Some v else ev_get_value ev n c)" for n
    using ok unfolding eval_api_ok_def by meson
  have "\<exists>c'. set_values ev vs c1 = Inr c'"
  proof (rule Cons.IH)
    show "\<forall>(n, w) \<in> set vs. case ev_get_value ev n c1 of None \<Rightarrow> True | Some u \<Rightarrow> eval_type u = eval_type w"
    proof (clarify)
      fix n w assume "(n, w) \<in> set vs"
      moreover from this have "n \<noteq> m" using Cons.prems(1) by (force simp: nv)
      ultimately show "case ev_get_value ev n c1 of None \<Rightarrow> True | Some u \<Rightarrow> eval_type u = eval_type w"
        using Cons.prems(2) by (auto simp: get)
    qed
  qed (use Cons.prems(1) in simp)
  then show ?case using c1 by (auto simp: nv as_condition_error_def)
qed simp

lemma set_values_append: "set_values ev (vs @ ws) c = and_then (set_values ev vs c) (set_values ev ws)"
proof (induction vs arbitrary: c)
  case (Cons nv vs)
  then have "set_values ev (vs @ ws) = (\<lambda>c. and_then (set_values ev vs c) (set_values ev ws))" by blast
  then show ?case by (cases nv) (simp add: and_then_assoc)
qed simp

lemma trigger_is_reply_type:
  assumes "set_values ev (trigger_variables ctx) c = Inr c'"
    and "ev_get_value ev (lit ''trigger_is_reply'') c = Some w"
  shows "eval_type w = eval_type (EVBoolean (tc_is_reply ctx))"
proof -
  let ?r = "lit ''trigger_is_reply''" and ?vs = "butlast (trigger_variables ctx)"
  have "trigger_variables ctx = ?vs @ [(?r, EVBoolean (tc_is_reply ctx))]" by (simp add: trigger_variables_def)
  then have "and_then (set_values ev ?vs c) (set_values ev [(?r, EVBoolean (tc_is_reply ctx))]) = Inr c'"
    using assms(1) set_values_append by metis
  then obtain c2 where c2: "set_values ev ?vs c = Inr c2"
      "ev_set_value ev ?r (EVBoolean (tc_is_reply ctx)) c2 = Inr c'"
    by (auto simp: and_then_Inr)
  have "map_of (rev ?vs) ?r = None" by (simp add: trigger_variables_def lit_def)
  then have "ev_get_value ev ?r c2 = Some w" using set_values_get [OF c2(1), of ?r] assms(2) by simp
  then show ?thesis using set_value_ok_iff [of ?r "EVBoolean (tc_is_reply ctx)" c2] c2(2) by auto
qed

lemma build_eval_context_steps:
  "\<exists>c0. (\<forall>n. ev_get_value ev n c0 = None) \<and>
     build_eval_context api ev ctx outs =
       and_then (set_values ev (webhook_variables ctx) c0) (\<lambda>c.
       and_then (set_values ev (trigger_variables ctx) c) (set_values ev (step_variables api outs)))"
  using set_functions_total [of "[(lit ''str_contains'', str_contains), (lit ''str_starts_with'', str_starts_with),
        (lit ''str_ends_with'', str_ends_with), (lit ''str_len'', str_len)]" "ev_new ev"]
  by (auto simp: build_eval_context_def get_value_new)

end

lemma trigger_variable_names:
  "map fst (trigger_variables ctx) = map lit [''trigger_text'', ''trigger_author'', ''trigger_channel_id'',
     ''trigger_timestamp'', ''trigger_emoji'', ''trigger_message_id'', ''trigger_is_reply'']"
  by (simp add: trigger_variables_def)

lemma distinct_trigger_variables: "distinct (map fst (trigger_variables ctx))"
  unfolding trigger_variable_names by (simp add: lit_def)

lemma lit_append: "lit (a @ b) = lit a @ lit b"
  by (simp add: lit_def)

lemma step_variable_name: "(n, v) \<in> set (step_variables api outs) \<Longrightarrow> hd n = 115"
  by (auto simp: step_variables_def output_variable_def lit_def split: wf_json.splits)

lemma trigger_variable_name: "(n, v) \<in> set (trigger_variables ctx) \<Longrightarrow> hd n = 116"
  by (auto simp: trigger_variables_def lit_def)

lemma distinct_webhook_variables:
  assumes "hm_wf (tc_webhook_fields ctx)"
  shows "distinct (map fst (webhook_variables ctx))"
proof -
  have "map fst (webhook_variables ctx) = map (\<lambda>k. lit ''trigger_'' @ k)
      (map fst (filter (\<lambda>(key, _). \<not> (is_prefix (lit ''trigger_'') key \<or> is_prefix (lit ''steps_'') key))
        (tc_webhook_fields ctx)))"
    by (simp add: webhook_variables_def comp_def case_prod_unfold)
  then show ?thesis using assms by (simp add: distinct_map inj_on_def distinct_map_filter)
qed

definition std_eval_api :: "((wtext \<times> eval_value) list) eval_api" where
  "std_eval_api =
     \<lparr>ev_new = [],
      ev_set_function = (\<lambda>_ _ c. Inr c),
      ev_set_value = (\<lambda>n v c. case map_of c n of
          None \<Rightarrow> Inr ((n, v) # c)
        | Some w \<Rightarrow> if eval_type w = eval_type v then Inr ((n, v) # c) else Inl (lit ''expected type'')),
      ev_get_value = (\<lambda>n c. map_of c n),
      ev_eval_boolean = (\<lambda>_ _. EvOk True)\<rparr>"

lemma std_eval_api_ok: "eval_api_ok std_eval_api"
  unfolding eval_api_ok_def std_eval_api_def by (auto split: option.splits if_splits)

interpretation std_ev: eval_context std_eval_api
  by unfold_locales (rule std_eval_api_ok)

lemma build_eval_context_iff:
  assumes "eval_api_ok ev" and "hm_wf (tc_webhook_fields ctx)"
  shows "(\<exists>c. build_eval_context api ev ctx [] = Inr c)
    \<longleftrightarrow> lit ''is_reply'' \<notin> set (map fst (tc_webhook_fields ctx))" (is "?built \<longleftrightarrow> ?free")
proof -
  note ec = eval_context.intro [OF assms(1)]
  let ?r = "lit ''trigger_is_reply''" and ?w = "webhook_variables ctx"
  obtain c0 where c0: "\<forall>n. ev_get_value ev n c0 = None"
    "build_eval_context api ev ctx [] =
       and_then (set_values ev ?w c0) (\<lambda>c. set_values ev (trigger_variables ctx) c)"
    using eval_context.build_eval_context_steps [OF ec, of api ctx "[]"]
    by (auto simp: step_variables_def set_values_Nil)
  obtain c1 where c1: "set_values ev ?w c0 = Inr c1"
    using eval_context.set_values_total [OF ec distinct_webhook_variables [OF assms(2)], of c0] c0(1) by auto
  have get1: "ev_get_value ev n c1 = map_of (rev ?w) n" for n
    using eval_context.set_values_get [OF ec c1, of n] c0(1) by (simp split: option.splits)
  have strings: "eval_type v = 0" if "map_of (rev ?w) n = Some v" for n v
    using map_of_SomeD [OF that] by (auto simp: webhook_variables_def)
  then have agree: "case map_of (rev ?w) n of None \<Rightarrow> True | Some v \<Rightarrow> eval_type v = 0" for n
    by (simp split: option.split)
  have free: "?free \<longleftrightarrow> ev_get_value ev ?r c1 = None"
    unfolding get1 map_of_eq_None_iff by (auto simp: webhook_variables_def lit_def image_iff)
  have built: "?built \<longleftrightarrow> (\<exists>c. set_values ev (trigger_variables ctx) c1 = Inr c)"
    by (simp add: c0(2) c1)
  show ?thesis
  proof
    assume ?free
    then have "\<exists>c. set_values ev (trigger_variables ctx) c1 = Inr c"
      using agree free
      by (intro eval_context.set_values_total [OF ec distinct_trigger_variables])
         (simp add: get1 trigger_variables_def cong: option.case_cong)
    then show ?built using built by simp
  next
    assume ?built
    then obtain c where c: "set_values ev (trigger_variables ctx) c1 = Inr c" using built by blast
    show ?free
    proof (rule ccontr)
      assume "\<not> ?free"
      then obtain w where "ev_get_value ev ?r c1 = Some w" using free by auto
      then show False
        using eval_context.trigger_is_reply_type [OF ec c] strings [of ?r w] by (simp add: get1)
    qed
  qed
qed

definition sample_template_api :: template_api where
  "sample_template_api = \<lparr>ta_json_string = (\<lambda>_. []), ta_pubkey_from_hex = (\<lambda>_. None), ta_to_bech32 = (\<lambda>_. None)\<rparr>"

definition sample_webhook :: "(wtext, wtext) hmap \<Rightarrow> trigger_context" where
  "sample_webhook body =
     \<lparr>tc_text = lit ''hi'', tc_author = lit ''alice'', tc_channel_id = [], tc_timestamp = lit ''1'',
      tc_emoji = [], tc_message_id = lit ''m'', tc_is_reply = False, tc_webhook_fields = body\<rparr>"

section \<open>Properties\<close>

text \<open>Template resolution is a single pass: which parts of a template are placeholders is decided by
  the template alone, the result is the literal parts and the values of the placeholders in order, and
  an inserted value is never scanned again, so that a message that contains braces cannot make the
  executor expand a variable. The parts, put together again, are the template.\<close>

theorem resolve_template_single_pass:
  "resolve_template api t ctx outs = render_segments api ctx outs (template_segments t)
   \<and> concat (map segment_source (template_segments t)) = t"
  by (simp add: resolve_template_segments template_segments_source)



text \<open>A webhook body with a field named \<open>is_reply\<close> disables every condition of the workflow: the
  context cannot be built, because the string assigned first fixes the type of a variable that the
  executor then assigns a boolean. It is the only field name with that effect.\<close>

theorem webhook_is_reply_breaks_conditions:
  assumes "eval_api_ok ev" and "hm_wf (tc_webhook_fields ctx)"
  shows "(\<exists>c. build_eval_context api ev ctx [] = Inr c)
    \<longleftrightarrow> lit ''is_reply'' \<notin> set (map fst (tc_webhook_fields ctx))"
  by (rule build_eval_context_iff [OF assms])

theorem webhook_is_reply_breaks_conditions_witness:
  "\<not> (\<exists>c. build_eval_context sample_template_api std_eval_api
         (sample_webhook [(lit ''is_reply'', lit ''x'')]) [] = Inr c)"
  using webhook_is_reply_breaks_conditions [OF std_eval_api_ok, of "sample_webhook [(lit ''is_reply'', lit ''x'')]"]
  by (simp add: sample_webhook_def)

text \<open>The fields that the actions of the executor put into a step's output.\<close>

definition OUTPUT_FIELDS :: "wtext list" where
  "OUTPUT_FIELDS = map lit [''sent'', ''event_id'', ''added'', ''status'', ''response'', ''body'', ''slept_secs'']"

text \<open>The variables of two step outputs never have the same name: for any two step ids and any two
  fields that actions produce, equal variable names mean the same step and the same field, so that no
  step can shadow the output of another in a condition.\<close>

theorem output_variables_distinct:
  assumes "f \<in> set OUTPUT_FIELDS" and "g \<in> set OUTPUT_FIELDS"
  shows "output_variable i f = output_variable j g \<longleftrightarrow> i = j \<and> f = g"
proof -
  have "f = g" if "i @ lit ''_output_'' @ f = j @ lit ''_output_'' @ g"
  proof -
    have "rev (i @ lit ''_output_'' @ f) = rev (j @ lit ''_output_'' @ g)" using that by simp
    then show ?thesis using assms by (auto simp: OUTPUT_FIELDS_def lit_def)
  qed
  then show ?thesis unfolding output_variable_def by auto
qed

theorem output_variables_distinct_witness:
  "output_variable (lit ''a'') (lit ''body'') \<noteq> output_variable (lit ''a_output_status'') (lit ''body'')"
  using output_variables_distinct [of "lit ''body''" "lit ''body''" "lit ''a''" "lit ''a_output_status''"]
  by (simp add: OUTPUT_FIELDS_def) (simp add: lit_def)

end
