(* ===== verification/Network.thy ===== *)
theory Network
  imports Maju_Prelude
begin

text \<open>
  The address filter against server-side request forgery, \<open>crates/maju-core/src/network.rs\<close>
  (\<open>embedded_ipv4\<close>, \<open>is_not_global_unicast\<close>, \<open>is_private_ip\<close>), with the methods of
  \<open>std::net::Ipv4Addr\<close> and \<open>Ipv6Addr\<close> that it calls. An IPv4 address is its four octets, an IPv6
  address its eight 16-bit segments.

  The specification is a table of CIDR blocks over the address read as one number; the lemmas show
  that the octet and segment tests of the code compute membership in that table, and that the four
  ways to embed an IPv4 address in IPv6 do not get around the IPv4 table.
\<close>

unbundle bit_operations_syntax

section \<open>Addresses\<close>

datatype ipv4_addr = Ipv4 u8 u8 u8 u8

datatype ipv6_addr = Ipv6 u16 u16 u16 u16 u16 u16 u16 u16

datatype ip_addr = V4 ipv4_addr | V6 ipv6_addr

fun v4_octets :: "ipv4_addr \<Rightarrow> u8 list" where
  "v4_octets (Ipv4 a b c d) = [a, b, c, d]"

fun segments :: "ipv6_addr \<Rightarrow> u16 list" where
  "segments (Ipv6 a b c d e f g h) = [a, b, c, d, e, f, g, h]"

definition segment_octets :: "u16 \<Rightarrow> u8 list" where
  "segment_octets s = [ucast (drop_bit 8 s), ucast s]"

definition v6_octets :: "ipv6_addr \<Rightarrow> u8 list" where
  "v6_octets v6 = concat (map segment_octets (segments v6))"

text \<open>The methods of the standard library.\<close>

fun v4_is_loopback :: "ipv4_addr \<Rightarrow> bool" where
  "v4_is_loopback (Ipv4 a b c d) \<longleftrightarrow> a = 127"

fun v4_is_private :: "ipv4_addr \<Rightarrow> bool" where
  "v4_is_private (Ipv4 a b c d) \<longleftrightarrow>
     a = 10 \<or> (a = 172 \<and> 16 \<le> b \<and> b \<le> 31) \<or> (a = 192 \<and> b = 168)"

fun v4_is_link_local :: "ipv4_addr \<Rightarrow> bool" where
  "v4_is_link_local (Ipv4 a b c d) \<longleftrightarrow> a = 169 \<and> b = 254"

fun v4_is_broadcast :: "ipv4_addr \<Rightarrow> bool" where
  "v4_is_broadcast (Ipv4 a b c d) \<longleftrightarrow> a = 255 \<and> b = 255 \<and> c = 255 \<and> d = 255"

fun to_ipv4 :: "ipv6_addr \<Rightarrow> ipv4_addr option" where
  "to_ipv4 (Ipv6 a b c d e f g h) =
     (if a = 0 \<and> b = 0 \<and> c = 0 \<and> d = 0 \<and> e = 0 \<and> (f = 0 \<or> f = 0xffff) then
        Some (Ipv4 (ucast (drop_bit 8 g)) (ucast g) (ucast (drop_bit 8 h)) (ucast h))
      else None)"

fun v6_is_loopback :: "ipv6_addr \<Rightarrow> bool" where
  "v6_is_loopback (Ipv6 a b c d e f g h) \<longleftrightarrow>
     a = 0 \<and> b = 0 \<and> c = 0 \<and> d = 0 \<and> e = 0 \<and> f = 0 \<and> g = 0 \<and> h = 1"

fun v6_is_unspecified :: "ipv6_addr \<Rightarrow> bool" where
  "v6_is_unspecified (Ipv6 a b c d e f g h) \<longleftrightarrow>
     a = 0 \<and> b = 0 \<and> c = 0 \<and> d = 0 \<and> e = 0 \<and> f = 0 \<and> g = 0 \<and> h = 0"

section \<open>The filter\<close>

definition NAT64_WELL_KNOWN_PREFIX :: "u8 list" where
  "NAT64_WELL_KNOWN_PREFIX = [0x00, 0x64, 0xff, 0x9b, 0, 0, 0, 0, 0, 0, 0, 0]"

definition IPV4_TRANSLATED_PREFIX :: "u8 list" where
  "IPV4_TRANSLATED_PREFIX = [0, 0, 0, 0, 0, 0, 0, 0, 0xff, 0xff, 0, 0]"

definition embedded_ipv4 :: "ipv6_addr \<Rightarrow> u8 list \<Rightarrow> ipv4_addr option" where
  "embedded_ipv4 v6 prefix =
     (let octets = v6_octets v6 in
      if is_prefix prefix octets
      then Some (Ipv4 (octets ! 12) (octets ! 13) (octets ! 14) (octets ! 15))
      else None)"

definition not_global_v4 :: "ipv4_addr \<Rightarrow> bool" where
  "not_global_v4 v4 =
     (let o' = v4_octets v4 in
      v4_is_loopback v4
      \<or> v4_is_private v4
      \<or> v4_is_link_local v4
      \<or> o' ! 0 = 0
      \<or> v4_is_broadcast v4
      \<or> (o' ! 0 = 100 \<and> (o' ! 1 AND 0xC0) = 64)
      \<or> (o' ! 0 = 198 \<and> (o' ! 1 AND 0xFE) = 18)
      \<or> (o' ! 0 AND 0xF0) = 0xE0
      \<or> (o' ! 0 AND 0xF0) = 0xF0
      \<or> (o' ! 0 = 192 \<and> o' ! 1 = 0 \<and> o' ! 2 = 0 \<and> o' ! 3 \<noteq> 9 \<and> o' ! 3 \<noteq> 10)
      \<or> (o' ! 0 = 192 \<and> o' ! 1 = 0 \<and> o' ! 2 = 2)
      \<or> (o' ! 0 = 192 \<and> o' ! 1 = 88 \<and> o' ! 2 = 99)
      \<or> (o' ! 0 = 198 \<and> o' ! 1 = 51 \<and> o' ! 2 = 100)
      \<or> (o' ! 0 = 203 \<and> o' ! 1 = 0 \<and> o' ! 2 = 113))"

definition is_global_exception :: "u16 list \<Rightarrow> bool" where
  "is_global_exception s \<longleftrightarrow>
     (s ! 1 = 1 \<and> s ! 2 = 0 \<and> s ! 3 = 0 \<and> s ! 4 = 0 \<and> s ! 5 = 0 \<and> s ! 6 = 0
        \<and> 1 \<le> s ! 7 \<and> s ! 7 \<le> 3)
     \<or> s ! 1 = 3
     \<or> (s ! 1 = 4 \<and> s ! 2 = 0x0112)
     \<or> drop_bit 4 (s ! 1) = 0x0002
     \<or> drop_bit 4 (s ! 1) = 0x0003"

text \<open>The code calls itself on an embedded IPv4 address; that call takes the IPv4 branch.\<close>

definition not_global_v6 :: "ipv6_addr \<Rightarrow> bool" where
  "not_global_v6 v6 =
     (case to_ipv4 v6 of
        Some v4 \<Rightarrow> not_global_v4 v4
      | None \<Rightarrow>
          (let s = segments v6 in
           case embedded_ipv4 v6 NAT64_WELL_KNOWN_PREFIX of
             Some v4 \<Rightarrow> not_global_v4 v4
           | None \<Rightarrow>
               (case embedded_ipv4 v6 IPV4_TRANSLATED_PREFIX of
                  Some v4 \<Rightarrow> not_global_v4 v4
                | None \<Rightarrow>
                    if v6_is_loopback v6 \<or> v6_is_unspecified v6 then True
                    else if s ! 0 = 0x2001 \<and> drop_bit 9 (s ! 1) = 0 \<and> \<not> is_global_exception s then True
                    else
                      (s ! 0 AND 0xfe00) = 0xfc00
                      \<or> (s ! 0 AND 0xffc0) = 0xfe80
                      \<or> (s ! 0 AND 0xffc0) = 0xfec0
                      \<or> (s ! 0 AND 0xff00) = 0xff00
                      \<or> (s ! 0 = 0x0064 \<and> s ! 1 = 0xff9b \<and> s ! 2 = 1)
                      \<or> (s ! 0 = 0x0100 \<and> s ! 1 = 0 \<and> s ! 2 = 0 \<and> s ! 3 = 0)
                      \<or> (s ! 0 = 0x0100 \<and> s ! 1 = 0 \<and> s ! 2 = 0 \<and> s ! 3 = 1)
                      \<or> (s ! 0 = 0x2001 \<and> s ! 1 = 0x0db8)
                      \<or> s ! 0 = 0x2002
                      \<or> (s ! 0 = 0x3fff \<and> drop_bit 12 (s ! 1) = 0)
                      \<or> s ! 0 = 0x5f00)))"

definition is_not_global_unicast :: "ip_addr \<Rightarrow> bool" where
  "is_not_global_unicast ip = (case ip of V4 v4 \<Rightarrow> not_global_v4 v4 | V6 v6 \<Rightarrow> not_global_v6 v6)"

definition is_private_ip :: "ip_addr \<Rightarrow> bool" where
  "is_private_ip ip = is_not_global_unicast ip"

section \<open>The registry as CIDR blocks\<close>

text \<open>An address as a number, most significant part first, and a block as a prefix of a length.\<close>

definition number_of_parts :: "nat \<Rightarrow> nat list \<Rightarrow> nat" where
  "number_of_parts width parts = foldl (\<lambda>n p. n * 2 ^ width + p) 0 parts"

definition in_block :: "nat \<Rightarrow> nat \<Rightarrow> nat \<times> nat \<Rightarrow> bool" where
  "in_block width addr block \<longleftrightarrow>
     addr div 2 ^ (width - snd block) = fst block div 2 ^ (width - snd block)"

definition v4_number :: "ipv4_addr \<Rightarrow> nat" where
  "v4_number v4 = number_of_parts 8 (map unat (v4_octets v4))"

definition v6_number :: "ipv6_addr \<Rightarrow> nat" where
  "v6_number v6 = number_of_parts 16 (map unat (segments v6))"

definition denied_v4 :: "(nat \<times> nat) list" where
  "denied_v4 = map (\<lambda>(p, l). (number_of_parts 8 p, l))
     [([0, 0, 0, 0], 8), ([10, 0, 0, 0], 8), ([100, 64, 0, 0], 10), ([127, 0, 0, 0], 8),
      ([169, 254, 0, 0], 16), ([172, 16, 0, 0], 12), ([192, 0, 0, 0], 24), ([192, 0, 2, 0], 24),
      ([192, 88, 99, 0], 24), ([192, 168, 0, 0], 16), ([198, 18, 0, 0], 15), ([198, 51, 100, 0], 24),
      ([203, 0, 113, 0], 24), ([224, 0, 0, 0], 4), ([240, 0, 0, 0], 4)]"

definition global_v4 :: "(nat \<times> nat) list" where
  "global_v4 = map (\<lambda>(p, l). (number_of_parts 8 p, l)) [([192, 0, 0, 9], 32), ([192, 0, 0, 10], 32)]"

definition denied_v6 :: "(nat \<times> nat) list" where
  "denied_v6 = map (\<lambda>(p, l). (number_of_parts 16 p, l))
     [([0x64, 0xff9b, 1, 0, 0, 0, 0, 0], 48), ([0x100, 0, 0, 0, 0, 0, 0, 0], 64),
      ([0x100, 0, 0, 1, 0, 0, 0, 0], 64), ([0x2001, 0, 0, 0, 0, 0, 0, 0], 23),
      ([0x2001, 0xdb8, 0, 0, 0, 0, 0, 0], 32), ([0x2002, 0, 0, 0, 0, 0, 0, 0], 16),
      ([0x3fff, 0, 0, 0, 0, 0, 0, 0], 20), ([0x5f00, 0, 0, 0, 0, 0, 0, 0], 16),
      ([0xfc00, 0, 0, 0, 0, 0, 0, 0], 7), ([0xfe80, 0, 0, 0, 0, 0, 0, 0], 10),
      ([0xfec0, 0, 0, 0, 0, 0, 0, 0], 10), ([0xff00, 0, 0, 0, 0, 0, 0, 0], 8)]"

definition global_v6 :: "(nat \<times> nat) list" where
  "global_v6 = map (\<lambda>(p, l). (number_of_parts 16 p, l))
     [([0x2001, 1, 0, 0, 0, 0, 0, 1], 128), ([0x2001, 1, 0, 0, 0, 0, 0, 2], 128),
      ([0x2001, 1, 0, 0, 0, 0, 0, 3], 128), ([0x2001, 3, 0, 0, 0, 0, 0, 0], 32),
      ([0x2001, 4, 0x112, 0, 0, 0, 0, 0], 48), ([0x2001, 0x20, 0, 0, 0, 0, 0, 0], 28),
      ([0x2001, 0x30, 0, 0, 0, 0, 0, 0], 28)]"

definition embedding_v6 :: "(nat \<times> nat) list" where
  "embedding_v6 = map (\<lambda>(p, l). (number_of_parts 16 p, l))
     [([0, 0, 0, 0, 0, 0, 0, 0], 96), ([0, 0, 0, 0, 0, 0xffff, 0, 0], 96),
      ([0x64, 0xff9b, 0, 0, 0, 0, 0, 0], 96), ([0, 0, 0, 0, 0xffff, 0, 0, 0], 96)]"

definition listed :: "nat \<Rightarrow> nat \<Rightarrow> (nat \<times> nat) list \<Rightarrow> bool" where
  "listed width addr blocks = list_ex (in_block width addr) blocks"

definition denied_number_v4 :: "nat \<Rightarrow> bool" where
  "denied_number_v4 n \<longleftrightarrow> listed 32 n denied_v4 \<and> \<not> listed 32 n global_v4"

section \<open>Tests on octets and segments as division\<close>

lemma and_high_bits:
  fixes x :: "'a::len word"
  assumes "k \<le> LENGTH('a)"
  shows "(x AND push_bit k (mask (LENGTH('a) - k))) = push_bit k (drop_bit k x)"
  by (rule bit_word_eqI) (use assms in \<open>auto simp: bit_simps\<close>)

lemma unat_and_high_bits:
  fixes x :: "'a::len word"
  assumes "k \<le> LENGTH('a)"
  shows "unat (x AND push_bit k (mask (LENGTH('a) - k))) = unat x div 2 ^ k * 2 ^ k"
proof -
  have le: "unat x div 2 ^ k * 2 ^ k \<le> unat x" by simp
  have "unat x div 2 ^ k * 2 ^ k < 2 ^ LENGTH('a)" using le unsigned_less [of x] by (rule le_less_trans)
  then show ?thesis
    unfolding and_high_bits [OF assms] unsigned_push_bit_eq unat_drop_bit_eq
    by (simp add: push_bit_eq_mult drop_bit_eq_div take_bit_nat_eq_self)
qed

lemma and_high_eq:
  fixes x c :: "'a::len word"
  assumes "k \<le> LENGTH('a)" and "unat c = d * 2 ^ k"
  shows "(x AND push_bit k (mask (LENGTH('a) - k))) = c \<longleftrightarrow> unat x div 2 ^ k = d"
  using unat_and_high_bits [OF assms(1), of x] assms(2) by (auto simp: word_unat_eq_iff)

lemma octet_tests:
  fixes x :: u8
  shows "(x AND 0xC0) = 64 \<longleftrightarrow> unat x div 64 = 1" "(x AND 0xFE) = 18 \<longleftrightarrow> unat x div 2 = 9"
    "(x AND 0xF0) = 0xE0 \<longleftrightarrow> unat x div 16 = 14" "(x AND 0xF0) = 0xF0 \<longleftrightarrow> unat x div 16 = 15"
  using and_high_eq [of 6 "64::u8" 1 x] and_high_eq [of 1 "18::u8" 9 x] and_high_eq [of 4 "0xE0::u8" 14 x]
    and_high_eq [of 4 "0xF0::u8" 15 x]
  by (simp_all add: mask_eq_exp_minus_1 push_bit_eq_mult)

lemma segment_tests:
  fixes x :: u16
  shows "(x AND 0xfe00) = 0xfc00 \<longleftrightarrow> unat x div 512 = 126"
    "(x AND 0xffc0) = 0xfe80 \<longleftrightarrow> unat x div 64 = 1018"
    "(x AND 0xffc0) = 0xfec0 \<longleftrightarrow> unat x div 64 = 1019"
    "(x AND 0xff00) = 0xff00 \<longleftrightarrow> unat x div 256 = 255"
  using and_high_eq [of 9 "0xfc00::u16" 126 x] and_high_eq [of 6 "0xfe80::u16" 1018 x]
    and_high_eq [of 6 "0xfec0::u16" 1019 x] and_high_eq [of 8 "0xff00::u16" 255 x]
  by (simp_all add: mask_eq_exp_minus_1 push_bit_eq_mult)

lemma drop_bit_segment:
  fixes x c :: u16
  shows "drop_bit k x = c \<longleftrightarrow> unat x div 2 ^ k = unat c"
  unfolding word_unat_eq_iff unat_drop_bit_eq by (simp only: drop_bit_eq_div)

lemma octet_less: "unat (x :: u8) < 256"
  using unsigned_less [of x] by simp

lemma segment_less: "unat (x :: u16) < 65536"
  using unsigned_less [of x] by simp

section \<open>Blocks as tests on the leading parts\<close>

lemma horner_peel: "y < n \<Longrightarrow> (x * n + y) div (n * m) = x div (m::nat)"
  by (simp add: div_mult2_eq)

lemma horner_part: "0 < m \<Longrightarrow> (x * (r * m) + y) div m = x * r + y div (m::nat)"
  by (metis div_mult_self3 mult.assoc neq0_conv)

lemma number_of_parts_4: "number_of_parts 8 [a, b, c, d] = ((a * 256 + b) * 256 + c) * 256 + d"
  by (simp add: number_of_parts_def)

lemma v4_div:
  assumes "a < 256" "b < 256" "c < 256" "d < 256"
  shows "number_of_parts 8 [a, b, c, d] div (256 * (256 * (256 * m))) = a div m"
    "number_of_parts 8 [a, b, c, d] div (256 * (256 * m)) = (a * 256 + b) div m"
    "number_of_parts 8 [a, b, c, d] div (256 * m) = ((a * 256 + b) * 256 + c) div m"
  unfolding number_of_parts_4 by (simp_all only: horner_peel assms)

lemma in_block_v4:
  assumes "a < 256" "b < 256" "c < 256" "d < 256"
  shows "in_block 32 (number_of_parts 8 [a, b, c, d]) (p, 4) \<longleftrightarrow> a div 16 = p div 268435456"
    "in_block 32 (number_of_parts 8 [a, b, c, d]) (p, 8) \<longleftrightarrow> a = p div 16777216"
    "in_block 32 (number_of_parts 8 [a, b, c, d]) (p, 10) \<longleftrightarrow> a * 4 + b div 64 = p div 4194304"
    "in_block 32 (number_of_parts 8 [a, b, c, d]) (p, 12) \<longleftrightarrow> a * 16 + b div 16 = p div 1048576"
    "in_block 32 (number_of_parts 8 [a, b, c, d]) (p, 15) \<longleftrightarrow> a * 128 + b div 2 = p div 131072"
    "in_block 32 (number_of_parts 8 [a, b, c, d]) (p, 16) \<longleftrightarrow> a * 256 + b = p div 65536"
    "in_block 32 (number_of_parts 8 [a, b, c, d]) (p, 24) \<longleftrightarrow> (a * 256 + b) * 256 + c = p div 256"
    "in_block 32 (number_of_parts 8 [a, b, c, d]) (p, 32) \<longleftrightarrow> number_of_parts 8 [a, b, c, d] = p"
proof -
  note peel = v4_div [OF assms]
  show "in_block 32 (number_of_parts 8 [a, b, c, d]) (p, 4) \<longleftrightarrow> a div 16 = p div 268435456"
    using peel(1) [of 16] by (simp add: in_block_def)
  show "in_block 32 (number_of_parts 8 [a, b, c, d]) (p, 8) \<longleftrightarrow> a = p div 16777216"
    using peel(1) [of 1] by (simp add: in_block_def)
  show "in_block 32 (number_of_parts 8 [a, b, c, d]) (p, 10) \<longleftrightarrow> a * 4 + b div 64 = p div 4194304"
    using peel(2) [of 64] horner_part [of 64 a 4 b] by (simp add: in_block_def)
  show "in_block 32 (number_of_parts 8 [a, b, c, d]) (p, 12) \<longleftrightarrow> a * 16 + b div 16 = p div 1048576"
    using peel(2) [of 16] horner_part [of 16 a 16 b] by (simp add: in_block_def)
  show "in_block 32 (number_of_parts 8 [a, b, c, d]) (p, 15) \<longleftrightarrow> a * 128 + b div 2 = p div 131072"
    using peel(2) [of 2] horner_part [of 2 a 128 b] by (simp add: in_block_def)
  show "in_block 32 (number_of_parts 8 [a, b, c, d]) (p, 16) \<longleftrightarrow> a * 256 + b = p div 65536"
    using peel(2) [of 1] by (simp add: in_block_def)
  show "in_block 32 (number_of_parts 8 [a, b, c, d]) (p, 24) \<longleftrightarrow> (a * 256 + b) * 256 + c = p div 256"
    using peel(3) [of 1] by (simp add: in_block_def)
  show "in_block 32 (number_of_parts 8 [a, b, c, d]) (p, 32) \<longleftrightarrow> number_of_parts 8 [a, b, c, d] = p"
    by (simp add: in_block_def)
qed

lemma horner_eq: "y < n \<Longrightarrow> x * n + y = k \<longleftrightarrow> x = k div n \<and> y = k mod (n::nat)"
  using div_mult_mod_eq [of k n] by auto

lemma v4_tables:
  "denied_v4 = [(0, 8), (167772160, 8), (1681915904, 10), (2130706432, 8), (2851995648, 16),
     (2886729728, 12), (3221225472, 24), (3221225984, 24), (3227017984, 24), (3232235520, 16),
     (3323068416, 15), (3325256704, 24), (3405803776, 24), (3758096384, 4), (4026531840, 4)]"
  "global_v4 = [(3221225481, 32), (3221225482, 32)]"
  by (simp_all add: denied_v4_def global_v4_def number_of_parts_def)

lemma denied_number_v4_parts:
  assumes "a < 256" "b < 256" "c < 256" "d < 256"
  shows "denied_number_v4 (number_of_parts 8 [a, b, c, d]) \<longleftrightarrow>
     (a = 0 \<or> a = 10 \<or> (a = 100 \<and> b div 64 = 1) \<or> a = 127 \<or> (a = 169 \<and> b = 254)
      \<or> (a = 172 \<and> b div 16 = 1) \<or> (a = 192 \<and> b = 0 \<and> c = 0)
      \<or> (a = 192 \<and> b = 0 \<and> c = 2) \<or> (a = 192 \<and> b = 88 \<and> c = 99)
      \<or> (a = 192 \<and> b = 168) \<or> (a = 198 \<and> b div 2 = 9) \<or> (a = 198 \<and> b = 51 \<and> c = 100)
      \<or> (a = 203 \<and> b = 0 \<and> c = 113) \<or> a div 16 = 14 \<or> a div 16 = 15)
     \<and> \<not> (a = 192 \<and> b = 0 \<and> c = 0 \<and> d = 9) \<and> \<not> (a = 192 \<and> b = 0 \<and> c = 0 \<and> d = 10)"
proof -
  have d: "b div 64 < 4" "b div 16 < 16" "b div 2 < 128" using assms(2) by auto
  show ?thesis
    unfolding denied_number_v4_def listed_def v4_tables list_ex_Cons_iff list_ex_Nil_iff
      in_block_v4 [OF assms]
    by (simp only: number_of_parts_4 horner_eq assms d) simp
qed

lemma div_16_eq_1: "(n::nat) div 16 = 1 \<longleftrightarrow> 16 \<le> n \<and> n \<le> 31"
  by linarith
lemma v4_tests_agree:
  fixes a b c d :: nat
  shows "(a = 127 \<or> a = 10 \<or> (a = 172 \<and> 16 \<le> b \<and> b \<le> 31)
      \<or> (a = 192 \<and> b = 168) \<or> (a = 169 \<and> b = 254) \<or> a = 0
      \<or> (a = 255 \<and> b = 255 \<and> c = 255 \<and> d = 255)
      \<or> (a = 100 \<and> b div 64 = 1) \<or> (a = 198 \<and> b div 2 = 9)
      \<or> a div 16 = 14 \<or> a div 16 = 15
      \<or> (a = 192 \<and> b = 0 \<and> c = 0 \<and> d \<noteq> 9 \<and> d \<noteq> 10)
      \<or> (a = 192 \<and> b = 0 \<and> c = 2) \<or> (a = 192 \<and> b = 88 \<and> c = 99)
      \<or> (a = 198 \<and> b = 51 \<and> c = 100) \<or> (a = 203 \<and> b = 0 \<and> c = 113)) \<longleftrightarrow>
     (a = 0 \<or> a = 10 \<or> (a = 100 \<and> b div 64 = 1) \<or> a = 127 \<or> (a = 169 \<and> b = 254)
      \<or> (a = 172 \<and> b div 16 = 1) \<or> (a = 192 \<and> b = 0 \<and> c = 0)
      \<or> (a = 192 \<and> b = 0 \<and> c = 2) \<or> (a = 192 \<and> b = 88 \<and> c = 99)
      \<or> (a = 192 \<and> b = 168) \<or> (a = 198 \<and> b div 2 = 9) \<or> (a = 198 \<and> b = 51 \<and> c = 100)
      \<or> (a = 203 \<and> b = 0 \<and> c = 113) \<or> a div 16 = 14 \<or> a div 16 = 15)
     \<and> \<not> (a = 192 \<and> b = 0 \<and> c = 0 \<and> d = 9) \<and> \<not> (a = 192 \<and> b = 0 \<and> c = 0 \<and> d = 10)"
proof (cases "a = 192")
  case True
  then show ?thesis by (cases "b = 0"; cases "c = 0") (simp_all, blast)
next
  case False
  have "a = 255 \<Longrightarrow> a div 16 = 15" by simp
  with False show ?thesis unfolding div_16_eq_1 by argo
qed

lemma not_global_v4_iff: "not_global_v4 v4 \<longleftrightarrow> denied_number_v4 (v4_number v4)"
proof -
  obtain a b c d where v4: "v4 = Ipv4 a b c d" by (cases v4)
  have lt: "unat a < 256" "unat b < 256" "unat c < 256" "unat d < 256" by (rule octet_less)+
  have eqs: "(x = 0) = (unat x = 0)" "(x = numeral k) = (unat x = unat (numeral k :: u8))" for x :: u8 and k
    by (auto simp: word_unat_eq_iff)
  have le: "16 \<le> b \<longleftrightarrow> 16 \<le> unat b" "b \<le> 31 \<longleftrightarrow> unat b \<le> 31"
    by (simp_all add: word_le_nat_alt)
  have "not_global_v4 v4 \<longleftrightarrow>
      unat a = 127 \<or> unat a = 10 \<or> (unat a = 172 \<and> 16 \<le> unat b \<and> unat b \<le> 31)
      \<or> (unat a = 192 \<and> unat b = 168) \<or> (unat a = 169 \<and> unat b = 254) \<or> unat a = 0
      \<or> (unat a = 255 \<and> unat b = 255 \<and> unat c = 255 \<and> unat d = 255)
      \<or> (unat a = 100 \<and> unat b div 64 = 1) \<or> (unat a = 198 \<and> unat b div 2 = 9)
      \<or> unat a div 16 = 14 \<or> unat a div 16 = 15
      \<or> (unat a = 192 \<and> unat b = 0 \<and> unat c = 0 \<and> unat d \<noteq> 9 \<and> unat d \<noteq> 10)
      \<or> (unat a = 192 \<and> unat b = 0 \<and> unat c = 2) \<or> (unat a = 192 \<and> unat b = 88 \<and> unat c = 99)
      \<or> (unat a = 198 \<and> unat b = 51 \<and> unat c = 100) \<or> (unat a = 203 \<and> unat b = 0 \<and> unat c = 113)"
    unfolding not_global_v4_def v4 Let_def octet_tests v4_octets.simps
    by (simp add: octet_tests le eqs)
  also have "\<dots> \<longleftrightarrow> denied_number_v4 (v4_number v4)"
    unfolding v4_number_def v4 v4_octets.simps list.map denied_number_v4_parts [OF lt]
    by (rule v4_tests_agree)
  finally show ?thesis .
qed

section \<open>IPv6 blocks\<close>

lemma number_of_parts_8:
  "number_of_parts 16 [a, b, c, d, e, f, g, h] =
     ((((((a * 65536 + b) * 65536 + c) * 65536 + d) * 65536 + e) * 65536 + f) * 65536 + g) * 65536 + h"
  by (simp add: number_of_parts_def)

lemma v6_div:
  assumes "b < 65536" "c < 65536" "d < 65536" "e < 65536" "f < 65536" "g < 65536" "h < 65536"
  shows "number_of_parts 16 [a, b, c, d, e, f, g, h]
       div (65536 * (65536 * (65536 * (65536 * (65536 * (65536 * (65536 * m))))))) = a div m"
    "number_of_parts 16 [a, b, c, d, e, f, g, h]
       div (65536 * (65536 * (65536 * (65536 * (65536 * (65536 * m)))))) = (a * 65536 + b) div m"
    "number_of_parts 16 [a, b, c, d, e, f, g, h]
       div (65536 * (65536 * (65536 * (65536 * (65536 * m))))) = ((a * 65536 + b) * 65536 + c) div m"
    "number_of_parts 16 [a, b, c, d, e, f, g, h]
       div (65536 * (65536 * (65536 * (65536 * m)))) = (((a * 65536 + b) * 65536 + c) * 65536 + d) div m"
    "number_of_parts 16 [a, b, c, d, e, f, g, h] div (65536 * (65536 * m)) =
       (((((a * 65536 + b) * 65536 + c) * 65536 + d) * 65536 + e) * 65536 + f) div m"
  unfolding number_of_parts_8 by (simp_all only: horner_peel assms)

lemma in_block_v6:
  fixes a b c d e f g h :: nat
  assumes "b < 65536" "c < 65536" "d < 65536" "e < 65536" "f < 65536" "g < 65536" "h < 65536"
  defines "n \<equiv> number_of_parts 16 [a, b, c, d, e, f, g, h]"
  shows "in_block 128 n (p, 7) \<longleftrightarrow> a div 512 = p div 2 ^ 121"
    "in_block 128 n (p, 8) \<longleftrightarrow> a div 256 = p div 2 ^ 120"
    "in_block 128 n (p, 10) \<longleftrightarrow> a div 64 = p div 2 ^ 118"
    "in_block 128 n (p, 16) \<longleftrightarrow> a = p div 2 ^ 112"
    "in_block 128 n (p, 20) \<longleftrightarrow> a * 16 + b div 4096 = p div 2 ^ 108"
    "in_block 128 n (p, 23) \<longleftrightarrow> a * 128 + b div 512 = p div 2 ^ 105"
    "in_block 128 n (p, 28) \<longleftrightarrow> a * 4096 + b div 16 = p div 2 ^ 100"
    "in_block 128 n (p, 32) \<longleftrightarrow> a * 65536 + b = p div 2 ^ 96"
    "in_block 128 n (p, 48) \<longleftrightarrow> (a * 65536 + b) * 65536 + c = p div 2 ^ 80"
    "in_block 128 n (p, 64) \<longleftrightarrow> ((a * 65536 + b) * 65536 + c) * 65536 + d = p div 2 ^ 64"
    "in_block 128 n (p, 96) \<longleftrightarrow>
       ((((a * 65536 + b) * 65536 + c) * 65536 + d) * 65536 + e) * 65536 + f = p div 2 ^ 32"
    "in_block 128 n (p, 128) \<longleftrightarrow> n = p"
proof -
  note peel = v6_div [OF assms(1-7), of a, folded n_def]
  show "in_block 128 n (p, 7) \<longleftrightarrow> a div 512 = p div 2 ^ 121"
    using peel(1) [of 512] by (simp add: in_block_def)
  show "in_block 128 n (p, 8) \<longleftrightarrow> a div 256 = p div 2 ^ 120"
    using peel(1) [of 256] by (simp add: in_block_def)
  show "in_block 128 n (p, 10) \<longleftrightarrow> a div 64 = p div 2 ^ 118"
    using peel(1) [of 64] by (simp add: in_block_def)
  show "in_block 128 n (p, 16) \<longleftrightarrow> a = p div 2 ^ 112"
    using peel(1) [of 1] by (simp add: in_block_def)
  show "in_block 128 n (p, 20) \<longleftrightarrow> a * 16 + b div 4096 = p div 2 ^ 108"
    using peel(2) [of 4096] horner_part [of 4096 a 16 b] by (simp add: in_block_def)
  show "in_block 128 n (p, 23) \<longleftrightarrow> a * 128 + b div 512 = p div 2 ^ 105"
    using peel(2) [of 512] horner_part [of 512 a 128 b] by (simp add: in_block_def)
  show "in_block 128 n (p, 28) \<longleftrightarrow> a * 4096 + b div 16 = p div 2 ^ 100"
    using peel(2) [of 16] horner_part [of 16 a 4096 b] by (simp add: in_block_def)
  show "in_block 128 n (p, 32) \<longleftrightarrow> a * 65536 + b = p div 2 ^ 96"
    using peel(2) [of 1] by (simp add: in_block_def)
  show "in_block 128 n (p, 48) \<longleftrightarrow> (a * 65536 + b) * 65536 + c = p div 2 ^ 80"
    using peel(3) [of 1] by (simp add: in_block_def)
  show "in_block 128 n (p, 64) \<longleftrightarrow> ((a * 65536 + b) * 65536 + c) * 65536 + d = p div 2 ^ 64"
    using peel(4) [of 1] by (simp add: in_block_def)
  show "in_block 128 n (p, 96) \<longleftrightarrow>
       ((((a * 65536 + b) * 65536 + c) * 65536 + d) * 65536 + e) * 65536 + f = p div 2 ^ 32"
    using peel(5) [of 1] by (simp add: in_block_def)
  show "in_block 128 n (p, 128) \<longleftrightarrow> n = p"
    by (simp add: in_block_def)
qed

lemma listed_v6:
  assumes "b < 65536" "c < 65536" "d < 65536" "e < 65536" "f < 65536" "g < 65536" "h < 65536"
  shows "listed 128 (number_of_parts 16 [a, b, c, d, e, f, g, h]) embedding_v6 \<longleftrightarrow>
      (a = 0 \<and> b = 0 \<and> c = 0 \<and> d = 0 \<and> e = 0 \<and> f = 0)
      \<or> (a = 0 \<and> b = 0 \<and> c = 0 \<and> d = 0 \<and> e = 0 \<and> f = 65535)
      \<or> (a = 100 \<and> b = 65435 \<and> c = 0 \<and> d = 0 \<and> e = 0 \<and> f = 0)
      \<or> (a = 0 \<and> b = 0 \<and> c = 0 \<and> d = 0 \<and> e = 65535 \<and> f = 0)" (is ?emb)
    and "listed 128 (number_of_parts 16 [a, b, c, d, e, f, g, h]) denied_v6 \<longleftrightarrow>
      (a = 100 \<and> b = 65435 \<and> c = 1) \<or> (a = 256 \<and> b = 0 \<and> c = 0 \<and> d = 0)
      \<or> (a = 256 \<and> b = 0 \<and> c = 0 \<and> d = 1) \<or> (a = 8193 \<and> b div 512 = 0) \<or> (a = 8193 \<and> b = 3512)
      \<or> a = 8194 \<or> (a = 16383 \<and> b div 4096 = 0) \<or> a = 24320
      \<or> a div 512 = 126 \<or> a div 64 = 1018 \<or> a div 64 = 1019 \<or> a div 256 = 255" (is ?den)
    and "listed 128 (number_of_parts 16 [a, b, c, d, e, f, g, h]) global_v6 \<longleftrightarrow>
      (a = 8193 \<and> b = 1 \<and> c = 0 \<and> d = 0 \<and> e = 0 \<and> f = 0 \<and> g = 0 \<and> h \<in> {1, 2, 3})
      \<or> (a = 8193 \<and> b = 3) \<or> (a = 8193 \<and> b = 4 \<and> c = 274) \<or> (a = 8193 \<and> b div 16 = 2)
      \<or> (a = 8193 \<and> b div 16 = 3)" (is ?glob)
proof -
  have lt: "b div 4096 < 16" "b div 512 < 128" "b div 16 < 4096" using assms(1) by auto
  have emb: "embedding_v6 = [(0, 96), (0xffff * 2 ^ 32, 96), (0x64ff9b * 2 ^ 96, 96), (0xffff * 2 ^ 48, 96)]"
    by (simp add: embedding_v6_def number_of_parts_def)
  show ?emb
    unfolding listed_def emb list_ex_Cons_iff list_ex_Nil_iff in_block_v6 [OF assms]
    by (simp only: horner_eq assms) simp
  show ?den
    unfolding listed_def denied_v6_def list.map list_ex_Cons_iff list_ex_Nil_iff prod.case
      in_block_v6 [OF assms]
    by (simp only: number_of_parts_8 horner_eq assms lt) simp
  show ?glob
    unfolding listed_def global_v6_def list.map list_ex_Cons_iff list_ex_Nil_iff prod.case
      in_block_v6 [OF assms]
    by (simp only: number_of_parts_8 horner_eq assms lt) auto
qed

section \<open>Embedded addresses\<close>

definition payload :: "ipv6_addr \<Rightarrow> ipv4_addr" where
  "payload v6 =
     (case v6 of Ipv6 a b c d e f g h \<Rightarrow>
        Ipv4 (ucast (drop_bit 8 g)) (ucast g) (ucast (drop_bit 8 h)) (ucast h))"

lemma unat_segment_octets:
  "unat (ucast (drop_bit 8 s) :: u8) = unat (s :: u16) div 256" "unat (ucast s :: u8) = unat s mod 256"
proof -
  have "unat (drop_bit 8 s) = unat s div 256" 
    unfolding unat_drop_bit_eq by (simp only: drop_bit_eq_div) simp
  moreover have "unat s div 256 < 256" using segment_less [of s] by auto
  ultimately show "unat (ucast (drop_bit 8 s) :: u8) = unat s div 256"
    by (simp add: unsigned_ucast_eq take_bit_eq_mod)
  show "unat (ucast s :: u8) = unat s mod 256" by (simp add: unsigned_ucast_eq take_bit_eq_mod)
qed

lemma segment_octets_iff:
  "ucast (drop_bit 8 s) = x \<and> ucast s = y \<longleftrightarrow> unat (s :: u16) = unat (x :: u8) * 256 + unat (y :: u8)"
proof -
  have "unat x * 256 + unat y = unat s \<longleftrightarrow> unat x = unat s div 256 \<and> unat y = unat s mod 256"
    by (rule horner_eq [OF octet_less])
  then show ?thesis
    unfolding word_unat_eq_iff unat_segment_octets(1) unfolding unat_segment_octets(2) by metis
qed

lemma v4_number_payload: "v4_number (payload (Ipv6 a b c d e f g h)) = unat g * 65536 + unat h"
proof -
  have "v4_number (payload (Ipv6 a b c d e f g h)) =
      ((unat g div 256 * 256 + unat g mod 256) * 256 + unat h div 256) * 256 + unat h mod 256"
    unfolding v4_number_def payload_def ipv6_addr.case v4_octets.simps list.map
      unat_segment_octets(1) number_of_parts_4 unfolding unat_segment_octets(2) ..
  also have "\<dots> = unat g * 65536 + (unat h div 256 * 256 + unat h mod 256)"
    unfolding div_mult_mod_eq by simp
  finally show ?thesis by (simp only: div_mult_mod_eq)
qed

lemma v6_number_parts:
  "v6_number (Ipv6 a b c d e f g h) =
     number_of_parts 16 [unat a, unat b, unat c, unat d, unat e, unat f, unat g, unat h]"
  by (simp add: v6_number_def)

lemma v6_number_payload: "v6_number v6 mod 2 ^ 32 = v4_number (payload v6)"
proof -
  obtain a b c d e f g h where v6: "v6 = Ipv6 a b c d e f g h" by (cases v6)
  have "unat g * 65536 + unat h < 4294967296" using segment_less [of g] segment_less [of h] by simp
  moreover have "v6_number v6 =
      (((((unat a * 65536 + unat b) * 65536 + unat c) * 65536 + unat d) * 65536 + unat e) * 65536 + unat f)
        * 4294967296 + (unat g * 65536 + unat h)" (is "_ = ?k * _ + _")
    unfolding v6 v6_number_parts number_of_parts_8 by simp
  ultimately have "v6_number v6 mod 4294967296 = unat g * 65536 + unat h"
    by (simp only: mod_mult_self3 mod_less)
  then show ?thesis by (simp add: v6 v4_number_payload)
qed

lemma embedded_ipv4_iff:
  "embedded_ipv4 (Ipv6 a b c d e f g h) [p1, p2, p3, p4, p5, p6, p7, p8, p9, p10, p11, p12] =
     (if unat a = unat p1 * 256 + unat p2 \<and> unat b = unat p3 * 256 + unat p4
         \<and> unat c = unat p5 * 256 + unat p6 \<and> unat d = unat p7 * 256 + unat p8
         \<and> unat e = unat p9 * 256 + unat p10 \<and> unat f = unat p11 * 256 + unat p12
      then Some (payload (Ipv6 a b c d e f g h)) else None)"
  unfolding segment_octets_iff [symmetric]
  by (auto simp: embedded_ipv4_def v6_octets_def segment_octets_def payload_def Let_def)

definition denied_number_v6 :: "nat \<Rightarrow> bool" where
  "denied_number_v6 n \<longleftrightarrow>
     (if listed 128 n embedding_v6 then denied_number_v4 (n mod 2 ^ 32)
      else listed 128 n denied_v6 \<and> \<not> listed 128 n global_v6)"

lemma segment_eq:
  "(x = 0) = (unat x = 0)" "(x = 1) = (unat x = 1)"
  "(x = numeral k) = (unat x = unat (numeral k :: u16))" for x :: u16
  by (auto simp: word_unat_eq_iff)

lemmas segment_tests_unat = segment_tests [unfolded word_unat_eq_iff, simplified]

lemma unat_drop_bit_div: "unat (drop_bit k x) = unat x div 2 ^ k" for x :: u16
  unfolding unat_drop_bit_eq by (simp only: drop_bit_eq_div)

lemma to_ipv4_iff:
  "to_ipv4 (Ipv6 a b c d e f g h) =
     (if unat a = 0 \<and> unat b = 0 \<and> unat c = 0 \<and> unat d = 0 \<and> unat e = 0 \<and> (unat f = 0 \<or> unat f = 65535)
      then Some (payload (Ipv6 a b c d e f g h)) else None)"
  by (simp add: payload_def segment_eq)

lemma is_global_exception_iff:
  "is_global_exception (segments (Ipv6 a b c d e f g h)) \<longleftrightarrow>
     (unat b = 1 \<and> unat c = 0 \<and> unat d = 0 \<and> unat e = 0 \<and> unat f = 0 \<and> unat g = 0 \<and> unat h \<in> {1, 2, 3})
     \<or> unat b = 3 \<or> (unat b = 4 \<and> unat c = 274) \<or> unat b div 16 = 2 \<or> unat b div 16 = 3"
proof -
  have "(1 \<le> h \<and> h \<le> 3) \<longleftrightarrow> unat h \<in> {1, 2, 3}" by (auto simp: word_le_nat_alt)
  then show ?thesis by (simp add: is_global_exception_def segment_eq unat_drop_bit_div)
qed

lemma v6_tests_agree:
  fixes a b c d :: nat
  assumes "b = 3512 \<longrightarrow> \<not> ex"
  shows "(a = 8193 \<and> b div 512 = 0 \<and> \<not> ex \<or> a div 512 = 126 \<or> a div 64 = 1018 \<or> a div 64 = 1019
      \<or> a div 256 = 255 \<or> (a = 100 \<and> b = 65435 \<and> c = 1) \<or> (a = 256 \<and> b = 0 \<and> c = 0 \<and> d = 0)
      \<or> (a = 256 \<and> b = 0 \<and> c = 0 \<and> d = 1) \<or> (a = 8193 \<and> b = 3512) \<or> a = 8194
      \<or> (a = 16383 \<and> b div 4096 = 0) \<or> a = 24320) \<longleftrightarrow>
     ((a = 100 \<and> b = 65435 \<and> c = 1) \<or> (a = 256 \<and> b = 0 \<and> c = 0 \<and> d = 0)
      \<or> (a = 256 \<and> b = 0 \<and> c = 0 \<and> d = 1) \<or> (a = 8193 \<and> b div 512 = 0) \<or> (a = 8193 \<and> b = 3512)
      \<or> a = 8194 \<or> (a = 16383 \<and> b div 4096 = 0) \<or> a = 24320
      \<or> a div 512 = 126 \<or> a div 64 = 1018 \<or> a div 64 = 1019 \<or> a div 256 = 255)
     \<and> \<not> (a = 8193 \<and> ex)"
proof (cases "a = 8193")
  case True
  then show ?thesis using assms by auto
next
  case False
  then show ?thesis by argo
qed

text \<open>The code reduced to its decisions: the embeddings first, then the tests on segments.\<close>

lemma not_global_v6_decisions:
  fixes a b c d e f g h :: u16
  defines "v6 \<equiv> Ipv6 a b c d e f g h"
  defines "emb \<equiv> listed 128 (v6_number v6) embedding_v6"
  shows "not_global_v6 v6 \<longleftrightarrow>
    (if emb then not_global_v4 (payload v6)
     else unat a = 8193 \<and> unat b div 512 = 0 \<and> \<not> is_global_exception (segments v6)
        \<or> unat a div 512 = 126 \<or> unat a div 64 = 1018
        \<or> unat a div 64 = 1019 \<or> unat a div 256 = 255 \<or> (unat a = 100 \<and> unat b = 65435 \<and> unat c = 1)
        \<or> (unat a = 256 \<and> unat b = 0 \<and> unat c = 0 \<and> unat d = 0)
        \<or> (unat a = 256 \<and> unat b = 0 \<and> unat c = 0 \<and> unat d = 1) \<or> (unat a = 8193 \<and> unat b = 3512)
        \<or> unat a = 8194 \<or> (unat a = 16383 \<and> unat b div 4096 = 0) \<or> unat a = 24320)"
proof -
  have nat64: "embedded_ipv4 v6 NAT64_WELL_KNOWN_PREFIX =
      (if unat a = 100 \<and> unat b = 65435 \<and> unat c = 0 \<and> unat d = 0 \<and> unat e = 0 \<and> unat f = 0
       then Some (payload v6) else None)"
    unfolding v6_def NAT64_WELL_KNOWN_PREFIX_def embedded_ipv4_iff by simp
  have siit: "embedded_ipv4 v6 IPV4_TRANSLATED_PREFIX =
      (if unat a = 0 \<and> unat b = 0 \<and> unat c = 0 \<and> unat d = 0 \<and> unat e = 65535 \<and> unat f = 0
       then Some (payload v6) else None)"
    unfolding v6_def IPV4_TRANSLATED_PREFIX_def embedded_ipv4_iff by simp
  have emb: "emb \<longleftrightarrow>
      (unat a = 0 \<and> unat b = 0 \<and> unat c = 0 \<and> unat d = 0 \<and> unat e = 0 \<and> (unat f = 0 \<or> unat f = 65535))
      \<or> (unat a = 100 \<and> unat b = 65435 \<and> unat c = 0 \<and> unat d = 0 \<and> unat e = 0 \<and> unat f = 0)
      \<or> (unat a = 0 \<and> unat b = 0 \<and> unat c = 0 \<and> unat d = 0 \<and> unat e = 65535 \<and> unat f = 0)"
    unfolding emb_def v6_def v6_number_parts listed_v6(1) [OF segment_less segment_less segment_less
        segment_less segment_less segment_less segment_less] by argo
  show ?thesis
  proof (cases emb)
    case True
    then have "to_ipv4 v6 = Some (payload v6)
        \<or> to_ipv4 v6 = None \<and> embedded_ipv4 v6 NAT64_WELL_KNOWN_PREFIX = Some (payload v6)
        \<or> to_ipv4 v6 = None \<and> embedded_ipv4 v6 NAT64_WELL_KNOWN_PREFIX = None
           \<and> embedded_ipv4 v6 IPV4_TRANSLATED_PREFIX = Some (payload v6)"
      unfolding nat64 siit emb unfolding v6_def to_ipv4_iff by (elim disjE) simp_all
    then have "not_global_v6 v6 = not_global_v4 (payload v6)"
      by (elim disjE conjE) (simp_all add: not_global_v6_def)
    with True show ?thesis by simp
  next
    case False
    have "to_ipv4 v6 = None" using False unfolding emb v6_def to_ipv4_iff by (intro if_not_P) argo
    moreover have "embedded_ipv4 v6 NAT64_WELL_KNOWN_PREFIX = None"
      using False unfolding emb nat64 by (intro if_not_P) argo
    moreover have "embedded_ipv4 v6 IPV4_TRANSLATED_PREFIX = None"
      using False unfolding emb siit by (intro if_not_P) argo
    moreover have "\<not> v6_is_loopback v6" "\<not> v6_is_unspecified v6"
      using \<open>to_ipv4 v6 = None\<close> by (auto simp: v6_def split: if_splits)
    ultimately show ?thesis
      using False unfolding not_global_v6_def
      by (cases "unat b div 512 = 0"; simp del: to_ipv4.simps v6_is_loopback.simps v6_is_unspecified.simps
            add: v6_def Let_def segment_tests_unat segment_eq unat_drop_bit_div; blast?)
  qed
qed

lemma not_global_v6_iff: "not_global_v6 v6 \<longleftrightarrow> denied_number_v6 (v6_number v6)"
proof -
  obtain a b c d e f g h where v6: "v6 = Ipv6 a b c d e f g h" by (cases v6)
  note lists = listed_v6 [OF segment_less [of b] segment_less [of c] segment_less [of d]
      segment_less [of e] segment_less [of f] segment_less [of g] segment_less [of h],
      of "unat a", folded v6_number_parts, folded v6]
  have ex: "unat b = 3512 \<longrightarrow> \<not> is_global_exception (segments v6)"
    unfolding v6 is_global_exception_iff by simp
  have glob: "listed 128 (v6_number v6) global_v6 \<longleftrightarrow> unat a = 8193 \<and> is_global_exception (segments v6)"
    unfolding lists(3) unfolding v6 is_global_exception_iff by blast
  show ?thesis
    unfolding denied_number_v6_def v6_number_payload glob lists(2)
      not_global_v6_decisions [of a b c d e f g h, folded v6] not_global_v4_iff
    using v6_tests_agree [OF ex, of "unat a" "unat c" "unat d"] by presburger
qed

section \<open>Properties\<close>

text \<open>C31. The address filter implements the registry: an IPv4 address is blocked exactly when it lies in
  one of the fifteen blocked CIDR blocks and is not one of the two globally reachable anycast
  addresses; an IPv6 address that embeds an IPv4 address (IPv4-compatible, IPv4-mapped, NAT64 or
  SIIT-translated) is blocked exactly when the embedded address is, so that no embedding gets around
  the IPv4 table; any other IPv6 address is blocked exactly when it lies in one of the twelve blocked
  IPv6 blocks and not in one of the seven exceptions.\<close>

theorem is_not_global_unicast_iff:
  "is_not_global_unicast ip \<longleftrightarrow>
     (case ip of
        V4 v4 \<Rightarrow> listed 32 (v4_number v4) denied_v4 \<and> \<not> listed 32 (v4_number v4) global_v4
      | V6 v6 \<Rightarrow>
          if listed 128 (v6_number v6) embedding_v6
          then is_not_global_unicast (V4 (payload v6))
          else listed 128 (v6_number v6) denied_v6 \<and> \<not> listed 128 (v6_number v6) global_v6)"
  by (cases ip)
     (simp_all add: is_not_global_unicast_def not_global_v4_iff not_global_v6_iff denied_number_v6_def
       denied_number_v4_def v6_number_payload [simplified])

end
