(* ===== verification/Workflow_Exec.thy ===== *)
theory Workflow_Exec
  imports Workflow_Template Network
begin

text \<open>
  The executor of workflow runs: the second half of \<open>crates/maju-workflow/src/executor.rs\<close>
  (\<open>dispatch_action\<close>, the SSRF check, the webhook and reaction calls, \<open>execute_run\<close>,
  \<open>execute_from_step\<close>, \<open>execute_steps\<close>), \<open>finalize_run\<close> of \<open>lib.rs\<close>, and the run table of
  \<open>crates/maju-db/src/store/workflow.rs\<close> that they read and write.

  An execution returns the side effects that it issued, in order, beside its result. What the outside
  world answers is the argument \<open>io\<close>, one record per step: the community write fence of
  \<open>maju-deletion\<close>, database failures, the answer of the action sink, DNS, HTTP, the random token, and
  whether the step's timeout expires before or after the side effect was issued. The table is a list
  of rows; a query is a function on it. \<open>exec_api\<close> holds the functions of other packages (UUID and URL
  parsing, HTTP method parsing, hexadecimal encoding).
\<close>

section \<open>UTF-8\<close>

text \<open>The number of continuation bytes that a leading byte announces and the range of the first.\<close>

definition utf8_lead :: "nat \<Rightarrow> (nat \<times> nat \<times> nat) option" where
  "utf8_lead b =
     (if 0xC2 \<le> b \<and> b \<le> 0xDF then Some (1, 0x80, 0xBF)
      else if b = 0xE0 then Some (2, 0xA0, 0xBF)
      else if b = 0xED then Some (2, 0x80, 0x9F)
      else if 0xE1 \<le> b \<and> b \<le> 0xEF then Some (2, 0x80, 0xBF)
      else if b = 0xF0 then Some (3, 0x90, 0xBF)
      else if 0xF1 \<le> b \<and> b \<le> 0xF3 then Some (3, 0x80, 0xBF)
      else if b = 0xF4 then Some (3, 0x80, 0x8F)
      else None)"

fun take_continuations :: "nat \<Rightarrow> nat \<Rightarrow> nat \<Rightarrow> nat list \<Rightarrow> nat list" where
  "take_continuations (Suc n) lo hi (b # bs) =
     (if lo \<le> b \<and> b \<le> hi then b # take_continuations n 0x80 0xBF bs else [])"
| "take_continuations _ lo hi _ = []"

definition utf8_scalar :: "nat \<Rightarrow> nat list \<Rightarrow> codepoint" where
  "utf8_scalar b cs =
     foldl (\<lambda>v c. v * 64 + c mod 64)
       (if length cs = 1 then b mod 32 else if length cs = 2 then b mod 16 else b mod 8) cs"

text \<open>\<open>String::from_utf8_lossy\<close>: each maximal ill-formed part becomes the replacement character.\<close>

function utf8_lossy :: "nat list \<Rightarrow> wtext" where
  "utf8_lossy [] = []"
| "utf8_lossy (b # bs) =
     (if b < 0x80 then b # utf8_lossy bs
      else
        case utf8_lead b of
          None \<Rightarrow> 0xFFFD # utf8_lossy bs
        | Some (n, lo, hi) \<Rightarrow>
            (let cs = take_continuations n lo hi bs in
             (if length cs = n then utf8_scalar b cs else 0xFFFD) # utf8_lossy (drop (length cs) bs)))"
  by pat_completeness auto

termination
  by (relation "measure length") auto

section \<open>The run table\<close>

datatype run_status = Pending | Running | WaitingApproval | Completed | Failed | Cancelled

record run_record =
  run_id :: uuid
  run_community :: uuid
  run_workflow_id :: uuid
  run_status :: run_status
  run_trigger_event :: "bytes option"
  run_current_step :: "32 word"
  run_trace :: wf_json
  run_trigger_context :: "trigger_context option"
  run_started_at :: "int option"
  run_completed_at :: "int option"
  run_failure :: "(string \<times> wtext) option"

datatype workflow_status = Active | Disabled | Archived

record workflow_record =
  wr_id :: uuid
  wr_community :: uuid
  wr_owner :: bytes
  wr_channel :: "uuid option"
  wr_definition :: wf_json
  wr_status :: workflow_status
  wr_enabled :: bool
  wr_created_at :: int

definition get_workflow_run :: "run_record list \<Rightarrow> uuid \<Rightarrow> uuid \<Rightarrow> run_record option" where
  "get_workflow_run runs community i = find (\<lambda>r. run_community r = community \<and> run_id r = i) runs"

definition get_workflow :: "workflow_record list \<Rightarrow> uuid \<Rightarrow> uuid \<Rightarrow> workflow_record option" where
  "get_workflow workflows community i = find (\<lambda>w. wr_community w = community \<and> wr_id w = i) workflows"

definition create_workflow_run ::
  "uuid \<Rightarrow> uuid \<Rightarrow> uuid \<Rightarrow> bytes option \<Rightarrow> trigger_context option \<Rightarrow> run_record list \<Rightarrow> run_record list" where
  "create_workflow_run i community workflow trigger_event ctx runs =
     runs @ [\<lparr>run_id = i, run_community = community, run_workflow_id = workflow, run_status = Pending,
       run_trigger_event = trigger_event, run_current_step = 0, run_trace = JArray [],
       run_trigger_context = ctx, run_started_at = None, run_completed_at = None, run_failure = None\<rparr>]"

text \<open>The row update of \<open>update_workflow_run\<close>; \<open>now\<close> is the database clock. An update that matches no
  row is the \<open>NotFound\<close> error, here \<open>None\<close>.\<close>

definition updated_run ::
  "int \<Rightarrow> run_status \<Rightarrow> 32 word \<Rightarrow> wf_json \<Rightarrow> (string \<times> wtext) option \<Rightarrow> run_record \<Rightarrow> run_record" where
  "updated_run now status step trace failure r =
     r\<lparr>run_status := status, run_current_step := step, run_trace := trace, run_failure := failure,
       run_started_at :=
         (if status = Running \<and> run_started_at r = None then Some now else run_started_at r),
       run_completed_at :=
         (if status \<in> {Completed, Failed, Cancelled} then Some now else run_completed_at r)\<rparr>"

definition update_workflow_run ::
  "int \<Rightarrow> uuid \<Rightarrow> uuid \<Rightarrow> run_status \<Rightarrow> 32 word \<Rightarrow> wf_json \<Rightarrow> (string \<times> wtext) option
     \<Rightarrow> run_record list \<Rightarrow> run_record list option" where
  "update_workflow_run now community i status step trace failure runs =
     (if list_ex (\<lambda>r. run_community r = community \<and> run_id r = i) runs then
        Some (map (\<lambda>r. if run_community r = community \<and> run_id r = i
                       then updated_run now status step trace failure r else r) runs)
      else None)"

section \<open>Outside answers and effects\<close>

datatype effect =
    PostMessage uuid wtext wtext wtext wtext "wtext option"
  | PostReaction wtext wtext
  | HttpRequest ip_addr u16 wtext wtext "(wtext, wtext) hmap option" "wtext option"
  | Sleep u64

datatype step_timing = InTime | LateBeforeEffect | LateAfterEffect

record step_io =
  io_fence :: "wtext option"
  io_verify :: "wtext option"
  io_protect :: "wtext option"
  io_finish :: "wtext option"
  io_load_run :: "wtext option"
  io_load_workflow :: "wtext option"
  io_sink :: "wtext + wtext"
  io_reaction :: "wtext + u16 \<times> wf_json"
  io_dns :: "wtext + ip_addr list"
  io_client :: "wtext option"
  io_response :: "wtext + u16 \<times> (wtext + nat list) list"
  io_token :: uuid
  io_timing :: step_timing

record exec_api =
  xa_uuid_parse :: "wtext \<Rightarrow> wtext + uuid"
  xa_uuid_string :: "uuid \<Rightarrow> wtext"
  xa_hex :: "bytes \<Rightarrow> wtext"
  xa_url_parse :: "wtext \<Rightarrow> wtext + wtext option \<times> u16 option"
  xa_method_err :: "wtext \<Rightarrow> wtext option"
  xa_ip_string :: "ip_addr \<Rightarrow> wtext"

record engine =
  eng_template :: template_api
  eng_exec :: exec_api
  eng_sink_ready :: bool
  eng_default_timeout_secs :: u64

text \<open>Setting the sink a second time panics, here \<open>None\<close>.\<close>

definition set_action_sink :: "engine \<Rightarrow> engine option" where
  "set_action_sink eng = (if eng_sink_ready eng then None else Some (eng\<lparr>eng_sink_ready := True\<rparr>))"

section \<open>Actions\<close>

datatype step_result = StepCompleted wf_json | StepSuspended wtext | StepSkipped

definition resolve_send_message_channel ::
  "exec_api \<Rightarrow> wtext option \<Rightarrow> wtext \<Rightarrow> uuid option \<Rightarrow> workflow_error + wtext" where
  "resolve_send_message_channel api explicit0 trigger_channel workflow_channel =
     (let explicit = (case explicit0 of
            None \<Rightarrow> None | Some v \<Rightarrow> if str_trim v = [] then None else Some (str_trim v));
          parse = (\<lambda>s. case xa_uuid_parse api s of
            Inl e \<Rightarrow> Inl (InvalidDefinition (lit ''SendMessage: invalid channel override UUID: '' @ e))
          | Inr u \<Rightarrow> Inr u) in
      case workflow_channel of
        Some wch \<Rightarrow>
          (case explicit of
             None \<Rightarrow> Inr (xa_uuid_string api wch)
           | Some s \<Rightarrow>
               and_then (parse s) (\<lambda>u.
                 if u \<noteq> wch then
                   Inl (InvalidDefinition
                     (lit ''SendMessage: channel override must match the workflow channel (''
                        @ xa_uuid_string api wch @ lit '')''))
                 else Inr (xa_uuid_string api wch)))
      | None \<Rightarrow>
          (case explicit of
             Some s \<Rightarrow> and_then (parse s) (\<lambda>u. Inr (xa_uuid_string api u))
           | None \<Rightarrow>
               if str_trim trigger_channel = [] then
                 Inl (InvalidDefinition (lit ''SendMessage: no channel_id available (trigger has no channel context and no channel override was specified)''))
               else Inr (str_trim trigger_channel)))"

fun first_private :: "ip_addr list \<Rightarrow> ip_addr option" where
  "first_private [] = None"
| "first_private (ip # ips) = (if is_private_ip ip then Some ip else first_private ips)"

definition check_ssrf :: "exec_api \<Rightarrow> wtext + ip_addr list \<Rightarrow> wtext \<Rightarrow> workflow_error + ip_addr" where
  "check_ssrf api dns host =
     (case dns of
        Inl e \<Rightarrow> Inl (WebhookError (lit ''DNS resolution failed: '' @ e))
      | Inr addrs \<Rightarrow>
          if addrs = [] then Inl (WebhookError (lit ''DNS resolution returned no addresses''))
          else
            case first_private addrs of
              Some ip \<Rightarrow>
                Inl (WebhookError (lit ''SSRF blocked: '' @ [39] @ host @ [39]
                  @ lit '' resolved to private/reserved address '' @ xa_ip_string api ip))
            | None \<Rightarrow> Inr (hd addrs))"

definition WEBHOOK_MAX_RESPONSE_BYTES :: nat where
  "WEBHOOK_MAX_RESPONSE_BYTES = 1024 * 1024"

fun read_body :: "nat list \<Rightarrow> (wtext + nat list) list \<Rightarrow> workflow_error + nat list" where
  "read_body body [] = Inr body"
| "read_body body (Inl e # chunks) = Inl (WebhookError (lit ''reading response body: '' @ e))"
| "read_body body (Inr bs # chunks) =
     (if length (body @ bs) > WEBHOOK_MAX_RESPONSE_BYTES
      then Inl (WebhookError (lit ''response body exceeds 1048576 byte limit''))
      else read_body (body @ bs) chunks)"

definition json_nat :: "nat \<Rightarrow> wf_json" where
  "json_nat n = JNumber (PosInt (word_of_nat n))"

definition call_webhook_impl ::
  "exec_api \<Rightarrow> step_io \<Rightarrow> wtext \<Rightarrow> wtext \<Rightarrow> (wtext, wtext) hmap option \<Rightarrow> wtext option
     \<Rightarrow> effect list \<times> (workflow_error + wf_json)" where
  "call_webhook_impl api io url mthd headers body =
     (case xa_url_parse api url of
        Inl e \<Rightarrow> ([], Inl (WebhookError (lit ''invalid URL: '' @ e)))
      | Inr (None, _) \<Rightarrow> ([], Inl (WebhookError (lit ''URL has no host'')))
      | Inr (Some host, port0) \<Rightarrow>
          (let port = (case port0 of Some p \<Rightarrow> p | None \<Rightarrow> 80) in
           case check_ssrf api (io_dns io) host of
             Inl e \<Rightarrow> ([], Inl e)
           | Inr safe_ip \<Rightarrow>
               (case io_client io of
                  Some e \<Rightarrow> ([], Inl (WebhookError e))
                | None \<Rightarrow>
                    (case xa_method_err api mthd of
                       Some e \<Rightarrow> ([], Inl (WebhookError e))
                     | None \<Rightarrow>
                         ([HttpRequest safe_ip port url mthd headers body],
                          case io_response io of
                            Inl e \<Rightarrow> Inl (WebhookError e)
                          | Inr (status, chunks) \<Rightarrow>
                              and_then (read_body [] chunks) (\<lambda>bs.
                                Inr (JObject [(lit ''body'', JString (utf8_lossy bs)),
                                              (lit ''status'', json_nat (unat status))])))))))"

text \<open>\<open>io_reaction\<close> is the failure text, or the success status with the body as JSON.\<close>

definition add_reaction_impl ::
  "step_io \<Rightarrow> wtext \<Rightarrow> wtext \<Rightarrow> effect list \<times> (workflow_error + wf_json)" where
  "add_reaction_impl io message_id emoji =
     ([PostReaction message_id emoji],
      case io_reaction io of
        Inl e \<Rightarrow> Inl (WebhookError e)
      | Inr (status, response) \<Rightarrow>
          Inr (JObject [(lit ''added'', JBool True), (lit ''response'', response),
                        (lit ''status'', json_nat (unat status))]))"

definition MAX_DELAY_SECS :: u64 where "MAX_DELAY_SECS = 270"

text \<open>The tables that an execution reads while it runs.\<close>

record exec_db =
  db_runs :: "run_record list"
  db_workflows :: "workflow_record list"

definition send_message_action ::
  "engine \<Rightarrow> step_io \<Rightarrow> exec_db \<Rightarrow> wf_step \<Rightarrow> uuid \<Rightarrow> uuid \<Rightarrow> trigger_context
     \<Rightarrow> wtext \<Rightarrow> wtext option \<Rightarrow> bool \<Rightarrow> effect list \<times> (workflow_error + step_result)" where
  "send_message_action eng io db step community rid ctx t channel reply_in_thread =
     (let api = eng_exec eng in
      case (io_load_run io, get_workflow_run (db_runs db) community rid) of
        (Some e, _) \<Rightarrow>
          ([], Inl (WebhookError (lit ''SendMessage: failed to load workflow run '' @ xa_uuid_string api rid @ lit '': '' @ e)))
      | (None, None) \<Rightarrow>
          ([], Inl (WebhookError (lit ''SendMessage: failed to load workflow run '' @ xa_uuid_string api rid
             @ lit '': not found: workflow_run '' @ xa_uuid_string api rid)))
      | (None, Some wf_run) \<Rightarrow>
          (let wid = run_workflow_id wf_run in
           case (io_load_workflow io, get_workflow (db_workflows db) community wid) of
             (Some e, _) \<Rightarrow>
               ([], Inl (WebhookError (lit ''SendMessage: failed to load workflow '' @ xa_uuid_string api wid @ lit '': '' @ e)))
           | (None, None) \<Rightarrow>
               ([], Inl (WebhookError (lit ''SendMessage: failed to load workflow '' @ xa_uuid_string api wid
                  @ lit '': not found: workflow '' @ xa_uuid_string api wid)))
           | (None, Some workflow) \<Rightarrow>
               (case resolve_send_message_channel api channel (tc_channel_id ctx) (wr_channel workflow) of
                  Inl e \<Rightarrow> ([], Inl e)
                | Inr channel_id \<Rightarrow>
                    if reply_in_thread \<and> tc_message_id ctx = [] then
                      ([], Inl (InvalidDefinition (lit ''SendMessage: reply_in_thread is set but the trigger has no message_id to reply to'')))
                    else
                      (case step_action step of
                         SendMessage authored_text _ _ \<Rightarrow>
                           if \<not> eng_sink_ready eng then
                             ([], Inl (InvalidDefinition (lit ''action_sink not initialized '' @ [8212]
                                @ lit '' call set_action_sink() before executing workflows'')))
                           else
                             ([PostMessage community channel_id t authored_text (xa_hex api (wr_owner workflow))
                                 (if reply_in_thread then Some (tc_message_id ctx) else None)],
                              case io_sink io of
                                Inl e \<Rightarrow> Inl (WebhookError e)
                              | Inr event_id \<Rightarrow>
                                  Inr (StepCompleted (JObject
                                    [(lit ''event_id'', JString event_id), (lit ''sent'', JBool True)])))
                       | _ \<Rightarrow>
                           ([], Inl (InvalidDefinition (lit ''SendMessage: resolved action does not match its authored step'')))))))"

definition as_step :: "effect list \<times> (workflow_error + wf_json) \<Rightarrow> effect list \<times> (workflow_error + step_result)" where
  "as_step r = (fst r, and_then (snd r) (\<lambda>j. Inr (StepCompleted j)))"

fun perform_action ::
  "engine \<Rightarrow> step_io \<Rightarrow> exec_db \<Rightarrow> wf_step \<Rightarrow> uuid \<Rightarrow> uuid \<Rightarrow> trigger_context \<Rightarrow> action_def
     \<Rightarrow> effect list \<times> (workflow_error + step_result)" where
  "perform_action eng io db step community rid ctx (SendMessage t channel reply) =
     send_message_action eng io db step community rid ctx t channel reply"
| "perform_action eng io db step community rid ctx (SendDm to t) = ([], Inl (NotImplemented (lit ''SendDm'')))"
| "perform_action eng io db step community rid ctx (SetChannelTopic topic) =
     ([], Inl (NotImplemented (lit ''SetChannelTopic'')))"
| "perform_action eng io db step community rid ctx (AddReaction emoji) =
     (if tc_message_id ctx = [] then
        ([], Inl (InvalidDefinition (lit ''AddReaction: no trigger.message_id available'')))
      else as_step (add_reaction_impl io (tc_message_id ctx) emoji))"
| "perform_action eng io db step community rid ctx (CallWebhook url mthd headers body) =
     as_step (call_webhook_impl (eng_exec eng) io url
       (case mthd of Some m \<Rightarrow> m | None \<Rightarrow> lit ''POST'') headers body)"
| "perform_action eng io db step community rid ctx (RequestApproval frm message timeout) =
     ([], Inr (StepSuspended (xa_uuid_string (eng_exec eng) (io_token io))))"
| "perform_action eng io db step community rid ctx (Delay duration) =
     (case parse_duration_secs duration of
        Inl e \<Rightarrow> ([], Inl e)
      | Inr secs \<Rightarrow>
          if secs > MAX_DELAY_SECS then
            ([], Inl (InvalidDefinition (lit ''delay exceeds maximum of 270 seconds (got ''
               @ lit (show_nat (unat secs)) @ lit ''s); use the scheduled resume pattern for long delays'')))
          else ([Sleep secs], Inr (StepCompleted (JObject [(lit ''slept_secs'', JNumber (PosInt secs))]))))"

definition dispatch_action ::
  "engine \<Rightarrow> step_io \<Rightarrow> exec_db \<Rightarrow> wf_step \<Rightarrow> action_def \<Rightarrow> uuid \<Rightarrow> uuid \<Rightarrow> trigger_context
     \<Rightarrow> effect list \<times> (workflow_error + step_result)" where
  "dispatch_action eng io db step action community rid ctx =
     (case io_fence io of
        Some e \<Rightarrow> ([], Inl (WebhookError (lit ''community write fence rejected workflow side effect: '' @ e)))
      | None \<Rightarrow>
          (case io_verify io of
             Some e \<Rightarrow> ([], Inl (WebhookError (lit ''community write lease lost: '' @ e)))
           | None \<Rightarrow>
               (case perform_action eng io db step community rid ctx action of
                  (effects, result) \<Rightarrow>
                    (effects,
                     case io_protect io of
                       Some e \<Rightarrow> Inl (WebhookError (lit ''community write lease lost: '' @ e))
                     | None \<Rightarrow>
                         (case result of
                            Inl error \<Rightarrow> Inl error
                          | Inr value \<Rightarrow>
                              (case io_finish io of
                                 Some e \<Rightarrow> Inl (WebhookError (lit ''community write lease release failed: '' @ e))
                               | None \<Rightarrow> Inr value))))))"

section \<open>Execution\<close>

record execution_result =
  er_approval_token :: "wtext option"
  er_step_index :: nat
  er_step_outputs :: step_outputs
  er_trace :: "wf_json list"

record partial_progress =
  pp_step_index :: nat
  pp_trace :: "wf_json list"

definition default_progress :: partial_progress where
  "default_progress = \<lparr>pp_step_index = 0, pp_trace = []\<rparr>"

type_synonym exec_outcome = "(workflow_error \<times> partial_progress) + execution_result"

definition skipped_entry :: "wf_step \<Rightarrow> wf_json" where
  "skipped_entry step =
     JObject [(lit ''status'', JString (lit ''skipped'')), (lit ''step_id'', JString (step_id step))]"

definition completed_entry :: "wf_step \<Rightarrow> wf_json \<Rightarrow> wf_json" where
  "completed_entry step output =
     JObject [(lit ''output'', output), (lit ''status'', JString (lit ''completed'')),
              (lit ''step_id'', JString (step_id step))]"

text \<open>One step: its condition, its templates, and the dispatch under the step's timeout. A step whose
  condition is false is skipped, as the result \<open>Skipped\<close> of a dispatch would be.\<close>

definition execute_step ::
  "engine \<Rightarrow> 'c eval_api \<Rightarrow> step_io \<Rightarrow> exec_db \<Rightarrow> uuid \<Rightarrow> uuid \<Rightarrow> trigger_context \<Rightarrow> step_outputs \<Rightarrow> wf_step
     \<Rightarrow> effect list \<times> (workflow_error + step_result)" where
  "execute_step eng ev io db community rid ctx outs step =
     (case (case if_expr step of
              None \<Rightarrow> Inr True
            | Some expr \<Rightarrow> evaluate_condition (eng_template eng) ev expr ctx outs) of
        Inl e \<Rightarrow> ([], Inl e)
      | Inr False \<Rightarrow> ([], Inr StepSkipped)
      | Inr True \<Rightarrow>
          (case resolve_step_templates (eng_template eng) (step_action step) ctx outs of
             Inl e \<Rightarrow> ([], Inl e)
           | Inr action \<Rightarrow>
               (let secs = (case timeout_secs step of Some s \<Rightarrow> s | None \<Rightarrow> eng_default_timeout_secs eng);
                    late = Inl (StepTimeout (step_id step) secs);
                    dispatched = dispatch_action eng io db step action community rid ctx in
                case io_timing io of
                  InTime \<Rightarrow> dispatched
                | LateBeforeEffect \<Rightarrow> ([], late)
                | LateAfterEffect \<Rightarrow> (fst dispatched, late))))"

fun execute_loop ::
  "engine \<Rightarrow> (nat \<Rightarrow> 'c eval_api) \<Rightarrow> (nat \<Rightarrow> step_io) \<Rightarrow> exec_db \<Rightarrow> uuid \<Rightarrow> uuid \<Rightarrow> trigger_context \<Rightarrow> nat
     \<Rightarrow> nat \<Rightarrow> step_outputs \<Rightarrow> wf_json list \<Rightarrow> wf_step list \<Rightarrow> effect list \<times> exec_outcome" where
  "execute_loop eng ev ios db community rid ctx start i outs trace [] =
     ([], Inr \<lparr>er_approval_token = None, er_step_index = i, er_step_outputs = outs, er_trace = trace\<rparr>)"
| "execute_loop eng ev ios db community rid ctx start i outs trace (step # steps) =
     (if i < start then
        execute_loop eng ev ios db community rid ctx start (Suc i) outs trace steps
      else
        case execute_step eng (ev i) (ios i) db community rid ctx outs step of
          (effects, Inl e) \<Rightarrow> (effects, Inl (e, \<lparr>pp_step_index = i, pp_trace = trace\<rparr>))
        | (effects, Inr (StepCompleted output)) \<Rightarrow>
            (case execute_loop eng ev ios db community rid ctx start (Suc i)
                    (AList.update (step_id step) output outs) (trace @ [completed_entry step output]) steps of
               (effects', result) \<Rightarrow> (effects @ effects', result))
        | (effects, Inr (StepSuspended token)) \<Rightarrow>
            (effects, Inr \<lparr>er_approval_token = Some token, er_step_index = i, er_step_outputs = outs,
                           er_trace = trace\<rparr>)
        | (effects, Inr StepSkipped) \<Rightarrow>
            (case execute_loop eng ev ios db community rid ctx start (Suc i)
                    outs (trace @ [skipped_entry step]) steps of
               (effects', result) \<Rightarrow> (effects @ effects', result)))"

definition execute_steps ::
  "engine \<Rightarrow> (nat \<Rightarrow> 'c eval_api) \<Rightarrow> (nat \<Rightarrow> step_io) \<Rightarrow> exec_db \<Rightarrow> uuid \<Rightarrow> uuid \<Rightarrow> workflow_def
     \<Rightarrow> trigger_context \<Rightarrow> nat \<Rightarrow> step_outputs option \<Rightarrow> effect list \<times> exec_outcome" where
  "execute_steps eng ev ios db community rid def ctx start initial =
     execute_loop eng ev ios db community rid ctx start 0
       (case initial of Some outs \<Rightarrow> outs | None \<Rightarrow> []) [] (wf_steps def)"

text \<open>A write of the run row: \<open>db_err\<close> is the text of a storage failure, if there is one.\<close>

definition store_run ::
  "exec_api \<Rightarrow> wtext option \<Rightarrow> int \<Rightarrow> uuid \<Rightarrow> uuid \<Rightarrow> run_status \<Rightarrow> 32 word \<Rightarrow> wf_json \<Rightarrow> (string \<times> wtext) option
     \<Rightarrow> run_record list \<Rightarrow> wtext + run_record list" where
  "store_run api db_err now community rid status step trace failure runs =
     (case db_err of
        Some e \<Rightarrow> Inl e
      | None \<Rightarrow>
          ok_or (update_workflow_run now community rid status step trace failure runs)
            (lit ''not found: workflow_run '' @ xa_uuid_string api rid))"

definition execute_run ::
  "engine \<Rightarrow> (nat \<Rightarrow> 'c eval_api) \<Rightarrow> (nat \<Rightarrow> step_io) \<Rightarrow> nat \<Rightarrow> wtext option \<Rightarrow> int \<Rightarrow> exec_db \<Rightarrow> uuid \<Rightarrow> uuid
     \<Rightarrow> workflow_def \<Rightarrow> trigger_context \<Rightarrow> run_record list \<times> effect list \<times> exec_outcome" where
  "execute_run eng ev ios permits db_err now db community rid def ctx =
     (if permits = 0 then (db_runs db, [], Inl (CapacityExceeded, default_progress))
      else
        case store_run (eng_exec eng) db_err now community rid Running 0 (JArray []) None (db_runs db) of
          Inl e \<Rightarrow> (db_runs db, [], Inl (Database e, default_progress))
        | Inr runs \<Rightarrow>
            (runs, execute_steps eng ev ios (db\<lparr>db_runs := runs\<rparr>) community rid def ctx 0 None))"

text \<open>Resuming reads the stored trace first; when that fails, the trace written back is empty.\<close>

definition execute_from_step ::
  "engine \<Rightarrow> (nat \<Rightarrow> 'c eval_api) \<Rightarrow> (nat \<Rightarrow> step_io) \<Rightarrow> nat \<Rightarrow> bool \<Rightarrow> wtext option \<Rightarrow> int \<Rightarrow> exec_db \<Rightarrow> uuid
     \<Rightarrow> uuid \<Rightarrow> workflow_def \<Rightarrow> trigger_context \<Rightarrow> nat \<Rightarrow> step_outputs option
     \<Rightarrow> run_record list \<times> effect list \<times> exec_outcome" where
  "execute_from_step eng ev ios permits read_ok db_err now db community rid def ctx start initial =
     (if permits = 0 then (db_runs db, [], Inl (CapacityExceeded, default_progress))
      else
        let existing_trace =
          (case (if read_ok then get_workflow_run (db_runs db) community rid else None) of
             Some r \<Rightarrow> run_trace r | None \<Rightarrow> JArray []) in
        case store_run (eng_exec eng) db_err now community rid Running (word_of_nat start) existing_trace None
               (db_runs db) of
          Inl e \<Rightarrow> (db_runs db, [], Inl (Database e, default_progress))
        | Inr runs \<Rightarrow>
            (runs, execute_steps eng ev ios (db\<lparr>db_runs := runs\<rparr>) community rid def ctx start initial))"

text \<open>A failed write is logged and the table stays as it is.\<close>

definition finalize_run ::
  "exec_api \<Rightarrow> wtext option \<Rightarrow> int \<Rightarrow> uuid \<Rightarrow> uuid \<Rightarrow> exec_outcome \<Rightarrow> wf_json list option
     \<Rightarrow> run_record list \<Rightarrow> run_record list" where
  "finalize_run api db_err now community rid outcome existing_trace runs =
     (let prefix = (case existing_trace of Some t \<Rightarrow> t | None \<Rightarrow> []);
          written = (\<lambda>r. case r of Inl _ \<Rightarrow> runs | Inr runs' \<Rightarrow> runs') in
      case outcome of
        Inr result \<Rightarrow>
          (let trace_json = JArray (prefix @ er_trace result);
               step_count = word_of_nat (er_step_index result) in
           if er_approval_token result \<noteq> None then
             written (store_run api db_err now community rid Failed step_count trace_json
               (Some (''approval_not_supported'',
                  lit ''approval gates not yet implemented '' @ [8212] @ lit '' see WF-08'')) runs)
           else
             written (store_run api db_err now community rid Completed step_count trace_json None runs))
      | Inl (e, progress) \<Rightarrow>
          written (store_run api db_err now community rid Failed (word_of_nat (pp_step_index progress))
            (JArray (prefix @ pp_trace progress)) (Some (error_code e, error_display e)) runs))"

section \<open>Lemmas\<close>

text \<open>A property of every effect of the actions is a property of every effect of a run.\<close>

lemma dispatch_effects:
  "set (fst (dispatch_action eng io db step action community rid ctx))
     \<subseteq> set (fst (perform_action eng io db step community rid ctx action))"
  by (auto simp: dispatch_action_def split: option.splits prod.splits)

lemma execute_step_effects:
  assumes "\<And>action. resolve_step_templates (eng_template eng) (step_action step) ctx outs = Inr action
      \<Longrightarrow> list_all P (fst (perform_action eng io db step community rid ctx action))"
  shows "list_all P (fst (execute_step eng ev io db community rid ctx outs step))"
  using assms dispatch_effects [of eng io db step _ community rid ctx]
  by (fastforce simp: execute_step_def Let_def list_all_iff
      split: option.splits sum.splits bool.splits step_timing.splits)

lemma execute_loop_effects:
  assumes "\<And>io step outs action. step \<in> set steps
      \<Longrightarrow> resolve_step_templates (eng_template eng) (step_action step) ctx outs = Inr action
      \<Longrightarrow> list_all P (fst (perform_action eng io db step community rid ctx action))"
  shows "list_all P (fst (execute_loop eng ev ios db community rid ctx start i outs trace steps))"
  using assms
proof (induction steps arbitrary: i outs trace)
  case (Cons step steps)
  have step: "list_all P (fst (execute_step eng (ev i) (ios i) db community rid ctx outs step))"
    by (rule execute_step_effects) (rule Cons.prems; simp)
  have rest: "list_all P (fst (execute_loop eng ev ios db community rid ctx start j outs' trace' steps))"
    for j outs' trace' by (rule Cons.IH) (rule Cons.prems; simp)
  obtain effects r where "execute_step eng (ev i) (ios i) db community rid ctx outs step = (effects, r)"
    by fastforce
  then show ?case
    using step rest by (auto simp: case_prod_unfold split: sum.split step_result.split)
qed simp

lemma first_private_None: "first_private ips = None \<longleftrightarrow> list_all (\<lambda>ip. \<not> is_not_global_unicast ip) ips"
  by (induction ips) (auto simp: is_private_ip_def)

lemma check_ssrf_iff:
  "check_ssrf api dns host = Inr ip \<longleftrightarrow>
     (\<exists>addrs. dns = Inr (ip # addrs) \<and> list_all (\<lambda>ip. \<not> is_not_global_unicast ip) (ip # addrs))"
proof (cases dns)
  case (Inr addrs)
  then show ?thesis
    by (cases addrs) (auto simp: check_ssrf_def first_private_None [symmetric] is_private_ip_def split: option.split)
qed (simp add: check_ssrf_def)

lemma call_webhook_effects:
  "list_all (\<lambda>e. \<exists>ip port. e = HttpRequest ip port url mthd headers body \<and> \<not> is_not_global_unicast ip)
     (fst (call_webhook_impl api io url mthd headers body))"
  by (auto simp: call_webhook_impl_def Let_def check_ssrf_iff split: sum.splits option.splits prod.splits)

text \<open>The message that a step posts, when it posts one.\<close>

lemma send_message_effects:
  assumes "e \<in> set (fst (send_message_action eng io db step community rid ctx t channel reply))"
  shows "\<exists>run w channel_id authored c0 r0. get_workflow_run (db_runs db) community rid = Some run
     \<and> get_workflow (db_workflows db) community (run_workflow_id run) = Some w
     \<and> resolve_send_message_channel (eng_exec eng) channel (tc_channel_id ctx) (wr_channel w) = Inr channel_id
     \<and> step_action step = SendMessage authored c0 r0
     \<and> e = PostMessage community channel_id t authored (xa_hex (eng_exec eng) (wr_owner w))
             (if reply then Some (tc_message_id ctx) else None)"
proof -
  note action = assms [unfolded send_message_action_def Let_def]
  obtain run where run: "io_load_run io = None" "get_workflow_run (db_runs db) community rid = Some run"
    using action by (cases "io_load_run io"; cases "get_workflow_run (db_runs db) community rid") simp_all
  obtain w where w: "io_load_workflow io = None"
      "get_workflow (db_workflows db) community (run_workflow_id run) = Some w"
    using action run
    by (cases "io_load_workflow io"; cases "get_workflow (db_workflows db) community (run_workflow_id run)") simp_all
  obtain channel_id where ch:
      "resolve_send_message_channel (eng_exec eng) channel (tc_channel_id ctx) (wr_channel w) = Inr channel_id"
    using action run w
    by (cases "resolve_send_message_channel (eng_exec eng) channel (tc_channel_id ctx) (wr_channel w)") simp_all
  have reply: "\<not> (reply \<and> tc_message_id ctx = [])" using action run w ch by auto
  obtain authored c0 r0 where step: "step_action step = SendMessage authored c0 r0"
    using action run w ch reply by (cases "step_action step") simp_all
  have "eng_sink_ready eng" using action run w ch reply step by (cases "eng_sink_ready eng") simp_all
  then show ?thesis using action run w ch reply step by (simp del: ex_simps)
qed

lemma resolve_channel_of_workflow:
  "resolve_send_message_channel api explicit trigger_channel (Some ch) = Inr channel_id
     \<Longrightarrow> channel_id = xa_uuid_string api ch"
  by (auto simp: resolve_send_message_channel_def Let_def and_then_Inr split: option.splits if_splits)

text \<open>Resolving templates keeps the kind of the action.\<close>

lemma resolve_step_templates_kind:
  assumes "resolve_step_templates api a ctx outs = Inr b"
  shows "(\<exists>u m h x. b = CallWebhook u m h x) \<longleftrightarrow> (\<exists>u m h x. a = CallWebhook u m h x)"
    and "(\<exists>f m t. b = RequestApproval f m t) \<longleftrightarrow> (\<exists>f m t. a = RequestApproval f m t)"
  using assms by (cases a; auto simp: and_then_Inr split: option.splits)+

text \<open>What the effects of one action are, whatever the answers from outside.\<close>

definition effect_bounded :: "trigger_context \<Rightarrow> bool \<Rightarrow> effect \<Rightarrow> bool" where
  "effect_bounded ctx elevated e =
     (case e of
        HttpRequest ip port url mthd headers body \<Rightarrow> elevated \<and> \<not> is_not_global_unicast ip
      | Sleep secs \<Rightarrow> secs \<le> 270
      | PostReaction message_id emoji \<Rightarrow> message_id = tc_message_id ctx \<and> message_id \<noteq> []
      | PostMessage community channel_id t authored author reply \<Rightarrow>
          (case reply of None \<Rightarrow> True | Some m \<Rightarrow> m = tc_message_id ctx))"

lemma perform_action_bounded:
  assumes "resolve_step_templates api (step_action step) ctx outs = Inr action" and "step \<in> set (wf_steps def)"
  shows "list_all (effect_bounded ctx (requires_elevated_authority def))
    (fst (perform_action eng io db step community rid ctx action))"
proof (cases action)
  case (SendMessage t channel reply)
  then show ?thesis
    by (auto simp: list_all_iff effect_bounded_def dest!: send_message_effects)
next
  case (CallWebhook url mthd headers body)
  then obtain u m h x where "step_action step = CallWebhook u m h x"
    using resolve_step_templates_kind(1) [OF assms(1)] by blast
  then have "requires_elevated_authority def"
    using assms(2) by (auto simp: requires_elevated_authority_def list_ex_iff intro!: bexI [of _ step])
  moreover have "list_all (effect_bounded ctx True) (fst (call_webhook_impl api' io url m headers body))" for api' m
    by (rule list.pred_mono_strong [OF call_webhook_effects]) (auto simp: effect_bounded_def)
  ultimately show ?thesis using CallWebhook by (simp add: as_step_def)
next
  case (AddReaction emoji)
  then show ?thesis by (simp add: as_step_def add_reaction_impl_def effect_bounded_def)
next
  case (Delay d)
  then show ?thesis by (auto simp: effect_bounded_def MAX_DELAY_SECS_def split: sum.split)
qed simp_all

lemma execute_steps_bounded:
  "list_all (effect_bounded ctx (requires_elevated_authority def))
     (fst (execute_steps eng ev ios db community rid def ctx start initial))"
  unfolding execute_steps_def
  by (rule execute_loop_effects) (rule perform_action_bounded)

section \<open>Traces\<close>

definition trace_entry_of :: "wf_step \<Rightarrow> wf_json \<Rightarrow> bool" where
  "trace_entry_of step entry \<longleftrightarrow> entry = skipped_entry step \<or> (\<exists>output. entry = completed_entry step output)"

lemma execute_step_suspends:
  assumes "execute_step eng ev io db community rid ctx outs step = (effects, Inr (StepSuspended token))"
  shows "\<exists>f m t. step_action step = RequestApproval f m t"
proof -
  obtain action where action: "resolve_step_templates (eng_template eng) (step_action step) ctx outs = Inr action"
    "dispatch_action eng io db step action community rid ctx = (effects, Inr (StepSuspended token))"
    using assms by (auto simp: execute_step_def Let_def split: option.splits sum.splits bool.splits step_timing.splits)
  then have "snd (perform_action eng io db step community rid ctx action) = Inr (StepSuspended token)"
    by (auto simp: dispatch_action_def split: option.splits prod.splits sum.splits)
  then have "\<exists>f m t. action = RequestApproval f m t"
    by (cases action) (auto simp: send_message_action_def as_step_def and_then_Inr Let_def
        split: option.splits sum.splits if_splits action_def.splits prod.splits)
  then show ?thesis using resolve_step_templates_kind(2) [OF action(1)] by blast
qed

text \<open>Where an execution stands when it ends: the index and the trace that it returns.\<close>

definition outcome_index :: "exec_outcome \<Rightarrow> nat" where
  "outcome_index r = (case r of Inl (_, p) \<Rightarrow> pp_step_index p | Inr x \<Rightarrow> er_step_index x)"

definition outcome_trace :: "exec_outcome \<Rightarrow> wf_json list" where
  "outcome_trace r = (case r of Inl (_, p) \<Rightarrow> pp_trace p | Inr x \<Rightarrow> er_trace x)"

definition outcome_finished :: "exec_outcome \<Rightarrow> bool" where
  "outcome_finished r = (case r of Inl _ \<Rightarrow> False | Inr x \<Rightarrow> er_approval_token x = None)"

lemma execute_loop_trace:
  fixes r :: exec_outcome
  assumes "r = snd (execute_loop eng ev ios db community rid ctx start i outs trace steps)"
  shows "i \<le> outcome_index r \<and> outcome_index r \<le> i + length steps
    \<and> (\<exists>es. outcome_trace r = trace @ es
         \<and> list_all2 trace_entry_of (drop (start - i) (take (outcome_index r - i) steps)) es)
    \<and> (outcome_finished r \<longleftrightarrow> outcome_index r = i + length steps)
    \<and> (case r of Inr x \<Rightarrow> er_approval_token x \<noteq> None \<longrightarrow>
          (\<exists>f m t. step_action (steps ! (outcome_index r - i)) = RequestApproval f m t) | Inl _ \<Rightarrow> True)"
  using assms
proof (induction steps arbitrary: i outs trace)
  case Nil
  then show ?case by (simp add: outcome_index_def outcome_trace_def outcome_finished_def)
next
  case (Cons step steps)
  have later: ?case
    if r: "r = snd (execute_loop eng ev ios db community rid ctx start (Suc i) outs' (trace @ es0) steps)"
      and es0: "list_all2 trace_entry_of (drop (start - i) [step]) es0" for outs' es0
  proof -
    note IH = Cons.IH [OF r]
    let ?n = "outcome_index r"
    obtain es where es: "outcome_trace r = (trace @ es0) @ es"
      "list_all2 trace_entry_of (drop (start - Suc i) (take (?n - Suc i) steps)) es"
      using IH by blast
    have n: "Suc i \<le> ?n" using IH by blast
    then have "?n - i = Suc (?n - Suc i)" by simp
    moreover have "start - Suc i = start - i - 1" by simp
    ultimately have "drop (start - i) (take (?n - i) (step # steps))
        = drop (start - i) [step] @ drop (start - Suc i) (take (?n - Suc i) steps)"
      by (cases "start - i") simp_all
    with \<open>?n - i = Suc (?n - Suc i)\<close> show ?thesis
      using IH n es list_all2_appendI [OF es0 es(2)] by (auto split: sum.splits)
  qed
  show ?case
  proof (cases "i < start")
    case True
    then show ?thesis using Cons.prems later [of outs "[]"] by (auto simp: list_all2_conv_all_nth)
  next
    case False
    obtain effects x where x: "execute_step eng (ev i) (ios i) db community rid ctx outs step = (effects, x)"
      by fastforce
    consider (err) e where "x = Inl e" | (fin) out where "x = Inr (StepCompleted out)"
      | (wait) tok where "x = Inr (StepSuspended tok)" | (skip) "x = Inr StepSkipped"
      by (cases x; cases "projr x") auto
    then show ?thesis
    proof cases
      case fin
      then show ?thesis
        using Cons.prems False x later [of "AList.update (step_id step) out outs" "[completed_entry step out]"]
        by (auto simp: case_prod_unfold trace_entry_of_def)
    next
      case skip
      then show ?thesis
        using Cons.prems False x later [of outs "[skipped_entry step]"]
        by (auto simp: case_prod_unfold trace_entry_of_def)
    next
      case err
      then show ?thesis
        using Cons.prems False x by (simp add: outcome_index_def outcome_trace_def outcome_finished_def)
    next
      case wait
      then show ?thesis
        using Cons.prems False x execute_step_suspends
        by (fastforce simp: outcome_index_def outcome_trace_def outcome_finished_def)
    qed
  qed
qed

section \<open>The run row\<close>

lemma update_workflow_run_get:
  assumes "update_workflow_run now community i status step trace failure runs = Some runs'"
  shows "get_workflow_run runs' c j =
    (if c = community \<and> j = i then map_option (updated_run now status step trace failure) (get_workflow_run runs c j)
     else get_workflow_run runs c j)"
proof -
  let ?f = "\<lambda>r. if run_community r = community \<and> run_id r = i then updated_run now status step trace failure r else r"
  have keys: "run_community (?f r) = run_community r" "run_id (?f r) = run_id r" for r
    by (simp_all add: updated_run_def)
  have "runs' = map ?f runs" using assms by (auto simp: update_workflow_run_def split: if_splits)
  moreover have "find (\<lambda>r. run_community r = c \<and> run_id r = j) (map ?f rs) =
      map_option ?f (find (\<lambda>r. run_community r = c \<and> run_id r = j) rs)" for rs
    by (induction rs) (simp_all add: keys)
  ultimately have main: "get_workflow_run runs' c j = map_option ?f (get_workflow_run runs c j)"
    unfolding get_workflow_run_def by blast
  show ?thesis
  proof (cases "get_workflow_run runs c j")
    case (Some r)
    then have "run_community r = c" "run_id r = j" by (auto simp: get_workflow_run_def find_Some_iff)
    with Some show ?thesis unfolding main by auto
  qed (auto simp: main)
qed

lemma update_workflow_run_defined:
  "update_workflow_run now community i status step trace failure runs \<noteq> None
     \<longleftrightarrow> get_workflow_run runs community i \<noteq> None"
  by (auto simp: update_workflow_run_def get_workflow_run_def find_None_iff list_ex_iff)

lemma store_run_get:
  assumes "get_workflow_run runs community i = Some r"
  shows "\<exists>runs'. store_run api None now community i status step trace failure runs = Inr runs'
    \<and> get_workflow_run runs' community i = Some (updated_run now status step trace failure r)
    \<and> (\<forall>c j. (c, j) \<noteq> (community, i) \<longrightarrow> get_workflow_run runs' c j = get_workflow_run runs c j)"
proof -
  obtain runs' where "update_workflow_run now community i status step trace failure runs = Some runs'"
    using update_workflow_run_defined assms by fastforce
  then show ?thesis
    using assms update_workflow_run_get [of now community i status step trace failure runs runs']
    by (auto simp: store_run_def)
qed

text \<open>The status that an outcome is stored as.\<close>

definition final_status :: "exec_outcome \<Rightarrow> run_status" where
  "final_status r = (if outcome_finished r then Completed else Failed)"

definition final_failure :: "exec_outcome \<Rightarrow> (string \<times> wtext) option" where
  "final_failure r =
     (case r of
        Inl (e, _) \<Rightarrow> Some (error_code e, error_display e)
      | Inr x \<Rightarrow>
          if er_approval_token x = None then None
          else Some (''approval_not_supported'', lit ''approval gates not yet implemented '' @ [8212] @ lit '' see WF-08''))"

lemma finalize_run_unfold:
  "finalize_run api db_err now community rid outcome existing runs =
     (case store_run api db_err now community rid (final_status outcome) (word_of_nat (outcome_index outcome))
             (JArray ((case existing of Some t \<Rightarrow> t | None \<Rightarrow> []) @ outcome_trace outcome)) (final_failure outcome) runs of
        Inl _ \<Rightarrow> runs | Inr runs' \<Rightarrow> runs')"
  by (auto simp: finalize_run_def final_status_def final_failure_def outcome_index_def outcome_trace_def
      outcome_finished_def Let_def split: sum.split prod.split)

section \<open>Properties\<close>

definition sample_exec_api :: exec_api where
  "sample_exec_api =
     \<lparr>xa_uuid_parse = (\<lambda>_. Inl []), xa_uuid_string = (\<lambda>u. lit (show_nat (unat u))), xa_hex = map unat,
      xa_url_parse = (\<lambda>_. Inl []), xa_method_err = (\<lambda>_. None), xa_ip_string = (\<lambda>_. [])\<rparr>"

definition sample_engine :: engine where
  "sample_engine = \<lparr>eng_template = sample_template_api, eng_exec = sample_exec_api, eng_sink_ready = True,
     eng_default_timeout_secs = 300\<rparr>"

definition sample_io :: step_io where
  "sample_io =
     \<lparr>io_fence = None, io_verify = None, io_protect = None, io_finish = None, io_load_run = None,
      io_load_workflow = None, io_sink = Inr (lit ''e1''), io_reaction = Inl [], io_dns = Inl [], io_client = None,
      io_response = Inl [], io_token = 5, io_timing = InTime\<rparr>"

definition sample_db :: exec_db where
  "sample_db =
     \<lparr>db_runs = create_workflow_run 3 1 2 None None [],
      db_workflows = [\<lparr>wr_id = 2, wr_community = 1, wr_owner = [9], wr_channel = Some 7, wr_definition = JNull,
        wr_status = Active, wr_enabled = True, wr_created_at = 0\<rparr>]\<rparr>"

definition sample_def :: workflow_def where
  "sample_def =
     \<lparr>wf_name = lit ''n'', wf_description = None, wf_trigger = MessagePosted None,
      wf_steps = [\<lparr>step_id = lit ''say'', step_name = None, if_expr = None, timeout_secs = None,
          step_action = SendMessage (lit ''hello'') None False\<rparr>,
        \<lparr>step_id = lit ''gate'', step_name = None, if_expr = None, timeout_secs = None,
          step_action = RequestApproval (lit ''lead'') (lit ''ok?'') None\<rparr>],
      wf_def_enabled = True\<rparr>"

lemmas sample_defs =
  sample_exec_api_def sample_engine_def sample_io_def sample_db_def sample_def_def

lemma sample_template [simp]:
  "resolve_template api (lit ''hello'') ctx outs = Inr (lit ''hello'')"
  "resolve_template api (lit ''lead'') ctx outs = Inr (lit ''lead'')"
  "resolve_template api (lit ''ok?'') ctx outs = Inr (lit ''ok?'')"
  by (simp_all add: resolve_template_def open_braces_def lit_def)

lemma sample_execution:
  "execute_steps sample_engine (\<lambda>_. std_eval_api) (\<lambda>_. sample_io) sample_db 1 3 sample_def (sample_webhook []) 0 None
   = ([PostMessage 1 (lit (show_nat 7)) (lit ''hello'') (lit ''hello'') [9] None],
      Inr \<lparr>er_approval_token = Some (lit (show_nat 5)), er_step_index = 1,
        er_step_outputs = [(lit ''say'', JObject [(lit ''event_id'', JString (lit ''e1'')), (lit ''sent'', JBool True)])],
        er_trace = [completed_entry (hd (wf_steps sample_def))
          (JObject [(lit ''event_id'', JString (lit ''e1'')), (lit ''sent'', JBool True)])]\<rparr>)"
  by (simp add: sample_defs execute_steps_def execute_step_def dispatch_action_def send_message_action_def
      get_workflow_run_def get_workflow_def create_workflow_run_def resolve_send_message_channel_def
      resolve_opt_def Let_def)

text \<open>C36. A run posts messages only into the channel of its own workflow: whatever the step's channel
  field, the templates, the trigger and the answers from outside are, a message that an execution posts
  goes to the run's community and to the workflow's channel, is attributed to the workflow's owner, and
  carries as authored text the unresolved text of one of the definition's own steps.\<close>

theorem run_posts_only_to_own_channel:
  assumes "get_workflow_run (db_runs db) community rid = Some run"
    and "get_workflow (db_workflows db) community (run_workflow_id run) = Some w"
    and "wr_channel w = Some ch"
  shows "list_all (\<lambda>e. case e of
      PostMessage c channel_id t authored author reply \<Rightarrow>
        c = community \<and> channel_id = xa_uuid_string (eng_exec eng) ch
        \<and> author = xa_hex (eng_exec eng) (wr_owner w)
        \<and> list_ex (\<lambda>s. \<exists>c0 r0. step_action s = SendMessage authored c0 r0) (wf_steps def)
    | _ \<Rightarrow> True) (fst (execute_steps eng ev ios db community rid def ctx start initial))"
  unfolding execute_steps_def
proof (rule execute_loop_effects, goal_cases)
  case (1 io step outs action)
  show ?case
  proof (cases action)
    case (SendMessage t channel reply)
    then show ?thesis
      using 1(1) assms
      by (fastforce simp: list_all_iff list_ex_iff dest!: send_message_effects resolve_channel_of_workflow)
  next
    case (CallWebhook url mthd headers body)
    then show ?thesis
      by (auto simp: as_step_def intro!: list.pred_mono_strong [OF call_webhook_effects])
  qed (auto simp: as_step_def add_reaction_impl_def split: sum.split)
qed

theorem run_posts_only_to_own_channel_witness:
  "\<exists>w. get_workflow (db_workflows sample_db) 1 2 = Some w \<and> wr_channel w = Some 7
     \<and> (case hd (fst (execute_steps sample_engine (\<lambda>_. std_eval_api) (\<lambda>_. sample_io) sample_db 1 3 sample_def
              (sample_webhook []) 0 None)) of
          PostMessage c channel_id t authored author reply \<Rightarrow>
            c = 1 \<and> channel_id = xa_uuid_string sample_exec_api 7 \<and> author = xa_hex sample_exec_api (wr_owner w)
        | _ \<Rightarrow> False)"
proof -
  let ?w = "hd (db_workflows sample_db)" and ?r = "hd (db_runs sample_db)"
  have "get_workflow_run (db_runs sample_db) 1 3 = Some ?r" "get_workflow (db_workflows sample_db) 1 (run_workflow_id ?r) = Some ?w"
    "wr_channel ?w = Some 7" "run_workflow_id ?r = 2" "eng_exec sample_engine = sample_exec_api"
    by (simp_all add: sample_defs create_workflow_run_def get_workflow_run_def get_workflow_def)
  with run_posts_only_to_own_channel [of sample_db 1 3 ?r ?w 7 sample_engine sample_def "\<lambda>_. std_eval_api"
      "\<lambda>_. sample_io" "sample_webhook []" 0 None]
  show ?thesis by (auto simp: sample_execution)
qed


text \<open>The index and the trace that an execution returns account for every step: when it stops at
  index \<open>n\<close>, the trace holds exactly one entry, completed or skipped, for each step from the start index
  up to \<open>n\<close>, in order; the run is finished exactly when \<open>n\<close> is the number of steps, and a suspended run
  stands at an approval step.\<close>

theorem execution_accounts_for_steps:
  fixes outcome :: exec_outcome
  assumes "outcome = snd (execute_steps eng ev ios db community rid def ctx start initial)"
  shows "list_all2 trace_entry_of (drop start (take (outcome_index outcome) (wf_steps def))) (outcome_trace outcome)
    \<and> outcome_index outcome \<le> length (wf_steps def)
    \<and> (outcome_finished outcome \<longleftrightarrow> outcome_index outcome = length (wf_steps def))
    \<and> (case outcome of Inr x \<Rightarrow> er_approval_token x \<noteq> None \<longrightarrow>
          (\<exists>f m t. step_action (wf_steps def ! outcome_index outcome) = RequestApproval f m t) | Inl _ \<Rightarrow> True)"
  using execute_loop_trace [OF assms [unfolded execute_steps_def]] unfolding diff_zero by auto

theorem execution_accounts_for_steps_witness:
  "let outcome = snd (execute_steps sample_engine (\<lambda>_. std_eval_api) (\<lambda>_. sample_io) sample_db 1 3 sample_def
       (sample_webhook []) 0 None) in
   outcome_index outcome = 1 \<and> length (outcome_trace outcome) = 1 \<and> \<not> outcome_finished outcome
   \<and> (\<exists>f m t. step_action (wf_steps sample_def ! 1) = RequestApproval f m t)"
  using execution_accounts_for_steps [where eng = sample_engine and ev = "\<lambda>_. std_eval_api" and ios = "\<lambda>_. sample_io"
      and db = sample_db and community = 1 and rid = 3 and def = sample_def and ctx = "sample_webhook []"
      and start = 0 and initial = None, OF refl]
  unfolding sample_execution by (simp add: outcome_index_def outcome_trace_def outcome_finished_def)

text \<open>C38. Every run that is spawned ends: when the run's row exists and the writes succeed, executing
  and finalizing leaves the row completed, with the full trace, if the execution finished, and otherwise
  failed with the code and text of the error, also when no permit was free or an approval gate was
  reached; it carries a completion time, and no other run of any community is touched.\<close>

theorem spawned_run_ends:
  assumes "get_workflow_run (db_runs db) community rid = Some run"
    and "execute_run eng ev ios permits None now db community rid def ctx = (runs, effects, outcome)"
  shows "\<exists>run'. get_workflow_run (finalize_run (eng_exec eng) None now' community rid outcome None runs) community rid
        = Some run'
    \<and> run_status run' = final_status outcome \<and> run_failure run' = final_failure outcome
    \<and> run_trace run' = JArray (outcome_trace outcome) \<and> run_completed_at run' = Some now'
    \<and> (\<forall>c j. (c, j) \<noteq> (community, rid) \<longrightarrow>
         get_workflow_run (finalize_run (eng_exec eng) None now' community rid outcome None runs) c j
         = get_workflow_run (db_runs db) c j)"
proof -
  obtain runs1 where started: "store_run (eng_exec eng) None now community rid Running 0 (JArray []) None (db_runs db) = Inr runs1"
    "get_workflow_run runs1 community rid = Some (updated_run now Running 0 (JArray []) None run)"
    "\<forall>c j. (c, j) \<noteq> (community, rid) \<longrightarrow> get_workflow_run runs1 c j = get_workflow_run (db_runs db) c j"
    using store_run_get [OF assms(1)] by blast
  have "runs = db_runs db \<or> runs = runs1"
    using assms(2) started(1) by (auto simp: execute_run_def split: if_splits)
  then obtain r where r: "get_workflow_run runs community rid = Some r"
    "\<forall>c j. (c, j) \<noteq> (community, rid) \<longrightarrow> get_workflow_run runs c j = get_workflow_run (db_runs db) c j"
    using assms(1) started(2,3) by metis
  obtain runs2 where "store_run (eng_exec eng) None now' community rid (final_status outcome)
      (word_of_nat (outcome_index outcome)) (JArray ([] @ outcome_trace outcome)) (final_failure outcome) runs = Inr runs2"
    "get_workflow_run runs2 community rid = Some (updated_run now' (final_status outcome)
      (word_of_nat (outcome_index outcome)) (JArray ([] @ outcome_trace outcome)) (final_failure outcome) r)"
    "\<forall>c j. (c, j) \<noteq> (community, rid) \<longrightarrow> get_workflow_run runs2 c j = get_workflow_run runs c j"
    using store_run_get [OF r(1)] by blast
  then show ?thesis
    using r(2) by (simp add: finalize_run_unfold) (simp add: updated_run_def final_status_def)
qed

theorem spawned_run_ends_witness:
  "\<exists>runs effects outcome run'.
     execute_run sample_engine (\<lambda>_. std_eval_api) (\<lambda>_. sample_io) 0 None 10 sample_db 1 3 sample_def (sample_webhook [])
       = (runs, effects, outcome)
     \<and> get_workflow_run (finalize_run sample_exec_api None 11 1 3 outcome None runs) 1 3 = Some run'
     \<and> run_status run' = Failed \<and> run_completed_at run' = Some 11"
proof -
  let ?r = "hd (db_runs sample_db)"
  have "get_workflow_run (db_runs sample_db) 1 3 = Some ?r" "eng_exec sample_engine = sample_exec_api"
    by (simp_all add: sample_defs create_workflow_run_def get_workflow_run_def)
  moreover have run: "execute_run sample_engine (\<lambda>_. std_eval_api) (\<lambda>_. sample_io) 0 None 10 sample_db 1 3 sample_def
      (sample_webhook []) = (db_runs sample_db, [], Inl (CapacityExceeded, default_progress))"
    by (simp add: execute_run_def)
  ultimately show ?thesis
    using spawned_run_ends [OF _ run, of ?r 11] by (auto simp: final_status_def outcome_finished_def run)
qed

end
