(* ===== verification/Workflow_Engine.thy ===== *)
theory Workflow_Engine
  imports Workflow_Exec Event_Filter
begin

text \<open>
  The workflow engine: \<open>crates/maju-workflow/src/lib.rs\<close> (owner authority, event triggers, the cron and
  interval scheduler) over the tables of \<open>crates/maju-db/src/store/workflow.rs\<close> and
  \<open>channel_members.rs\<close>.

  The database is a record of tables, shared by all pods; a pod's own state is the \<open>last_fired\<close> map and
  the workflow cache. Times are nanoseconds since the Unix epoch. The handler of one workflow in a
  scheduler tick is split at its database calls (decide, check authority, claim, create), so that the
  same definitions serve the tick of the code, which composes them, and the step relation
  \<open>cluster_step\<close>, in which any number of pods interleave them, crash and restart while the other tables
  change. What a call to the database answers beyond the table's content (failures, fresh ids) is the
  argument \<open>io\<close>. The \<open>cron\<close> and \<open>chrono\<close> crates and the serde decoding of a stored definition are fields
  of \<open>sched_api\<close>.
\<close>

section \<open>Tables\<close>

record member_row =
  mr_community :: uuid
  mr_channel :: uuid
  mr_pubkey :: bytes
  mr_role :: string
  mr_removed :: bool

record channel_row =
  cr_community :: uuid
  cr_id :: uuid
  cr_deleted :: bool

record fire_row =
  fr_community :: uuid
  fr_workflow :: uuid
  fr_scheduled_for :: int
  fr_run :: "uuid option"

record wf_db =
  tb_workflows :: "workflow_record list"
  tb_archived :: "uuid list"
  tb_channels :: "channel_row list"
  tb_members :: "member_row list"
  tb_runs :: "run_record list"
  tb_fires :: "fire_row list"

definition LIST_MAX_LIMIT :: nat where "LIST_MAX_LIMIT = 1000"

definition get_member_role :: "wf_db \<Rightarrow> uuid \<Rightarrow> uuid \<Rightarrow> bytes \<Rightarrow> string option" where
  "get_member_role db community channel pubkey =
     map_option mr_role
       (find (\<lambda>m. mr_community m = community \<and> mr_channel m = channel \<and> mr_pubkey m = pubkey
               \<and> \<not> mr_removed m
               \<and> list_ex (\<lambda>c. cr_community c = community \<and> cr_id c = channel \<and> \<not> cr_deleted c) (tb_channels db))
          (tb_members db))"

definition list_enabled_channel_workflows :: "wf_db \<Rightarrow> uuid \<Rightarrow> uuid \<Rightarrow> workflow_record list" where
  "list_enabled_channel_workflows db community channel =
     take LIST_MAX_LIMIT (sort_key (\<lambda>w. - wr_created_at w)
       (filter (\<lambda>w. wr_community w = community \<and> wr_channel w = Some channel \<and> wr_status w = Active \<and> wr_enabled w)
          (tb_workflows db)))"

text \<open>\<open>trigger_is_schedule\<close> is the SQL test on the stored JSON that the trigger is a schedule.\<close>

definition trigger_is_schedule :: "wf_json \<Rightarrow> bool" where
  "trigger_is_schedule d =
     (case d of
        JObject m \<Rightarrow>
          (case map_of m (lit ''trigger'') of
             Some (JObject t) \<Rightarrow> map_of t (lit ''on'') = Some (JString (lit ''schedule''))
           | _ \<Rightarrow> False)
      | _ \<Rightarrow> False)"

definition list_all_enabled_workflows :: "wf_db \<Rightarrow> workflow_record list" where
  "list_all_enabled_workflows db =
     take LIST_MAX_LIMIT (sort_key wr_created_at
       (filter (\<lambda>w. wr_status w = Active \<and> wr_enabled w \<and> trigger_is_schedule (wr_definition w)
               \<and> wr_community w \<notin> set (tb_archived db))
          (tb_workflows db)))"

definition fire_key :: "fire_row \<Rightarrow> uuid \<times> uuid \<times> int" where
  "fire_key r = (fr_community r, fr_workflow r, fr_scheduled_for r)"

text \<open>The claim: insert a row for an existing workflow unless its key is taken; true when inserted.\<close>

definition claim_scheduled_workflow_fire :: "wf_db \<Rightarrow> uuid \<times> uuid \<times> int \<Rightarrow> wf_db \<times> bool" where
  "claim_scheduled_workflow_fire db key =
     (case key of (community, workflow, scheduled_for) \<Rightarrow>
        if list_ex (\<lambda>w. wr_community w = community \<and> wr_id w = workflow) (tb_workflows db)
           \<and> key \<notin> set (map fire_key (tb_fires db))
        then (db\<lparr>tb_fires := tb_fires db @ [\<lparr>fr_community = community, fr_workflow = workflow,
                fr_scheduled_for = scheduled_for, fr_run = None\<rparr>]\<rparr>, True)
        else (db, False))"

definition latest_scheduled_workflow_fire :: "wf_db \<Rightarrow> uuid \<Rightarrow> uuid \<Rightarrow> int option" where
  "latest_scheduled_workflow_fire db community workflow =
     (let ts = map fr_scheduled_for
                 (filter (\<lambda>r. fr_community r = community \<and> fr_workflow r = workflow) (tb_fires db)) in
      if ts = [] then None else Some (foldr max (tl ts) (hd ts)))"

definition attach_scheduled_workflow_run :: "wf_db \<Rightarrow> uuid \<times> uuid \<times> int \<Rightarrow> uuid \<Rightarrow> wf_db" where
  "attach_scheduled_workflow_run db key rid =
     db\<lparr>tb_fires := map (\<lambda>r. if fire_key r = key \<and> fr_run r = None then r\<lparr>fr_run := Some rid\<rparr> else r) (tb_fires db)\<rparr>"

section \<open>Owner authority\<close>

definition owner_authority_allows :: "string option \<Rightarrow> bool \<Rightarrow> bool" where
  "owner_authority_allows role needs_elevated =
     (case role of
        None \<Rightarrow> False
      | Some r \<Rightarrow> if needs_elevated then r = ''owner'' \<or> r = ''admin'' else True)"

text \<open>\<open>err\<close> is the text of a failed lookup, which denies.\<close>

definition check_owner_authority ::
  "wtext option \<Rightarrow> wf_db \<Rightarrow> uuid \<Rightarrow> uuid \<Rightarrow> bytes \<Rightarrow> workflow_def \<Rightarrow> workflow_error + unit" where
  "check_owner_authority err db community channel owner def =
     (case err of
        Some e \<Rightarrow> Inl (Unauthorized (lit ''owner authority lookup failed (fail-closed): '' @ e))
      | None \<Rightarrow>
          if owner_authority_allows (get_member_role db community channel owner) (requires_elevated_authority def)
          then Inr ()
          else Inl (Unauthorized (lit ''workflow owner lacks current channel authority'')))"

section \<open>Event triggers\<close>

definition event_is_reply :: "nostr_event \<Rightarrow> bool" where
  "event_is_reply event \<longleftrightarrow> tm_reply (parse_thread_markers (ev_tags event)) \<noteq> None"

text \<open>Event strings are UTF-8 bytes; hexadecimal and UUID texts are ASCII.\<close>

definition str_chars :: "string \<Rightarrow> wtext" where
  "str_chars s = utf8_lossy (map of_char s)"

definition reaction_target :: "nostr_api \<Rightarrow> tag list \<Rightarrow> string option" where
  "reaction_target api tags =
     (case filter (\<lambda>t. api_tag_kind api t = ''e''
              \<and> (case api_tag_content api t of
                   Some v \<Rightarrow> length v = 64 \<and> list_all is_ascii_hexdigit v | None \<Rightarrow> False)) (rev tags) of
        [] \<Rightarrow> None
      | t # _ \<Rightarrow> api_tag_content api t)"

definition build_trigger_context :: "nostr_api \<Rightarrow> stored_event \<Rightarrow> trigger_context" where
  "build_trigger_context api stored =
     (let event = se_event stored;
          content = str_chars (ev_content event);
          reaction = event_kind_u32 event = KIND_REACTION;
          own_id = api_hex api (ev_id event) in
      \<lparr>tc_text = content,
       tc_author = str_chars (api_hex api (ev_pubkey event)),
       tc_channel_id = (case se_channel_id stored of Some c \<Rightarrow> str_chars (api_uuid_string api c) | None \<Rightarrow> []),
       tc_timestamp = lit (show_nat (unat (ev_created_at event))),
       tc_emoji = (if reaction then content else []),
       tc_message_id = str_chars (if reaction
          then (case reaction_target api (ev_tags event) of Some v \<Rightarrow> v | None \<Rightarrow> own_id) else own_id),
       tc_is_reply = event_is_reply event,
       tc_webhook_fields = []\<rparr>)"

definition trigger_matches_event :: "trigger_def \<Rightarrow> u32 \<Rightarrow> bool" where
  "trigger_matches_event trigger kind =
     (case trigger of
        MessagePosted _ \<Rightarrow> kind = KIND_STREAM_MESSAGE
      | ReactionAdded _ _ \<Rightarrow> kind = KIND_REACTION
      | DiffPosted _ \<Rightarrow> kind = KIND_STREAM_MESSAGE_DIFF
      | Schedule _ _ \<Rightarrow> False
      | Webhook \<Rightarrow> False)"

definition should_fire_workflow ::
  "template_api \<Rightarrow> 'c eval_api \<Rightarrow> workflow_def \<Rightarrow> trigger_context \<Rightarrow> bool" where
  "should_fire_workflow tapi ev def ctx =
     (if (case wf_trigger def of ReactionAdded (Some expected) _ \<Rightarrow> tc_emoji ctx \<noteq> expected | _ \<Rightarrow> False)
      then False
      else
        case (case wf_trigger def of
                MessagePosted f \<Rightarrow> f | ReactionAdded _ f \<Rightarrow> f | DiffPosted f \<Rightarrow> f
              | Schedule _ _ \<Rightarrow> None | Webhook \<Rightarrow> None) of
          None \<Rightarrow> True
        | Some expr \<Rightarrow> evaluate_condition tapi ev expr ctx [] = Inr True)"

text \<open>What the database answers for one workflow of a handler, and the fresh run id.\<close>

record fire_io =
  fi_anchor_failed :: bool
  fi_role_err :: "wtext option"
  fi_claim_failed :: bool
  fi_create_failed :: bool
  fi_attach_failed :: bool
  fi_run_id :: uuid

record sched_api =
  sa_parse_def :: "wf_json \<Rightarrow> workflow_def option"
  sa_cron_parse :: "wtext \<Rightarrow> (int \<Rightarrow> int option) option"
  sa_from_timestamp :: "int \<Rightarrow> int option"

text \<open>A spawned execution: the arguments of the task that runs \<open>execute_run\<close> and \<open>finalize_run\<close>.\<close>

record spawn =
  sp_community :: uuid
  sp_workflow :: workflow_record
  sp_run_id :: uuid
  sp_def :: workflow_def
  sp_ctx :: trigger_context

text \<open>The body of the loop of \<open>on_event\<close> for one workflow of the channel.\<close>

definition fire_on_event ::
  "sched_api \<Rightarrow> template_api \<Rightarrow> 'c eval_api \<Rightarrow> fire_io \<Rightarrow> uuid \<Rightarrow> uuid \<Rightarrow> u32 \<Rightarrow> bytes \<Rightarrow> trigger_context
     \<Rightarrow> workflow_record \<Rightarrow> wf_db \<Rightarrow> wf_db \<times> spawn list" where
  "fire_on_event sapi tapi ev io community channel kind event_id ctx w db =
     (case sa_parse_def sapi (wr_definition w) of
        None \<Rightarrow> (db, [])
      | Some def \<Rightarrow>
          if \<not> wf_def_enabled def \<or> \<not> trigger_matches_event (wf_trigger def) kind then (db, [])
          else if \<not> should_fire_workflow tapi ev def ctx then (db, [])
          else
            case check_owner_authority (fi_role_err io) db community channel (wr_owner w) def of
              Inl e \<Rightarrow> (db, [])
            | Inr _ \<Rightarrow>
                if fi_create_failed io then (db, [])
                else
                  (db\<lparr>tb_runs := create_workflow_run (fi_run_id io) community (wr_id w) (Some event_id) (Some ctx) (tb_runs db)\<rparr>,
                   [\<lparr>sp_community = community, sp_workflow = w, sp_run_id = fi_run_id io, sp_def = def, sp_ctx = ctx\<rparr>]))"

fun fire_all ::
  "(workflow_record \<Rightarrow> wf_db \<Rightarrow> wf_db \<times> spawn list) \<Rightarrow> workflow_record list \<Rightarrow> wf_db \<Rightarrow> wf_db \<times> spawn list" where
  "fire_all f [] db = (db, [])"
| "fire_all f (w # ws) db =
     (case f w db of (db1, s1) \<Rightarrow> (case fire_all f ws db1 of (db2, s2) \<Rightarrow> (db2, s1 @ s2)))"

type_synonym wf_cache = "(uuid \<times> uuid, int \<times> workflow_record list) hmap"

text \<open>The workflow cache holds a list for ten seconds; moka may also drop an entry early.\<close>

definition cache_get :: "int \<Rightarrow> bool \<Rightarrow> wf_cache \<Rightarrow> uuid \<times> uuid \<Rightarrow> workflow_record list option" where
  "cache_get now evicted cache key =
     (case map_of cache key of
        Some (at, ws) \<Rightarrow> if evicted \<or> now \<ge> at + 10 * 10 ^ 9 then None else Some ws
      | None \<Rightarrow> None)"

definition on_event ::
  "sched_api \<Rightarrow> nostr_api \<Rightarrow> template_api \<Rightarrow> 'c eval_api \<Rightarrow> (workflow_record \<Rightarrow> fire_io) \<Rightarrow> int \<Rightarrow> bool \<Rightarrow> wtext option
     \<Rightarrow> uuid \<Rightarrow> stored_event \<Rightarrow> wf_db \<times> wf_cache \<Rightarrow> (wf_db \<times> wf_cache) \<times> (workflow_error + spawn list)" where
  "on_event sapi napi tapi ev io now evicted list_err community stored s =
     (case s of (db, cache) \<Rightarrow>
        case se_channel_id stored of
          None \<Rightarrow> (s, Inr [])
        | Some channel \<Rightarrow>
            (let kind = event_kind_u32 (se_event stored) in
             if is_workflow_execution_kind kind then (s, Inr [])
             else
               let key = (community, channel) in
               case (case cache_get now evicted cache key of
                       Some ws \<Rightarrow> Inr (ws, cache)
                     | None \<Rightarrow>
                         (case list_err of
                            Some e \<Rightarrow> Inl (Database e)
                          | None \<Rightarrow>
                              (let fresh = list_enabled_channel_workflows db community channel in
                               Inr (fresh, AList.update key (now, fresh) cache)))) of
                 Inl e \<Rightarrow> (s, Inl e)
               | Inr (workflows, cache') \<Rightarrow>
                   if workflows = [] then ((db, cache'), Inr [])
                   else
                     (case fire_all (\<lambda>w. fire_on_event sapi tapi ev (io w) community channel kind
                               (ev_id (se_event stored)) (build_trigger_context napi stored) w) workflows db of
                        (db', spawned) \<Rightarrow> ((db', cache'), Inr spawned))))"

definition invalidate_channel_workflows :: "uuid \<Rightarrow> uuid \<Rightarrow> wf_cache \<Rightarrow> wf_cache" where
  "invalidate_channel_workflows community channel cache = AList.delete (community, channel) cache"

section \<open>Schedules\<close>

definition timestamp :: "int \<Rightarrow> int" where
  "timestamp t = t div 10 ^ 9"

text \<open>\<open>i64::div_euclid\<close>, and the cast of the interval to \<open>i64\<close>, which wraps.\<close>

definition div_euclid :: "int \<Rightarrow> int \<Rightarrow> int" where
  "div_euclid a b = sgn b * (a div \<bar>b\<bar>)"

definition interval_fire_instant :: "sched_api \<Rightarrow> wtext \<Rightarrow> int \<Rightarrow> int option" where
  "interval_fire_instant sapi dur now =
     (case parse_duration_secs dur of
        Inr interval_secs \<Rightarrow>
          if interval_secs > 0 then
            (let secs = sint interval_secs; interval_bucket = div_euclid (timestamp now) secs * secs in
             sa_from_timestamp sapi interval_bucket)
          else None
      | Inl _ \<Rightarrow> None)"

text \<open>\<open>num_seconds\<close> truncates, so that the absolute value is rounded down.\<close>

definition interval_should_fire :: "wtext \<Rightarrow> int option \<Rightarrow> int \<Rightarrow> bool" where
  "interval_should_fire dur last_fired now =
     (case parse_duration_secs dur of
        Inr interval_secs \<Rightarrow>
          (let anchor = (case last_fired of Some t \<Rightarrow> t | None \<Rightarrow> now); elapsed = \<bar>now - anchor\<bar> div 10 ^ 9 in
           elapsed \<ge> uint interval_secs)
      | Inl _ \<Rightarrow> False)"

type_synonym last_fired_map = "(uuid \<times> uuid, int) hmap"

definition interval_prefilter_should_fire ::
  "last_fired_map \<Rightarrow> uuid \<Rightarrow> uuid \<Rightarrow> wtext \<Rightarrow> int option \<Rightarrow> int \<Rightarrow> last_fired_map \<times> bool" where
  "interval_prefilter_should_fire last_fired community workflow dur anchor now =
     (if interval_should_fire dur anchor now then (last_fired, True)
      else ((if anchor = None then AList.update (community, workflow) now last_fired else last_fired), False))"

definition cron_fire_instant :: "sched_api \<Rightarrow> wtext \<Rightarrow> int \<Rightarrow> int \<Rightarrow> int option" where
  "cron_fire_instant sapi expr now window_secs =
     (case sa_cron_parse sapi (normalize_cron expr) of
        Some after \<Rightarrow>
          (case after (now - window_secs * 10 ^ 9) of
             Some t \<Rightarrow> if t \<le> now then Some t else None
           | None \<Rightarrow> None)
      | None \<Rightarrow> None)"

text \<open>A fire that the scheduler has decided on for a workflow.\<close>

record fire =
  fi_workflow :: workflow_record
  fi_def :: workflow_def
  fi_channel :: uuid
  fi_instant :: int
  fi_interval :: bool
  fi_now :: int

definition fire_claim_key :: "fire \<Rightarrow> uuid \<times> uuid \<times> int" where
  "fire_claim_key f = (wr_community (fi_workflow f), wr_id (fi_workflow f), fi_instant f)"

definition decide_fire ::
  "sched_api \<Rightarrow> fire_io \<Rightarrow> int \<Rightarrow> wf_db \<Rightarrow> workflow_record \<Rightarrow> last_fired_map \<Rightarrow> last_fired_map \<times> fire option" where
  "decide_fire sapi io now db w lf =
     (case sa_parse_def sapi (wr_definition w) of
        None \<Rightarrow> (lf, None)
      | Some def \<Rightarrow>
          if \<not> wf_def_enabled def then (lf, None)
          else
            case wr_channel w of
              None \<Rightarrow> (lf, None)
            | Some channel \<Rightarrow>
                (let fire = (\<lambda>interval instant.
                       \<lparr>fi_workflow = w, fi_def = def, fi_channel = channel, fi_instant = instant,
                        fi_interval = interval, fi_now = now\<rparr>) in
                 case wf_trigger def of
                   Schedule (Some expr) None \<Rightarrow>
                     (lf, map_option (fire False) (cron_fire_instant sapi expr now 60))
                 | Schedule None (Some dur) \<Rightarrow>
                     (let key = (wr_community w, wr_id w);
                          anchor = (case map_of lf key of
                              Some t \<Rightarrow> Some t
                            | None \<Rightarrow> if fi_anchor_failed io then None
                                     else latest_scheduled_workflow_fire db (wr_community w) (wr_id w)) in
                      case interval_prefilter_should_fire lf (wr_community w) (wr_id w) dur anchor now of
                        (lf', False) \<Rightarrow> (lf', None)
                      | (lf', True) \<Rightarrow> (lf', map_option (fire True) (interval_fire_instant sapi dur now)))
                 | _ \<Rightarrow> (lf, None)))"

definition authorize_fire :: "fire_io \<Rightarrow> wf_db \<Rightarrow> fire \<Rightarrow> bool" where
  "authorize_fire io db f \<longleftrightarrow>
     check_owner_authority (fi_role_err io) db (wr_community (fi_workflow f)) (fi_channel f)
       (wr_owner (fi_workflow f)) (fi_def f) = Inr ()"

text \<open>A lost claim still moves the interval clock; a failed claim does not.\<close>

definition mark_fired :: "fire \<Rightarrow> last_fired_map \<Rightarrow> last_fired_map" where
  "mark_fired f lf =
     (if fi_interval f then AList.update (wr_community (fi_workflow f), wr_id (fi_workflow f)) (fi_now f) lf else lf)"

definition claim_fire ::
  "fire_io \<Rightarrow> wf_db \<times> last_fired_map \<Rightarrow> fire \<Rightarrow> (wf_db \<times> last_fired_map) \<times> bool" where
  "claim_fire io s f =
     (case s of (db, lf) \<Rightarrow>
        if fi_claim_failed io then (s, False)
        else
          case claim_scheduled_workflow_fire db (fire_claim_key f) of
            (db', True) \<Rightarrow> ((db', lf), True)
          | (db', False) \<Rightarrow> ((db', mark_fired f lf), False))"

definition scheduled_context :: "sched_api \<Rightarrow> nostr_api \<Rightarrow> fire \<Rightarrow> trigger_context" where
  "scheduled_context sapi napi f =
     \<lparr>tc_text = [], tc_author = [], tc_channel_id = str_chars (api_uuid_string napi (fi_channel f)),
      tc_timestamp = (if timestamp (fi_now f) < 0 then lit ''-'' else []) @ lit (show_nat (nat \<bar>timestamp (fi_now f)\<bar>)),
      tc_emoji = [], tc_message_id = [], tc_is_reply = False, tc_webhook_fields = []\<rparr>"

definition create_fire ::
  "sched_api \<Rightarrow> nostr_api \<Rightarrow> fire_io \<Rightarrow> wf_db \<times> last_fired_map \<Rightarrow> fire \<Rightarrow> (wf_db \<times> last_fired_map) \<times> spawn list" where
  "create_fire sapi napi io s f =
     (case s of (db, lf) \<Rightarrow>
        if fi_create_failed io then (s, [])
        else
          (let w = fi_workflow f; ctx = scheduled_context sapi napi f; rid = fi_run_id io;
               db1 = db\<lparr>tb_runs := create_workflow_run rid (wr_community w) (wr_id w) None (Some ctx) (tb_runs db)\<rparr>;
               db2 = (if fi_attach_failed io then db1 else attach_scheduled_workflow_run db1 (fire_claim_key f) rid) in
           ((db2, mark_fired f lf),
            [\<lparr>sp_community = wr_community w, sp_workflow = w, sp_run_id = rid, sp_def = fi_def f, sp_ctx = ctx\<rparr>])))"

text \<open>The whole handler of one workflow in a tick.\<close>

definition tick_workflow ::
  "sched_api \<Rightarrow> nostr_api \<Rightarrow> fire_io \<Rightarrow> int \<Rightarrow> workflow_record \<Rightarrow> wf_db \<times> last_fired_map
     \<Rightarrow> (wf_db \<times> last_fired_map) \<times> spawn list" where
  "tick_workflow sapi napi io now w s =
     (case s of (db, lf) \<Rightarrow>
        case decide_fire sapi io now db w lf of
          (lf', None) \<Rightarrow> ((db, lf'), [])
        | (lf', Some f) \<Rightarrow>
            if \<not> authorize_fire io db f then ((db, lf'), [])
            else
              case claim_fire io (db, lf') f of
                (s', False) \<Rightarrow> (s', [])
              | (s', True) \<Rightarrow> create_fire sapi napi io s' f)"

fun tick_all ::
  "sched_api \<Rightarrow> nostr_api \<Rightarrow> (workflow_record \<Rightarrow> fire_io) \<Rightarrow> int \<Rightarrow> workflow_record list \<Rightarrow> wf_db \<times> last_fired_map
     \<Rightarrow> (wf_db \<times> last_fired_map) \<times> spawn list" where
  "tick_all sapi napi io now [] s = (s, [])"
| "tick_all sapi napi io now (w # ws) s =
     (case tick_workflow sapi napi (io w) now w s of
        (s1, sp1) \<Rightarrow> (case tick_all sapi napi io now ws s1 of (s2, sp2) \<Rightarrow> (s2, sp1 @ sp2)))"

text \<open>One turn of the scheduler loop; a failed listing skips it, without pruning.\<close>

definition run_tick ::
  "sched_api \<Rightarrow> nostr_api \<Rightarrow> (workflow_record \<Rightarrow> fire_io) \<Rightarrow> bool \<Rightarrow> int \<Rightarrow> wf_db \<times> last_fired_map
     \<Rightarrow> (wf_db \<times> last_fired_map) \<times> spawn list" where
  "run_tick sapi napi io list_failed now s =
     (if list_failed then (s, [])
      else
        let workflows = list_all_enabled_workflows (fst s) in
        case tick_all sapi napi io now workflows s of
          ((db, lf), spawned) \<Rightarrow>
            ((db, filter (\<lambda>(key, _). key \<in> set (map (\<lambda>w. (wr_community w, wr_id w)) workflows)) lf), spawned))"

section \<open>The claim contract\<close>

text \<open>A table of claims: a claim is won only while its key is free, and afterwards the key is held.
  Whoever else claims in between, a key that was won is never won again.\<close>

locale claim_table =
  fixes claim :: "'s \<Rightarrow> 'k \<Rightarrow> 's \<times> bool"
    and held :: "'s \<Rightarrow> 'k \<Rightarrow> bool"
  assumes claim_free: "snd (claim s k) \<Longrightarrow> \<not> held s k"
    and held_claim: "held (fst (claim s k)) k' \<longleftrightarrow> held s k' \<or> (k' = k \<and> snd (claim s k))"
begin

lemma held_claims: "held s k \<Longrightarrow> held (fold (\<lambda>k s. fst (claim s k)) ks s) k"
  by (induction ks arbitrary: s) (auto simp: held_claim)

lemma won_once: "snd (claim s k) \<Longrightarrow> \<not> snd (claim (fold (\<lambda>k s. fst (claim s k)) ks (fst (claim s k))) k)"
  using held_claims [of "fst (claim s k)" k ks] claim_free held_claim by blast

end

definition claimed :: "wf_db \<Rightarrow> (uuid \<times> uuid \<times> int) set" where
  "claimed db = set (map fire_key (tb_fires db))"

interpretation wf_claims: claim_table claim_scheduled_workflow_fire "\<lambda>db k. k \<in> claimed db"
  by unfold_locales
     (auto simp: claimed_def claim_scheduled_workflow_fire_def fire_key_def split: prod.splits if_splits)

lemma claimed_attach [simp]: "claimed (attach_scheduled_workflow_run db key rid) = claimed db"
proof -
  have "fire_key (if fire_key r = key \<and> fr_run r = None then r\<lparr>fr_run := Some rid\<rparr> else r) = fire_key r" for r
    by (simp add: fire_key_def)
  then have "map fire_key (tb_fires (attach_scheduled_workflow_run db key rid)) = map fire_key (tb_fires db)"
    by (simp add: attach_scheduled_workflow_run_def)
  then show ?thesis by (simp only: claimed_def)
qed

lemma claimed_runs [simp]: "claimed (db\<lparr>tb_runs := runs\<rparr>) = claimed db"
  by (simp add: claimed_def)

lemma claim_fire_cases:
  assumes "claim_fire io (db, lf) f = ((db', lf'), won)"
  shows "(won \<longrightarrow> fire_claim_key f \<notin> claimed db \<and> claimed db' = insert (fire_claim_key f) (claimed db))
    \<and> (\<not> won \<longrightarrow> claimed db' = claimed db)"
proof (cases "fi_claim_failed io")
  case False
  let ?c = "claim_scheduled_workflow_fire db (fire_claim_key f)"
  have "db' = fst ?c" "won = snd ?c"
    using assms False by (auto simp: claim_fire_def split: prod.splits bool.splits)
  then show ?thesis
    using wf_claims.claim_free [of db "fire_claim_key f"] wf_claims.held_claim [of _ db "fire_claim_key f"]
    by blast
qed (use assms in \<open>auto simp: claim_fire_def\<close>)

lemma create_fire_cases:
  assumes "create_fire sapi napi io (db, lf) f = ((db', lf'), spawned)"
  shows "claimed db' = claimed db \<and> length spawned \<le> 1"
  using assms by (auto simp: create_fire_def Let_def split: if_splits)

section \<open>Pods\<close>

datatype pod_pc = Idle | Checking fire | Claiming fire | Creating fire

text \<open>The pods share the database; \<open>cl_created\<close> records, for the statements only, the claim keys for
  which a run was created. Any workflow row may be up for a decision, because a pod works on the list
  that it read at the start of its tick; the other tables may change at any time. Only pruning of old
  claims is left out.\<close>

record cluster =
  cl_db :: wf_db
  cl_last_fired :: "nat \<Rightarrow> last_fired_map"
  cl_pc :: "nat \<Rightarrow> pod_pc"
  cl_created :: "(uuid \<times> uuid \<times> int) list"

inductive cluster_step :: "sched_api \<Rightarrow> nostr_api \<Rightarrow> cluster \<Rightarrow> cluster \<Rightarrow> bool" for sapi napi where
  decide: "cl_pc s p = Idle \<Longrightarrow> decide_fire sapi io now (cl_db s) w (cl_last_fired s p) = (lf, r) \<Longrightarrow>
    cluster_step sapi napi s
      (s\<lparr>cl_last_fired := (cl_last_fired s)(p := lf),
         cl_pc := (cl_pc s)(p := (case r of None \<Rightarrow> Idle | Some f \<Rightarrow> Checking f))\<rparr>)"
| authorize: "cl_pc s p = Checking f \<Longrightarrow>
    cluster_step sapi napi s
      (s\<lparr>cl_pc := (cl_pc s)(p := (if authorize_fire io (cl_db s) f then Claiming f else Idle))\<rparr>)"
| claim: "cl_pc s p = Claiming f \<Longrightarrow> claim_fire io (cl_db s, cl_last_fired s p) f = ((db, lf), won) \<Longrightarrow>
    cluster_step sapi napi s
      (s\<lparr>cl_db := db, cl_last_fired := (cl_last_fired s)(p := lf),
         cl_pc := (cl_pc s)(p := (if won then Creating f else Idle))\<rparr>)"
| create: "cl_pc s p = Creating f \<Longrightarrow>
    create_fire sapi napi io (cl_db s, cl_last_fired s p) f = ((db, lf), spawned) \<Longrightarrow>
    cluster_step sapi napi s
      (s\<lparr>cl_db := db, cl_last_fired := (cl_last_fired s)(p := lf), cl_pc := (cl_pc s)(p := Idle),
         cl_created := cl_created s @ map (\<lambda>_. fire_claim_key f) spawned\<rparr>)"
| restart: "cluster_step sapi napi s
      (s\<lparr>cl_last_fired := (cl_last_fired s)(p := []), cl_pc := (cl_pc s)(p := Idle)\<rparr>)"
| tables: "tb_fires db = tb_fires (cl_db s) \<Longrightarrow> cluster_step sapi napi s (s\<lparr>cl_db := db\<rparr>)"

inductive cluster_reachable :: "sched_api \<Rightarrow> nostr_api \<Rightarrow> cluster \<Rightarrow> bool" for sapi napi where
  start: "cl_created s = [] \<Longrightarrow> (\<And>p. cl_pc s p = Idle) \<Longrightarrow> cluster_reachable sapi napi s"
| step: "cluster_reachable sapi napi s \<Longrightarrow> cluster_step sapi napi s s' \<Longrightarrow> cluster_reachable sapi napi s'"

text \<open>The invariant: a run was created only for a claimed key and once; a pod that is about to create a
  run holds a claimed key for which there is none, and no other pod holds it.\<close>

definition cluster_inv :: "cluster \<Rightarrow> bool" where
  "cluster_inv s \<longleftrightarrow>
     distinct (cl_created s) \<and> set (cl_created s) \<subseteq> claimed (cl_db s)
     \<and> (\<forall>p f. cl_pc s p = Creating f \<longrightarrow>
          fire_claim_key f \<in> claimed (cl_db s) \<and> fire_claim_key f \<notin> set (cl_created s)
          \<and> (\<forall>q g. cl_pc s q = Creating g \<and> fire_claim_key g = fire_claim_key f \<longrightarrow> q = p))"

lemma cluster_inv_step:
  assumes "cluster_step sapi napi s s'" and "cluster_inv s"
  shows "cluster_inv s'"
  using assms
proof cases
  case (decide p io now w lf r)
  then show ?thesis
    using assms(2) unfolding cluster_inv_def by (auto split: option.splits)
next
  case (authorize p f io)
  then show ?thesis using assms(2) unfolding cluster_inv_def by auto
next
  case (claim p f io db lf won)
  note c = claim_fire_cases [OF claim(3)]
  show ?thesis
  proof (cases won)
    case True
    then have new: "fire_claim_key f \<notin> claimed (cl_db s)" and db: "claimed db = insert (fire_claim_key f) (claimed (cl_db s))"
      using c by auto
    have old: "fire_claim_key g \<in> claimed (cl_db s) \<and> fire_claim_key g \<noteq> fire_claim_key f"
      if "cl_pc s q = Creating g" for q g
      using assms(2) that new unfolding cluster_inv_def by metis
    show ?thesis
      using assms(2) claim(1) True new db old unfolding cluster_inv_def by (auto simp: subset_insertI2)
  next
    case False
    then show ?thesis using assms(2) claim(1) c unfolding cluster_inv_def by auto
  qed
next
  case (create p f io db lf spawned)
  note c = create_fire_cases [OF create(3)]
  have holder: "q = p" if "cl_pc s q = Creating g" "fire_claim_key g = fire_claim_key f" for q g
    using assms(2) create(2) that unfolding cluster_inv_def by metis
  have f: "fire_claim_key f \<in> claimed (cl_db s)" "fire_claim_key f \<notin> set (cl_created s)"
    using assms(2) create(2) unfolding cluster_inv_def by blast+
  have "spawned = [] \<or> (\<exists>x. spawned = [x])" using c by (cases spawned) auto
  then show ?thesis
    using assms(2) create(1) c f holder unfolding cluster_inv_def by (elim disjE exE) (simp_all, metis+)
next
  case (restart p)
  then show ?thesis using assms(2) unfolding cluster_inv_def by auto
next
  case (tables db)
  then have "claimed db = claimed (cl_db s)" by (simp add: claimed_def)
  then show ?thesis using assms(2) tables(1) unfolding cluster_inv_def by simp
qed

lemma cluster_reachable_inv: "cluster_reachable sapi napi s \<Longrightarrow> cluster_inv s"
proof (induction rule: cluster_reachable.induct)
  case (start s)
  then show ?case by (simp add: cluster_inv_def)
next
  case (step s s')
  then show ?case using cluster_inv_step by blast
qed

lemma cluster_reachable_steps:
  "(cluster_step sapi napi)\<^sup>*\<^sup>* s s' \<Longrightarrow> cluster_reachable sapi napi s \<Longrightarrow> cluster_reachable sapi napi s'"
  by (induction rule: rtranclp_induct) (auto intro: cluster_reachable.step)

text \<open>The tick of the code is a sequence of steps of one pod.\<close>

lemma tick_workflow_steps:
  assumes "tick_workflow sapi napi io now w (cl_db s, cl_last_fired s p) = ((db, lf), spawned)"
    and "cl_pc s p = Idle"
  shows "\<exists>s' key. (cluster_step sapi napi)\<^sup>*\<^sup>* s s' \<and> cl_db s' = db
    \<and> cl_last_fired s' = (cl_last_fired s)(p := lf) \<and> cl_pc s' = cl_pc s
    \<and> cl_created s' = cl_created s @ map (\<lambda>_. key) spawned"
proof -
  obtain lf1 r where d: "decide_fire sapi io now (cl_db s) w (cl_last_fired s p) = (lf1, r)" by fastforce
  note one = cluster_step.decide [OF assms(2) d, of napi]
  show ?thesis
  proof (cases r)
    case None
    then show ?thesis
      using one assms d
      by (intro exI [of _ "s\<lparr>cl_last_fired := (cl_last_fired s)(p := lf1), cl_pc := (cl_pc s)(p := Idle)\<rparr>"] exI conjI)
         (auto simp: tick_workflow_def fun_upd_idem)
  next
    case (Some f)
    let ?s1 = "s\<lparr>cl_last_fired := (cl_last_fired s)(p := lf1), cl_pc := (cl_pc s)(p := Checking f)\<rparr>"
    have one: "cluster_step sapi napi s ?s1" using one Some by simp
    let ?s2 = "?s1\<lparr>cl_pc := (cl_pc ?s1)(p := (if authorize_fire io (cl_db ?s1) f then Claiming f else Idle))\<rparr>"
    have two: "cluster_step sapi napi ?s1 ?s2" by (rule cluster_step.authorize) simp
    show ?thesis
    proof (cases "authorize_fire io (cl_db s) f")
      case False
      then show ?thesis
        using one two assms d Some
        by (intro exI [of _ ?s2] exI conjI) (auto simp: tick_workflow_def fun_upd_idem intro: rtranclp.intros)
    next
      case True
      obtain db2 lf2 won where c: "claim_fire io (cl_db s, lf1) f = ((db2, lf2), won)" by (metis prod.exhaust)
      let ?s3 = "?s2\<lparr>cl_db := db2, cl_last_fired := (cl_last_fired ?s2)(p := lf2),
          cl_pc := (cl_pc ?s2)(p := (if won then Creating f else Idle))\<rparr>"
      have three: "cluster_step sapi napi ?s2 ?s3" by (rule cluster_step.claim) (use True c in simp_all)
      show ?thesis
      proof (cases won)
        case False
        then show ?thesis
          using one two three assms d Some c True
          by (intro exI [of _ ?s3] exI conjI) (auto simp: tick_workflow_def fun_upd_idem intro: rtranclp.intros)
      next
        case won: True
        obtain db3 lf3 sp where cr: "create_fire sapi napi io (db2, lf2) f = ((db3, lf3), sp)" by (metis prod.exhaust)
        let ?s4 = "?s3\<lparr>cl_db := db3, cl_last_fired := (cl_last_fired ?s3)(p := lf3), cl_pc := (cl_pc ?s3)(p := Idle),
            cl_created := cl_created ?s3 @ map (\<lambda>_. fire_claim_key f) sp\<rparr>"
        have "cluster_step sapi napi ?s3 ?s4" by (rule cluster_step.create) (use won cr in simp_all)
        then show ?thesis
          using one two three assms d Some c True won cr
          by (intro exI [of _ ?s4] exI [of _ "fire_claim_key f"] conjI)
             (auto simp: tick_workflow_def fun_upd_idem intro: rtranclp.intros)
      qed
    qed
  qed
qed

section \<open>Authority and intervals\<close>

definition same_roles :: "wf_db \<Rightarrow> wf_db \<Rightarrow> bool" where
  "same_roles db db' \<longleftrightarrow> tb_channels db' = tb_channels db \<and> tb_members db' = tb_members db"

lemma same_roles_get: "same_roles db db' \<Longrightarrow> get_member_role db' = get_member_role db"
  by (rule ext)+ (simp add: same_roles_def get_member_role_def)

text \<open>What a run that an event starts rests on.\<close>

definition event_run_ok :: "wf_db \<Rightarrow> uuid \<Rightarrow> uuid \<Rightarrow> u32 \<Rightarrow> spawn \<Rightarrow> bool" where
  "event_run_ok db community channel kind sp \<longleftrightarrow>
     sp_community sp = community \<and> wf_def_enabled (sp_def sp) \<and> trigger_matches_event (wf_trigger (sp_def sp)) kind
     \<and> owner_authority_allows (get_member_role db community channel (wr_owner (sp_workflow sp)))
         (requires_elevated_authority (sp_def sp))"

lemma check_owner_authority_iff:
  "check_owner_authority err db community channel owner def = Inr () \<longleftrightarrow>
     err = None \<and> owner_authority_allows (get_member_role db community channel owner) (requires_elevated_authority def)"
  by (auto simp: check_owner_authority_def split: option.splits)

text \<open>The authority a run needs, read off the tables: an active membership row of a live channel, with the
  role owner or admin when a step of the definition calls a webhook.\<close>

definition holds_authority :: "wf_db \<Rightarrow> uuid \<Rightarrow> uuid \<Rightarrow> bytes \<Rightarrow> workflow_def \<Rightarrow> bool" where
  "holds_authority db community channel owner def \<longleftrightarrow>
     (\<exists>c \<in> set (tb_channels db). cr_community c = community \<and> cr_id c = channel \<and> \<not> cr_deleted c)
     \<and> (\<exists>m \<in> set (tb_members db).
          mr_community m = community \<and> mr_channel m = channel \<and> mr_pubkey m = owner \<and> \<not> mr_removed m
          \<and> ((\<exists>s \<in> set (wf_steps def). \<exists>u v h b. step_action s = CallWebhook u v h b)
               \<longrightarrow> mr_role m \<in> {''owner'', ''admin''}))"

lemma requires_elevated_authority_iff:
  "requires_elevated_authority def \<longleftrightarrow> (\<exists>s \<in> set (wf_steps def). \<exists>u v h b. step_action s = CallWebhook u v h b)"
proof -
  have "(case a of CallWebhook _ _ _ _ \<Rightarrow> True | _ \<Rightarrow> False) \<longleftrightarrow> (\<exists>u v h b. a = CallWebhook u v h b)" for a
    by (cases a) simp_all
  then show ?thesis by (simp add: requires_elevated_authority_def list_ex_iff)
qed

lemma owner_authority_holds:
  assumes "owner_authority_allows (get_member_role db community channel owner) (requires_elevated_authority def)"
  shows "holds_authority db community channel owner def"
proof -
  obtain m where m: "find (\<lambda>m. mr_community m = community \<and> mr_channel m = channel \<and> mr_pubkey m = owner \<and> \<not> mr_removed m
      \<and> list_ex (\<lambda>c. cr_community c = community \<and> cr_id c = channel \<and> \<not> cr_deleted c) (tb_channels db)) (tb_members db)
      = Some m"
    "requires_elevated_authority def \<longrightarrow> mr_role m \<in> {''owner'', ''admin''}"
    using assms by (auto simp: owner_authority_allows_def get_member_role_def split: option.splits if_splits)
  then have "m \<in> set (tb_members db)" "mr_community m = community" "mr_channel m = channel" "mr_pubkey m = owner"
    "\<not> mr_removed m" "\<exists>c \<in> set (tb_channels db). cr_community c = community \<and> cr_id c = channel \<and> \<not> cr_deleted c"
    by (auto simp: find_Some_iff list_ex_iff)
  with m(2) show ?thesis
    unfolding holds_authority_def requires_elevated_authority_iff by blast
qed

lemma create_workflow_run_get:
  "get_workflow_run (create_workflow_run i community w e ctx runs) community i \<noteq> None"
  "set runs \<subseteq> set (create_workflow_run i community w e ctx runs)"
  by (induction runs) (auto simp: create_workflow_run_def get_workflow_run_def)

lemma fire_on_event_facts:
  assumes "fire_on_event sapi tapi ev io community channel kind event_id ctx w db = (db', spawned)"
  shows "same_roles db db' \<and> set (tb_runs db) \<subseteq> set (tb_runs db') \<and> list_all (event_run_ok db community channel kind) spawned
    \<and> list_all (\<lambda>sp. get_workflow_run (tb_runs db') (sp_community sp) (sp_run_id sp) \<noteq> None) spawned"
proof (cases "spawned")
  case Nil
  then show ?thesis
    using assms by (auto simp: fire_on_event_def same_roles_def split: option.splits if_splits sum.splits)
next
  case (Cons sp rest)
  then obtain def where "sa_parse_def sapi (wr_definition w) = Some def" "wf_def_enabled def"
    "trigger_matches_event (wf_trigger def) kind"
    "check_owner_authority (fi_role_err io) db community channel (wr_owner w) def = Inr ()"
    "db' = db\<lparr>tb_runs := create_workflow_run (fi_run_id io) community (wr_id w) (Some event_id) (Some ctx) (tb_runs db)\<rparr>"
    "spawned = [\<lparr>sp_community = community, sp_workflow = w, sp_run_id = fi_run_id io, sp_def = def, sp_ctx = ctx\<rparr>]"
    using assms by (auto simp: fire_on_event_def split: option.splits if_splits sum.splits)
  then show ?thesis
    using create_workflow_run_get
    by (auto simp: same_roles_def event_run_ok_def check_owner_authority_iff)
qed

lemma fire_all_facts:
  assumes "\<And>w db db' sp. f w db = (db', sp) \<Longrightarrow>
      same_roles db db' \<and> set (tb_runs db) \<subseteq> set (tb_runs db') \<and> list_all (P db) sp
      \<and> list_all (\<lambda>x. get_workflow_run (tb_runs db') (sp_community x) (sp_run_id x) \<noteq> None) sp"
    and "\<And>db db'. same_roles db db' \<Longrightarrow> P db' = P db"
    and "fire_all f ws db = (db', spawned)"
  shows "same_roles db db' \<and> set (tb_runs db) \<subseteq> set (tb_runs db') \<and> list_all (P db) spawned
      \<and> list_all (\<lambda>x. get_workflow_run (tb_runs db') (sp_community x) (sp_run_id x) \<noteq> None) spawned"
  using assms(3)
proof (induction ws arbitrary: db spawned)
  case Nil
  then show ?case by (simp add: same_roles_def)
next
  case (Cons w ws)
  obtain db1 s1 where 1: "f w db = (db1, s1)" by fastforce
  obtain s2 where 2: "fire_all f ws db1 = (db', s2)" "spawned = s1 @ s2"
    using Cons.prems 1 by (auto split: prod.splits)
  have first: "same_roles db db1" "set (tb_runs db) \<subseteq> set (tb_runs db1)" "list_all (P db) s1"
    "list_all (\<lambda>x. get_workflow_run (tb_runs db1) (sp_community x) (sp_run_id x) \<noteq> None) s1"
    using assms(1) [OF 1] by auto
  note rest = Cons.IH [OF 2(1)]
  have "get_workflow_run (tb_runs db') c i \<noteq> None" if "get_workflow_run (tb_runs db1) c i \<noteq> None" for c i
    using that rest unfolding get_workflow_run_def find_None_iff by blast
  then show ?case
    using first rest assms(2) [OF first(1)] 2(2) by (auto simp: same_roles_def list_all_iff)
qed

lemma event_run_facts:
  assumes "on_event sapi napi tapi ev io now evicted list_err community stored (db, cache) = ((db', cache'), Inr spawned)"
    and "sp \<in> set spawned"
  shows "\<exists>channel. se_channel_id stored = Some channel
    \<and> \<not> is_workflow_execution_kind (event_kind_u32 (se_event stored))
    \<and> event_run_ok db community channel (event_kind_u32 (se_event stored)) sp
    \<and> get_workflow_run (tb_runs db') community (sp_run_id sp) \<noteq> None"
proof -
  obtain channel ws where e: "se_channel_id stored = Some channel"
    "\<not> is_workflow_execution_kind (event_kind_u32 (se_event stored))"
    "fire_all (\<lambda>w. fire_on_event sapi tapi ev (io w) community channel (event_kind_u32 (se_event stored))
       (ev_id (se_event stored)) (build_trigger_context napi stored) w) ws db = (db', spawned)"
    using assms by (auto simp: on_event_def Let_def split: option.splits if_splits sum.splits prod.splits)
  let ?P = "\<lambda>db. event_run_ok db community channel (event_kind_u32 (se_event stored))"
  have cong: "?P db1 = ?P db0" if "same_roles db0 db1" for db0 db1
    by (rule ext) (simp add: event_run_ok_def same_roles_get [OF that])
  have "list_all (?P db) spawned \<and> list_all (\<lambda>x. get_workflow_run (tb_runs db') (sp_community x) (sp_run_id x) \<noteq> None) spawned"
    using fire_all_facts [where P = ?P, OF _ cong e(3)] fire_on_event_facts by blast
  then show ?thesis using e(1,2) assms(2) by (auto simp: list_all_iff event_run_ok_def)
qed

lemma tick_workflow_spawn:
  assumes "tick_workflow sapi napi io now w (db, lf) = ((db', lf'), spawned)" and "spawned \<noteq> []"
  shows "\<exists>f sp. decide_fire sapi io now db w lf = (fst (decide_fire sapi io now db w lf), Some f) \<and> spawned = [sp]
    \<and> sp_workflow sp = fi_workflow f \<and> sp_def sp = fi_def f
    \<and> authorize_fire io db f \<and> fire_claim_key f \<notin> claimed db \<and> claimed db' = insert (fire_claim_key f) (claimed db)"
proof -
  obtain lf1 r where d: "decide_fire sapi io now db w lf = (lf1, r)" by fastforce
  then obtain f where f: "r = Some f" "authorize_fire io db f"
    using assms by (cases r) (auto simp: tick_workflow_def split: if_splits)
  obtain db2 lf2 won where c: "claim_fire io (db, lf1) f = ((db2, lf2), won)" by (metis prod.exhaust)
  then have won: "won" "create_fire sapi napi io (db2, lf2) f = ((db', lf'), spawned)"
    using assms d f by (auto simp: tick_workflow_def split: bool.splits)
  then show ?thesis
    using d f claim_fire_cases [OF c] create_fire_cases [OF won(2)] assms(2)
    by (auto simp: create_fire_def Let_def split: if_splits)
qed

lemma decide_fire_facts:
  assumes "decide_fire sapi io now db w lf = (lf', Some f)"
  shows "fi_workflow f = w \<and> wr_channel w = Some (fi_channel f) \<and> wf_def_enabled (fi_def f)
    \<and> sa_parse_def sapi (wr_definition w) = Some (fi_def f) \<and> fi_now f = now"
  using assms by (auto simp: decide_fire_def Let_def split: option.splits if_splits trigger_def.splits bool.splits prod.splits)

text \<open>An interval workflow in working order: it parses, is enabled, has a channel and a row, its owner has
  the authority, and the database answers.\<close>

definition interval_ready ::
  "sched_api \<Rightarrow> fire_io \<Rightarrow> wf_db \<Rightarrow> workflow_record \<Rightarrow> workflow_def \<Rightarrow> uuid \<Rightarrow> wtext \<Rightarrow> u64 \<Rightarrow> bool" where
  "interval_ready sapi io db w def channel dur secs \<longleftrightarrow>
     sa_parse_def sapi (wr_definition w) = Some def \<and> wf_def_enabled def \<and> wr_channel w = Some channel
     \<and> wf_trigger def = Schedule None (Some dur) \<and> parse_duration_secs dur = Inr secs
     \<and> 0 < uint secs \<and> uint secs < 2 ^ 63
     \<and> list_ex (\<lambda>v. wr_community v = wr_community w \<and> wr_id v = wr_id w) (tb_workflows db)
     \<and> owner_authority_allows (get_member_role db (wr_community w) channel (wr_owner w)) (requires_elevated_authority def)
     \<and> \<not> fi_anchor_failed io \<and> fi_role_err io = None \<and> \<not> fi_claim_failed io \<and> \<not> fi_create_failed io"

text \<open>The start of the interval that an instant lies in, in seconds.\<close>

definition interval_bucket :: "u64 \<Rightarrow> int \<Rightarrow> int" where
  "interval_bucket secs now = timestamp now div uint secs * uint secs"

text \<open>The anchor that the decision uses: the pod's own, or the latest claim.\<close>

definition interval_anchor :: "wf_db \<Rightarrow> workflow_record \<Rightarrow> last_fired_map \<Rightarrow> int option" where
  "interval_anchor db w lf =
     (case map_of lf (wr_community w, wr_id w) of
        Some t \<Rightarrow> Some t | None \<Rightarrow> latest_scheduled_workflow_fire db (wr_community w) (wr_id w))"

lemma interval_instant_bucket:
  assumes "parse_duration_secs dur = Inr secs" "0 < uint secs" "uint secs < 2 ^ 63"
  shows "interval_fire_instant sapi dur now = sa_from_timestamp sapi (interval_bucket secs now)"
proof -
  have "sint secs = uint secs"
    using assms(3) by (simp add: signed_take_bit_eq_if_positive sint_uint not_le bit_iff_odd take_bit_int_eq_self)
  moreover have "0 < secs" using assms(2) by (simp add: word_less_def)
  ultimately show ?thesis
    using assms by (simp add: interval_fire_instant_def div_euclid_def interval_bucket_def Let_def)
qed

lemma interval_should_fire_iff:
  assumes "parse_duration_secs dur = Inr secs"
  shows "interval_should_fire dur (Some a) now \<longleftrightarrow> uint secs \<le> \<bar>now - a\<bar> div 10 ^ 9"
    and "0 < uint secs \<Longrightarrow> \<not> interval_should_fire dur None now"
  using assms by (auto simp: interval_should_fire_def)

lemma decide_fire_interval:
  assumes "interval_ready sapi io db w def channel dur secs"
  shows "decide_fire sapi io now db w lf =
    (case interval_anchor db w lf of
       None \<Rightarrow> (AList.update (wr_community w, wr_id w) now lf, None)
     | Some a \<Rightarrow>
         (lf, if uint secs \<le> \<bar>now - a\<bar> div 10 ^ 9 then
                map_option (\<lambda>instant. \<lparr>fi_workflow = w, fi_def = def, fi_channel = channel, fi_instant = instant,
                  fi_interval = True, fi_now = now\<rparr>) (sa_from_timestamp sapi (interval_bucket secs now))
              else None))"
proof -
  note r = assms [unfolded interval_ready_def]
  have anchor: "(case map_of lf (wr_community w, wr_id w) of Some t \<Rightarrow> Some t
      | None \<Rightarrow> if fi_anchor_failed io then None else latest_scheduled_workflow_fire db (wr_community w) (wr_id w))
    = interval_anchor db w lf"
    using r by (simp add: interval_anchor_def cong: option.case_cong)
  show ?thesis
    using r interval_should_fire_iff [of dur secs] interval_instant_bucket [of dur secs sapi now]
    unfolding decide_fire_def Let_def anchor
    by (auto simp: interval_prefilter_should_fire_def anchor [symmetric] split: option.split)
qed

lemma interval_tick_fires:
  assumes ready: "interval_ready sapi io db w def channel dur secs"
    and "interval_anchor db w lf = Some a" "uint secs \<le> \<bar>now - a\<bar> div 10 ^ 9"
    and "sa_from_timestamp sapi (interval_bucket secs now) = Some instant"
    and free: "(wr_community w, wr_id w, instant) \<notin> claimed db"
  shows "\<exists>s' sp. tick_workflow sapi napi io now w (db, lf) = (s', [sp]) \<and> sp_workflow sp = w
    \<and> sp_run_id sp = fi_run_id io \<and> (wr_community w, wr_id w, instant) \<in> claimed (fst s')"
proof -
  let ?f = "\<lparr>fi_workflow = w, fi_def = def, fi_channel = channel, fi_instant = instant, fi_interval = True, fi_now = now\<rparr>"
  note r = ready [unfolded interval_ready_def]
  have d: "decide_fire sapi io now db w lf = (lf, Some ?f)"
    using decide_fire_interval [OF ready] assms(2-4) by simp
  have a: "authorize_fire io db ?f" using r by (simp add: authorize_fire_def check_owner_authority_iff)
  have key: "fire_claim_key ?f = (wr_community w, wr_id w, instant)" by (simp add: fire_claim_key_def)
  obtain db1 where c: "claim_fire io (db, lf) ?f = ((db1, lf), True)"
    using r free by (auto simp: claim_fire_def key claim_scheduled_workflow_fire_def claimed_def split: if_splits)
  obtain db2 lf2 sp where cr: "create_fire sapi napi io (db1, lf) ?f = ((db2, lf2), [sp])"
    "sp_workflow sp = w" "sp_run_id sp = fi_run_id io"
    using r by (simp add: create_fire_def Let_def)
  have "(wr_community w, wr_id w, instant) \<in> claimed db2"
    using claim_fire_cases [OF c] create_fire_cases [OF cr(1)] key by simp
  then show ?thesis using d a c cr by (simp add: tick_workflow_def)
qed

lemma latest_fire_None:
  "latest_scheduled_workflow_fire db community wid = None \<Longrightarrow> (community, wid, t) \<notin> claimed db"
  by (auto simp: latest_scheduled_workflow_fire_def claimed_def fire_key_def Let_def filter_empty_conv split: if_splits)

definition hourly_def :: workflow_def where
  "hourly_def = \<lparr>wf_name = lit ''n'', wf_description = None, wf_trigger = Schedule None (Some (lit ''1h'')),
     wf_steps = wf_steps sample_def, wf_def_enabled = True\<rparr>"

definition hourly_row :: workflow_record where
  "hourly_row = \<lparr>wr_id = 2, wr_community = 1, wr_owner = [9], wr_channel = Some 7, wr_definition = JNull,
     wr_status = Active, wr_enabled = True, wr_created_at = 0\<rparr>"

definition hourly_db :: wf_db where
  "hourly_db =
     \<lparr>tb_workflows = [hourly_row], tb_archived = [],
      tb_channels = [\<lparr>cr_community = 1, cr_id = 7, cr_deleted = False\<rparr>],
      tb_members = [\<lparr>mr_community = 1, mr_channel = 7, mr_pubkey = [9], mr_role = ''member'', mr_removed = False\<rparr>],
      tb_runs = [], tb_fires = []\<rparr>"

definition sample_sched :: sched_api where
  "sample_sched = \<lparr>sa_parse_def = (\<lambda>_. Some hourly_def), sa_cron_parse = (\<lambda>_. None),
     sa_from_timestamp = (\<lambda>s. Some (s * 10 ^ 9))\<rparr>"

definition healthy :: "uuid \<Rightarrow> fire_io" where
  "healthy rid = \<lparr>fi_anchor_failed = False, fi_role_err = None, fi_claim_failed = False, fi_create_failed = False,
     fi_attach_failed = False, fi_run_id = rid\<rparr>"

lemmas hourly_defs = hourly_def_def hourly_row_def hourly_db_def sample_sched_def healthy_def

lemma parse_1h: "parse_duration_secs (lit ''1h'') = Inr 3600"
proof -
  have "number_text [49] 1"
    unfolding number_text_def
    by (rule exI [of _ "[]"], rule exI [of _ "[49]"]) (simp add: is_number_def is_ascii_digit_def digits_value_def)
  then have "duration_text (lit ''1h'') 3600"
    unfolding duration_text_def
    by - (rule exI [of _ "[]"], rule exI [of _ "[49]"], rule exI [of _ "[]"], rule exI [of _ "[104]"],
        rule exI [of _ "[]"], rule exI [of _ 1], rule exI [of _ 3600], auto simp: lit_def duration_units_def)
  then show ?thesis using parse_duration_complete [of _ 3600] by simp
qed

lemma hourly_ready:
  assumes "tb_workflows db = [hourly_row]" "same_roles hourly_db db"
  shows "interval_ready sample_sched (healthy rid) db hourly_row hourly_def 7 (lit ''1h'') 3600"
  unfolding interval_ready_def same_roles_get [OF assms(2)]
  by (simp add: assms(1) parse_1h) (simp add: hourly_defs get_member_role_def owner_authority_allows_def
      requires_elevated_authority_def sample_def_def)

lemma hourly_first_tick:
  "\<exists>s sp. tick_workflow sample_sched std_nostr_api (healthy 11) (7140 * 10 ^ 9) hourly_row (hourly_db, [((1, 2), 0)])
     = (s, [sp]) \<and> sp_workflow sp = hourly_row \<and> sp_run_id sp = fi_run_id (healthy 11)
     \<and> (wr_community hourly_row, wr_id hourly_row, 3600 * 10 ^ 9) \<in> claimed (fst s)"
proof (rule interval_tick_fires [where a = 0])
  show "interval_ready sample_sched (healthy 11) hourly_db hourly_row hourly_def 7 (lit ''1h'') 3600"
    by (rule hourly_ready) (simp_all add: hourly_db_def same_roles_def)
qed (simp_all add: interval_anchor_def hourly_row_def hourly_db_def interval_bucket_def timestamp_def sample_sched_def claimed_def)

definition hourly_cluster :: cluster where
  "hourly_cluster = \<lparr>cl_db = hourly_db, cl_last_fired = (\<lambda>_. [((1, 2), 0)]), cl_pc = (\<lambda>_. Idle), cl_created = []\<rparr>"

definition sample_message :: stored_event where
  "sample_message = stored_event_new 0
     \<lparr>ev_id = [1], ev_pubkey = [9], ev_created_at = 0, ev_kind = 9, ev_tags = [], ev_content = ''hi''\<rparr> (Some 7)"

definition message_sched :: sched_api where
  "message_sched = sample_sched\<lparr>sa_parse_def := (\<lambda>_. Some sample_def)\<rparr>"

section \<open>Properties\<close>



text \<open>The scheduler's handler of a workflow is a run of one pod in that step relation: from a state
  where the pod is idle, the steps of the pod lead to a state with the database, the last-fired map and
  the created runs that the handler returns.\<close>

theorem tick_refines_cluster_steps:
  assumes "tick_workflow sapi napi io now w (cl_db s, cl_last_fired s p) = ((db, lf), spawned)"
    and "cl_pc s p = Idle"
  shows "\<exists>s' key. (cluster_step sapi napi)\<^sup>*\<^sup>* s s' \<and> cl_db s' = db
    \<and> cl_last_fired s' = (cl_last_fired s)(p := lf) \<and> cl_pc s' = cl_pc s
    \<and> cl_created s' = cl_created s @ map (\<lambda>_. key) spawned"
  by (rule tick_workflow_steps [OF assms])

theorem tick_refines_cluster_steps_witness:
  "\<exists>s' key. (cluster_step sample_sched std_nostr_api)\<^sup>*\<^sup>* hourly_cluster s' \<and> cl_created s' = [key]"
proof -
  obtain db lf sp where tick: "tick_workflow sample_sched std_nostr_api (healthy 11) (7140 * 10 ^ 9) hourly_row
      (cl_db hourly_cluster, cl_last_fired hourly_cluster 0) = ((db, lf), [sp])"
    using hourly_first_tick by (auto simp: hourly_cluster_def)
  have "cl_pc hourly_cluster 0 = Idle" "cl_created hourly_cluster = []" by (simp_all add: hourly_cluster_def)
  with tick_refines_cluster_steps [OF tick] show ?thesis by auto
qed

text \<open>C34. An event starts a workflow run only with current authority: every run that the event handler
  spawns is for an event of a channel that is not itself a workflow event and matches the trigger, the
  definition is enabled, the owner is at that moment an active member of the channel, with role owner or
  admin when the definition calls webhooks, and the run's row is in the table of the event's own
  community, however stale the cached workflow list was.\<close>

theorem event_runs_need_current_authority:
  assumes "on_event sapi napi tapi ev io now evicted list_err community stored (db, cache) = ((db', cache'), Inr spawned)"
    and "sp \<in> set spawned"
  shows "\<exists>channel. se_channel_id stored = Some channel
    \<and> \<not> is_workflow_execution_kind (event_kind_u32 (se_event stored))
    \<and> sp_community sp = community \<and> wf_def_enabled (sp_def sp)
    \<and> trigger_matches_event (wf_trigger (sp_def sp)) (event_kind_u32 (se_event stored))
    \<and> holds_authority db community channel (wr_owner (sp_workflow sp)) (sp_def sp)
    \<and> get_workflow_run (tb_runs db') community (sp_run_id sp) \<noteq> None"
  using event_run_facts [OF assms] by (auto simp: event_run_ok_def dest: owner_authority_holds)

theorem event_runs_need_current_authority_witness:
  "\<exists>db' cache' sp. on_event message_sched std_nostr_api sample_template_api std_eval_api (\<lambda>_. healthy 5) 0 False None 1
      sample_message (hourly_db, []) = ((db', cache'), Inr [sp])
    \<and> holds_authority hourly_db 1 7 (wr_owner (sp_workflow sp)) (sp_def sp)"
proof -
  have kind: "event_kind_u32 (se_event sample_message) = KIND_STREAM_MESSAGE" "se_channel_id sample_message = Some 7"
    by (simp_all add: sample_message_def stored_event_new_def event_kind_u32_def kind_defs)
  have quiet: "\<not> is_workflow_execution_kind KIND_STREAM_MESSAGE"
    by (simp add: is_workflow_execution_kind_def kind_defs)
  have list: "list_enabled_channel_workflows hourly_db 1 7 = [hourly_row]"
    by (simp add: list_enabled_channel_workflows_def hourly_db_def hourly_row_def LIST_MAX_LIMIT_def)
  have role: "get_member_role hourly_db 1 7 (wr_owner hourly_row) = Some ''member''"
    by (simp add: get_member_role_def hourly_db_def hourly_row_def)
  obtain s' sp where ev: "on_event message_sched std_nostr_api sample_template_api std_eval_api (\<lambda>_. healthy 5) 0 False None 1
      sample_message (hourly_db, []) = (s', Inr [sp])"
    using role by (simp add: on_event_def kind quiet list cache_get_def Let_def fire_on_event_def message_sched_def
        trigger_matches_event_def should_fire_workflow_def check_owner_authority_def owner_authority_allows_def
        requires_elevated_authority_def healthy_def sample_def_def)
  obtain db' cache' where "s' = (db', cache')" by fastforce
  with ev have ev: "on_event message_sched std_nostr_api sample_template_api std_eval_api (\<lambda>_. healthy 5) 0 False None 1
      sample_message (hourly_db, []) = ((db', cache'), Inr [sp])" by simp
  with event_runs_need_current_authority [OF ev, of sp] show ?thesis by (simp add: kind)
qed

text \<open>C35. The scheduler starts a run only with current authority and a fresh claim: when the handler of a
  workflow in a tick spawns a run, the workflow has a channel, its stored definition parses and is
  enabled, the owner is at that moment an active member of the channel, with role owner or admin when the
  definition calls webhooks, and exactly one claim that
  nobody held before has been added to the table.\<close>

theorem tick_runs_need_authority_and_claim:
  assumes "tick_workflow sapi napi io now w (db, lf) = ((db', lf'), spawned)" and "spawned \<noteq> []"
  shows "\<exists>channel def instant sp. spawned = [sp] \<and> sp_workflow sp = w \<and> sp_def sp = def \<and> wr_channel w = Some channel
    \<and> sa_parse_def sapi (wr_definition w) = Some def \<and> wf_def_enabled def
    \<and> holds_authority db (wr_community w) channel (wr_owner w) def
    \<and> (wr_community w, wr_id w, instant) \<notin> claimed db
    \<and> claimed db' = insert (wr_community w, wr_id w, instant) (claimed db)"
proof -
  obtain f sp where f: "decide_fire sapi io now db w lf = (fst (decide_fire sapi io now db w lf), Some f)"
    "spawned = [sp]" "sp_workflow sp = fi_workflow f" "sp_def sp = fi_def f" "authorize_fire io db f"
    "fire_claim_key f \<notin> claimed db" "claimed db' = insert (fire_claim_key f) (claimed db)"
    using tick_workflow_spawn [OF assms] by blast
  then show ?thesis
    using decide_fire_facts [OF f(1)]
    by (auto simp: fire_claim_key_def authorize_fire_def check_owner_authority_iff dest: owner_authority_holds)
qed

theorem tick_runs_need_authority_and_claim_witness:
  "\<exists>db' lf' sp instant. tick_workflow sample_sched std_nostr_api (healthy 11) (7140 * 10 ^ 9) hourly_row
      (hourly_db, [((1, 2), 0)]) = ((db', lf'), [sp])
    \<and> claimed db' = insert (1, 2, instant) (claimed hourly_db)"
proof -
  obtain db' lf' sp where tick: "tick_workflow sample_sched std_nostr_api (healthy 11) (7140 * 10 ^ 9) hourly_row
      (hourly_db, [((1, 2), 0)]) = ((db', lf'), [sp])"
    using hourly_first_tick by auto
  have "wr_community hourly_row = 1" "wr_id hourly_row = 2" by (simp_all add: hourly_row_def)
  with tick_runs_need_authority_and_claim [OF tick] tick show ?thesis by auto
qed

text \<open>A new interval workflow starts firing after one interval: with no claim and no memory of it, the
  first tick starts nothing but remembers the time, and the first tick that is at least one interval
  later creates a run and holds its claim. So the cold start neither fires at once nor waits forever.\<close>

theorem interval_cold_start_fires:
  assumes ready: "interval_ready sapi io db w def channel dur secs"
    and "map_of lf (wr_community w, wr_id w) = None"
    and none: "latest_scheduled_workflow_fire db (wr_community w) (wr_id w) = None"
    and due: "t0 + uint secs * 10 ^ 9 \<le> t1"
    and "sa_from_timestamp sapi (interval_bucket secs t1) = Some instant"
  shows "\<exists>lf0 s' sp. tick_workflow sapi napi io t0 w (db, lf) = ((db, lf0), [])
    \<and> tick_workflow sapi napi io t1 w (db, lf0) = (s', [sp]) \<and> sp_workflow sp = w
    \<and> (wr_community w, wr_id w, instant) \<in> claimed (fst s')"
proof -
  let ?lf = "AList.update (wr_community w, wr_id w) t0 lf"
  have "interval_anchor db w lf = None" using assms(2) none by (simp add: interval_anchor_def)
  then have "tick_workflow sapi napi io t0 w (db, lf) = ((db, ?lf), [])"
    by (simp add: tick_workflow_def decide_fire_interval [OF ready])
  moreover have "interval_anchor db w ?lf = Some t0" by (simp add: interval_anchor_def)
  moreover have "uint secs \<le> \<bar>t1 - t0\<bar> div 10 ^ 9"
  proof -
    have "uint secs * 10 ^ 9 \<le> \<bar>t1 - t0\<bar>" using due by simp
    then have "uint secs * 10 ^ 9 div 10 ^ 9 \<le> \<bar>t1 - t0\<bar> div 10 ^ 9" by (rule zdiv_mono1) simp
    then show ?thesis by simp
  qed
  ultimately show ?thesis
    using interval_tick_fires [OF ready _ _ assms(5) latest_fire_None [OF none]] by blast
qed

theorem interval_cold_start_fires_witness:
  "\<exists>lf0 s' sp. tick_workflow sample_sched std_nostr_api (healthy 11) 0 hourly_row (hourly_db, []) = ((hourly_db, lf0), [])
    \<and> tick_workflow sample_sched std_nostr_api (healthy 11) (3600 * 10 ^ 9) hourly_row (hourly_db, lf0) = (s', [sp])"
proof -
  have ready: "interval_ready sample_sched (healthy 11) hourly_db hourly_row hourly_def 7 (lit ''1h'') 3600"
    by (rule hourly_ready) (simp_all add: hourly_db_def same_roles_def)
  have "latest_scheduled_workflow_fire hourly_db (wr_community hourly_row) (wr_id hourly_row) = None"
    by (simp add: latest_scheduled_workflow_fire_def hourly_db_def)
  then show ?thesis
    using interval_cold_start_fires [OF ready, of "[]" 0 "3600 * 10 ^ 9" "3600 * 10 ^ 9" std_nostr_api]
    by (auto simp: sample_sched_def interval_bucket_def timestamp_def)
qed

text \<open>A restart can fire an interval workflow twice within one interval: a workflow with the interval
  of an hour runs in the last minute of a bucket, and one minute later a pod that has lost its memory
  runs it again, because the claim it takes as anchor carries the start of the bucket and not the time of
  the first run.\<close>

theorem interval_restart_fires_early:
  "\<exists>db1 lf1 s2 sp1 sp2.
     tick_workflow sample_sched std_nostr_api (healthy 11) (7140 * 10 ^ 9) hourly_row (hourly_db, [((1, 2), 0)])
       = ((db1, lf1), [sp1])
     \<and> tick_workflow sample_sched std_nostr_api (healthy 12) (7200 * 10 ^ 9) hourly_row (db1, []) = (s2, [sp2])
     \<and> sp_run_id sp1 = 11 \<and> sp_run_id sp2 = 12"
proof -
  let ?db1 = "attach_scheduled_workflow_run (fst (claim_scheduled_workflow_fire hourly_db (1, 2, 3600 * 10 ^ 9))
      \<lparr>tb_runs := create_workflow_run 11 1 2 None (Some (scheduled_context sample_sched std_nostr_api
         \<lparr>fi_workflow = hourly_row, fi_def = hourly_def, fi_channel = 7, fi_instant = 3600 * 10 ^ 9,
          fi_interval = True, fi_now = 7140 * 10 ^ 9\<rparr>)) []\<rparr>) (1, 2, 3600 * 10 ^ 9) 11"
  have ids: "wr_community hourly_row = 1" "wr_id hourly_row = 2" by (simp_all add: hourly_row_def)
  have r1: "interval_ready sample_sched (healthy 11) hourly_db hourly_row hourly_def 7 (lit ''1h'') 3600"
    by (rule hourly_ready) (simp_all add: hourly_db_def same_roles_def)
  have r2: "interval_ready sample_sched (healthy 12) ?db1 hourly_row hourly_def 7 (lit ''1h'') 3600"
    by (rule hourly_ready)
       (simp_all add: hourly_db_def same_roles_def claim_scheduled_workflow_fire_def attach_scheduled_workflow_run_def ids)
  have "\<exists>lf1 sp1. tick_workflow sample_sched std_nostr_api (healthy 11) (7140 * 10 ^ 9) hourly_row (hourly_db, [((1, 2), 0)])
      = ((?db1, lf1), [sp1]) \<and> sp_run_id sp1 = 11"
    using r1 [unfolded interval_ready_def]
    by (simp add: tick_workflow_def decide_fire_interval [OF r1] interval_anchor_def ids interval_bucket_def timestamp_def
        authorize_fire_def check_owner_authority_iff claim_fire_def fire_claim_key_def create_fire_def Let_def)
       (simp add: sample_sched_def healthy_def hourly_db_def claim_scheduled_workflow_fire_def ids
        claim_fire_def fire_claim_key_def create_fire_def Let_def)
  moreover have "\<exists>s2 sp2. tick_workflow sample_sched std_nostr_api (healthy 12) (7200 * 10 ^ 9) hourly_row (?db1, [])
      = (s2, [sp2]) \<and> sp_workflow sp2 = hourly_row \<and> sp_run_id sp2 = fi_run_id (healthy 12)
      \<and> (wr_community hourly_row, wr_id hourly_row, 7200 * 10 ^ 9) \<in> claimed (fst s2)"
    by (rule interval_tick_fires [OF r2, of _ "3600 * 10 ^ 9"])
       (simp_all add: interval_anchor_def latest_scheduled_workflow_fire_def attach_scheduled_workflow_run_def
         claim_scheduled_workflow_fire_def hourly_db_def ids interval_bucket_def timestamp_def sample_sched_def claimed_def fire_key_def)
  ultimately show ?thesis by (auto simp: healthy_def)
qed

end
