(* ===== verification/Media_Keys.thy ===== *)
theory Media_Keys
  imports Maju_Prelude "HOL-Library.List_Lexorder" "HOL-Library.Char_ord"
begin

text \<open>
  The taxonomy of object-store keys, \<open>crates/maju-media/src/bucket_index.rs\<close>: which writer a key
  belongs to, which community owns it, and the fold that turns a bucket listing into the storage
  accounting of the fleet.

  A Rust string is the list of its UTF-8 bytes, which is what the code compares, splits and counts.
  The \<open>uuid\<close> crate is the parameter record \<open>uuid_api\<close>: parsing and the canonical text. A hash map is an
  association list with distinct keys. Pages of a listing come from a function of the continuation
  token; the loop over them has a number of rounds as its fuel and is \<open>None\<close> when it runs out, so that
  returning is something to prove.

  What is shown: a key is owned by at most one community and lies under one of that community's three
  prefixes, prefixes of different communities are disjoint, and the snapshot does not depend on the
  order or the paging of the listing and equals the accounting written over the set of keys.
\<close>

section \<open>Characters and UUIDs\<close>

definition ascii_digit :: "char \<Rightarrow> bool" where
  "ascii_digit b \<longleftrightarrow> CHR ''0'' \<le> b \<and> b \<le> CHR ''9''"

definition ascii_alphanumeric :: "char \<Rightarrow> bool" where
  "ascii_alphanumeric b \<longleftrightarrow>
     ascii_digit b \<or> (CHR ''a'' \<le> b \<and> b \<le> CHR ''z'') \<or> (CHR ''A'' \<le> b \<and> b \<le> CHR ''Z'')"

definition ascii_hexdigit :: "char \<Rightarrow> bool" where
  "ascii_hexdigit b \<longleftrightarrow>
     ascii_digit b \<or> (CHR ''a'' \<le> b \<and> b \<le> CHR ''f'') \<or> (CHR ''A'' \<le> b \<and> b \<le> CHR ''F'')"

definition lower_hexdigit :: "char \<Rightarrow> bool" where
  "lower_hexdigit b \<longleftrightarrow> ascii_digit b \<or> (CHR ''a'' \<le> b \<and> b \<le> CHR ''f'')"

record uuid_api =
  ua_parse :: "string \<Rightarrow> uuid option"
  ua_string :: "uuid \<Rightarrow> string"

definition is_sha256 :: "string \<Rightarrow> bool" where
  "is_sha256 s \<longleftrightarrow> length s = 64 \<and> list_all lower_hexdigit s"

definition is_blob_ext :: "string \<Rightarrow> bool" where
  "is_blob_ext s \<longleftrightarrow> s \<noteq> [] \<and> length s \<le> 8 \<and> list_all ascii_alphanumeric s"

definition is_ulid_charset :: "string \<Rightarrow> bool" where
  "is_ulid_charset s \<longleftrightarrow>
     length s = 26
     \<and> list_all (\<lambda>b. ascii_digit b \<or> (CHR ''A'' \<le> b \<and> b \<le> CHR ''H'') \<or> b = CHR ''J'' \<or> b = CHR ''K''
          \<or> b = CHR ''M'' \<or> b = CHR ''N'' \<or> (CHR ''P'' \<le> b \<and> b \<le> CHR ''T'')
          \<or> (CHR ''V'' \<le> b \<and> b \<le> CHR ''Z'')) s"

text \<open>The loop over \<open>bytes().enumerate()\<close> of \<open>parse_canonical_uuid\<close>.\<close>

definition uuid_char_ok :: "nat \<times> char \<Rightarrow> bool" where
  "uuid_char_ok ib =
     (if fst ib \<in> {8, 13, 18, 23} then snd ib = CHR ''-'' else lower_hexdigit (snd ib))"

definition canonical_uuid_text :: "string \<Rightarrow> bool" where
  "canonical_uuid_text s \<longleftrightarrow> length s = 36 \<and> list_all uuid_char_ok (List.enumerate 0 s)"

definition parse_canonical_uuid :: "uuid_api \<Rightarrow> string \<Rightarrow> uuid option" where
  "parse_canonical_uuid ua s = (if canonical_uuid_text s then ua_parse ua s else None)"

section \<open>Key classes\<close>

datatype key_class =
    Thumb string
  | Blob string string
  | Sidecar uuid string
  | Auxiliary uuid string string
  | Unknown

definition parse_thumb_key :: "string \<Rightarrow> string option" where
  "parse_thumb_key key =
     (case split_on CHR ''.'' key of
        [sha256, thumb, jpg] \<Rightarrow>
          if thumb = ''thumb'' \<and> jpg = ''jpg'' \<and> is_sha256 sha256 then Some sha256 else None
      | _ \<Rightarrow> None)"

definition parse_blob_key :: "string \<Rightarrow> (string \<times> string) option" where
  "parse_blob_key key =
     (case split_on CHR ''.'' key of
        [sha256, ext] \<Rightarrow> if is_sha256 sha256 \<and> is_blob_ext ext then Some (sha256, ext) else None
      | _ \<Rightarrow> None)"

definition parse_sidecar_key :: "uuid_api \<Rightarrow> string \<Rightarrow> (uuid \<times> string) option" where
  "parse_sidecar_key ua key =
     (case split_on CHR ''/'' key of
        [root, owner, leaf] \<Rightarrow>
          if root \<noteq> ''_meta'' then None
          else
            (case parse_canonical_uuid ua owner of
               None \<Rightarrow> None
             | Some community \<Rightarrow>
                 (case split_on CHR ''.'' leaf of
                    [sha256, json] \<Rightarrow>
                      if json = ''json'' \<and> is_sha256 sha256 then Some (community, sha256) else None
                  | _ \<Rightarrow> None))
      | _ \<Rightarrow> None)"

definition parse_auxiliary_key :: "uuid_api \<Rightarrow> string \<Rightarrow> (uuid \<times> string \<times> string) option" where
  "parse_auxiliary_key ua key =
     (case split_on CHR ''/'' key of
        [root, owner, sha256, leaf] \<Rightarrow>
          if root \<noteq> ''_uploads'' then None
          else
            (case parse_canonical_uuid ua owner of
               None \<Rightarrow> None
             | Some community \<Rightarrow>
                 if \<not> is_sha256 sha256 then None
                 else
                   (case split_on CHR ''.'' leaf of
                      [event_id, json] \<Rightarrow>
                        if json = ''json'' \<and> is_ulid_charset event_id
                        then Some (community, sha256, event_id) else None
                    | _ \<Rightarrow> None))
      | _ \<Rightarrow> None)"

definition classify_key :: "uuid_api \<Rightarrow> string \<Rightarrow> key_class" where
  "classify_key ua key =
     (case parse_thumb_key key of
        Some sha256 \<Rightarrow> Thumb sha256
      | None \<Rightarrow>
     (case parse_blob_key key of
        Some (sha256, ext) \<Rightarrow> Blob sha256 ext
      | None \<Rightarrow>
     (case parse_sidecar_key ua key of
        Some (community, sha256) \<Rightarrow> Sidecar community sha256
      | None \<Rightarrow>
     (case parse_auxiliary_key ua key of
        Some (community, sha256, event_id) \<Rightarrow> Auxiliary community sha256 event_id
      | None \<Rightarrow> Unknown))))"

text \<open>\<open>has_dotdot\<close> is \<open>repo.contains("..")\<close>.\<close>

fun has_dotdot :: "string \<Rightarrow> bool" where
  "has_dotdot (a # b # s) = (a = CHR ''.'' \<and> b = CHR ''.'' \<or> has_dotdot (b # s))"
| "has_dotdot _ = False"

definition git_pointer_community :: "uuid_api \<Rightarrow> string \<Rightarrow> uuid option" where
  "git_pointer_community ua key =
     (case split_on CHR ''/'' key of
        [root, owner_id, owner, repo, pointer] \<Rightarrow>
          if root \<noteq> ''repos'' then None
          else
            (case parse_canonical_uuid ua owner_id of
               None \<Rightarrow> None
             | Some community \<Rightarrow>
                 if length owner \<noteq> 64 \<or> \<not> list_all ascii_hexdigit owner \<or> repo = [] \<or> length repo > 64
                    \<or> is_prefix ''.'' repo \<or> has_dotdot repo
                    \<or> \<not> list_all (\<lambda>b. ascii_alphanumeric b \<or> b \<in> set ''._-'') repo
                    \<or> pointer \<noteq> ''pointer''
                 then None else Some community)
      | _ \<Rightarrow> None)"

definition tenant_prefixes :: "uuid_api \<Rightarrow> uuid \<Rightarrow> string list" where
  "tenant_prefixes ua community =
     [''_meta/'' @ ua_string ua community @ ''/'', ''_uploads/'' @ ua_string ua community @ ''/'',
      ''repos/'' @ ua_string ua community @ ''/'']"

definition is_tenant_owned_key :: "uuid_api \<Rightarrow> uuid \<Rightarrow> string \<Rightarrow> bool" where
  "is_tenant_owned_key ua community key =
     (case classify_key ua key of
        Sidecar owner _ \<Rightarrow> owner = community
      | Auxiliary owner _ _ \<Rightarrow> owner = community
      | Unknown \<Rightarrow> git_pointer_community ua key = Some community
      | Blob _ _ \<Rightarrow> False
      | Thumb _ \<Rightarrow> False)"

definition is_known_git_shared_key :: "string \<Rightarrow> bool" where
  "is_known_git_shared_key key =
     list_ex (\<lambda>prefix. is_prefix prefix key
         \<and> (let digest = drop (length prefix) key in length digest = 64 \<and> list_all ascii_hexdigit digest))
       [''packs/'', ''idx/'', ''manifests/'']"

definition is_known_fleet_key :: "uuid_api \<Rightarrow> string \<Rightarrow> bool" where
  "is_known_fleet_key ua key \<longleftrightarrow>
     classify_key ua key \<noteq> Unknown \<or> git_pointer_community ua key \<noteq> None
     \<or> is_known_git_shared_key key \<or> is_prefix ''probe/'' key"

text \<open>The keys of the three tenant writers: the media sidecar, the upload record and the Git pointer.\<close>

definition sidecar_key :: "uuid_api \<Rightarrow> uuid \<Rightarrow> string \<Rightarrow> string" where
  "sidecar_key ua community sha256 = ''_meta/'' @ ua_string ua community @ ''/'' @ sha256 @ ''.json''"

definition upload_record_key :: "uuid_api \<Rightarrow> uuid \<Rightarrow> string \<Rightarrow> string \<Rightarrow> string" where
  "upload_record_key ua community sha256 event_id =
     ''_uploads/'' @ ua_string ua community @ ''/'' @ sha256 @ ''/'' @ event_id @ ''.json''"

definition pointer_key :: "uuid_api \<Rightarrow> uuid \<Rightarrow> string \<Rightarrow> string \<Rightarrow> string" where
  "pointer_key ua community owner repo =
     (let repo = (if is_prefix (rev ''.git'') (rev repo) then take (length repo - 4) repo else repo) in
      ''repos/'' @ ua_string ua community @ ''/'' @ owner @ ''/'' @ repo @ ''/pointer'')"

section \<open>Accounting\<close>

text \<open>Byte counters are \<open>u64\<close>; the sums of the code wrap at that width.\<close>

record community_storage =
  cs_bytes :: u64
  cs_objects :: u64

record bucket_snapshot =
  physical_bytes :: u64
  physical_objects :: u64
  logical_bytes :: u64
  logical_objects :: u64
  per_community :: "(uuid, community_storage) hmap"
  orphan_blob_bytes :: u64
  orphan_blob_count :: u64
  orphan_sidecar_count :: u64
  multi_variant_shas :: u64
  multi_variant_bytes :: u64
  unknown_key_bytes :: u64
  unknown_key_objects :: u64

record bucket_aggregate =
  blob_variant_bytes :: "(string, u64 list) hmap"
  thumb_bytes :: "(string, u64) hmap"
  sidecar_bindings :: "(uuid \<times> string, u64) hmap"
  ag_physical_bytes :: u64
  ag_physical_objects :: u64
  unknown_bytes :: u64
  unknown_objects :: u64

definition aggregate_default :: bucket_aggregate where
  "aggregate_default =
     \<lparr>blob_variant_bytes = [], thumb_bytes = [], sidecar_bindings = [], ag_physical_bytes = 0,
      ag_physical_objects = 0, unknown_bytes = 0, unknown_objects = 0\<rparr>"

definition aggregate_fold :: "uuid_api \<Rightarrow> string \<times> u64 \<Rightarrow> bucket_aggregate \<Rightarrow> bucket_aggregate" where
  "aggregate_fold ua obj ag =
     (let (key, sz) = obj;
          ag = ag\<lparr>ag_physical_objects := ag_physical_objects ag + 1,
                 ag_physical_bytes := ag_physical_bytes ag + sz\<rparr> in
      case classify_key ua key of
        Thumb sha256 \<Rightarrow> ag\<lparr>thumb_bytes := AList.update sha256 sz (thumb_bytes ag)\<rparr>
      | Blob sha256 _ \<Rightarrow> ag\<lparr>blob_variant_bytes := idx_push sha256 sz (blob_variant_bytes ag)\<rparr>
      | Sidecar community sha256 \<Rightarrow>
          ag\<lparr>sidecar_bindings := AList.update (community, sha256) sz (sidecar_bindings ag)\<rparr>
      | Auxiliary _ _ _ \<Rightarrow> ag
      | Unknown \<Rightarrow> ag\<lparr>unknown_objects := unknown_objects ag + 1, unknown_bytes := unknown_bytes ag + sz\<rparr>)"

text \<open>The loop over the sidecar bindings that fills \<open>per_community\<close>.\<close>

definition bill_binding :: "bucket_aggregate \<Rightarrow> uuid \<times> string \<Rightarrow> (uuid, community_storage) hmap
    \<Rightarrow> (uuid, community_storage) hmap" where
  "bill_binding ag binding m =
     (let (community, sha256) = binding;
          blob_bytes = sum_list (idx_get (blob_variant_bytes ag) sha256);
          thumb = (case map_of (thumb_bytes ag) sha256 of None \<Rightarrow> 0 | Some b \<Rightarrow> b);
          entry = (case map_of m community of None \<Rightarrow> \<lparr>cs_bytes = 0, cs_objects = 0\<rparr> | Some e \<Rightarrow> e)
      in AList.update community
           \<lparr>cs_bytes = cs_bytes entry + (blob_bytes + thumb), cs_objects = cs_objects entry + 1\<rparr> m)"

definition aggregate_finish :: "bucket_aggregate \<Rightarrow> bucket_snapshot" where
  "aggregate_finish ag =
     (let bindings = map fst (sidecar_bindings ag);
          bound_shas = map snd bindings;
          blobs = blob_variant_bytes ag;
          multi = filter (\<lambda>(sha256, variants). length variants > 1) blobs;
          orphans = filter (\<lambda>(sha256, variants). sha256 \<notin> set bound_shas) blobs;
          per = fold (bill_binding ag) bindings [] in
      \<lparr>physical_bytes = ag_physical_bytes ag, physical_objects = ag_physical_objects ag,
       logical_bytes = sum_list (map (cs_bytes \<circ> snd) per),
       logical_objects = sum_list (map (cs_objects \<circ> snd) per),
       per_community = per,
       orphan_blob_bytes = sum_list (map (sum_list \<circ> snd) orphans),
       orphan_blob_count = of_nat (length orphans),
       orphan_sidecar_count =
         of_nat (length (filter (\<lambda>(c, sha256). map_of blobs sha256 = None) bindings)),
       multi_variant_shas = of_nat (length multi),
       multi_variant_bytes = sum_list (map (sum_list \<circ> snd) multi),
       unknown_key_bytes = unknown_bytes ag, unknown_key_objects = unknown_objects ag\<rparr>)"

section \<open>Listings\<close>

record page =
  pg_objects :: "(string \<times> u64) list"
  pg_next :: "string option"
  pg_truncated :: bool

datatype sweep_error =
    CapExceeded u64 u64
  | Storage string
  | MalformedPage

text \<open>
  The pagination loop that \<open>fold_bucket_listing\<close> and \<open>sweep_bucket_taxonomy\<close> share: count the page
  against the cap, fold its objects, follow the continuation token.
\<close>

fun listing_loop ::
  "nat \<Rightarrow> u64 \<Rightarrow> (string option \<Rightarrow> string + page) \<Rightarrow> (string \<times> u64 \<Rightarrow> 'a \<Rightarrow> 'a) \<Rightarrow> string option \<Rightarrow> u64 \<Rightarrow> 'a
     \<Rightarrow> (sweep_error + u64 \<times> 'a) option" where
  "listing_loop 0 cap fetch_page step token seen acc = None"
| "listing_loop (Suc n) cap fetch_page step token seen acc =
     (case fetch_page token of
        Inl e \<Rightarrow> Some (Inl (Storage e))
      | Inr page \<Rightarrow>
          (let seen = seen + of_nat (length (pg_objects page)) in
           if seen > cap then Some (Inl (CapExceeded seen cap))
           else
             (let acc = fold step (pg_objects page) acc in
              if \<not> pg_truncated page then Some (Inr (seen, acc))
              else
                (case pg_next page of
                   Some t \<Rightarrow> listing_loop n cap fetch_page step (Some t) seen acc
                 | None \<Rightarrow> Some (Inl MalformedPage)))))"

definition fold_bucket_listing ::
  "uuid_api \<Rightarrow> nat \<Rightarrow> u64 \<Rightarrow> (string option \<Rightarrow> string + page) \<Rightarrow> (sweep_error + bucket_snapshot) option" where
  "fold_bucket_listing ua n cap fetch_page =
     map_option (map_sum id (aggregate_finish \<circ> snd))
       (listing_loop n cap fetch_page (aggregate_fold ua) None 0 aggregate_default)"

record taxonomy_sweep_outcome =
  listed_objects :: u64
  unknown_object_count :: u64
  unknown_key_sample :: "string list"

definition taxonomy_step :: "uuid_api \<Rightarrow> nat \<Rightarrow> string \<times> u64 \<Rightarrow> u64 \<times> string list \<Rightarrow> u64 \<times> string list" where
  "taxonomy_step ua sample_limit obj acc =
     (if is_known_fleet_key ua (fst obj) then acc
      else (fst acc + 1, if length (snd acc) < sample_limit then snd acc @ [fst obj] else snd acc))"

definition sweep_bucket_taxonomy ::
  "uuid_api \<Rightarrow> nat \<Rightarrow> u64 \<Rightarrow> nat \<Rightarrow> (string option \<Rightarrow> string + page)
     \<Rightarrow> (sweep_error + taxonomy_sweep_outcome) option" where
  "sweep_bucket_taxonomy ua n cap sample_limit fetch_page =
     map_option (map_sum id (\<lambda>(seen, cnt, sample).
         \<lparr>listed_objects = seen, unknown_object_count = cnt, unknown_key_sample = sample\<rparr>))
       (listing_loop n cap fetch_page (taxonomy_step ua sample_limit) None 0 (0, []))"

section \<open>Ownership of keys\<close>

text \<open>What the code relies on of the \<open>uuid\<close> crate: the text of a UUID is canonical and parses back, and a
  canonical text is the text of what it parses to.\<close>

definition uuid_text_ok :: "uuid_api \<Rightarrow> bool" where
  "uuid_text_ok ua \<longleftrightarrow>
     (\<forall>u. canonical_uuid_text (ua_string ua u) \<and> ua_parse ua (ua_string ua u) = Some u)
     \<and> (\<forall>s u. canonical_uuid_text s \<and> ua_parse ua s = Some u \<longrightarrow> ua_string ua u = s)"

lemma ua_string_length: "uuid_text_ok ua \<Longrightarrow> length (ua_string ua u) = 36"
  by (simp add: uuid_text_ok_def canonical_uuid_text_def)

lemma ua_string_inj: "uuid_text_ok ua \<Longrightarrow> ua_string ua u = ua_string ua v \<Longrightarrow> u = v"
  unfolding uuid_text_ok_def by (metis option.inject)

lemma parse_canonical_uuid_string:
  "uuid_text_ok ua \<Longrightarrow> parse_canonical_uuid ua s = Some u \<Longrightarrow> s = ua_string ua u"
  by (auto simp: uuid_text_ok_def parse_canonical_uuid_def split: if_splits)

lemma split_on_key:
  assumes "split_on c key = a # b # r" "r \<noteq> []"
  shows "is_prefix (a @ c # b @ [c]) key"
proof -
  have "key = join_with c (a # b # r)" using assms(1) join_split_on [of c key] by simp
  then have "key = a @ c # b @ c # join_with c r" using assms(2) by (simp add: join_with_Cons)
  then show ?thesis by (auto simp: is_prefix_iff)
qed

lemma classify_key_Sidecar:
  "classify_key ua key = Sidecar c s \<longleftrightarrow>
     parse_thumb_key key = None \<and> parse_blob_key key = None \<and> parse_sidecar_key ua key = Some (c, s)"
  by (auto simp: classify_key_def split: option.splits)

lemma classify_key_Auxiliary:
  "classify_key ua key = Auxiliary c s e \<Longrightarrow> parse_auxiliary_key ua key = Some (c, s, e)"
  by (auto simp: classify_key_def split: option.splits)

lemma parse_sidecar_key_prefix:
  assumes "uuid_text_ok ua" "parse_sidecar_key ua key = Some (c, s)"
  shows "is_prefix (''_meta/'' @ ua_string ua c @ ''/'') key"
proof -
  from assms(2) obtain owner leaf where sp: "split_on CHR ''/'' key = [''_meta'', owner, leaf]"
    and c: "parse_canonical_uuid ua owner = Some c"
    by (auto simp: parse_sidecar_key_def split: list.splits if_splits option.splits)
  show ?thesis
    using split_on_key [OF sp] parse_canonical_uuid_string [OF assms(1) c] by simp
qed

lemma parse_auxiliary_key_prefix:
  assumes "uuid_text_ok ua" "parse_auxiliary_key ua key = Some (c, s, e)"
  shows "is_prefix (''_uploads/'' @ ua_string ua c @ ''/'') key"
proof -
  from assms(2) obtain owner r where sp: "split_on CHR ''/'' key = ''_uploads'' # owner # s # r"
    and c: "parse_canonical_uuid ua owner = Some c"
    by (auto simp: parse_auxiliary_key_def split: list.splits if_splits option.splits)
  show ?thesis
    using split_on_key [OF sp] parse_canonical_uuid_string [OF assms(1) c] by simp
qed

lemma git_pointer_community_prefix:
  assumes "uuid_text_ok ua" "git_pointer_community ua key = Some c"
  shows "is_prefix (''repos/'' @ ua_string ua c @ ''/'') key"
proof -
  from assms(2) obtain owner a b d where sp: "split_on CHR ''/'' key = [''repos'', owner, a, b, d]"
    and c: "parse_canonical_uuid ua owner = Some c"
    by (auto simp: git_pointer_community_def split: list.splits if_splits option.splits)
  show ?thesis
    using split_on_key [OF sp] parse_canonical_uuid_string [OF assms(1) c] by simp
qed

lemma owned_key_prefix:
  assumes "uuid_text_ok ua" "is_tenant_owned_key ua c key"
  shows "\<exists>p \<in> set (tenant_prefixes ua c). is_prefix p key"
  using assms(2) parse_sidecar_key_prefix [OF assms(1)] parse_auxiliary_key_prefix [OF assms(1)]
    git_pointer_community_prefix [OF assms(1)]
  by (auto simp: is_tenant_owned_key_def tenant_prefixes_def classify_key_Sidecar
      dest!: classify_key_Auxiliary split: key_class.splits)

lemma is_prefix_Cons: "is_prefix (x # xs) k \<longleftrightarrow> (\<exists>k'. k = x # k' \<and> is_prefix xs k')"
  by (cases k) auto

lemma is_prefix_unique: "is_prefix xs k \<Longrightarrow> is_prefix ys k \<Longrightarrow> length xs = length ys \<Longrightarrow> xs = ys"
  by (auto simp: is_prefix_iff)

lemma tenant_prefix_unique:
  assumes "uuid_text_ok ua" "p \<in> set (tenant_prefixes ua c)" "q \<in> set (tenant_prefixes ua d)"
    "is_prefix p key" "is_prefix q key"
  shows "p = q \<and> c = d"
proof -
  have same: "c = d" if "is_prefix (ua_string ua c @ ''/'') k" "is_prefix (ua_string ua d @ ''/'') k" for k
    using is_prefix_unique [OF that] ua_string_inj [OF assms(1)] by (simp add: ua_string_length [OF assms(1)])
  show ?thesis
    using assms(2-5) by (auto simp: tenant_prefixes_def is_prefix_Cons dest: same)
qed

lemma tenant_prefixes_sorted:
  "sorted_wrt (<) (tenant_prefixes ua c)" "[] \<notin> set (tenant_prefixes ua c)"
  by (auto simp: tenant_prefixes_def)

section \<open>A concrete UUID text\<close>

text \<open>The hyphenated lowercase text of a UUID, an instance of the parameter on which the laws above can be
  checked: 32 hexadecimal digits, most significant first, grouped 8-4-4-4-12.\<close>

fun hex_digits :: "nat \<Rightarrow> nat \<Rightarrow> nat list" where
  "hex_digits 0 n = []"
| "hex_digits (Suc k) n = hex_digits k (n div 16) @ [n mod 16]"

definition hex_value :: "nat list \<Rightarrow> nat" where
  "hex_value ds = foldl (\<lambda>v d. v * 16 + d) 0 ds"

definition hex_char :: "nat \<Rightarrow> char" where
  "hex_char d = (if d < 10 then char_of (48 + d) else char_of (87 + d))"

definition hex_of_char :: "char \<Rightarrow> nat" where
  "hex_of_char b = (if ascii_digit b then of_char b - 48 else of_char b - 87)"

definition hyphenate :: "'a \<Rightarrow> 'a list \<Rightarrow> 'a list" where
  "hyphenate h ds = take 8 ds @ h # take 4 (drop 8 ds) @ h # take 4 (drop 12 ds) @ h # take 4 (drop 16 ds)
     @ h # drop 20 ds"

definition unhyphenate :: "'a list \<Rightarrow> 'a list" where
  "unhyphenate s = take 8 s @ take 4 (drop 9 s) @ take 4 (drop 14 s) @ take 4 (drop 19 s) @ drop 24 s"

definition std_uuid_api :: uuid_api where
  "std_uuid_api =
     \<lparr>ua_parse = (\<lambda>s. if canonical_uuid_text s
         then Some (word_of_nat (hex_value (map hex_of_char (unhyphenate s)))) else None),
      ua_string = (\<lambda>u. hyphenate CHR ''-'' (map hex_char (hex_digits 32 (unat u))))\<rparr>"

lemma length_hex_digits [simp]: "length (hex_digits k n) = k"
  by (induction k arbitrary: n) auto

lemma hex_digits_bound: "d \<in> set (hex_digits k n) \<Longrightarrow> d < 16"
  by (induction k arbitrary: n) auto

lemma hex_value_digits: "hex_value (hex_digits k n) = n mod 16 ^ k"
proof (induction k arbitrary: n)
  case (Suc k)
  have "hex_value (hex_digits (Suc k) n) = hex_value (hex_digits k (n div 16)) * 16 + n mod 16"
    by (simp add: hex_value_def)
  also have "\<dots> = n mod (16 * 16 ^ k)" by (simp add: Suc mod_mult2_eq)
  finally show ?case by simp
qed (simp add: hex_value_def)

lemma hex_value_snoc [simp]: "hex_value (ds @ [d]) = hex_value ds * 16 + d" "hex_value [] = 0"
  by (simp_all add: hex_value_def)

lemma hex_digits_value:
  "(\<And>d. d \<in> set ds \<Longrightarrow> d < 16) \<Longrightarrow> length ds = k \<Longrightarrow> hex_digits k (hex_value ds) = ds"
  by (induction ds arbitrary: k rule: rev_induct) (auto simp: div_mult2_eq)

lemma hex_value_bound: "(\<And>d. d \<in> set ds \<Longrightarrow> d < 16) \<Longrightarrow> hex_value ds < 16 ^ length ds"
proof (induction ds rule: rev_induct)
  case (snoc d ds)
  then have "hex_value ds < 16 ^ length ds" "d < 16" by auto
  then show ?case by simp
qed simp

lemma hex_char_inverse:
  "d < 16 \<Longrightarrow> hex_of_char (hex_char d) = d" "d < 16 \<Longrightarrow> lower_hexdigit (hex_char d)"
proof -
  have "list_all (\<lambda>d. hex_of_char (hex_char d) = d \<and> lower_hexdigit (hex_char d)) [0..<16]"
    by code_simp
  then show "d < 16 \<Longrightarrow> hex_of_char (hex_char d) = d" "d < 16 \<Longrightarrow> lower_hexdigit (hex_char d)"
    by (simp_all add: list_all_iff)
qed

lemma lower_hexdigit_inverse: "lower_hexdigit b \<Longrightarrow> hex_of_char b < 16 \<and> hex_char (hex_of_char b) = b"
proof -
  assume "lower_hexdigit b"
  then consider "ascii_digit b" "48 \<le> (of_char b :: nat)" "(of_char b :: nat) \<le> 57"
    | "\<not> ascii_digit b" "97 \<le> (of_char b :: nat)" "(of_char b :: nat) \<le> 102"
    unfolding lower_hexdigit_def ascii_digit_def less_eq_char_def by fastforce
  then show "hex_of_char b < 16 \<and> hex_char (hex_of_char b) = b"
    by cases (auto simp: hex_of_char_def hex_char_def)
qed

lemma take_drop_step: "take k (drop n xs) @ drop (n + k) xs = drop n xs"
  by (metis append_take_drop_id drop_drop add.commute)

lemma hyphenated_parts:
  assumes "length s = 36"
  obtains a b c d e h1 h2 h3 h4 where "s = a @ h1 # b @ h2 # c @ h3 # d @ h4 # e"
    "length a = 8" "length b = 4" "length c = 4" "length d = 4" "length e = 12"
proof -
  have nth: "drop n s = s ! n # drop (Suc n) s" if "n < 36" for n
    using that assms by (simp add: Cons_nth_drop_Suc)
  have "s = take 8 s @ drop 8 s" by simp
  also have "drop 8 s = s ! 8 # take 4 (drop 9 s) @ drop 13 s"
    using nth [of 8] take_drop_step [of 4 9 s] by simp
  also have "drop 13 s = s ! 13 # take 4 (drop 14 s) @ drop 18 s"
    using nth [of 13] take_drop_step [of 4 14 s] by simp
  also have "drop 18 s = s ! 18 # take 4 (drop 19 s) @ drop 23 s"
    using nth [of 18] take_drop_step [of 4 19 s] by simp
  also have "drop 23 s = s ! 23 # drop 24 s"
    using nth [of 23] by simp
  finally show ?thesis
    by (rule that) (use assms in auto)
qed

lemma plain_parts:
  assumes "length ds = 32"
  obtains a b c d e where "ds = a @ b @ c @ d @ e"
    "length a = 8" "length b = 4" "length c = 4" "length d = 4" "length e = 12"
proof -
  have "ds = take 8 ds @ drop 8 ds" by simp
  also have "drop 8 ds = take 4 (drop 8 ds) @ drop 12 ds" using take_drop_step [of 4 8 ds] by simp
  also have "drop 12 ds = take 4 (drop 12 ds) @ drop 16 ds" using take_drop_step [of 4 12 ds] by simp
  also have "drop 16 ds = take 4 (drop 16 ds) @ drop 20 ds" using take_drop_step [of 4 16 ds] by simp
  finally show ?thesis
    by (rule that) (use assms in auto)
qed

lemma canonical_segment:
  "n + length xs \<le> 8 \<or> 8 < n \<and> n + length xs \<le> 13 \<or> 13 < n \<and> n + length xs \<le> 18
     \<or> 18 < n \<and> n + length xs \<le> 23 \<or> 23 < n \<Longrightarrow>
   list_all uuid_char_ok (List.enumerate n xs) \<longleftrightarrow> list_all lower_hexdigit xs"
  by (induction xs arbitrary: n) (auto simp: uuid_char_ok_def)

lemma canonical_hyphenated:
  assumes "length a = 8" "length b = 4" "length c = 4" "length d = 4" "length e = 12"
  shows "canonical_uuid_text (a @ h1 # b @ h2 # c @ h3 # d @ h4 # e) \<longleftrightarrow>
    list_all lower_hexdigit (a @ b @ c @ d @ e) \<and> h1 = CHR ''-'' \<and> h2 = CHR ''-'' \<and> h3 = CHR ''-'' \<and> h4 = CHR ''-''"
proof -
  have "uuid_char_ok (8, h1) \<longleftrightarrow> h1 = CHR ''-''" "uuid_char_ok (13, h2) \<longleftrightarrow> h2 = CHR ''-''"
    "uuid_char_ok (18, h3) \<longleftrightarrow> h3 = CHR ''-''" "uuid_char_ok (23, h4) \<longleftrightarrow> h4 = CHR ''-''"
    by (simp_all add: uuid_char_ok_def)
  with assms show ?thesis
    by (auto simp: canonical_uuid_text_def enumerate_append_eq canonical_segment)
qed

lemma std_uuid_text_ok: "uuid_text_ok std_uuid_api"
proof -
  have canon: "canonical_uuid_text (ua_string std_uuid_api u)"
    and parse: "ua_parse std_uuid_api (ua_string std_uuid_api u) = Some u" for u
  proof -
    define ds where "ds = map hex_char (hex_digits 32 (unat u))"
    have "length ds = 32" by (simp add: ds_def)
    then obtain a b c d e where ds: "ds = a @ b @ c @ d @ e"
      "length a = 8" "length b = 4" "length c = 4" "length d = 4" "length e = 12"
      by (rule plain_parts)
    have str: "ua_string std_uuid_api u
        = a @ CHR ''-'' # b @ CHR ''-'' # c @ CHR ''-'' # d @ CHR ''-'' # e"
      using ds by (simp add: std_uuid_api_def ds_def [symmetric] hyphenate_def)
    have low: "list_all lower_hexdigit ds"
      using hex_digits_bound hex_char_inverse(2) by (force simp: ds_def list_all_iff)
    show canon: "canonical_uuid_text (ua_string std_uuid_api u)"
      using low ds by (simp add: str canonical_hyphenated)
    have "unhyphenate (ua_string std_uuid_api u) = ds"
      using ds by (simp add: str unhyphenate_def)
    moreover have "map hex_of_char ds = hex_digits 32 (unat u)"
      using hex_digits_bound hex_char_inverse(1) by (force simp: ds_def intro!: map_idI)
    moreover have "unat u < 2 ^ LENGTH(128)" by (rule unsigned_less)
    then have "unat u mod 16 ^ 32 = unat u" by simp
    ultimately show "ua_parse std_uuid_api (ua_string std_uuid_api u) = Some u"
      using canon by (simp add: std_uuid_api_def hex_value_digits)
  qed
  moreover have "ua_string std_uuid_api u = s"
    if "canonical_uuid_text s" "ua_parse std_uuid_api s = Some u" for s u
  proof -
    have "length s = 36" using that(1) by (simp add: canonical_uuid_text_def)
    then obtain a b c d e h1 h2 h3 h4 where s: "s = a @ h1 # b @ h2 # c @ h3 # d @ h4 # e"
      "length a = 8" "length b = 4" "length c = 4" "length d = 4" "length e = 12"
      by (rule hyphenated_parts)
    then have low: "list_all lower_hexdigit (a @ b @ c @ d @ e)"
      and h: "h1 = CHR ''-''" "h2 = CHR ''-''" "h3 = CHR ''-''" "h4 = CHR ''-''"
      using that(1) canonical_hyphenated by blast+
    define vs where "vs = map hex_of_char (a @ b @ c @ d @ e)"
    have u: "u = word_of_nat (hex_value vs)"
      using that s by (simp add: std_uuid_api_def unhyphenate_def vs_def)
    have bound: "v < 16" if "v \<in> set vs" for v
      using that low lower_hexdigit_inverse by (auto simp: vs_def list_all_iff)
    have len: "length vs = 32" using s by (simp add: vs_def)
    have "hex_value vs < 2 ^ 128" using hex_value_bound [of vs] bound len by simp
    then have "unat u = hex_value vs" by (simp add: u unat_of_nat take_bit_nat_eq_self)
    then have "hex_digits 32 (unat u) = vs" using hex_digits_value [of vs 32] bound len by simp
    moreover have "map hex_char vs = a @ b @ c @ d @ e"
      using low lower_hexdigit_inverse by (auto simp: vs_def list_all_iff intro!: map_idI)
    ultimately show ?thesis
      using s h by (simp add: std_uuid_api_def hyphenate_def)
  qed
  ultimately show ?thesis by (auto simp: uuid_text_ok_def)
qed

section \<open>The accounting, declaratively\<close>

definition blob_sizes :: "uuid_api \<Rightarrow> (string \<times> u64) list \<Rightarrow> string \<Rightarrow> u64 list" where
  "blob_sizes ua objs s = map snd (filter (\<lambda>(k, b). \<exists>e. classify_key ua k = Blob s e) objs)"

definition thumb_size :: "uuid_api \<Rightarrow> (string \<times> u64) list \<Rightarrow> string \<Rightarrow> u64" where
  "thumb_size ua objs s = sum_list (map snd (filter (\<lambda>(k, b). classify_key ua k = Thumb s) objs))"

definition bindings_of :: "uuid_api \<Rightarrow> (string \<times> u64) list \<Rightarrow> (uuid \<times> string) set" where
  "bindings_of ua objs = {(c, s). \<exists>k b. (k, b) \<in> set objs \<and> classify_key ua k = Sidecar c s}"

definition unknown_sizes :: "uuid_api \<Rightarrow> (string \<times> u64) list \<Rightarrow> u64 list" where
  "unknown_sizes ua objs = map snd (filter (\<lambda>(k, b). classify_key ua k = Unknown) objs)"

definition bound_bytes :: "uuid_api \<Rightarrow> (string \<times> u64) list \<Rightarrow> string \<Rightarrow> u64" where
  "bound_bytes ua objs s = sum_list (blob_sizes ua objs s) + thumb_size ua objs s"

lemma classify_key_Thumb: "classify_key ua k = Thumb s \<Longrightarrow> k = s @ ''.thumb.jpg''"
proof -
  assume "classify_key ua k = Thumb s"
  then have "split_on CHR ''.'' k = [s, ''thumb'', ''jpg'']"
    by (auto simp: classify_key_def parse_thumb_key_def split: option.splits list.splits if_splits)
  then have "k = join_with CHR ''.'' [s, ''thumb'', ''jpg'']" using join_split_on [of "CHR ''.''" k] by simp
  then show ?thesis by simp
qed

definition aggregate_ok :: "uuid_api \<Rightarrow> (string \<times> u64) list \<Rightarrow> bucket_aggregate \<Rightarrow> bool" where
  "aggregate_ok ua objs ag \<longleftrightarrow>
     idx_wf (blob_variant_bytes ag) \<and> (\<forall>s. idx_get (blob_variant_bytes ag) s = blob_sizes ua objs s)
     \<and> (\<forall>s. (case map_of (thumb_bytes ag) s of None \<Rightarrow> 0 | Some b \<Rightarrow> b) = thumb_size ua objs s)
     \<and> hm_wf (sidecar_bindings ag) \<and> fst ` set (sidecar_bindings ag) = bindings_of ua objs
     \<and> ag_physical_bytes ag = sum_list (map snd objs) \<and> ag_physical_objects ag = of_nat (length objs)
     \<and> unknown_bytes ag = sum_list (unknown_sizes ua objs)
     \<and> unknown_objects ag = of_nat (length (unknown_sizes ua objs))"

lemma fst_set_update: "fst ` set (AList.update k v m) = insert k (fst ` set m)"
  by (simp add: dom_update)

lemma aggregate_fold_ok:
  assumes "distinct (map fst objs)"
  shows "aggregate_ok ua objs (fold (aggregate_fold ua) objs aggregate_default)"
  using assms
proof (induction objs rule: rev_induct)
  case Nil
  then show ?case
    by (simp add: aggregate_ok_def aggregate_default_def blob_sizes_def thumb_size_def bindings_of_def
        unknown_sizes_def)
next
  case (snoc obj objs)
  obtain k b where obj: "obj = (k, b)" by fastforce
  define ag where "ag = fold (aggregate_fold ua) objs aggregate_default"
  have ok: "aggregate_ok ua objs ag" using snoc by (simp add: ag_def)
  have fresh: "k \<notin> fst ` set objs" using snoc.prems obj by simp
  have thumb: "thumb_size ua objs s = 0" if "classify_key ua k = Thumb s" for s
  proof -
    have "filter (\<lambda>(k, b). classify_key ua k = Thumb s) objs = []"
      using fresh classify_key_Thumb [OF that] classify_key_Thumb
      by (force simp: filter_empty_conv)
    then show ?thesis by (simp add: thumb_size_def)
  qed
  have "aggregate_ok ua (objs @ [(k, b)]) (aggregate_fold ua (k, b) ag)"
    using ok thumb unfolding aggregate_ok_def aggregate_fold_def
    by (cases "classify_key ua k")
       (auto simp: Let_def blob_sizes_def thumb_size_def bindings_of_def unknown_sizes_def ix.get_push
         ix.invar_push fst_set_update)
  then show ?case by (simp add: obj ag_def)
qed

text \<open>What the bindings of each community add up to.\<close>

definition billed :: "(string \<Rightarrow> u64) \<Rightarrow> (uuid \<times> string) set \<Rightarrow> uuid \<Rightarrow> community_storage option" where
  "billed v B c =
     (let S = {s. (c, s) \<in> B} in
      if S = {} then None else Some \<lparr>cs_bytes = sum v S, cs_objects = of_nat (card S)\<rparr>)"

lemma bill_fold:
  assumes "distinct bs"
    and "\<And>s. sum_list (idx_get (blob_variant_bytes ag) s)
      + (case map_of (thumb_bytes ag) s of None \<Rightarrow> 0 | Some b \<Rightarrow> b) = v s"
  shows "hm_wf (fold (bill_binding ag) bs []) \<and> map_of (fold (bill_binding ag) bs []) c = billed v (set bs) c"
  using assms(1)
proof (induction bs arbitrary: c rule: rev_induct)
  case Nil
  then show ?case by (simp add: billed_def)
next
  case (snoc x bs)
  obtain d s where x: "x = (d, s)" by fastforce
  define m where "m = fold (bill_binding ag) bs []"
  have IH: "hm_wf m" "\<And>c. map_of m c = billed v (set bs) c" using snoc by (auto simp: m_def)
  have new: "s \<notin> {s. (d, s) \<in> set bs}" using snoc.prems x by simp
  have fin: "finite {s. (d, s) \<in> set bs}"
    by (rule finite_subset [of _ "snd ` set bs"]) force+
  have ins: "{s'. (d, s') \<in> set (bs @ [x])} = insert s {s. (d, s) \<in> set bs}" by (auto simp: x)
  have other: "{s'. (c, s') \<in> set (bs @ [x])} = {s'. (c, s') \<in> set bs}" if "c \<noteq> d" for c
    using that by (auto simp: x)
  have "map_of (bill_binding ag x m) c = billed v (set (bs @ [x])) c" for c
  proof (cases "c = d")
    case True
    have "billed v (set (bs @ [x])) d
        = Some \<lparr>cs_bytes = v s + sum v {s. (d, s) \<in> set bs}, cs_objects = 1 + of_nat (card {s. (d, s) \<in> set bs})\<rparr>"
      using new fin unfolding billed_def Let_def ins by simp
    moreover have "(case map_of m d of None \<Rightarrow> \<lparr>cs_bytes = 0, cs_objects = 0\<rparr> | Some e \<Rightarrow> e)
        = \<lparr>cs_bytes = sum v {s. (d, s) \<in> set bs}, cs_objects = of_nat (card {s. (d, s) \<in> set bs})\<rparr>"
      unfolding IH(2) billed_def Let_def by simp
    ultimately show ?thesis
      using True by (simp add: bill_binding_def x Let_def assms(2) add.commute)
  next
    case False
    then show ?thesis using other [OF False] IH(2) [of c] by (simp add: bill_binding_def x Let_def billed_def)
  qed
  moreover have "hm_wf (bill_binding ag x m)" using IH(1) by (simp add: bill_binding_def x Let_def)
  ultimately show ?case by (simp add: m_def)
qed

lemma sum_billed:
  assumes "hm_wf m" "\<And>c. map_of m c = billed v B c" "finite B"
  shows "sum_list (map (cs_bytes \<circ> snd) m) = (\<Sum>(c, s) \<in> B. v s)"
    and "sum_list (map (cs_objects \<circ> snd) m) = of_nat (card B)"
proof -
  have dist: "distinct m" using assms(1) by (simp add: distinct_map)
  have "map_of m c \<noteq> None \<longleftrightarrow> c \<in> fst ` B" for c
    unfolding assms(2) billed_def Let_def by (auto intro: rev_image_eqI)
  then have keys: "fst ` set m = fst ` B"
    unfolding dom_map_of_conv_image_fst [symmetric] by blast
  have val: "e = \<lparr>cs_bytes = sum v {s. (c, s) \<in> B}, cs_objects = of_nat (card {s. (c, s) \<in> B})\<rparr>"
    if "(c, e) \<in> set m" for c e
  proof -
    have "billed v B c = Some e" using that hm_lookup_iff [OF assms(1), of c e] by (simp add: assms(2))
    then show ?thesis unfolding billed_def Let_def by (simp split: if_splits)
  qed
  have inj: "inj_on fst (set m)" using assms(1) by (simp add: distinct_map)
  have fin: "finite {s. (c, s) \<in> B}" for c
  proof -
    have "{s. (c, s) \<in> B} \<subseteq> snd ` B" by (auto intro: rev_image_eqI)
    then show ?thesis using assms(3) by (simp add: finite_subset)
  qed
  have B: "B = Sigma (fst ` B) (\<lambda>c. {s. (c, s) \<in> B})" by (auto intro: rev_image_eqI)
  have "sum_list (map (cs_bytes \<circ> snd) m) = (\<Sum>x \<in> set m. cs_bytes (snd x))"
    using dist by (simp add: sum_list_distinct_conv_sum_set)
  also have "\<dots> = (\<Sum>x \<in> set m. sum v {s. (fst x, s) \<in> B})"
    by (rule sum.cong) (auto dest: val)
  also have "\<dots> = (\<Sum>c \<in> fst ` B. sum v {s. (c, s) \<in> B})"
    using sum.reindex [OF inj, of "\<lambda>c. sum v {s. (c, s) \<in> B}"] keys by simp
  also have "\<dots> = (\<Sum>(c, s) \<in> Sigma (fst ` B) (\<lambda>c. {s. (c, s) \<in> B}). v s)"
    by (rule sum.Sigma) (use assms(3) fin in auto)
  finally show "sum_list (map (cs_bytes \<circ> snd) m) = (\<Sum>(c, s) \<in> B. v s)"
    by (simp only: B [symmetric])
  have "sum_list (map (cs_objects \<circ> snd) m) = (\<Sum>x \<in> set m. cs_objects (snd x))"
    using dist by (simp add: sum_list_distinct_conv_sum_set)
  also have "\<dots> = (\<Sum>x \<in> set m. of_nat (card {s. (fst x, s) \<in> B}))"
    by (rule sum.cong) (auto dest: val)
  also have "\<dots> = (\<Sum>c \<in> fst ` B. of_nat (card {s. (c, s) \<in> B}))"
    using sum.reindex [OF inj, of "\<lambda>c. of_nat (card {s. (c, s) \<in> B}) :: u64"] keys by simp
  also have "\<dots> = of_nat (\<Sum>c \<in> fst ` B. card {s. (c, s) \<in> B})" by simp
  also have "(\<Sum>c \<in> fst ` B. card {s. (c, s) \<in> B}) = card (Sigma (fst ` B) (\<lambda>c. {s. (c, s) \<in> B}))"
    by (rule card_SigmaI [symmetric]) (use assms(3) fin in auto)
  finally show "sum_list (map (cs_objects \<circ> snd) m) = of_nat (card B)"
    by (simp only: B [symmetric])
qed

text \<open>The snapshot of a listing \<open>objs\<close>: \<open>B\<close> is the set of bindings, \<open>shas\<close> the hashes with a blob.\<close>

definition snapshot_exact :: "uuid_api \<Rightarrow> (string \<times> u64) list \<Rightarrow> bucket_snapshot \<Rightarrow> bool" where
  "snapshot_exact ua objs snap \<longleftrightarrow>
     (let B = bindings_of ua objs;
          shas = {s. blob_sizes ua objs s \<noteq> []};
          multi = {s \<in> shas. 1 < length (blob_sizes ua objs s)};
          orphans = {s \<in> shas. s \<notin> snd ` B} in
      physical_bytes snap = sum_list (map snd objs) \<and> physical_objects snap = of_nat (length objs)
      \<and> (\<forall>c. map_of (per_community snap) c = billed (bound_bytes ua objs) B c)
      \<and> logical_bytes snap = (\<Sum>(c, s) \<in> B. bound_bytes ua objs s) \<and> logical_objects snap = of_nat (card B)
      \<and> orphan_blob_count snap = of_nat (card orphans)
      \<and> orphan_blob_bytes snap = (\<Sum>s \<in> orphans. sum_list (blob_sizes ua objs s))
      \<and> orphan_sidecar_count snap = of_nat (card {(c, s) \<in> B. s \<notin> shas})
      \<and> multi_variant_shas snap = of_nat (card multi)
      \<and> multi_variant_bytes snap = (\<Sum>s \<in> multi. sum_list (blob_sizes ua objs s))
      \<and> unknown_key_bytes snap = sum_list (unknown_sizes ua objs)
      \<and> unknown_key_objects snap = of_nat (length (unknown_sizes ua objs)))"

lemma hm_filter_count:
  assumes "hm_wf m" "\<And>k v. (k, v) \<in> set m \<Longrightarrow> P k v = Q k \<and> f v = g k"
  shows "length (filter (\<lambda>(k, v). P k v) m) = card {k \<in> fst ` set m. Q k}"
    and "sum_list (map (f \<circ> snd) (filter (\<lambda>(k, v). P k v) m)) = sum g {k \<in> fst ` set m. Q k}"
proof -
  let ?fm = "filter (\<lambda>(k, v). P k v) m"
  have dist: "distinct (map fst ?fm)" using assms(1) by (simp add: distinct_map_filter)
  have keys: "set (map fst ?fm) = {k \<in> fst ` set m. Q k}"
    using assms(2) by (auto intro: rev_image_eqI)
  show "length ?fm = card {k \<in> fst ` set m. Q k}"
    using distinct_card [OF dist] keys by simp
  have "map (f \<circ> snd) ?fm = map g (map fst ?fm)"
    using assms(2) by (auto simp: map_eq_conv)
  then have "sum_list (map (f \<circ> snd) ?fm) = sum_list (map g (map fst ?fm))" by (rule arg_cong)
  also have "\<dots> = sum g (set (map fst ?fm))"
    using dist by (rule sum_list_distinct_conv_sum_set)
  finally show "sum_list (map (f \<circ> snd) ?fm) = sum g {k \<in> fst ` set m. Q k}" by (simp only: keys)
qed

lemma aggregate_finish_exact:
  assumes "aggregate_ok ua objs ag"
  shows "snapshot_exact ua objs (aggregate_finish ag)"
proof -
  let ?blobs = "blob_variant_bytes ag" and ?bs = "map fst (sidecar_bindings ag)"
  have wf: "idx_wf ?blobs" and sizes: "\<And>s. idx_get ?blobs s = blob_sizes ua objs s"
    and dist: "distinct ?bs" and B: "set ?bs = bindings_of ua objs"
    using assms by (auto simp: aggregate_ok_def)
  have hm: "hm_wf ?blobs" using wf by (simp add: idx_wf_def)
  have at: "v = blob_sizes ua objs s \<and> v \<noteq> []" if "(s, v) \<in> set ?blobs" for s v
    using that wf sizes [of s] hm_lookup_iff [OF hm, of s v] by (auto simp: idx_wf_def idx_get_def rev_image_eqI)
  have shas: "fst ` set ?blobs = {s. blob_sizes ua objs s \<noteq> []}"
  proof -
    have "s \<in> fst ` set ?blobs \<longleftrightarrow> blob_sizes ua objs s \<noteq> []" for s
      using at map_of_eq_None_iff [of ?blobs s] sizes [of s] by (force simp: idx_get_def split: option.splits)
    then show ?thesis by blast
  qed
  have none: "map_of ?blobs s = None \<longleftrightarrow> s \<notin> {s. blob_sizes ua objs s \<noteq> []}" for s
    using map_of_eq_None_iff [of ?blobs s] shas by simp
  have bill: "hm_wf (fold (bill_binding ag) ?bs [])"
    "\<And>c. map_of (fold (bill_binding ag) ?bs []) c = billed (bound_bytes ua objs) (bindings_of ua objs) c"
    using bill_fold [OF dist, of ag "bound_bytes ua objs"] assms B
    by (auto simp: aggregate_ok_def bound_bytes_def)
  have fin: "finite (bindings_of ua objs)" using B by (metis finite_set)
  have sc: "length (filter (\<lambda>(c, s). map_of ?blobs s = None) ?bs)
      = card {(c, s) \<in> bindings_of ua objs. s \<notin> {s. blob_sizes ua objs s \<noteq> []}}"
  proof -
    have "set (filter (\<lambda>(c, s). map_of ?blobs s = None) ?bs)
        = {(c, s) \<in> bindings_of ua objs. s \<notin> {s. blob_sizes ua objs s \<noteq> []}}"
      unfolding set_filter B none by auto
    then show ?thesis using distinct_card [OF distinct_filter [OF dist]] by metis
  qed
  have sndB: "set (map snd ?bs) = snd ` bindings_of ua objs" using B by (metis set_map)
  note multi = hm_filter_count [OF hm, of "\<lambda>s v. 1 < length v" "\<lambda>s. 1 < length (blob_sizes ua objs s)"
      sum_list "\<lambda>s. sum_list (blob_sizes ua objs s)", unfolded shas]
  note orph = hm_filter_count [OF hm, of "\<lambda>s v. s \<notin> set (map snd ?bs)" "\<lambda>s. s \<notin> snd ` bindings_of ua objs"
      sum_list "\<lambda>s. sum_list (blob_sizes ua objs s)", unfolded shas]
  show ?thesis
    unfolding snapshot_exact_def aggregate_finish_def Let_def
    using assms at sum_billed [OF bill fin] bill(2) sc sndB multi orph
    by (simp add: aggregate_ok_def)
qed

section \<open>Paging\<close>

text \<open>The pages a store answers with when the continuation tokens are followed from \<open>token\<close>.\<close>

inductive listing :: "(string option \<Rightarrow> string + page) \<Rightarrow> string option \<Rightarrow> page list \<Rightarrow> bool"
  for fetch :: "string option \<Rightarrow> string + page" where
  listing_last: "fetch token = Inr p \<Longrightarrow> \<not> pg_truncated p \<Longrightarrow> listing fetch token [p]"
| listing_more: "fetch token = Inr p \<Longrightarrow> pg_truncated p \<Longrightarrow> pg_next p = Some token' \<Longrightarrow>
    listing fetch (Some token') ps \<Longrightarrow> listing fetch token (p # ps)"

abbreviation objects_of :: "page list \<Rightarrow> (string \<times> u64) list" where
  "objects_of ps \<equiv> concat (map pg_objects ps)"

lemma seen_no_wrap:
  fixes seen :: u64
  assumes "unat seen + k < 2 ^ 64"
  shows "unat (seen + of_nat k) = unat seen + k"
  using assms by (simp add: unat_word_ariths(1) unat_of_nat take_bit_nat_eq_self)

lemma listing_loop_ok:
  assumes "listing fetch token ps" "length ps \<le> n" "unat seen + length (objects_of ps) < 2 ^ 64"
  shows "listing_loop n cap fetch step token seen acc =
      (if unat seen + length (objects_of ps) \<le> unat cap
       then Some (Inr (seen + of_nat (length (objects_of ps)), fold step (objects_of ps) acc))
       else listing_loop n cap fetch step token seen acc)
    \<and> (unat seen + length (objects_of ps) > unat cap \<longrightarrow>
        (\<exists>k. listing_loop n cap fetch step token seen acc = Some (Inl (CapExceeded k cap))))"
  using assms
proof (induction arbitrary: n seen acc rule: listing.induct)
  case (listing_last token p)
  then obtain m where n: "n = Suc m" by (cases n) auto
  then show ?case
    using listing_last by (auto simp: word_less_nat_alt seen_no_wrap Let_def)
next
  case (listing_more token p token' ps)
  then obtain m where n: "n = Suc m" by (cases n) auto
  let ?seen = "seen + of_nat (length (pg_objects p))"
  have u: "unat ?seen = unat seen + length (pg_objects p)" using listing_more.prems by (simp add: seen_no_wrap)
  note IH = listing_more.IH [of m ?seen "fold step (pg_objects p) acc"]
  show ?case
    using listing_more.hyps listing_more.prems IH by (auto simp: n u word_less_nat_alt Let_def add.assoc)
qed

text \<open>C17. The storage sweep accounts for every object once: when a listing of fewer than \<open>2 ^ 64\<close> objects with
  distinct keys arrives in any number of pages, the sweep returns after that many rounds. Within the
  object cap the snapshot has the physical totals, bills every bound blob and thumbnail to each community
  that binds it, and counts orphans, multi-variant hashes and unknown keys exactly as the set of keys
  says, so the order and the paging of the listing do not matter. Above the cap it is the cap error and
  never a partial snapshot.\<close>

theorem fold_bucket_listing_exact:
  assumes "listing fetch None ps" and "length ps \<le> n"
    and "distinct (map fst (objects_of ps))" and "length (objects_of ps) < 2 ^ 64"
  shows "if length (objects_of ps) \<le> unat cap
    then \<exists>snap. fold_bucket_listing ua n cap fetch = Some (Inr snap) \<and> snapshot_exact ua (objects_of ps) snap
    else \<exists>seen. fold_bucket_listing ua n cap fetch = Some (Inl (CapExceeded seen cap))"
  using listing_loop_ok [OF assms(1,2), of 0 cap "aggregate_fold ua" aggregate_default] assms(4)
    aggregate_finish_exact [OF aggregate_fold_ok [OF assms(3)], of ua]
  by (auto simp: fold_bucket_listing_def)

definition two_page_store :: "string option \<Rightarrow> string + page" where
  "two_page_store token =
     (case token of
        None \<Rightarrow> Inr \<lparr>pg_objects = [(''a'', 3)], pg_next = Some ''t'', pg_truncated = True\<rparr>
      | Some t \<Rightarrow> Inr \<lparr>pg_objects = [(''b'', 4)], pg_next = None, pg_truncated = False\<rparr>)"

theorem fold_bucket_listing_exact_witness:
  "\<exists>snap. fold_bucket_listing std_uuid_api 2 10 two_page_store = Some (Inr snap)
    \<and> snapshot_exact std_uuid_api [(''a'', 3), (''b'', 4)] snap"
proof -
  have "listing two_page_store None
      [\<lparr>pg_objects = [(''a'', 3)], pg_next = Some ''t'', pg_truncated = True\<rparr>,
       \<lparr>pg_objects = [(''b'', 4)], pg_next = None, pg_truncated = False\<rparr>]"
    by (rule listing_more [where token' = "''t''"]) (auto simp: two_page_store_def intro: listing_last)
  from fold_bucket_listing_exact [OF this, of 2 10 std_uuid_api] show ?thesis by simp
qed

lemma taxonomy_fold:
  "fold (taxonomy_step ua lim) objs (cnt, sample) =
     (let ks = map fst (filter (\<lambda>(k, b). \<not> is_known_fleet_key ua k) objs) in
      (cnt + of_nat (length ks), if lim \<le> length sample then sample else take lim (sample @ ks)))"
proof (induction objs arbitrary: cnt sample)
  case (Cons x objs)
  obtain k b where x: "x = (k, b)" by fastforce
  have step: "taxonomy_step ua lim (k, b) (cnt, sample) =
      (if is_known_fleet_key ua k then (cnt, sample)
       else (cnt + 1, if length sample < lim then sample @ [k] else sample))"
    by (simp add: taxonomy_step_def)
  show ?case
    by (cases "is_known_fleet_key ua k") (auto simp: step Cons.IH x Let_def take_Cons')
qed simp

text \<open>A taxonomy sweep counts every key outside the known writers and keeps the first ones as a sample.\<close>

lemma sweep_bucket_taxonomy_exact:
  assumes "listing fetch None ps" "length ps \<le> n" "length (objects_of ps) < 2 ^ 64"
    "length (objects_of ps) \<le> unat cap"
  shows "sweep_bucket_taxonomy ua n cap lim fetch = Some (Inr
    (let ks = map fst (filter (\<lambda>(k, b). \<not> is_known_fleet_key ua k) (objects_of ps)) in
     \<lparr>listed_objects = of_nat (length (objects_of ps)), unknown_object_count = of_nat (length ks),
      unknown_key_sample = take lim ks\<rparr>))"
  using listing_loop_ok [OF assms(1,2), of 0 cap "taxonomy_step ua lim" "(0, [])"] assms(3,4)
  by (simp add: sweep_bucket_taxonomy_def taxonomy_fold Let_def)

section \<open>Writers and owners\<close>

lemma split_on_plain: "c \<notin> set p \<Longrightarrow> split_on c p = [p]"
  by (induction p) auto

lemma split_on_part: "c \<notin> set p \<Longrightarrow> split_on c (p @ c # s) = p # split_on c s"
  by (induction p) auto

lemma split_on_count: "length (split_on c s) = Suc (length (filter (\<lambda>x. x = c) s))"
  by (induction s) (auto split: list.splits)

lemma lower_hexdigit_no_sep: "lower_hexdigit b \<Longrightarrow> b \<noteq> CHR ''.'' \<and> b \<noteq> CHR ''/'' \<and> b \<noteq> CHR ''-''"
  by (auto simp: lower_hexdigit_def ascii_digit_def less_eq_char_def)

lemma sha256_no_sep: "is_sha256 s \<Longrightarrow> CHR ''.'' \<notin> set s \<and> CHR ''/'' \<notin> set s"
  using lower_hexdigit_no_sep by (auto simp: is_sha256_def list_all_iff)

lemma uuid_no_sep:
  assumes "uuid_text_ok ua"
  shows "CHR ''.'' \<notin> set (ua_string ua u)" "CHR ''/'' \<notin> set (ua_string ua u)"
proof -
  have "list_all uuid_char_ok (List.enumerate 0 (ua_string ua u))"
    using assms by (simp add: uuid_text_ok_def canonical_uuid_text_def)
  moreover have "\<exists>i. (i, b) \<in> set (List.enumerate 0 (ua_string ua u))" if "b \<in> set (ua_string ua u)" for b
  proof -
    have "b \<in> snd ` set (List.enumerate 0 (ua_string ua u))" using that by (metis map_snd_enumerate set_map)
    then show ?thesis by (elim imageE) (metis prod.collapse)
  qed
  ultimately have "b \<noteq> CHR ''.'' \<and> b \<noteq> CHR ''/''" if "b \<in> set (ua_string ua u)" for b
    using that lower_hexdigit_no_sep [of b] by (fastforce simp: list_all_iff uuid_char_ok_def split: if_splits)
  then show "CHR ''.'' \<notin> set (ua_string ua u)" "CHR ''/'' \<notin> set (ua_string ua u)" by auto
qed

lemma parse_canonical_own: "uuid_text_ok ua \<Longrightarrow> parse_canonical_uuid ua (ua_string ua u) = Some u"
  by (simp add: uuid_text_ok_def parse_canonical_uuid_def)

text \<open>A key with a slash is neither a blob nor a thumbnail.\<close>

lemma slash_not_content:
  assumes "CHR ''/'' \<in> set (hd (split_on CHR ''.'' key))"
  shows "parse_thumb_key key = None" "parse_blob_key key = None"
  using assms sha256_no_sep
  by (auto simp: parse_thumb_key_def parse_blob_key_def split: list.splits)

lemma sidecar_key_owned:
  assumes "uuid_text_ok ua" "is_sha256 sha"
  shows "is_tenant_owned_key ua c (sidecar_key ua c sha)"
proof -
  let ?u = "ua_string ua c" and ?key = "sidecar_key ua c sha"
  have slash: "split_on CHR ''/'' ?key = [''_meta'', ?u, sha @ ''.json'']"
    using uuid_no_sep [OF assms(1), of c] sha256_no_sep [OF assms(2)]
      split_on_part [of "CHR ''/''" "''_meta''" "?u @ ''/'' @ sha @ ''.json''"]
      split_on_part [of "CHR ''/''" ?u "sha @ ''.json''"] split_on_plain [of "CHR ''/''" "sha @ ''.json''"]
    by (simp add: sidecar_key_def)
  have dot: "split_on CHR ''.'' (sha @ ''.json'') = [sha, ''json'']"
    using sha256_no_sep [OF assms(2)] split_on_part [of "CHR ''.''" sha "''json''"] by simp
  have "split_on CHR ''.'' ?key = [''_meta/'' @ ?u @ ''/'' @ sha, ''json'']"
    using uuid_no_sep [OF assms(1), of c] sha256_no_sep [OF assms(2)]
      split_on_part [of "CHR ''.''" "''_meta/'' @ ?u @ ''/'' @ sha" "''json''"]
    by (simp add: sidecar_key_def)
  then have "parse_thumb_key ?key = None" "parse_blob_key ?key = None"
    using slash_not_content [of ?key] by simp_all
  moreover have "parse_sidecar_key ua ?key = Some (c, sha)"
    using assms by (simp add: parse_sidecar_key_def slash dot parse_canonical_own)
  ultimately show ?thesis by (simp add: is_tenant_owned_key_def classify_key_def)
qed

lemma upload_record_key_owned:
  assumes "uuid_text_ok ua" "is_sha256 sha" "is_ulid_charset e"
  shows "is_tenant_owned_key ua c (upload_record_key ua c sha e)"
proof -
  let ?u = "ua_string ua c" and ?key = "upload_record_key ua c sha e"
  have e: "CHR ''.'' \<notin> set e" "CHR ''/'' \<notin> set e"
    using assms(3) by (auto simp: is_ulid_charset_def list_all_iff ascii_digit_def less_eq_char_def)
  have slash: "split_on CHR ''/'' ?key = [''_uploads'', ?u, sha, e @ ''.json'']"
    using uuid_no_sep [OF assms(1), of c] sha256_no_sep [OF assms(2)] e
      split_on_part [of "CHR ''/''" "''_uploads''" "?u @ ''/'' @ sha @ ''/'' @ e @ ''.json''"]
      split_on_part [of "CHR ''/''" ?u "sha @ ''/'' @ e @ ''.json''"]
      split_on_part [of "CHR ''/''" sha "e @ ''.json''"] split_on_plain [of "CHR ''/''" "e @ ''.json''"]
    by (simp add: upload_record_key_def)
  have dot: "split_on CHR ''.'' (e @ ''.json'') = [e, ''json'']"
    using e split_on_part [of "CHR ''.''" e "''json''"] by simp
  have "split_on CHR ''.'' ?key = [''_uploads/'' @ ?u @ ''/'' @ sha @ ''/'' @ e, ''json'']"
    using uuid_no_sep [OF assms(1), of c] sha256_no_sep [OF assms(2)] e
      split_on_part [of "CHR ''.''" "''_uploads/'' @ ?u @ ''/'' @ sha @ ''/'' @ e" "''json''"]
    by (simp add: upload_record_key_def)
  then have "parse_thumb_key ?key = None" "parse_blob_key ?key = None"
    using slash_not_content [of ?key] by simp_all
  moreover have "parse_sidecar_key ua ?key = None" by (simp add: parse_sidecar_key_def slash)
  moreover have "parse_auxiliary_key ua ?key = Some (c, sha, e)"
    using assms by (simp add: parse_auxiliary_key_def slash dot parse_canonical_own)
  ultimately show ?thesis by (simp add: is_tenant_owned_key_def classify_key_def)
qed

text \<open>C18. Tenant keys are disjoint and the writers' keys are owned: every sidecar and upload-record key a
  writer builds for a community is recognized as that community's. A key that a community owns lies
  under exactly one of its three prefixes, is owned by no other community and lies under no prefix of
  another community, so a listing of one community's prefixes never reaches a key of another.\<close>

theorem tenant_keys_disjoint:
  assumes "uuid_text_ok ua"
  shows "(is_sha256 sha \<longrightarrow> is_tenant_owned_key ua c (sidecar_key ua c sha))
    \<and> (is_sha256 sha \<and> is_ulid_charset e \<longrightarrow> is_tenant_owned_key ua c (upload_record_key ua c sha e))
    \<and> (is_tenant_owned_key ua c key \<longrightarrow>
        (\<exists>!p. p \<in> set (tenant_prefixes ua c) \<and> is_prefix p key)
        \<and> (\<forall>d. d \<noteq> c \<longrightarrow> \<not> is_tenant_owned_key ua d key
            \<and> (\<forall>p \<in> set (tenant_prefixes ua d). \<not> is_prefix p key)))"
proof -
  have "(\<exists>!p. p \<in> set (tenant_prefixes ua c) \<and> is_prefix p key)
      \<and> (\<forall>d. d \<noteq> c \<longrightarrow> \<not> is_tenant_owned_key ua d key \<and> (\<forall>p \<in> set (tenant_prefixes ua d). \<not> is_prefix p key))"
    if "is_tenant_owned_key ua c key"
    using owned_key_prefix [OF assms that] owned_key_prefix [OF assms] tenant_prefix_unique [OF assms] by metis
  then show ?thesis
    using sidecar_key_owned [OF assms] upload_record_key_owned [OF assms] by blast
qed

theorem tenant_keys_disjoint_witness:
  "is_tenant_owned_key std_uuid_api 7 (sidecar_key std_uuid_api 7 (replicate 64 CHR ''a''))
    \<and> \<not> is_tenant_owned_key std_uuid_api 8 (sidecar_key std_uuid_api 7 (replicate 64 CHR ''a''))"
proof -
  have "is_sha256 (replicate 64 CHR ''a'')"
    by (simp add: is_sha256_def list_all_iff lower_hexdigit_def less_eq_char_def)
  then have own: "is_tenant_owned_key std_uuid_api 7 (sidecar_key std_uuid_api 7 (replicate 64 CHR ''a''))"
    using tenant_keys_disjoint [OF std_uuid_text_ok] by blast
  then show ?thesis
    using tenant_keys_disjoint [OF std_uuid_text_ok, of _ 7] by force
qed

end
