(* ===== verification/Deletion_Manifest.thy ===== *)
theory Deletion_Manifest
  imports Media_Keys
begin

text \<open>
  The manifests of a community deletion, from \<open>crates/maju-db/src/store/deletion.rs\<close>: entries, the digest
  of a key stream, the shape of a storage manifest, the check of the frozen key chunks.

  SHA-256, hexadecimal encoding, JSON encoding of an inventory, the rendering of UUIDs and quoted
  strings and the database's \<open>lower\<close> belong to other code and are fields of \<open>deletion_api\<close>. A streaming hasher is the list of
  bytes it was fed. Error messages are kept, because the code classifies errors by their text.

  What is shown: an entry decodes to exactly what was encoded, and key chunks that pass the check are, in
  order and prefix by prefix, a stream with the frozen digest and count, each key under its prefix.
\<close>

section \<open>Errors\<close>

datatype db_error =
    Sqlx string
  | NotFound string
  | AccessDenied string
  | InvalidData string
  | ServingWritesNotDrained uuid nat "string list"
  | DeletionSafety string

section \<open>Manifests\<close>

record prefix_manifest =
  pm_prefix :: string
  pm_object_count :: u64
  pm_total_bytes :: u64
  pm_keys_digest :: string

record storage_manifest =
  sm_version :: int
  sm_prefixes :: "prefix_manifest list"

record schema_manifest =
  sc_scoped_tables :: "string list"
  sc_row_counts :: "(string \<times> nat) list"
  sc_fenced_tables :: "string list"

record frozen_inventory =
  fi_schema :: schema_manifest
  fi_storage :: storage_manifest

record deletion_api =
  da_uuid :: uuid_api
  da_sha256 :: "string \<Rightarrow> string"
  da_hex :: "string \<Rightarrow> string"
  da_inventory_json :: "frozen_inventory \<Rightarrow> string"
  da_debug :: "string \<Rightarrow> string"
  da_lower :: "string \<Rightarrow> string"

definition inventory_digest :: "deletion_api \<Rightarrow> frozen_inventory \<Rightarrow> string" where
  "inventory_digest api inventory = da_sha256 api (da_inventory_json api inventory)"

record storage_manifest_entry =
  me_key :: string
  me_version_id :: string
  me_kind :: string

definition entry_new :: "string \<Rightarrow> string \<Rightarrow> string \<Rightarrow> storage_manifest_entry" where
  "entry_new key version_id kind = \<lparr>me_key = key, me_version_id = version_id, me_kind = kind\<rparr>"

definition UNIT_SEP :: char where
  "UNIT_SEP = CHR 0x1F"

definition NEWLINE :: char where
  "NEWLINE = CHR 0x0A"

definition validate_manifest_component :: "string \<Rightarrow> string \<Rightarrow> db_error + unit" where
  "validate_manifest_component name value =
     (if value = [] \<or> NEWLINE \<in> set value \<or> UNIT_SEP \<in> set value
      then Inl (DeletionSafety (''storage manifest '' @ name @ '' is empty or contains a reserved delimiter''))
      else Inr ())"

definition entry_encode :: "storage_manifest_entry \<Rightarrow> db_error + string" where
  "entry_encode e =
     and_then (validate_manifest_component ''key'' (me_key e)) (\<lambda>_.
     and_then (validate_manifest_component ''version id'' (me_version_id e)) (\<lambda>_.
     and_then (validate_manifest_component ''kind'' (me_kind e)) (\<lambda>_.
       if me_kind e \<noteq> ''object'' \<and> me_kind e \<noteq> ''delete_marker''
       then Inl (DeletionSafety (''unsupported storage manifest entry kind '' @ me_kind e))
       else Inr (me_key e @ UNIT_SEP # me_version_id e @ UNIT_SEP # me_kind e))))"

definition entry_decode :: "string \<Rightarrow> db_error + storage_manifest_entry" where
  "entry_decode value =
     (case split_on UNIT_SEP value of
        key # version_id # kind # rest \<Rightarrow>
          if rest \<noteq> [] then Inl (DeletionSafety ''storage manifest entry has too many fields'')
          else (let entry = entry_new key version_id kind in
                and_then (entry_encode entry) (\<lambda>_. Inr entry))
      | [key, version_id] \<Rightarrow> Inl (DeletionSafety ''storage manifest entry is missing kind'')
      | _ \<Rightarrow> Inl (DeletionSafety ''storage manifest entry is missing version id''))"

section \<open>The digest of a key stream\<close>

record key_stream_digest =
  ks_hasher :: string
  ks_last :: "string option"
  ks_count :: u64

definition digest_new :: key_stream_digest where
  "digest_new = \<lparr>ks_hasher = [], ks_last = None, ks_count = 0\<rparr>"

definition fold_unordered :: "string \<Rightarrow> key_stream_digest \<Rightarrow> db_error + key_stream_digest" where
  "fold_unordered key d =
     Inr \<lparr>ks_hasher = ks_hasher d @ key @ [NEWLINE], ks_last = Some key, ks_count = ks_count d + 1\<rparr>"

definition digest_fold :: "string \<Rightarrow> key_stream_digest \<Rightarrow> db_error + key_stream_digest" where
  "digest_fold key d =
     (if (case ks_last d of None \<Rightarrow> False | Some l \<Rightarrow> l \<ge> key)
      then Inl (DeletionSafety (''storage key stream is not strictly ascending at '' @ key))
      else fold_unordered key d)"

definition digest_finish :: "deletion_api \<Rightarrow> key_stream_digest \<Rightarrow> string \<times> u64" where
  "digest_finish api d = (da_hex api (da_sha256 api (ks_hasher d)), ks_count d)"

section \<open>Checks\<close>

fun windows_ordered :: "prefix_manifest list \<Rightarrow> bool" where
  "windows_ordered (p # q # ps) = (pm_prefix p < pm_prefix q \<and> windows_ordered (q # ps))"
| "windows_ordered _ = True"

fun check_prefixes :: "prefix_manifest list \<Rightarrow> db_error + unit" where
  "check_prefixes [] = Inr ()"
| "check_prefixes (p # ps) =
     (if pm_prefix p = [] then Inl (DeletionSafety ''storage manifest contains an empty prefix'')
      else if length (pm_keys_digest p) \<noteq> 64 \<or> \<not> list_all lower_hexdigit (pm_keys_digest p)
      then Inl (DeletionSafety
             (''storage manifest digest for '' @ pm_prefix p @ '' is not lowercase hex sha-256''))
      else check_prefixes ps)"

definition show_int :: "int \<Rightarrow> string" where
  "show_int n = (if n < 0 then ''-'' @ show_nat (nat (- n)) else show_nat (nat n))"

definition validate_storage_manifest :: "storage_manifest \<Rightarrow> db_error + unit" where
  "validate_storage_manifest m =
     (if sm_version m \<noteq> 4 \<and> sm_version m \<noteq> 5
      then Inl (DeletionSafety (''unsupported storage manifest version '' @ show_int (sm_version m)))
      else if sm_prefixes m = [] then Inl (DeletionSafety ''storage manifest has no tenant prefixes'')
      else if \<not> windows_ordered (sm_prefixes m)
      then Inl (DeletionSafety ''storage manifest prefixes are not strictly sorted'')
      else check_prefixes (sm_prefixes m))"

text \<open>A row of the chunk table: its number, its prefix and its keys.\<close>

type_synonym chunk = "int \<times> string \<times> string list"

definition close_prefix ::
  "deletion_api \<Rightarrow> prefix_manifest \<Rightarrow> key_stream_digest \<Rightarrow> db_error + unit" where
  "close_prefix api summary d =
     (if fst (digest_finish api d) \<noteq> pm_keys_digest summary \<or> snd (digest_finish api d) \<noteq> pm_object_count summary
      then Inl (DeletionSafety
             (''frozen key chunks do not match the destructive manifest for prefix '' @ pm_prefix summary))
      else Inr ())"

text \<open>The inner loop: close summaries until the one of the chunk's prefix is current. The list is
  \<open>current\<close> followed by \<open>remaining\<close>.\<close>

fun seek_prefix ::
  "deletion_api \<Rightarrow> string \<Rightarrow> prefix_manifest list \<Rightarrow> key_stream_digest
     \<Rightarrow> db_error + prefix_manifest list \<times> key_stream_digest" where
  "seek_prefix api chunk_prefix [] d =
     Inl (DeletionSafety (''frozen key chunk prefix '' @ chunk_prefix @ '' is not in the destructive manifest''))"
| "seek_prefix api chunk_prefix (summary # remaining) d =
     (if pm_prefix summary = chunk_prefix then Inr (summary # remaining, d)
      else and_then (close_prefix api summary d) (\<lambda>_. seek_prefix api chunk_prefix remaining digest_new))"

fun fold_chunk_keys ::
  "int \<Rightarrow> string \<Rightarrow> string list \<Rightarrow> key_stream_digest \<Rightarrow> db_error + key_stream_digest" where
  "fold_chunk_keys version chunk_prefix [] d = Inr d"
| "fold_chunk_keys version chunk_prefix (key # keys) d =
     and_then (if version \<ge> 5 then and_then (entry_decode key) (\<lambda>e. Inr (me_key e)) else Inr key) (\<lambda>prefix_key.
       if \<not> is_prefix chunk_prefix prefix_key
       then Inl (DeletionSafety (''frozen key '' @ prefix_key @ '' is outside its chunk prefix '' @ chunk_prefix))
       else and_then (if version \<ge> 5 then fold_unordered key d else digest_fold key d) (\<lambda>d.
              fold_chunk_keys version chunk_prefix keys d))"

fun check_chunks ::
  "deletion_api \<Rightarrow> int \<Rightarrow> nat \<Rightarrow> prefix_manifest list \<Rightarrow> key_stream_digest \<Rightarrow> chunk list
     \<Rightarrow> db_error + prefix_manifest list \<times> key_stream_digest" where
  "check_chunks api version index current d [] = Inr (current, d)"
| "check_chunks api version index current d ((chunk_no, chunk_prefix, keys) # chunks) =
     (if chunk_no \<noteq> int index then Inl (DeletionSafety ''frozen key chunk sequence has gaps'')
      else
        and_then (seek_prefix api chunk_prefix current d) (\<lambda>(current, d).
          if keys = [] then Inl (DeletionSafety ''frozen key chunk is empty'')
          else and_then (fold_chunk_keys version chunk_prefix keys d) (\<lambda>d.
                 check_chunks api version (Suc index) current d chunks)))"

fun close_remaining :: "deletion_api \<Rightarrow> prefix_manifest list \<Rightarrow> db_error + unit" where
  "close_remaining api [] = Inr ()"
| "close_remaining api (summary # rest) =
     and_then (close_prefix api summary digest_new) (\<lambda>_. close_remaining api rest)"

definition validate_manifest_key_chunks ::
  "deletion_api \<Rightarrow> storage_manifest \<Rightarrow> chunk list \<Rightarrow> db_error + unit" where
  "validate_manifest_key_chunks api m chunks =
     and_then (check_chunks api (sm_version m) 0 (sm_prefixes m) digest_new chunks) (\<lambda>(current, d).
       case current of
         [] \<Rightarrow> Inr ()
       | summary # remaining \<Rightarrow>
           and_then (close_prefix api summary d) (\<lambda>_. close_remaining api remaining))"

text \<open>\<open>bound_text\<close> cuts at a character boundary at or below \<open>max\<close> bytes; a byte starts a character unless
  its two top bits are 10.\<close>

definition char_start :: "char \<Rightarrow> bool" where
  "char_start b \<longleftrightarrow> (of_char b :: nat) < 128 \<or> 192 \<le> (of_char b :: nat)"

fun boundary_at_or_below :: "string \<Rightarrow> nat \<Rightarrow> nat" where
  "boundary_at_or_below s 0 = 0"
| "boundary_at_or_below s (Suc n) =
     (if Suc n = length s \<or> Suc n < length s \<and> char_start (s ! Suc n) then Suc n
      else boundary_at_or_below s n)"

definition bound_text :: "string \<Rightarrow> nat \<Rightarrow> string" where
  "bound_text input max_len =
     (if length input \<le> max_len then input else take (boundary_at_or_below input max_len) input)"

section \<open>Entries round-trip\<close>

lemma validate_manifest_component_ok [simp]:
  "validate_manifest_component name value = Inr () \<longleftrightarrow> value \<noteq> [] \<and> NEWLINE \<notin> set value \<and> UNIT_SEP \<notin> set value"
  by (simp add: validate_manifest_component_def)

lemma entry_encode_ok:
  "entry_encode e = Inr s \<longleftrightarrow>
     (\<forall>c \<in> {me_key e, me_version_id e, me_kind e}. c \<noteq> [] \<and> NEWLINE \<notin> set c \<and> UNIT_SEP \<notin> set c)
     \<and> me_kind e \<in> {''object'', ''delete_marker''} \<and> s = me_key e @ UNIT_SEP # me_version_id e @ UNIT_SEP # me_kind e"
  by (auto simp: entry_encode_def and_then_Inr split: if_splits)

lemma entry_decode_encode:
  assumes "entry_encode e = Inr s"
  shows "entry_decode s = Inr e"
proof -
  have "split_on UNIT_SEP s = [me_key e, me_version_id e, me_kind e]"
    using assms by (auto simp: entry_encode_ok split_on_part split_on_plain)
  moreover have "entry_new (me_key e) (me_version_id e) (me_kind e) = e" by (simp add: entry_new_def)
  ultimately show ?thesis using assms by (simp add: entry_decode_def)
qed

lemma entry_decode_ok:
  assumes "entry_decode s = Inr e"
  shows "entry_encode e = Inr s"
proof -
  obtain k v t where sp: "split_on UNIT_SEP s = [k, v, t]" and e: "e = entry_new k v t" "\<exists>s'. entry_encode e = Inr s'"
    using assms by (auto simp: entry_decode_def Let_def and_then_Inr split: list.splits if_splits)
  have "s = k @ UNIT_SEP # v @ UNIT_SEP # t"
    using join_split_on [of UNIT_SEP s] by (simp add: sp)
  then show ?thesis using e by (auto simp: entry_encode_ok entry_new_def)
qed

lemma entry_decode_no_newline: "entry_decode s = Inr e \<Longrightarrow> NEWLINE \<notin> set s"
  by (drule entry_decode_ok) (auto simp: entry_encode_ok NEWLINE_def UNIT_SEP_def)

section \<open>Key streams\<close>

definition stream_bytes :: "string list \<Rightarrow> string" where
  "stream_bytes keys = concat (map (\<lambda>k. k @ [NEWLINE]) keys)"

definition digest_of :: "string list \<Rightarrow> key_stream_digest" where
  "digest_of keys =
     \<lparr>ks_hasher = stream_bytes keys, ks_last = (if keys = [] then None else Some (last keys)),
      ks_count = of_nat (length keys)\<rparr>"

lemma digest_of_Nil [simp]: "digest_of [] = digest_new"
  by (simp add: digest_of_def digest_new_def stream_bytes_def)

lemma fold_unordered_of [simp]: "fold_unordered k (digest_of ks) = Inr (digest_of (ks @ [k]))"
  by (simp add: fold_unordered_def digest_of_def stream_bytes_def)

lemma digest_fold_of: "digest_fold k (digest_of ks) = Inr d \<Longrightarrow> d = digest_of (ks @ [k])"
  by (auto simp: digest_fold_def split: if_splits)

lemma stream_bytes_inj:
  assumes "stream_bytes ks = stream_bytes ls" "\<And>k. k \<in> set ks \<Longrightarrow> NEWLINE \<notin> set k"
    "\<And>l. l \<in> set ls \<Longrightarrow> NEWLINE \<notin> set l"
  shows "ks = ls"
  using assms
proof (induction ks arbitrary: ls)
  case Nil
  then show ?case by (cases ls) (auto simp: stream_bytes_def)
next
  case (Cons k ks)
  then obtain l ls' where ls: "ls = l # ls'" by (cases ls) (auto simp: stream_bytes_def)
  have eq: "k @ NEWLINE # stream_bytes ks = l @ NEWLINE # stream_bytes ls'"
    using Cons.prems(1) by (simp add: stream_bytes_def ls)
  have "takeWhile (\<lambda>x. x \<noteq> NEWLINE) (k @ NEWLINE # stream_bytes ks) = k"
    "takeWhile (\<lambda>x. x \<noteq> NEWLINE) (l @ NEWLINE # stream_bytes ls') = l"
    using Cons.prems(2,3) ls by (auto simp: takeWhile_append)
  then have "k = l" using eq by simp
  then show ?case using Cons eq ls by simp
qed

definition key_ok :: "int \<Rightarrow> string \<Rightarrow> string \<Rightarrow> bool" where
  "key_ok version p key \<longleftrightarrow>
     (if version \<ge> 5 then \<exists>e. entry_decode key = Inr e \<and> is_prefix p (me_key e) else is_prefix p key)"

lemma fold_chunk_keys_ok:
  "fold_chunk_keys v p keys (digest_of ks) = Inr d \<Longrightarrow>
     d = digest_of (ks @ keys) \<and> (\<forall>key \<in> set keys. key_ok v p key)"
  by (induction keys arbitrary: ks d)
     (fastforce simp: and_then_Inr key_ok_def dest: digest_fold_of split: if_splits)+

lemma seek_prefix_ok:
  assumes "seek_prefix api p cur (digest_of ks) = Inr (cur', d)"
  shows "\<exists>closed s rest ks'. cur = closed @ s # rest \<and> cur' = s # rest \<and> pm_prefix s = p \<and> d = digest_of ks'
    \<and> (case closed of [] \<Rightarrow> ks' = ks
       | c # cs \<Rightarrow> ks' = [] \<and> close_prefix api c (digest_of ks) = Inr () \<and> (\<forall>x \<in> set cs. close_prefix api x digest_new = Inr ()))
    \<and> (\<forall>x \<in> set closed. pm_prefix x \<noteq> p)"
  using assms
proof (induction cur arbitrary: ks)
  case (Cons a cur)
  show ?case
  proof (cases "pm_prefix a = p")
    case True
    then show ?thesis using Cons.prems by (intro exI [of _ "[]"]) auto
  next
    case False
    then have a: "close_prefix api a (digest_of ks) = Inr ()"
      and r: "seek_prefix api p cur (digest_of []) = Inr (cur', d)"
      using Cons.prems by (auto simp: and_then_Inr)
    obtain closed s rest ks' where
      IH: "cur = closed @ s # rest" "cur' = s # rest" "pm_prefix s = p" "d = digest_of ks'"
      "case closed of [] \<Rightarrow> ks' = []
       | c # cs \<Rightarrow> ks' = [] \<and> close_prefix api c (digest_of []) = Inr () \<and> (\<forall>x \<in> set cs. close_prefix api x digest_new = Inr ())"
      "\<forall>x \<in> set closed. pm_prefix x \<noteq> p"
      using Cons.IH [OF r] by blast
    then show ?thesis
      using a False by (intro exI [of _ "a # closed"] exI [of _ s] exI [of _ rest] exI [of _ ks'])
        (auto split: list.splits)
  qed
qed simp

text \<open>The keys that a list of chunks holds for one prefix, in order.\<close>

definition keys_for :: "string \<Rightarrow> chunk list \<Rightarrow> string list" where
  "keys_for p chunks = concat (map (\<lambda>(n, q, keys). if q = p then keys else []) chunks)"

lemma keys_for_simps [simp]:
  "keys_for p [] = []" "keys_for p ((n, q, keys) # chunks) = (if q = p then keys else []) @ keys_for p chunks"
  by (simp_all add: keys_for_def)

lemma keys_for_absent: "p \<notin> fst ` snd ` set chunks \<Longrightarrow> keys_for p chunks = []"
  by (induction chunks) auto

lemma close_prefix_ok:
  "close_prefix api s (digest_of ks) = Inr () \<longleftrightarrow>
     pm_keys_digest s = da_hex api (da_sha256 api (stream_bytes ks)) \<and> pm_object_count s = of_nat (length ks)"
  by (auto simp: close_prefix_def digest_finish_def digest_of_def)

lemma close_remaining_ok:
  "close_remaining api rest = Inr () \<longleftrightarrow> (\<forall>r \<in> set rest. close_prefix api r digest_new = Inr ())"
  by (induction rest) (auto simp: and_then_Inr)

text \<open>What acceptance of the rest of a chunk stream means, with \<open>ks\<close> the keys folded so far under the current
  prefix.\<close>

definition accepted_from ::
  "deletion_api \<Rightarrow> int \<Rightarrow> nat \<Rightarrow> prefix_manifest list \<Rightarrow> string list \<Rightarrow> chunk list \<Rightarrow> bool" where
  "accepted_from api v i cur ks chunks \<longleftrightarrow>
     map fst chunks = map int [i..<i + length chunks]
     \<and> (\<forall>(n, p, keys) \<in> set chunks. p \<in> pm_prefix ` set cur \<and> keys \<noteq> [] \<and> (\<forall>key \<in> set keys. key_ok v p key))
     \<and> (case cur of [] \<Rightarrow> True
        | s # rest \<Rightarrow> close_prefix api s (digest_of (ks @ keys_for (pm_prefix s) chunks)) = Inr ()
            \<and> (\<forall>r \<in> set rest. close_prefix api r (digest_of (keys_for (pm_prefix r) chunks)) = Inr ()))"

lemma check_chunks_accepted:
  assumes "check_chunks api v i cur (digest_of ks) chunks = Inr (cur', d)" "distinct (map pm_prefix cur)"
    "case cur' of [] \<Rightarrow> True | s # rest \<Rightarrow> close_prefix api s d = Inr () \<and> close_remaining api rest = Inr ()"
  shows "accepted_from api v i cur ks chunks"
  using assms
proof (induction chunks arbitrary: i cur ks)
  case Nil
  then show ?case by (auto simp: accepted_from_def close_remaining_ok split: list.splits)
next
  case (Cons chunk chunks)
  obtain n p keys where chunk: "chunk = (n, p, keys)" by (cases chunk)
  obtain cur1 d1 d2 where n: "n = int i" and sk: "seek_prefix api p cur (digest_of ks) = Inr (cur1, d1)"
    and ne: "keys \<noteq> []" and fk: "fold_chunk_keys v p keys d1 = Inr d2"
    and rec: "check_chunks api v (Suc i) cur1 d2 chunks = Inr (cur', d)"
    using Cons.prems(1) by (auto simp: chunk and_then_Inr split: if_splits)
  obtain closed s rest ks' where cur: "cur = closed @ s # rest" "cur1 = s # rest" "pm_prefix s = p"
    and d1: "d1 = digest_of ks'"
    and cl: "case closed of [] \<Rightarrow> ks' = ks
       | c # cs \<Rightarrow> ks' = [] \<and> close_prefix api c (digest_of ks) = Inr () \<and> (\<forall>x \<in> set cs. close_prefix api x digest_new = Inr ())"
    using seek_prefix_ok [OF sk] by blast
  have d2: "d2 = digest_of (ks' @ keys)" and ok: "\<forall>key \<in> set keys. key_ok v p key"
    using fold_chunk_keys_ok [of v p keys ks' d2] fk by (auto simp: d1)
  have dist: "distinct (map pm_prefix cur1)" using Cons.prems(2) cur by simp
  have IH: "accepted_from api v (Suc i) cur1 (ks' @ keys) chunks"
    using Cons.IH [of "Suc i" cur1 "ks' @ keys"] rec dist Cons.prems(3) d2 by simp
  have absent: "pm_prefix x \<noteq> p \<and> keys_for (pm_prefix x) chunks = []" if "x \<in> set closed" for x
  proof -
    have x: "pm_prefix x \<notin> pm_prefix ` set cur1" using Cons.prems(2) cur that by (auto simp: image_iff)
    moreover have "fst ` snd ` set chunks \<subseteq> pm_prefix ` set cur1"
      using IH by (auto simp: accepted_from_def)
    ultimately have "pm_prefix x \<notin> fst ` snd ` set chunks" by blast
    moreover have "p \<in> pm_prefix ` set cur1" using cur by simp
    ultimately show ?thesis using x keys_for_absent by metis
  qed
  have skip: "pm_prefix r \<noteq> p" if "r \<in> set rest" for r
    using dist that cur by (auto simp: rev_image_eqI)
  have nums: "map fst (chunk # chunks) = map int [i..<i + length (chunk # chunks)]"
    using IH n by (simp add: accepted_from_def chunk upt_rec)
  have "\<forall>x \<in> set closed. pm_prefix x \<noteq> p \<and> keys_for (pm_prefix x) chunks = []" "\<forall>r \<in> set rest. pm_prefix r \<noteq> p"
    using absent skip by blast+
  then show ?case
    using IH cl nums ne ok cur unfolding accepted_from_def
    by (cases closed) (auto simp: chunk simp del: upt_Suc)
qed

lemma windows_ordered_sorted: "windows_ordered ps \<Longrightarrow> sorted_wrt (<) (map pm_prefix ps)"
proof (induction ps rule: windows_ordered.induct)
  case (1 p q ps)
  then have q: "sorted_wrt (<) (map pm_prefix (q # ps))" and pq: "pm_prefix p < pm_prefix q" by auto
  have "pm_prefix p < x" if "x \<in> set (map pm_prefix (q # ps))" for x
    using q pq that by (auto intro: less_trans)
  then show ?case using q by simp
qed auto

lemma validate_storage_manifest_ok:
  assumes "validate_storage_manifest m = Inr ()"
  shows "sm_version m \<in> {4, 5}" "sm_prefixes m \<noteq> []" "distinct (map pm_prefix (sm_prefixes m))"
    "[] \<notin> pm_prefix ` set (sm_prefixes m)"
proof -
  have ne: "check_prefixes ps = Inr () \<Longrightarrow> [] \<notin> pm_prefix ` set ps" for ps
    by (induction ps) (auto split: if_splits)
  show "sm_version m \<in> {4, 5}" "sm_prefixes m \<noteq> []" "[] \<notin> pm_prefix ` set (sm_prefixes m)"
    using assms ne by (auto simp: validate_storage_manifest_def split: if_splits)
  have "windows_ordered (sm_prefixes m)" using assms by (simp add: validate_storage_manifest_def split: if_splits)
  then show "distinct (map pm_prefix (sm_prefixes m))"
    using windows_ordered_sorted strict_sorted_iff by blast
qed

lemma manifest_chunks_ok:
  assumes "validate_storage_manifest m = Inr ()" "validate_manifest_key_chunks api m chunks = Inr ()"
  shows "map fst chunks = map int [0..<length chunks]"
    and "\<forall>(n, p, keys) \<in> set chunks. p \<in> pm_prefix ` set (sm_prefixes m) \<and> keys \<noteq> []
        \<and> (\<forall>key \<in> set keys. key_ok (sm_version m) p key)"
    and "\<forall>s \<in> set (sm_prefixes m).
        pm_keys_digest s = da_hex api (da_sha256 api (stream_bytes (keys_for (pm_prefix s) chunks)))
        \<and> pm_object_count s = of_nat (length (keys_for (pm_prefix s) chunks))"
proof -
  obtain cur' d where "check_chunks api (sm_version m) 0 (sm_prefixes m) (digest_of []) chunks = Inr (cur', d)"
    "case cur' of [] \<Rightarrow> True | s # rest \<Rightarrow> close_prefix api s d = Inr () \<and> close_remaining api rest = Inr ()"
    using assms(2) unfolding validate_manifest_key_chunks_def
    by (cases "check_chunks api (sm_version m) 0 (sm_prefixes m) digest_new chunks")
       (auto simp: and_then_Inr split: list.splits)
  then have acc: "accepted_from api (sm_version m) 0 (sm_prefixes m) [] chunks"
    using check_chunks_accepted validate_storage_manifest_ok(3) [OF assms(1)] by blast
  show "map fst chunks = map int [0..<length chunks]"
    and "\<forall>(n, p, keys) \<in> set chunks. p \<in> pm_prefix ` set (sm_prefixes m) \<and> keys \<noteq> []
        \<and> (\<forall>key \<in> set keys. key_ok (sm_version m) p key)"
    using acc by (simp_all add: accepted_from_def)
  have "close_prefix api s (digest_of (keys_for (pm_prefix s) chunks)) = Inr ()" if "s \<in> set (sm_prefixes m)" for s
    using acc that by (auto simp: accepted_from_def split: list.splits)
  then show "\<forall>s \<in> set (sm_prefixes m).
        pm_keys_digest s = da_hex api (da_sha256 api (stream_bytes (keys_for (pm_prefix s) chunks)))
        \<and> pm_object_count s = of_nat (length (keys_for (pm_prefix s) chunks))"
    unfolding close_prefix_ok by blast
qed

lemma key_ok_no_newline: "key_ok v p key \<Longrightarrow> v \<ge> 5 \<Longrightarrow> NEWLINE \<notin> set key"
  by (auto simp: key_ok_def dest: entry_decode_no_newline)

lemma keys_for_set: "key \<in> set (keys_for p chunks) \<Longrightarrow> \<exists>n keys. (n, p, keys) \<in> set chunks \<and> key \<in> set keys"
  by (fastforce simp: keys_for_def split: if_splits)

lemma keys_for_no_newline:
  assumes "\<forall>(n, p, keys) \<in> set chunks. \<forall>key \<in> set keys. key_ok v p key" "v \<ge> 5" "key \<in> set (keys_for p chunks)"
  shows "NEWLINE \<notin> set key"
  using keys_for_set [OF assms(3)] assms(1,2) key_ok_no_newline by fastforce

text \<open>C15. The destructive key list is bound to its frozen digests: key chunks that the freeze accepts for a
  version-5 manifest are numbered without gaps, none is empty, every entry in them decodes to a key under
  the chunk's own prefix, which is one of the manifest's, and for each prefix the entries in order have
  the frozen count. Any two accepted chunk lists hold the same entries in the same order for every prefix,
  unless their two byte streams for that prefix are different and collide under the hash.\<close>

theorem frozen_chunks_exact:
  assumes "validate_storage_manifest m = Inr ()" and "sm_version m = 5"
    and "validate_manifest_key_chunks api m chunks = Inr ()"
    and "validate_manifest_key_chunks api m chunks' = Inr ()"
  shows "map fst chunks = map int [0..<length chunks]
    \<and> (\<forall>(n, p, keys) \<in> set chunks. keys \<noteq> [] \<and> p \<noteq> [] \<and> p \<in> pm_prefix ` set (sm_prefixes m)
        \<and> (\<forall>key \<in> set keys. \<exists>e. entry_decode key = Inr e \<and> is_prefix p (me_key e)))
    \<and> (\<forall>s \<in> set (sm_prefixes m). pm_object_count s = of_nat (length (keys_for (pm_prefix s) chunks))
        \<and> (keys_for (pm_prefix s) chunks = keys_for (pm_prefix s) chunks'
           \<or> stream_bytes (keys_for (pm_prefix s) chunks) \<noteq> stream_bytes (keys_for (pm_prefix s) chunks')
             \<and> da_hex api (da_sha256 api (stream_bytes (keys_for (pm_prefix s) chunks)))
               = da_hex api (da_sha256 api (stream_bytes (keys_for (pm_prefix s) chunks')))))"
proof -
  note ok = manifest_chunks_ok [OF assms(1,3)] and ok' = manifest_chunks_ok [OF assms(1,4)]
  have "\<forall>(n, p, keys) \<in> set chunks. keys \<noteq> [] \<and> p \<noteq> [] \<and> p \<in> pm_prefix ` set (sm_prefixes m)
        \<and> (\<forall>key \<in> set keys. \<exists>e. entry_decode key = Inr e \<and> is_prefix p (me_key e))"
    using ok(2) validate_storage_manifest_ok(4) [OF assms(1)] assms(2) by (fastforce simp: key_ok_def)
  moreover have "keys_for (pm_prefix s) chunks = keys_for (pm_prefix s) chunks'
      \<or> stream_bytes (keys_for (pm_prefix s) chunks) \<noteq> stream_bytes (keys_for (pm_prefix s) chunks')
        \<and> da_hex api (da_sha256 api (stream_bytes (keys_for (pm_prefix s) chunks)))
          = da_hex api (da_sha256 api (stream_bytes (keys_for (pm_prefix s) chunks')))"
    if s: "s \<in> set (sm_prefixes m)" for s
  proof -
    let ?K = "keys_for (pm_prefix s) chunks" and ?K' = "keys_for (pm_prefix s) chunks'"
    have "da_hex api (da_sha256 api (stream_bytes ?K)) = da_hex api (da_sha256 api (stream_bytes ?K'))"
      using ok(3) ok'(3) s by metis
    moreover have "?K = ?K'" if "stream_bytes ?K = stream_bytes ?K'"
    proof (rule stream_bytes_inj [OF that])
      show "NEWLINE \<notin> set k" if "k \<in> set ?K" for k
        using keys_for_no_newline [OF _ _ that, of 5] ok(2) assms(2) by fastforce
      show "NEWLINE \<notin> set k" if "k \<in> set ?K'" for k
        using keys_for_no_newline [OF _ _ that, of 5] ok'(2) assms(2) by fastforce
    qed
    ultimately show ?thesis by blast
  qed
  ultimately show ?thesis using ok(1,3) by blast
qed

text \<open>A concrete instance of the parameters: hash and encodings that are total and have the documented
  shape (64 lowercase hexadecimal digits).\<close>

definition sample_deletion_api :: deletion_api where
  "sample_deletion_api =
     \<lparr>da_uuid = std_uuid_api, da_sha256 = (\<lambda>s. s), da_hex = (\<lambda>s. replicate 64 CHR ''0''),
      da_inventory_json = (\<lambda>_. ''inventory''), da_debug = (\<lambda>s. s), da_lower = (\<lambda>s. s)\<rparr>"

definition sample_manifest :: storage_manifest where
  "sample_manifest =
     \<lparr>sm_version = 5,
      sm_prefixes = [\<lparr>pm_prefix = ''p/'', pm_object_count = 1, pm_total_bytes = 3,
        pm_keys_digest = replicate 64 CHR ''0''\<rparr>]\<rparr>"

definition sample_chunks :: "chunk list" where
  "sample_chunks = [(0, ''p/'', [''p/k'' @ UNIT_SEP # ''v1'' @ UNIT_SEP # ''object''])]"

theorem frozen_chunks_exact_witness:
  "validate_storage_manifest sample_manifest = Inr ()
    \<and> validate_manifest_key_chunks sample_deletion_api sample_manifest sample_chunks = Inr ()
    \<and> map fst sample_chunks = map int [0..<length sample_chunks]"
proof -
  have m: "validate_storage_manifest sample_manifest = Inr ()" by code_simp
  have e: "entry_decode (''p/k'' @ UNIT_SEP # ''v1'' @ UNIT_SEP # ''object'')
      = Inr (entry_new ''p/k'' ''v1'' ''object'')"
    by (rule entry_decode_encode) (simp add: entry_encode_ok entry_new_def NEWLINE_def UNIT_SEP_def)
  have c: "validate_manifest_key_chunks sample_deletion_api sample_manifest sample_chunks = Inr ()"
    using e by (simp add: validate_manifest_key_chunks_def sample_deletion_api_def sample_manifest_def
        sample_chunks_def close_prefix_def digest_finish_def digest_new_def fold_unordered_def entry_new_def)
  have "sm_version sample_manifest = 5" by (simp add: sample_manifest_def)
  from frozen_chunks_exact [OF m this c c] m c show ?thesis by blast
qed

text \<open>C16. A manifest entry survives its encoding: every entry that can be encoded decodes to itself, everything
  that decodes is the encoding of its result, so what is not such an encoding (a bare key, a missing or an
  extra field, an unknown kind) is refused.\<close>

theorem entry_roundtrip:
  "entry_decode s = Inr e \<longleftrightarrow> entry_encode e = Inr s"
  using entry_decode_encode entry_decode_ok by blast

end
