(* ===== verification/Deletion_Tables.thy ===== *)
theory Deletion_Tables
  imports Deletion_Manifest
begin

text \<open>
  The durable store of whole-community deletion, \<open>crates/maju-db/src/store/deletion.rs\<close>, with the database
  functions and triggers its statements run into (\<open>migrations/0029_community_deletion.sql\<close> and
  \<open>0030_community_deletion_recovery.sql\<close>).

  The database is a record of tables; a table is the list of its rows. Every operation of the store is one
  transaction and one function from the database to an error or the new database with a result: an error is
  a rollback, so the database is then the old one. Transactions are atomic, which is what the community
  advisory lock, the row locks and the conditional updates of the code are for; \<open>now\<close> is the time the
  transaction sees (its start), an argument of each operation on which no ordering is assumed. Random ids
  are arguments too, and a conflict with the primary key is an error. A statement that the server fails is
  an operation that returns \<open>Sqlx\<close> and changes nothing; counters that only the server increments are
  unbounded, their overflow is such a failure. JSON columns hold the value they encode. Time is in
  microseconds. The \<open>heartbeat_at\<close> column of serving leases, the \<open>started_at\<close> columns and the checkpoint
  sequence number (rows stay in insertion order) are left out.

  Rows of community-scoped tables are \<open>tenant_row\<close>s, and what may write them is the trigger function
  \<open>assert_community_write_allowed\<close> for the settings of the session.
\<close>

section \<open>Stages\<close>

datatype deletion_stage =
    Submitted | Inventoried | Approved | Fenced | Drained | BindingsRemoved | PostgresPurged
  | CachePurged | LogicallyVerified | RetentionPending | Aborted

fun stage_next :: "deletion_stage \<Rightarrow> deletion_stage option" where
  "stage_next Submitted = Some Inventoried"
| "stage_next Inventoried = Some Approved"
| "stage_next Approved = Some Fenced"
| "stage_next Fenced = Some Drained"
| "stage_next Drained = Some BindingsRemoved"
| "stage_next BindingsRemoved = Some PostgresPurged"
| "stage_next PostgresPurged = Some CachePurged"
| "stage_next CachePurged = Some LogicallyVerified"
| "stage_next LogicallyVerified = Some RetentionPending"
| "stage_next RetentionPending = None"
| "stage_next Aborted = None"

definition stage_runnable :: "deletion_stage \<Rightarrow> bool" where
  "stage_runnable s \<longleftrightarrow>
     s \<in> {Approved, Fenced, Drained, BindingsRemoved, PostgresPurged, CachePurged, LogicallyVerified}"

fun stage_display :: "deletion_stage \<Rightarrow> string" where
  "stage_display Submitted = ''submitted''"
| "stage_display Inventoried = ''inventoried''"
| "stage_display Approved = ''approved''"
| "stage_display Fenced = ''fenced''"
| "stage_display Drained = ''drained''"
| "stage_display BindingsRemoved = ''bindings_removed''"
| "stage_display PostgresPurged = ''postgres_purged''"
| "stage_display CachePurged = ''cache_purged''"
| "stage_display LogicallyVerified = ''logically_verified''"
| "stage_display RetentionPending = ''retention_pending''"
| "stage_display Aborted = ''aborted''"

definition stage_from_str :: "string \<Rightarrow> db_error + deletion_stage" where
  "stage_from_str value =
     (if value = ''submitted'' then Inr Submitted
      else if value = ''inventoried'' then Inr Inventoried
      else if value = ''approved'' then Inr Approved
      else if value = ''fenced'' then Inr Fenced
      else if value = ''drained'' then Inr Drained
      else if value = ''bindings_removed'' then Inr BindingsRemoved
      else if value = ''postgres_purged'' then Inr PostgresPurged
      else if value = ''cache_purged'' then Inr CachePurged
      else if value = ''logically_verified'' then Inr LogicallyVerified
      else if value = ''retention_pending'' then Inr RetentionPending
      else if value = ''aborted'' then Inr Aborted
      else Inl (DeletionSafety (''unknown community deletion stage: '' @ value)))"

section \<open>Tables\<close>

datatype community_state = Cs_Active | Cs_Quiescing | Cs_Fenced | Cs_Tombstone

record community_row =
  co_id :: uuid
  co_host :: string
  co_state :: community_state
  co_fence_generation :: int
  co_deleted_at :: "int option"
  co_archived_at :: "int option"
  co_signing_key :: "string option"
  co_icon :: "string option"

record deletion_request =
  dr_id :: uuid
  dr_community_id :: uuid
  dr_community_host :: string
  dr_stage :: deletion_stage
  dr_retry_stage :: "deletion_stage option"
  dr_requested_by :: string
  dr_reason :: "string option"
  dr_schema_manifest :: "schema_manifest option"
  dr_storage_manifest :: "storage_manifest option"
  dr_destructive_storage_manifest :: "storage_manifest option"
  dr_destructive_storage_frozen_at :: "int option"
  dr_inventory_manifest :: "frozen_inventory option"
  dr_inventory_digest :: "string option"
  dr_inventory_frozen_at :: "int option"
  dr_fence_generation :: "int option"
  dr_lease_owner :: "string option"
  dr_lease_generation :: int
  dr_lease_until :: "int option"
  dr_attempts :: int
  dr_retry_count :: int
  dr_last_error :: "string option"
  dr_last_error_at :: "int option"
  dr_next_attempt_at :: int
  dr_blocked_at :: "int option"
  dr_blocked_reason :: "string option"
  dr_created_at :: int
  dr_updated_at :: int
  dr_pre_quiesce_archived_at :: "int option"
  dr_quiescing_started_at :: "int option"
  dr_aborted_by :: "string option"
  dr_abort_reason :: "string option"
  dr_aborted_at :: "int option"
  dr_completed_at :: "int option"

record deletion_approval =
  ap_request_id :: uuid
  ap_community_id :: uuid
  ap_inventory_digest :: string
  ap_approved_by :: string
  ap_note :: "string option"
  ap_approved_at :: int

datatype checkpoint_status = Ck_Completed | Ck_Failed

record deletion_checkpoint =
  ck_request_id :: uuid
  ck_stage :: deletion_stage
  ck_unit_key :: string
  ck_status :: checkpoint_status
  ck_lease_generation :: int
  ck_attempts :: nat
  ck_detail :: "(string \<times> string) list"
  ck_error :: "string option"
  ck_completed_at :: "int option"

record manifest_key_row =
  mk_request_id :: uuid
  mk_chunk_no :: int
  mk_prefix :: string
  mk_keys :: "string list"
  mk_deleted_at :: "int option"

record serving_write_lease =
  sw_id :: uuid
  sw_community_id :: uuid
  sw_operation :: string
  sw_owner :: string
  sw_generation :: int
  sw_fence_generation :: int
  sw_lease_until :: int

record executor_heartbeat =
  hb_executor_id :: string
  hb_mode :: string
  hb_request_id :: "uuid option"
  hb_heartbeat_at :: int
  hb_draining :: bool
  hb_stopped_at :: "int option"

record pg_trigger =
  tg_internal :: bool
  tg_function :: string
  tg_enabled :: char
  tg_type :: u16

record pg_table =
  pt_name :: string
  pt_schema :: string
  pt_relkind :: char
  pt_relispartition :: bool
  pt_columns :: "string list"
  pt_triggers :: "pg_trigger list"

record tenant_row =
  tr_table :: string
  tr_community :: "uuid option"
  tr_data :: string

record taxonomy_sweep =
  ts_id :: uuid
  ts_started_at :: int
  ts_completed_at :: int
  ts_listed_objects :: int
  ts_unknown_object_count :: int
  ts_unknown_key_sample :: "string list"
  ts_object_cap :: int

record del_db =
  dt_communities :: "community_row list"
  dt_requests :: "deletion_request list"
  dt_approvals :: "deletion_approval list"
  dt_checkpoints :: "deletion_checkpoint list"
  dt_chunks :: "manifest_key_row list"
  dt_leases :: "serving_write_lease list"
  dt_heartbeats :: "executor_heartbeat list"
  dt_sweeps :: "taxonomy_sweep list"
  dt_rows :: "tenant_row list"
  dt_catalog :: "pg_table list"

record lease_token =
  lt_request_id :: uuid
  lt_owner :: string
  lt_generation :: int
  lt_community_id :: uuid
  lt_fence_generation :: "int option"

record claimed_deletion =
  cd_request :: deletion_request
  cd_lease :: lease_token

definition DEFAULT_LEASE_DURATION :: nat where
  "DEFAULT_LEASE_DURATION = 60"

definition EXPECTED_SCOPED_TABLES :: "string list" where
  "EXPECTED_SCOPED_TABLES =
     [''api_tokens'', ''archived_identities'', ''audit_log'', ''channel_members'', ''channels'',
      ''community_bans'', ''delivery_log'', ''event_mentions'', ''events'', ''git_repo_names'',
      ''join_policy_acceptances'', ''moderation_actions'', ''moderation_reports'',
      ''parameterized_event_watermarks'', ''pubkey_allowlist'', ''push_leases'', ''push_match_queue'',
      ''push_wake_outbox'', ''reactions'', ''relay_invites'', ''relay_members'',
      ''scheduled_workflow_fires'', ''subscriptions'', ''thread_metadata'', ''users'',
      ''workflow_approvals'', ''workflow_runs'', ''workflows'']"

definition PURGE_SCOPED_TABLES :: "string list" where
  "PURGE_SCOPED_TABLES =
     [''workflow_approvals'', ''scheduled_workflow_fires'', ''workflow_runs'', ''push_wake_outbox'',
      ''join_policy_acceptances'', ''moderation_reports'', ''subscriptions'', ''api_tokens'',
      ''channel_members'', ''thread_metadata'', ''moderation_actions'', ''workflows'', ''event_mentions'',
      ''reactions'', ''push_match_queue'', ''push_leases'', ''relay_invites'', ''delivery_log'', ''events'',
      ''parameterized_event_watermarks'', ''git_repo_names'', ''archived_identities'', ''audit_log'',
      ''community_bans'', ''pubkey_allowlist'', ''relay_members'', ''users'', ''channels'']"

section \<open>Statements\<close>

definition sql_update :: "('r \<Rightarrow> bool) \<Rightarrow> ('r \<Rightarrow> 'r) \<Rightarrow> 'r list \<Rightarrow> 'r list" where
  "sql_update P f rows = map (\<lambda>r. if P r then f r else r) rows"

definition rows_affected :: "('r \<Rightarrow> bool) \<Rightarrow> 'r list \<Rightarrow> nat" where
  "rows_affected P rows = length (filter P rows)"

text \<open>\<open>x >= now()\<close> of a nullable column.\<close>

definition at_or_after :: "int option \<Rightarrow> int \<Rightarrow> bool" where
  "at_or_after x now = (case x of None \<Rightarrow> False | Some t \<Rightarrow> t \<ge> now)"

definition coalesce :: "'a option \<Rightarrow> 'a option \<Rightarrow> 'a option" where
  "coalesce x y = (case x of None \<Rightarrow> y | Some _ \<Rightarrow> x)"

definition secs_from :: "int \<Rightarrow> nat \<Rightarrow> int" where
  "secs_from now secs = now + min (int secs) (2 ^ 63 - 1) * 1000000"

definition find_request :: "uuid \<Rightarrow> del_db \<Rightarrow> deletion_request option" where
  "find_request i db = List.find (\<lambda>r. dr_id r = i) (dt_requests db)"

definition find_community :: "uuid \<Rightarrow> del_db \<Rightarrow> community_row option" where
  "find_community i db = List.find (\<lambda>c. co_id c = i) (dt_communities db)"

text \<open>The update of request rows, with the trigger \<open>prevent_community_deletion_request_retargeting\<close>.\<close>

definition retargeting_ok :: "deletion_request \<Rightarrow> deletion_request \<Rightarrow> bool" where
  "retargeting_ok old new \<longleftrightarrow>
     dr_community_id new = dr_community_id old \<and> dr_community_host new = dr_community_host old
     \<and> (dr_inventory_frozen_at old \<noteq> None \<longrightarrow>
          dr_schema_manifest new = dr_schema_manifest old \<and> dr_storage_manifest new = dr_storage_manifest old
          \<and> dr_inventory_manifest new = dr_inventory_manifest old
          \<and> dr_inventory_digest new = dr_inventory_digest old
          \<and> dr_inventory_frozen_at new = dr_inventory_frozen_at old)
     \<and> (dr_destructive_storage_frozen_at old \<noteq> None \<longrightarrow>
          dr_destructive_storage_manifest new = dr_destructive_storage_manifest old
          \<and> dr_destructive_storage_frozen_at new = dr_destructive_storage_frozen_at old)"

definition update_requests ::
  "(deletion_request \<Rightarrow> bool) \<Rightarrow> (deletion_request \<Rightarrow> deletion_request) \<Rightarrow> del_db \<Rightarrow> db_error + del_db \<times> nat" where
  "update_requests P f db =
     (if \<not> list_all (\<lambda>r. P r \<longrightarrow> retargeting_ok r (f r)) (dt_requests db)
      then Inl (Sqlx ''frozen community deletion request is immutable'')
      else Inr (db\<lparr>dt_requests := sql_update P f (dt_requests db)\<rparr>, rows_affected P (dt_requests db)))"

text \<open>The settings of a session that the triggers read: the executor's community and generation, or the
  serving lease that a mutation runs under.\<close>

record session =
  se_executor :: "(uuid \<times> int) option"
  se_serving :: "(uuid \<times> uuid \<times> string \<times> int \<times> int) option"

definition plain_session :: session where
  "plain_session = \<lparr>se_executor = None, se_serving = None\<rparr>"

definition set_executor_gucs :: "uuid \<Rightarrow> int \<Rightarrow> session \<Rightarrow> session" where
  "set_executor_gucs community generation s = s\<lparr>se_executor := Some (community, generation)\<rparr>"

definition enforce_community_tombstone :: "session \<Rightarrow> community_row \<Rightarrow> community_row \<Rightarrow> bool" where
  "enforce_community_tombstone s old new \<longleftrightarrow>
     (let expected_generation = max (co_fence_generation new) (co_fence_generation old) in
      se_executor s = Some (co_id old, expected_generation)
      \<or> co_state old = Cs_Active \<and> co_state new = co_state old
         \<and> co_fence_generation new = co_fence_generation old \<and> co_deleted_at new = co_deleted_at old)"

definition update_communities ::
  "session \<Rightarrow> (community_row \<Rightarrow> bool) \<Rightarrow> (community_row \<Rightarrow> community_row) \<Rightarrow> del_db \<Rightarrow> db_error + del_db \<times> nat" where
  "update_communities s P f db =
     (if \<not> list_all (\<lambda>c. P c \<longrightarrow> enforce_community_tombstone s c (f c)) (dt_communities db)
      then Inl (Sqlx ''community tombstone mutation rejected'')
      else Inr (db\<lparr>dt_communities := sql_update P f (dt_communities db)\<rparr>, rows_affected P (dt_communities db)))"

definition assert_community_write_allowed :: "session \<Rightarrow> int \<Rightarrow> uuid option \<Rightarrow> del_db \<Rightarrow> db_error + unit" where
  "assert_community_write_allowed s now target db =
     (case target of
        None \<Rightarrow> Inr ()
      | Some c \<Rightarrow>
          (case find_community c db of
             None \<Rightarrow> Inl (Sqlx ''community write rejected: community is missing'')
           | Some row \<Rightarrow>
               if se_executor s = Some (c, co_fence_generation row) then Inr ()
               else if co_state row \<in> {Cs_Active, Cs_Quiescing}
                 \<and> (case se_serving s of
                      None \<Rightarrow> False
                    | Some (sc, lid, owner, gen, fence_gen) \<Rightarrow>
                        sc = c \<and> fence_gen = co_fence_generation row
                        \<and> list_ex (\<lambda>l. sw_id l = lid \<and> sw_community_id l = c \<and> sw_owner l = owner
                              \<and> sw_generation l = gen \<and> sw_fence_generation l = fence_gen
                              \<and> sw_lease_until l \<ge> now) (dt_leases db))
               then Inr ()
               else if co_state row \<noteq> Cs_Active then Inl (Sqlx ''community write fenced'')
               else Inr ()))"

text \<open>The trigger on chunk rows: what may be inserted, updated and deleted.\<close>

definition chunk_insert_ok :: "del_db \<Rightarrow> uuid \<Rightarrow> bool" where
  "chunk_insert_ok db i =
     (case find_request i db of
        None \<Rightarrow> False
      | Some r \<Rightarrow> dr_destructive_storage_frozen_at r = None \<and> dr_stage r = Fenced)"

definition chunk_delete_ok :: "del_db \<Rightarrow> uuid \<Rightarrow> bool" where
  "chunk_delete_ok db i =
     (case find_request i db of
        None \<Rightarrow> True
      | Some r \<Rightarrow> dr_destructive_storage_frozen_at r = None
          \<or> dr_stage r \<in> {LogicallyVerified, RetentionPending})"

definition delete_chunks :: "uuid \<Rightarrow> del_db \<Rightarrow> db_error + del_db" where
  "delete_chunks i db =
     (if list_ex (\<lambda>m. mk_request_id m = i) (dt_chunks db) \<and> \<not> chunk_delete_ok db i
      then Inl (Sqlx ''community deletion manifest key chunks cannot be removed mid-execution'')
      else Inr (db\<lparr>dt_chunks := filter (\<lambda>m. mk_request_id m \<noteq> i) (dt_chunks db)\<rparr>))"

section \<open>Checks and checkpoints\<close>

definition stale_lease_error :: "deletion_api \<Rightarrow> lease_token \<Rightarrow> db_error" where
  "stale_lease_error api token =
     AccessDenied (''stale deletion lease '' @ ua_string (da_uuid api) (lt_request_id token) @ '' owner ''
       @ da_debug api (lt_owner token) @ '' generation '' @ show_int (lt_generation token))"

definition is_stale_deletion_lease :: "db_error \<Rightarrow> bool" where
  "is_stale_deletion_lease error =
     (case error of
        AccessDenied message \<Rightarrow>
          is_prefix ''stale deletion lease '' message
          \<or> is_prefix ''stale lease or fencing generation for deletion '' message
      | _ \<Rightarrow> False)"

definition approval_matches :: "del_db \<Rightarrow> deletion_request \<Rightarrow> bool" where
  "approval_matches db r =
     list_ex (\<lambda>a. ap_request_id a = dr_id r \<and> ap_community_id a = dr_community_id r
         \<and> dr_inventory_digest r = Some (ap_inventory_digest a)) (dt_approvals db)"

definition lease_current :: "del_db \<Rightarrow> int \<Rightarrow> lease_token \<Rightarrow> deletion_stage \<Rightarrow> deletion_request \<Rightarrow> bool" where
  "lease_current db now token stage r \<longleftrightarrow>
     dr_id r = lt_request_id token \<and> dr_community_id r = lt_community_id token \<and> dr_stage r = stage
     \<and> dr_lease_owner r = Some (lt_owner token) \<and> dr_lease_generation r = lt_generation token
     \<and> at_or_after (dr_lease_until r) now \<and> dr_blocked_at r = None \<and> approval_matches db r"

definition verify_lease ::
  "deletion_api \<Rightarrow> int \<Rightarrow> lease_token \<Rightarrow> deletion_stage \<Rightarrow> del_db \<Rightarrow> db_error + unit" where
  "verify_lease api now token stage db =
     (if list_ex (lease_current db now token stage) (dt_requests db) then Inr ()
      else Inl (stale_lease_error api token))"

definition verify_lease_and_fence ::
  "deletion_api \<Rightarrow> int \<Rightarrow> lease_token \<Rightarrow> deletion_stage \<Rightarrow> int \<Rightarrow> del_db \<Rightarrow> db_error + unit" where
  "verify_lease_and_fence api now token stage fence_generation db =
     (if list_ex (\<lambda>r. lease_current db now token stage r \<and> dr_fence_generation r = Some fence_generation
           \<and> list_ex (\<lambda>c. co_id c = dr_community_id r \<and> co_state c \<in> {Cs_Fenced, Cs_Tombstone}
                 \<and> co_fence_generation c = fence_generation) (dt_communities db)) (dt_requests db)
      then Inr ()
      else Inl (AccessDenied (''stale lease or fencing generation for deletion ''
             @ ua_string (da_uuid api) (lt_request_id token))))"

definition require_fence_generation :: "deletion_api \<Rightarrow> lease_token \<Rightarrow> db_error + int" where
  "require_fence_generation api token =
     ok_or (lt_fence_generation token)
       (DeletionSafety (''deletion '' @ ua_string (da_uuid api) (lt_request_id token)
          @ '' has no durable fence generation''))"

definition advance_request_tx ::
  "deletion_api \<Rightarrow> int \<Rightarrow> lease_token \<Rightarrow> deletion_stage \<Rightarrow> deletion_stage \<Rightarrow> int option \<Rightarrow> del_db \<Rightarrow> db_error + del_db" where
  "advance_request_tx api now token from_stage to_stage fence_generation db =
     (if stage_next from_stage \<noteq> Some to_stage
      then Inl (DeletionSafety (''illegal deletion transition '' @ stage_display from_stage @ '' -> ''
             @ stage_display to_stage))
      else
        and_then (update_requests
          (\<lambda>r. dr_id r = lt_request_id token \<and> dr_stage r = from_stage \<and> dr_lease_owner r = Some (lt_owner token)
             \<and> dr_lease_generation r = lt_generation token \<and> at_or_after (dr_lease_until r) now
             \<and> dr_blocked_at r = None)
          (\<lambda>r. r\<lparr>dr_stage := to_stage, dr_fence_generation := coalesce fence_generation (dr_fence_generation r),
             dr_updated_at := now, dr_retry_count := 0, dr_retry_stage := None, dr_last_error := None,
             dr_last_error_at := None\<rparr>) db) (\<lambda>(db, affected).
          if affected = 1 then Inr db else Inl (stale_lease_error api token)))"

text \<open>\<open>INSERT ... ON CONFLICT (request_id, stage, unit_key) DO UPDATE\<close> on the checkpoint table.\<close>

definition upsert_checkpoint ::
  "deletion_checkpoint \<Rightarrow> (deletion_checkpoint \<Rightarrow> deletion_checkpoint) \<Rightarrow> del_db \<Rightarrow> del_db" where
  "upsert_checkpoint new f db =
     (let same = (\<lambda>k. ck_request_id k = ck_request_id new \<and> ck_stage k = ck_stage new \<and> ck_unit_key k = ck_unit_key new) in
      if list_ex same (dt_checkpoints db)
      then db\<lparr>dt_checkpoints := sql_update same (\<lambda>k. (f k)\<lparr>ck_attempts := Suc (ck_attempts k)\<rparr>) (dt_checkpoints db)\<rparr>
      else db\<lparr>dt_checkpoints := dt_checkpoints db @ [new]\<rparr>)"

definition checkpoint_completed_tx ::
  "int \<Rightarrow> lease_token \<Rightarrow> deletion_stage \<Rightarrow> string \<Rightarrow> (string \<times> string) list \<Rightarrow> del_db \<Rightarrow> del_db" where
  "checkpoint_completed_tx now token stage unit_key detail =
     upsert_checkpoint
       \<lparr>ck_request_id = lt_request_id token, ck_stage = stage, ck_unit_key = unit_key, ck_status = Ck_Completed,
        ck_lease_generation = lt_generation token, ck_attempts = 1, ck_detail = detail, ck_error = None,
        ck_completed_at = Some now\<rparr>
       (\<lambda>k. k\<lparr>ck_status := Ck_Completed, ck_lease_generation := lt_generation token, ck_detail := detail,
            ck_error := None, ck_completed_at := Some now\<rparr>)"

definition checkpoint_failed_tx ::
  "lease_token \<Rightarrow> deletion_stage \<Rightarrow> string \<Rightarrow> string \<Rightarrow> del_db \<Rightarrow> del_db" where
  "checkpoint_failed_tx token stage unit_key error =
     upsert_checkpoint
       \<lparr>ck_request_id = lt_request_id token, ck_stage = stage, ck_unit_key = unit_key, ck_status = Ck_Failed,
        ck_lease_generation = lt_generation token, ck_attempts = 1, ck_detail = [], ck_error = Some error,
        ck_completed_at = None\<rparr>
       (\<lambda>k. k\<lparr>ck_status := Ck_Failed, ck_lease_generation := lt_generation token, ck_error := Some error,
            ck_completed_at := None\<rparr>)"

text \<open>The catalog: tables with a \<open>community_id\<close> column that are not excluded, and tables that carry the write
  fence as an enabled row trigger before insert, update and delete.\<close>

definition FENCE_EXCLUDED_TABLES :: "string list" where
  "FENCE_EXCLUDED_TABLES =
     [''community_deletion_requests'', ''community_deletion_approvals'', ''community_deletion_checkpoints'',
      ''community_serving_write_leases'', ''community_deletion_executor_heartbeats'', ''product_feedback'',
      ''rate_limit_violations'']"

definition live_scoped_tables_on :: "del_db \<Rightarrow> string set" where
  "live_scoped_tables_on db =
     set (map pt_name (filter (\<lambda>t. pt_schema t = ''public'' \<and> pt_relkind t \<in> {CHR ''r'', CHR ''p''}
        \<and> \<not> pt_relispartition t \<and> ''community_id'' \<in> set (pt_columns t)
        \<and> pt_name t \<notin> set FENCE_EXCLUDED_TABLES) (dt_catalog db)))"

definition fence_trigger :: "pg_trigger \<Rightarrow> bool" where
  "fence_trigger g \<longleftrightarrow>
     \<not> tg_internal g \<and> tg_function g = ''enforce_community_write_fence'' \<and> tg_enabled g = CHR ''O''
     \<and> bit (tg_type g) 0 \<and> bit (tg_type g) 1 \<and> bit (tg_type g) 2 \<and> bit (tg_type g) 3 \<and> bit (tg_type g) 4"

definition live_fenced_tables_on :: "del_db \<Rightarrow> string set" where
  "live_fenced_tables_on db =
     set (map pt_name (filter (\<lambda>t. pt_schema t = ''public'' \<and> \<not> pt_relispartition t
        \<and> list_ex fence_trigger (pt_triggers t)) (dt_catalog db)))"

definition catalog_drift :: "string \<Rightarrow> string set \<Rightarrow> db_error" where
  "catalog_drift what live =
     (let expected = set EXPECTED_SCOPED_TABLES;
          names = (\<lambda>s. join_with CHR '','' (sorted_list_of_set s)) in
      DeletionSafety (''community deletion '' @ what @ '' drift (missing='' @ names (expected - live)
        @ '', unknown='' @ names (live - expected) @ '')''))"

definition validate_catalog_on :: "del_db \<Rightarrow> db_error + unit" where
  "validate_catalog_on db =
     (if live_scoped_tables_on db \<noteq> set EXPECTED_SCOPED_TABLES
      then Inl (catalog_drift ''catalog'' (live_scoped_tables_on db))
      else if live_fenced_tables_on db \<noteq> set EXPECTED_SCOPED_TABLES
      then Inl (catalog_drift ''write-fence'' (live_fenced_tables_on db))
      else Inr ())"

end
