(* ===== verification/Deletion_Store.thy ===== *)
theory Deletion_Store
  imports Deletion_Tables
begin

text \<open>
  The operations of \<open>crates/maju-db/src/store/deletion.rs\<close>, in the order of the file: submission, inventory
  and approval; claims, heartbeats and release; quiescing and the fence; the frozen key list; draining, the
  purge and its verification; retry, abort, block and unblock; serving leases. The last section has the
  statements of the rest of the system that meet the same triggers.
\<close>

section \<open>From submission to approval\<close>

definition uuid_text :: "deletion_api \<Rightarrow> uuid \<Rightarrow> string" where
  "uuid_text api i = ua_string (da_uuid api) i"

definition new_request :: "uuid \<Rightarrow> int \<Rightarrow> community_row \<Rightarrow> string \<Rightarrow> string option \<Rightarrow> deletion_request" where
  "new_request new_id now target requested_by reason =
     \<lparr>dr_id = new_id, dr_community_id = co_id target, dr_community_host = co_host target,
      dr_stage = Submitted, dr_retry_stage = None, dr_requested_by = requested_by, dr_reason = reason,
      dr_schema_manifest = None, dr_storage_manifest = None, dr_destructive_storage_manifest = None,
      dr_destructive_storage_frozen_at = None, dr_inventory_manifest = None, dr_inventory_digest = None,
      dr_inventory_frozen_at = None, dr_fence_generation = None, dr_lease_owner = None,
      dr_lease_generation = 0, dr_lease_until = None, dr_attempts = 0, dr_retry_count = 0,
      dr_last_error = None, dr_last_error_at = None, dr_next_attempt_at = now, dr_blocked_at = None,
      dr_blocked_reason = None, dr_created_at = now, dr_updated_at = now, dr_pre_quiesce_archived_at = None,
      dr_quiescing_started_at = None, dr_aborted_by = None, dr_abort_reason = None, dr_aborted_at = None,
      dr_completed_at = None\<rparr>"

text \<open>The target is unique, because the database has a unique index on \<open>lower(host)\<close>; the insertion does
  nothing when the partial unique index on the community of a request that is not aborted already has it.\<close>

definition submit ::
  "deletion_api \<Rightarrow> uuid \<Rightarrow> int \<Rightarrow> string \<Rightarrow> string \<Rightarrow> string option \<Rightarrow> del_db \<Rightarrow> db_error + del_db \<times> deletion_request" where
  "submit api new_id now community_host requested_by reason db =
     (let refuse = Inl (DeletionSafety (''community '' @ da_debug api community_host
            @ '' is missing, already requested, fenced, or tombstoned'')) in
      case List.find (\<lambda>c. da_lower api (co_host c) = da_lower api community_host
             \<and> co_state c = Cs_Active \<and> co_deleted_at c = None) (dt_communities db) of
        None \<Rightarrow> refuse
      | Some target \<Rightarrow>
          if list_ex (\<lambda>r. dr_community_id r = co_id target \<and> dr_stage r \<noteq> Aborted) (dt_requests db)
          then (case List.find (\<lambda>r. dr_community_id r = co_id target \<and> dr_stage r = Submitted
                       \<and> dr_requested_by r = requested_by) (dt_requests db) of
                  None \<Rightarrow> refuse
                | Some r \<Rightarrow> Inr (db, r))
          else if list_ex (\<lambda>r. dr_id r = new_id) (dt_requests db)
          then Inl (Sqlx ''duplicate key value violates unique constraint'')
          else (let r = new_request new_id now target requested_by reason in
                Inr (db\<lparr>dt_requests := dt_requests db @ [r]\<rparr>, r)))"

text \<open>\<open>UPDATE ... RETURNING\<close>: the updated row with this id, \<open>e\<close> when no row was updated.\<close>

definition updated_request :: "uuid \<Rightarrow> db_error \<Rightarrow> del_db \<times> nat \<Rightarrow> db_error + del_db \<times> deletion_request" where
  "updated_request i e u =
     (case u of (db, affected) \<Rightarrow>
        if affected = 0 then Inl e
        else and_then (ok_or (find_request i db) e) (\<lambda>r. Inr (db, r)))"

definition row_not_found :: db_error where
  "row_not_found = Sqlx ''no rows returned by a query that expected to return at least one row''"

definition list_requests :: "int \<Rightarrow> del_db \<Rightarrow> deletion_request list" where
  "list_requests limit db = take (nat (max 1 (min limit 1000))) (rev (sort_key dr_created_at (rev (dt_requests db))))"

definition get :: "deletion_api \<Rightarrow> uuid \<Rightarrow> del_db \<Rightarrow> db_error + deletion_request" where
  "get api request_id db =
     ok_or (find_request request_id db) (NotFound (''community deletion '' @ uuid_text api request_id))"

definition inventory_schema :: "uuid \<Rightarrow> del_db \<Rightarrow> db_error + schema_manifest" where
  "inventory_schema community db =
     and_then (validate_catalog_on db) (\<lambda>_.
       let live_tables = sorted_list_of_set (live_scoped_tables_on db) in
       Inr \<lparr>sc_scoped_tables = live_tables,
            sc_row_counts = map (\<lambda>t. (t, rows_affected (\<lambda>w. tr_table w = t \<and> tr_community w = Some community)
               (dt_rows db))) live_tables,
            sc_fenced_tables = sorted_list_of_set (live_fenced_tables_on db)\<rparr>)"

definition freeze_inventory ::
  "deletion_api \<Rightarrow> int \<Rightarrow> uuid \<Rightarrow> frozen_inventory \<Rightarrow> del_db \<Rightarrow> db_error + del_db \<times> deletion_request" where
  "freeze_inventory api now request_id inventory db =
     and_then (validate_storage_manifest (fi_storage inventory)) (\<lambda>_.
     and_then (update_requests
         (\<lambda>r. dr_id r = request_id \<and> dr_stage r = Submitted \<and> dr_blocked_at r = None)
         (\<lambda>r. r\<lparr>dr_stage := Inventoried, dr_schema_manifest := Some (fi_schema inventory),
            dr_storage_manifest := Some (fi_storage inventory), dr_inventory_manifest := Some inventory,
            dr_inventory_digest := Some (inventory_digest api inventory), dr_inventory_frozen_at := Some now,
            dr_updated_at := now, dr_last_error := None, dr_last_error_at := None\<rparr>) db)
       (updated_request request_id (DeletionSafety (''deletion '' @ uuid_text api request_id
          @ '' is not an unblocked submitted request''))))"

definition approve ::
  "deletion_api \<Rightarrow> int \<Rightarrow> uuid \<Rightarrow> string \<Rightarrow> string option \<Rightarrow> del_db \<Rightarrow> db_error + del_db \<times> deletion_request" where
  "approve api now request_id approved_by note db =
     (let sel = (\<lambda>r. dr_id r = request_id \<and> dr_stage r = Inventoried \<and> dr_blocked_at r = None) in
      case List.find sel (dt_requests db) of
        None \<Rightarrow> Inl (DeletionSafety (''deletion '' @ uuid_text api request_id
            @ '' is not an unblocked inventoried request''))
      | Some r \<Rightarrow>
          (case (dr_inventory_digest r, dr_inventory_manifest r) of
             (Some digest, Some inventory) \<Rightarrow>
               if digest \<noteq> inventory_digest api inventory
               then Inl (DeletionSafety (''deletion '' @ uuid_text api request_id
                      @ '' frozen inventory digest does not match its manifest''))
               else if list_ex (\<lambda>a. ap_request_id a = request_id) (dt_approvals db)
               then Inl (Sqlx ''duplicate key value violates unique constraint'')
               else and_then (update_requests sel
                        (\<lambda>r. r\<lparr>dr_stage := Approved, dr_updated_at := now, dr_next_attempt_at := now\<rparr>)
                        (db\<lparr>dt_approvals := dt_approvals db @
                           [\<lparr>ap_request_id = request_id, ap_community_id = dr_community_id r,
                             ap_inventory_digest = digest, ap_approved_by = approved_by, ap_note = note,
                             ap_approved_at = now\<rparr>]\<rparr>))
                      (updated_request request_id (DeletionSafety (''deletion '' @ uuid_text api request_id
                         @ '' changed before approval could be recorded'')))
           | _ \<Rightarrow> Inl (Sqlx ''unexpected null; try decoding as an `Option`'')))"

section \<open>Claims\<close>

definition claimable :: "del_db \<Rightarrow> int \<Rightarrow> uuid option \<Rightarrow> deletion_request \<Rightarrow> bool" where
  "claimable db now request_id r \<longleftrightarrow>
     approval_matches db r \<and> (case request_id of None \<Rightarrow> True | Some i \<Rightarrow> dr_id r = i)
     \<and> stage_runnable (dr_stage r) \<and> dr_blocked_at r = None \<and> dr_next_attempt_at r \<le> now
     \<and> (case dr_lease_until r of None \<Rightarrow> True | Some t \<Rightarrow> t < now)"

definition older_request :: "deletion_request \<Rightarrow> deletion_request \<Rightarrow> bool" where
  "older_request r s \<longleftrightarrow>
     dr_created_at r < dr_created_at s \<or> dr_created_at r = dr_created_at s \<and> dr_id r < dr_id s"

fun oldest_request :: "deletion_request list \<Rightarrow> deletion_request option" where
  "oldest_request [] = None"
| "oldest_request (r # rs) =
     (case oldest_request rs of
        None \<Rightarrow> Some r
      | Some s \<Rightarrow> Some (if older_request s r then s else r))"

fun separated :: "string \<Rightarrow> string list \<Rightarrow> string list" where
  "separated s (x # y # xs) = x # s # separated s (y # xs)"
| "separated s xs = xs"

definition debug_list :: "deletion_api \<Rightarrow> string list \<Rightarrow> string" where
  "debug_list api xs = ''['' @ concat (separated '', '' (map (da_debug api) xs)) @ '']''"

definition error_text :: "deletion_api \<Rightarrow> db_error \<Rightarrow> string" where
  "error_text api error =
     (case error of
        Sqlx m \<Rightarrow> ''database error: '' @ m
      | NotFound m \<Rightarrow> ''not found: '' @ m
      | AccessDenied m \<Rightarrow> ''access denied: '' @ m
      | InvalidData m \<Rightarrow> ''invalid data: '' @ m
      | ServingWritesNotDrained c n ops \<Rightarrow>
          ''community '' @ uuid_text api c @ '' still has '' @ show_nat n
          @ '' active serving write lease(s): '' @ debug_list api ops
      | DeletionSafety m \<Rightarrow> ''deletion safety error: '' @ m)"

definition set_request :: "uuid \<Rightarrow> (deletion_request \<Rightarrow> deletion_request) \<Rightarrow> del_db \<Rightarrow> db_error + del_db \<times> nat" where
  "set_request i f db = update_requests (\<lambda>r. dr_id r = i) f db"

definition claim ::
  "deletion_api \<Rightarrow> int \<Rightarrow> uuid option \<Rightarrow> string \<Rightarrow> nat \<Rightarrow> del_db \<Rightarrow> db_error + del_db \<times> claimed_deletion option" where
  "claim api now request_id owner lease_duration db =
     (case oldest_request (filter (claimable db now request_id) (dt_requests db)) of
        None \<Rightarrow> Inr (db, None)
      | Some candidate \<Rightarrow>
          (case validate_catalog_on db of
             Inl error \<Rightarrow>
               (let message = bound_text (error_text api error) 4096;
                    generation = max (dr_lease_generation candidate) 1;
                    db = upsert_checkpoint
                      \<lparr>ck_request_id = dr_id candidate, ck_stage = dr_stage candidate,
                       ck_unit_key = ''claim:catalog_validation'', ck_status = Ck_Failed,
                       ck_lease_generation = generation, ck_attempts = 1, ck_detail = [],
                       ck_error = Some message, ck_completed_at = None\<rparr>
                      (\<lambda>k. k\<lparr>ck_status := Ck_Failed, ck_lease_generation := generation,
                         ck_error := Some message, ck_completed_at := None\<rparr>) db in
                and_then (set_request (dr_id candidate)
                    (\<lambda>r. r\<lparr>dr_blocked_at := Some now, dr_blocked_reason := Some message,
                       dr_last_error := Some message, dr_last_error_at := Some now, dr_lease_owner := None,
                       dr_lease_until := None, dr_updated_at := now\<rparr>) db) (\<lambda>(db, _).
                  Inr (db, None)))
           | Inr _ \<Rightarrow>
               and_then (and_then (set_request (dr_id candidate)
                   (\<lambda>r. r\<lparr>dr_lease_owner := Some owner, dr_lease_generation := dr_lease_generation r + 1,
                      dr_lease_until := Some (secs_from now lease_duration), dr_attempts := dr_attempts r + 1,
                      dr_updated_at := now\<rparr>) db) (updated_request (dr_id candidate) row_not_found))
                 (\<lambda>(db, request).
                   Inr (db, Some \<lparr>cd_request = request,
                     cd_lease = \<lparr>lt_request_id = dr_id request, lt_owner = owner,
                       lt_generation = dr_lease_generation request, lt_community_id = dr_community_id request,
                       lt_fence_generation = dr_fence_generation request\<rparr>\<rparr>))))"

definition claim_specific ::
  "deletion_api \<Rightarrow> int \<Rightarrow> uuid \<Rightarrow> string \<Rightarrow> nat \<Rightarrow> del_db \<Rightarrow> db_error + del_db \<times> claimed_deletion option" where
  "claim_specific api now request_id = claim api now (Some request_id)"

definition claim_next ::
  "deletion_api \<Rightarrow> int \<Rightarrow> string \<Rightarrow> nat \<Rightarrow> del_db \<Rightarrow> db_error + del_db \<times> claimed_deletion option" where
  "claim_next api now = claim api now None"

definition verify_execution_token ::
  "deletion_api \<Rightarrow> int \<Rightarrow> lease_token \<Rightarrow> deletion_stage \<Rightarrow> del_db \<Rightarrow> db_error + unit" where
  "verify_execution_token api now token stage db =
     (case lt_fence_generation token of
        Some generation \<Rightarrow> verify_lease_and_fence api now token stage generation db
      | None \<Rightarrow> verify_lease api now token stage db)"

text \<open>The row of an executor: \<open>INSERT ... ON CONFLICT (executor_id) DO UPDATE\<close>.\<close>

definition upsert_heartbeat :: "executor_heartbeat \<Rightarrow> del_db \<Rightarrow> del_db" where
  "upsert_heartbeat new db =
     (let same = (\<lambda>h. hb_executor_id h = hb_executor_id new) in
      if list_ex same (dt_heartbeats db)
      then db\<lparr>dt_heartbeats := sql_update same (\<lambda>_. new) (dt_heartbeats db)\<rparr>
      else db\<lparr>dt_heartbeats := dt_heartbeats db @ [new]\<rparr>)"

definition heartbeat ::
  "deletion_api \<Rightarrow> int \<Rightarrow> lease_token \<Rightarrow> string \<Rightarrow> nat \<Rightarrow> bool \<Rightarrow> del_db \<Rightarrow> db_error + del_db \<times> unit" where
  "heartbeat api now token executor_mode lease_duration draining db =
     and_then (update_requests
         (\<lambda>r. dr_id r = lt_request_id token \<and> dr_lease_owner r = Some (lt_owner token)
            \<and> dr_lease_generation r = lt_generation token \<and> at_or_after (dr_lease_until r) now
            \<and> dr_blocked_at r = None \<and> stage_runnable (dr_stage r) \<and> approval_matches db r)
         (\<lambda>r. r\<lparr>dr_lease_until := Some (secs_from now lease_duration), dr_updated_at := now\<rparr>) db)
       (\<lambda>(db, affected).
         if affected \<noteq> 1 then Inl (stale_lease_error api token)
         else if executor_mode \<notin> {''run'', ''drain'', ''worker''}
         then Inl (Sqlx ''new row violates check constraint'')
         else Inr (upsert_heartbeat
                \<lparr>hb_executor_id = lt_owner token, hb_mode = executor_mode,
                 hb_request_id = Some (lt_request_id token), hb_heartbeat_at = now, hb_draining = draining,
                 hb_stopped_at = None\<rparr> db, ()))"

definition stop_executor ::
  "int \<Rightarrow> lease_token option \<Rightarrow> string \<Rightarrow> del_db \<Rightarrow> db_error + del_db \<times> unit" where
  "stop_executor now token executor_id db =
     and_then
       (case token of
          None \<Rightarrow> Inr (db, 0)
        | Some token \<Rightarrow>
            update_requests
              (\<lambda>r. dr_id r = lt_request_id token \<and> dr_lease_owner r = Some (lt_owner token)
                 \<and> dr_lease_generation r = lt_generation token)
              (\<lambda>r. r\<lparr>dr_lease_owner := None, dr_lease_until := None, dr_updated_at := now\<rparr>) db)
       (\<lambda>(db, _). Inr (db\<lparr>dt_heartbeats := sql_update (\<lambda>h. hb_executor_id h = executor_id)
          (\<lambda>h. h\<lparr>hb_request_id := None, hb_draining := True, hb_heartbeat_at := now,
             hb_stopped_at := Some now\<rparr>) (dt_heartbeats db)\<rparr>, ()))"

section \<open>Quiescing and the fence\<close>

definition active_leases :: "int \<Rightarrow> uuid \<Rightarrow> del_db \<Rightarrow> serving_write_lease list" where
  "active_leases now community db =
     filter (\<lambda>l. sw_community_id l = community \<and> sw_lease_until l \<ge> now) (dt_leases db)"

definition I64_MAX :: int where
  "I64_MAX = 2 ^ 63 - 1"

definition next_generation :: "int \<Rightarrow> db_error + int" where
  "next_generation g =
     (if g = I64_MAX then Inl (DeletionSafety ''community deletion fence generation overflow'') else Inr (g + 1))"

definition begin_quiescing ::
  "deletion_api \<Rightarrow> int \<Rightarrow> lease_token \<Rightarrow> del_db \<Rightarrow> db_error + del_db \<times> unit" where
  "begin_quiescing api now token db =
     and_then (verify_lease api now token Approved db) (\<lambda>_.
     and_then (ok_or (find_community (lt_community_id token) db) row_not_found) (\<lambda>c.
     and_then (update_requests
         (\<lambda>r. dr_id r = lt_request_id token \<and> dr_quiescing_started_at r = None)
         (\<lambda>r. r\<lparr>dr_pre_quiesce_archived_at := co_archived_at c, dr_quiescing_started_at := Some now,
            dr_updated_at := now\<rparr>) db) (\<lambda>(db, _).
     and_then (update_communities
         (set_executor_gucs (lt_community_id token) (co_fence_generation c) plain_session)
         (\<lambda>c. co_id c = lt_community_id token \<and> co_state c \<in> {Cs_Active, Cs_Quiescing} \<and> co_deleted_at c = None)
         (\<lambda>c. c\<lparr>co_state := Cs_Quiescing, co_archived_at := coalesce (co_archived_at c) (Some now)\<rparr>) db)
       (\<lambda>(db, affected).
         if affected \<noteq> 1
         then Inl (DeletionSafety (''community '' @ uuid_text api (lt_community_id token)
                @ '' cannot enter quiescing''))
         else Inr (checkpoint_completed_tx now token Approved ''quiesce_serving_writes''
                [(''community_state'', ''quiescing'')] db, ())))))"

definition fence :: "deletion_api \<Rightarrow> int \<Rightarrow> lease_token \<Rightarrow> del_db \<Rightarrow> db_error + del_db \<times> int" where
  "fence api now token db =
     and_then (verify_lease api now token Approved db) (\<lambda>_.
       let active = active_leases now (lt_community_id token) db in
       if active \<noteq> []
       then Inl (ServingWritesNotDrained (lt_community_id token) (length active)
              (sorted_list_of_set (set (map sw_operation active))))
       else
         and_then (ok_or (find_community (lt_community_id token) db) row_not_found) (\<lambda>c.
         and_then (next_generation (co_fence_generation c)) (\<lambda>generation.
         and_then (update_communities (set_executor_gucs (lt_community_id token) generation plain_session)
             (\<lambda>c. co_id c = lt_community_id token \<and> co_state c = Cs_Quiescing)
             (\<lambda>c. c\<lparr>co_state := Cs_Fenced, co_fence_generation := generation,
                co_archived_at := coalesce (co_archived_at c) (Some now)\<rparr>) db) (\<lambda>(db, affected).
           if affected \<noteq> 1
           then Inl (DeletionSafety (''community '' @ uuid_text api (lt_community_id token)
                  @ '' is no longer quiescing while fencing''))
           else
             and_then (advance_request_tx api now token Approved Fenced (Some generation) db) (\<lambda>db.
               Inr (checkpoint_completed_tx now token Approved ''activate_fence''
                 [(''fence_generation'', show_int generation)] db, generation))))))"

section \<open>The frozen key list\<close>

definition chunk_row :: "manifest_key_row \<Rightarrow> int \<times> string \<times> string list" where
  "chunk_row m = (mk_chunk_no m, mk_prefix m, mk_keys m)"

definition request_chunks :: "uuid \<Rightarrow> del_db \<Rightarrow> manifest_key_row list" where
  "request_chunks i db = sort_key mk_chunk_no (filter (\<lambda>m. mk_request_id m = i) (dt_chunks db))"

definition freeze_destructive_storage_manifest ::
  "deletion_api \<Rightarrow> int \<Rightarrow> lease_token \<Rightarrow> storage_manifest \<Rightarrow> del_db \<Rightarrow> db_error + del_db \<times> unit" where
  "freeze_destructive_storage_manifest api now token manifest db =
     and_then (require_fence_generation api token) (\<lambda>generation.
       if find_request (lt_request_id token) db = None
       then Inl (DeletionSafety (''deletion request '' @ uuid_text api (lt_request_id token)
              @ '' disappeared before manifest freeze''))
       else
         and_then (verify_lease_and_fence api now token Fenced generation db) (\<lambda>_.
         and_then (validate_storage_manifest manifest) (\<lambda>_.
         and_then (validate_manifest_key_chunks api manifest
             (map chunk_row (request_chunks (lt_request_id token) db))) (\<lambda>_.
         and_then (update_requests
             (\<lambda>r. dr_id r = lt_request_id token \<and> dr_lease_owner r = Some (lt_owner token)
                \<and> dr_lease_generation r = lt_generation token \<and> dr_stage r = Fenced
                \<and> (dr_destructive_storage_manifest r = None
                   \<or> dr_destructive_storage_manifest r = Some manifest))
             (\<lambda>r. r\<lparr>dr_destructive_storage_manifest := coalesce (dr_destructive_storage_manifest r) (Some manifest),
                dr_destructive_storage_frozen_at := coalesce (dr_destructive_storage_frozen_at r) (Some now),
                dr_updated_at := now\<rparr>) db) (\<lambda>(db, affected).
           if affected = 0
           then Inl (DeletionSafety (''destructive storage manifest changed or deletion lease is stale for request ''
                  @ uuid_text api (lt_request_id token)))
           else Inr (db, ()))))))"

definition clear_manifest_key_chunks ::
  "deletion_api \<Rightarrow> int \<Rightarrow> lease_token \<Rightarrow> del_db \<Rightarrow> db_error + del_db \<times> unit" where
  "clear_manifest_key_chunks api now token db =
     and_then (require_fence_generation api token) (\<lambda>generation.
     and_then (verify_lease_and_fence api now token Fenced generation db) (\<lambda>_.
     and_then (delete_chunks (lt_request_id token) db) (\<lambda>db. Inr (db, ()))))"

text \<open>The insertion passes the trigger, the primary key \<open>(request_id, chunk_no)\<close> and the check on
  \<open>chunk_no\<close>.\<close>

definition append_manifest_key_chunk ::
  "deletion_api \<Rightarrow> int \<Rightarrow> lease_token \<Rightarrow> int \<Rightarrow> string \<Rightarrow> string list \<Rightarrow> del_db \<Rightarrow> db_error + del_db \<times> unit" where
  "append_manifest_key_chunk api now token chunk_no prefix keys db =
     (if keys = [] then Inl (DeletionSafety ''refusing to persist an empty manifest key chunk'')
      else
        and_then (require_fence_generation api token) (\<lambda>generation.
        and_then (verify_lease_and_fence api now token Fenced generation db) (\<lambda>_.
          if \<not> chunk_insert_ok db (lt_request_id token)
          then Inl (Sqlx ''community deletion manifest key chunks require an unfrozen fenced request'')
          else if chunk_no < 0 then Inl (Sqlx ''new row violates check constraint'')
          else if list_ex (\<lambda>m. mk_request_id m = lt_request_id token \<and> mk_chunk_no m = chunk_no) (dt_chunks db)
          then Inl (Sqlx ''duplicate key value violates unique constraint'')
          else Inr (db\<lparr>dt_chunks := dt_chunks db @
                 [\<lparr>mk_request_id = lt_request_id token, mk_chunk_no = chunk_no, mk_prefix = prefix,
                   mk_keys = keys, mk_deleted_at = None\<rparr>]\<rparr>, ()))))"

definition next_pending_manifest_chunk :: "lease_token \<Rightarrow> del_db \<Rightarrow> manifest_key_row option" where
  "next_pending_manifest_chunk token db =
     List.find (\<lambda>m. mk_deleted_at m = None) (request_chunks (lt_request_id token) db)"

definition manifest_chunk_progress :: "uuid \<Rightarrow> del_db \<Rightarrow> nat \<times> nat" where
  "manifest_chunk_progress i db =
     (let cs = filter (\<lambda>m. mk_request_id m = i) (dt_chunks db) in
      (length cs, length (filter (\<lambda>m. mk_deleted_at m \<noteq> None) cs)))"

definition mark_manifest_chunk_deleted ::
  "deletion_api \<Rightarrow> int \<Rightarrow> lease_token \<Rightarrow> int \<Rightarrow> (string \<times> string) list \<Rightarrow> del_db \<Rightarrow> db_error + del_db \<times> unit" where
  "mark_manifest_chunk_deleted api now token chunk_no detail db =
     and_then (require_fence_generation api token) (\<lambda>generation.
     and_then (verify_lease_and_fence api now token Drained generation db) (\<lambda>_.
       let sel = (\<lambda>m. mk_request_id m = lt_request_id token \<and> mk_chunk_no m = chunk_no \<and> mk_deleted_at m = None) in
       if rows_affected sel (dt_chunks db) \<noteq> 1
       then Inl (DeletionSafety (''manifest key chunk '' @ show_int chunk_no
              @ '' is missing or already stamped for request '' @ uuid_text api (lt_request_id token)))
       else Inr (checkpoint_completed_tx now token Drained (''chunk:'' @ show_int chunk_no) detail
              (db\<lparr>dt_chunks := sql_update sel (\<lambda>m. m\<lparr>mk_deleted_at := Some now\<rparr>) (dt_chunks db)\<rparr>), ())))"

definition record_taxonomy_sweep ::
  "uuid \<Rightarrow> int \<Rightarrow> int \<Rightarrow> u64 \<Rightarrow> u64 \<Rightarrow> string list \<Rightarrow> u64 \<Rightarrow> del_db \<Rightarrow> db_error + del_db \<times> taxonomy_sweep" where
  "record_taxonomy_sweep new_id db_now started_at listed unknown sample cap db =
     (if uint listed > I64_MAX then Inl (DeletionSafety ''sweep object count overflow'')
      else if uint unknown > I64_MAX then Inl (DeletionSafety ''sweep unknown count overflow'')
      else if uint cap > I64_MAX then Inl (DeletionSafety ''sweep object cap overflow'')
      else if started_at > db_now + 300 * 1000000
      then Inl (DeletionSafety ''taxonomy sweep start time is more than five minutes in the future'')
      else if cap = 0 then Inl (Sqlx ''new row violates check constraint'')
      else if list_ex (\<lambda>s. ts_id s = new_id) (dt_sweeps db)
      then Inl (Sqlx ''duplicate key value violates unique constraint'')
      else (let sweep = \<lparr>ts_id = new_id, ts_started_at = min started_at db_now, ts_completed_at = db_now,
                  ts_listed_objects = uint listed, ts_unknown_object_count = uint unknown,
                  ts_unknown_key_sample = sample, ts_object_cap = uint cap\<rparr> in
            Inr (db\<lparr>dt_sweeps := dt_sweeps db @ [sweep]\<rparr>, sweep)))"

definition latest_taxonomy_sweep :: "del_db \<Rightarrow> taxonomy_sweep option" where
  "latest_taxonomy_sweep db =
     (case sort_key (\<lambda>s. - ts_completed_at s) (dt_sweeps db) of [] \<Rightarrow> None | s # _ \<Rightarrow> Some s)"

section \<open>Draining, purging, verification\<close>

definition serving_writes_drained :: "int \<Rightarrow> uuid \<Rightarrow> del_db \<Rightarrow> bool" where
  "serving_writes_drained now community db \<longleftrightarrow> active_leases now community db = []"

definition mark_drained :: "deletion_api \<Rightarrow> int \<Rightarrow> lease_token \<Rightarrow> del_db \<Rightarrow> db_error + del_db \<times> unit" where
  "mark_drained api now token db =
     and_then (require_fence_generation api token) (\<lambda>generation.
     and_then (verify_lease_and_fence api now token Fenced generation db) (\<lambda>_.
       if active_leases now (lt_community_id token) db \<noteq> []
       then Inl (DeletionSafety ''serving writes have not drained'')
       else
         and_then (advance_request_tx api now token Fenced Drained (Some generation) db) (\<lambda>db.
           Inr (checkpoint_completed_tx now token Fenced ''serving_writes_drained''
             [(''fence_generation'', show_int generation)] db, ()))))"

definition advance_with_checkpoint ::
  "deletion_api \<Rightarrow> int \<Rightarrow> lease_token \<Rightarrow> deletion_stage \<Rightarrow> deletion_stage \<Rightarrow> string \<Rightarrow> (string \<times> string) list
    \<Rightarrow> del_db \<Rightarrow> db_error + del_db \<times> unit" where
  "advance_with_checkpoint api now token from_stage to_stage unit_key detail db =
     and_then (require_fence_generation api token) (\<lambda>generation.
     and_then (verify_lease_and_fence api now token from_stage generation db) (\<lambda>_.
     and_then (advance_request_tx api now token from_stage to_stage (Some generation) db) (\<lambda>db.
       Inr (checkpoint_completed_tx now token from_stage unit_key detail db, ()))))"

definition mark_bindings_removed ::
  "deletion_api \<Rightarrow> int \<Rightarrow> lease_token \<Rightarrow> (string \<times> string) list \<Rightarrow> del_db \<Rightarrow> db_error + del_db \<times> unit" where
  "mark_bindings_removed api now token detail =
     advance_with_checkpoint api now token Drained BindingsRemoved ''remove_storage_bindings'' detail"

definition mark_cache_purged ::
  "deletion_api \<Rightarrow> int \<Rightarrow> lease_token \<Rightarrow> (string \<times> string) list \<Rightarrow> del_db \<Rightarrow> db_error + del_db \<times> unit" where
  "mark_cache_purged api now token detail =
     advance_with_checkpoint api now token PostgresPurged CachePurged ''purge_cache_namespace'' detail"

text \<open>A row of a fenced table is written only when the trigger admits the session.\<close>

definition enforce_community_write_fence :: "session \<Rightarrow> int \<Rightarrow> string \<Rightarrow> uuid option \<Rightarrow> del_db \<Rightarrow> db_error + unit" where
  "enforce_community_write_fence s now table target db =
     (if table \<in> live_fenced_tables_on db then assert_community_write_allowed s now target db else Inr ())"

text \<open>\<open>DELETE FROM table WHERE community_id = c\<close>. Rows that a foreign key cascades to belong to the same
  community and a later table of the list, so cascades change only the counts.\<close>

definition delete_tenant_rows ::
  "session \<Rightarrow> int \<Rightarrow> string \<Rightarrow> uuid \<Rightarrow> del_db \<Rightarrow> db_error + del_db \<times> nat" where
  "delete_tenant_rows s now table c db =
     (let sel = (\<lambda>w. tr_table w = table \<and> tr_community w = Some c);
          n = rows_affected sel (dt_rows db) in
      and_then (if n = 0 then Inr () else enforce_community_write_fence s now table (Some c) db) (\<lambda>_.
        Inr (db\<lparr>dt_rows := filter (\<lambda>w. \<not> sel w) (dt_rows db)\<rparr>, n)))"

definition clear_provenance ::
  "session \<Rightarrow> int \<Rightarrow> string \<Rightarrow> uuid \<Rightarrow> del_db \<Rightarrow> db_error + del_db \<times> nat" where
  "clear_provenance s now table c db =
     (let sel = (\<lambda>w. tr_table w = table \<and> tr_community w = Some c);
          n = rows_affected sel (dt_rows db) in
      and_then (if n = 0 then Inr () else enforce_community_write_fence s now table (Some c) db) (\<lambda>_.
        Inr (db\<lparr>dt_rows := sql_update sel (\<lambda>w. w\<lparr>tr_community := None\<rparr>) (dt_rows db)\<rparr>, n)))"

fun clear_provenance_all :: "session \<Rightarrow> int \<Rightarrow> lease_token \<Rightarrow> string list \<Rightarrow> del_db \<Rightarrow> db_error + del_db" where
  "clear_provenance_all s now token [] db = Inr db"
| "clear_provenance_all s now token (table # tables) db =
     and_then (clear_provenance s now table (lt_community_id token) db) (\<lambda>(db, affected).
       clear_provenance_all s now token tables
         (checkpoint_completed_tx now token BindingsRemoved (''clear_provenance:'' @ table)
           [(''rows'', show_nat affected)] db))"

fun purge_tables ::
  "session \<Rightarrow> int \<Rightarrow> lease_token \<Rightarrow> string list \<Rightarrow> del_db \<Rightarrow> db_error + del_db \<times> (string \<times> nat) list" where
  "purge_tables s now token [] db = Inr (db, [])"
| "purge_tables s now token (table # tables) db =
     and_then (delete_tenant_rows s now table (lt_community_id token) db) (\<lambda>(db, affected).
     and_then (purge_tables s now token tables
         (checkpoint_completed_tx now token BindingsRemoved (''purge:'' @ table)
           [(''rows'', show_nat affected)] db)) (\<lambda>(db, deleted).
       Inr (db, (table, affected) # deleted)))"

definition purge_postgres ::
  "deletion_api \<Rightarrow> int \<Rightarrow> lease_token \<Rightarrow> del_db \<Rightarrow> db_error + del_db \<times> (string \<times> nat) list" where
  "purge_postgres api now token db =
     and_then (require_fence_generation api token) (\<lambda>generation.
     and_then (validate_catalog_on db) (\<lambda>_.
     and_then (verify_lease_and_fence api now token BindingsRemoved generation db) (\<lambda>_.
       let s = set_executor_gucs (lt_community_id token) generation plain_session in
       and_then (clear_provenance_all s now token [''product_feedback'', ''rate_limit_violations''] db) (\<lambda>db.
       and_then (purge_tables s now token PURGE_SCOPED_TABLES db) (\<lambda>(db, deleted).
       and_then (update_communities s
           (\<lambda>c. co_id c = lt_community_id token \<and> co_state c = Cs_Fenced \<and> co_fence_generation c = generation)
           (\<lambda>c. c\<lparr>co_state := Cs_Tombstone, co_deleted_at := coalesce (co_deleted_at c) (Some now),
              co_archived_at := coalesce (co_archived_at c) (Some now), co_signing_key := None,
              co_icon := None\<rparr>) db) (\<lambda>(db, affected).
         if affected \<noteq> 1
         then Inl (DeletionSafety (''community '' @ uuid_text api (lt_community_id token)
                @ '' tombstone update affected '' @ show_nat affected @ '' rows''))
         else
           and_then (advance_request_tx api now token BindingsRemoved PostgresPurged (Some generation) db) (\<lambda>db.
             Inr (checkpoint_completed_tx now token BindingsRemoved ''postgres_tombstone_committed''
               (map (\<lambda>(t, n). (t, show_nat n)) deleted) db, deleted))))))))"

definition tenant_rows_in :: "string \<Rightarrow> uuid \<Rightarrow> del_db \<Rightarrow> bool" where
  "tenant_rows_in table c db = list_ex (\<lambda>w. tr_table w = table \<and> tr_community w = Some c) (dt_rows db)"

definition verify_postgres_logically_deleted ::
  "deletion_api \<Rightarrow> int \<Rightarrow> lease_token \<Rightarrow> del_db \<Rightarrow> db_error + unit" where
  "verify_postgres_logically_deleted api now token db =
     and_then (require_fence_generation api token) (\<lambda>generation.
     and_then (validate_catalog_on db) (\<lambda>_.
     and_then (verify_lease_and_fence api now token CachePurged generation db) (\<lambda>_.
       if \<not> list_ex (\<lambda>c. co_id c = lt_community_id token \<and> co_state c = Cs_Tombstone \<and> co_deleted_at c \<noteq> None
              \<and> co_fence_generation c = generation) (dt_communities db)
       then Inl (DeletionSafety (''community '' @ uuid_text api (lt_community_id token)
              @ '' tombstone/fence verification failed''))
       else (case List.find (\<lambda>t. tenant_rows_in t (lt_community_id token) db) EXPECTED_SCOPED_TABLES of
               Some table \<Rightarrow> Inl (DeletionSafety (''logical verification found tenant rows in '' @ table))
             | None \<Rightarrow> Inr ()))))"

definition mark_logically_verified ::
  "deletion_api \<Rightarrow> int \<Rightarrow> lease_token \<Rightarrow> (string \<times> string) list \<Rightarrow> del_db \<Rightarrow> db_error + del_db \<times> unit" where
  "mark_logically_verified api now token detail db =
     and_then (require_fence_generation api token) (\<lambda>generation.
     and_then (verify_lease_and_fence api now token CachePurged generation db) (\<lambda>_.
     and_then (advance_request_tx api now token CachePurged LogicallyVerified (Some generation) db) (\<lambda>db.
     and_then (delete_chunks (lt_request_id token)
         (checkpoint_completed_tx now token CachePurged ''verify_cross_store_absence'' detail db)) (\<lambda>db.
       Inr (db, ())))))"

definition mark_retention_pending ::
  "deletion_api \<Rightarrow> int \<Rightarrow> lease_token \<Rightarrow> (string \<times> string) list \<Rightarrow> del_db \<Rightarrow> db_error + del_db \<times> unit" where
  "mark_retention_pending api now token detail db =
     and_then (require_fence_generation api token) (\<lambda>generation.
     and_then (verify_lease_and_fence api now token LogicallyVerified generation db) (\<lambda>_.
     and_then (update_requests
         (\<lambda>r. dr_id r = lt_request_id token \<and> dr_stage r = LogicallyVerified
            \<and> dr_lease_owner r = Some (lt_owner token) \<and> dr_lease_generation r = lt_generation token
            \<and> at_or_after (dr_lease_until r) now \<and> dr_fence_generation r = Some generation)
         (\<lambda>r. r\<lparr>dr_stage := RetentionPending, dr_completed_at := Some now, dr_updated_at := now,
            dr_lease_owner := None, dr_lease_until := None, dr_retry_count := 0, dr_retry_stage := None,
            dr_last_error := None, dr_last_error_at := None\<rparr>)
         (checkpoint_completed_tx now token LogicallyVerified ''retention_physical_expiry_pending'' detail db))
       (\<lambda>(db, affected).
         if affected \<noteq> 1 then Inl (stale_lease_error api token) else Inr (db, ()))))"

section \<open>Retry, abort, block, unblock\<close>

text \<open>\<open>str::trim\<close> on UTF-8 text: the encodings of the Unicode white space characters.\<close>

definition whitespace_encodings :: "string list" where
  "whitespace_encodings =
     map (\<lambda>n. [char_of (n::nat)]) [9, 10, 11, 12, 13, 32]
     @ map (\<lambda>n. map char_of [0xC2, n::nat]) [0x85, 0xA0]
     @ [map char_of [0xE1, 0x9A, 0x80::nat]]
     @ map (\<lambda>n. map char_of [0xE2, 0x80, n::nat])
         [0x80, 0x81, 0x82, 0x83, 0x84, 0x85, 0x86, 0x87, 0x88, 0x89, 0x8A, 0xA8, 0xA9, 0xAF]
     @ [map char_of [0xE2, 0x81, 0x9F::nat], map char_of [0xE3, 0x80, 0x80::nat]]"

fun strip_units :: "nat \<Rightarrow> string list \<Rightarrow> string \<Rightarrow> string" where
  "strip_units 0 ws s = s"
| "strip_units (Suc n) ws s =
     (case List.find (\<lambda>w. is_prefix w s) ws of None \<Rightarrow> s | Some w \<Rightarrow> strip_units n ws (drop (length w) s))"

definition trim :: "string \<Rightarrow> string" where
  "trim s =
     (let t = strip_units (length s) whitespace_encodings s in
      rev (strip_units (length t) (map rev whitespace_encodings) (rev t)))"

definition MAX_CONSECUTIVE_RETRIES :: int where
  "MAX_CONSECUTIVE_RETRIES = 8"

definition consecutive_retries :: "deletion_request \<Rightarrow> deletion_stage \<Rightarrow> int" where
  "consecutive_retries r stage =
     (if dr_retry_stage r = Some stage then min (dr_retry_count r + 1) (2 ^ 31 - 1) else 1)"

definition record_retry ::
  "deletion_api \<Rightarrow> int \<Rightarrow> lease_token \<Rightarrow> deletion_stage \<Rightarrow> string \<Rightarrow> string \<Rightarrow> nat \<Rightarrow> del_db \<Rightarrow> db_error + del_db \<times> unit" where
  "record_retry api now token stage unit_key error retry_after db =
     (let bounded = bound_text error 4096 in
      and_then (verify_lease api now token stage db) (\<lambda>_.
      and_then (ok_or (find_request (lt_request_id token) db) row_not_found) (\<lambda>request.
        let retries = consecutive_retries request stage;
            exhausted = (retries \<ge> MAX_CONSECUTIVE_RETRIES) in
        and_then (update_requests
            (\<lambda>r. dr_id r = lt_request_id token \<and> dr_lease_owner r = Some (lt_owner token)
               \<and> dr_lease_generation r = lt_generation token)
            (\<lambda>r. r\<lparr>dr_retry_count := retries, dr_retry_stage := Some stage, dr_last_error := Some bounded,
               dr_last_error_at := Some now,
               dr_next_attempt_at := (if exhausted then dr_next_attempt_at r else secs_from now retry_after),
               dr_blocked_at := (if exhausted then Some now else dr_blocked_at r),
               dr_blocked_reason := (if exhausted then Some bounded else dr_blocked_reason r),
               dr_lease_owner := None, dr_lease_until := None, dr_updated_at := now\<rparr>)
            (checkpoint_failed_tx token stage unit_key bounded db)) (\<lambda>(db, _). Inr (db, ())))))"

text \<open>A plain insertion of a checkpoint, whose unit key carries a fresh UUID.\<close>

definition insert_checkpoint :: "deletion_checkpoint \<Rightarrow> del_db \<Rightarrow> db_error + del_db" where
  "insert_checkpoint new db =
     (if list_ex (\<lambda>k. ck_request_id k = ck_request_id new \<and> ck_stage k = ck_stage new
            \<and> ck_unit_key k = ck_unit_key new) (dt_checkpoints db)
      then Inl (Sqlx ''duplicate key value violates unique constraint'')
      else Inr (db\<lparr>dt_checkpoints := dt_checkpoints db @ [new]\<rparr>))"

definition operator_checkpoint ::
  "int \<Rightarrow> deletion_request \<Rightarrow> string \<Rightarrow> (string \<times> string) list \<Rightarrow> deletion_checkpoint" where
  "operator_checkpoint now r unit_key detail =
     \<lparr>ck_request_id = dr_id r, ck_stage = dr_stage r, ck_unit_key = unit_key, ck_status = Ck_Completed,
      ck_lease_generation = max (dr_lease_generation r) 1, ck_attempts = 1, ck_detail = detail,
      ck_error = None, ck_completed_at = Some now\<rparr>"

definition restored_archived_at :: "deletion_request \<Rightarrow> community_row \<Rightarrow> int option" where
  "restored_archived_at request c =
     (if dr_quiescing_started_at request \<noteq> None then dr_pre_quiesce_archived_at request else co_archived_at c)"

definition abort_request ::
  "deletion_api \<Rightarrow> uuid \<Rightarrow> int \<Rightarrow> uuid \<Rightarrow> string \<Rightarrow> string \<Rightarrow> del_db \<Rightarrow> db_error + del_db \<times> deletion_request" where
  "abort_request api nonce now request_id aborted_by reason db =
     (let aborted_by = trim aborted_by; reason = trim reason in
      if aborted_by = [] \<or> reason = []
      then Inl (DeletionSafety ''abort requires non-empty operator identity and reason'')
      else
        and_then (ok_or (find_request request_id db)
            (NotFound (''community deletion '' @ uuid_text api request_id))) (\<lambda>request.
        if dr_stage request \<notin> {Approved, Fenced}
        then Inl (DeletionSafety (''deletion '' @ uuid_text api request_id @ '' at stage ''
               @ stage_display (dr_stage request) @ '' cannot be aborted''))
        else let active = active_leases now (dr_community_id request) db in
        if active \<noteq> []
        then Inl (DeletionSafety (''deletion '' @ uuid_text api request_id @ '' cannot abort while ''
               @ show_nat (length active) @ '' serving write lease(s) remain active''))
        else
          and_then (ok_or (find_community (dr_community_id request) db) row_not_found) (\<lambda>c.
          and_then (next_generation (co_fence_generation c)) (\<lambda>new_generation.
          and_then (update_communities (set_executor_gucs (dr_community_id request) new_generation plain_session)
              (\<lambda>c. co_id c = dr_community_id request \<and> co_state c \<in> {Cs_Active, Cs_Quiescing, Cs_Fenced}
                 \<and> co_deleted_at c = None)
              (\<lambda>e. e\<lparr>co_state := Cs_Active, co_fence_generation := new_generation,
                 co_archived_at := restored_archived_at request c\<rparr>) db) (\<lambda>(db, restored).
            if restored \<noteq> 1
            then Inl (DeletionSafety (''community '' @ uuid_text api (dr_community_id request)
                   @ '' cannot be restored during abort''))
            else
              and_then (insert_checkpoint (operator_checkpoint now request
                  (''operator_abort:'' @ uuid_text api nonce)
                  [(''aborted_by'', bound_text aborted_by 512), (''reason'', bound_text reason 4096),
                   (''old_fence_generation'', show_int (co_fence_generation c)),
                   (''new_fence_generation'', show_int new_generation)]) db) (\<lambda>db.
              and_then (set_request request_id
                  (\<lambda>r. r\<lparr>dr_stage := Aborted, dr_aborted_by := Some (bound_text aborted_by 512),
                     dr_abort_reason := Some (bound_text reason 4096), dr_aborted_at := Some now,
                     dr_completed_at := Some now, dr_fence_generation := Some new_generation,
                     dr_lease_owner := None, dr_lease_until := None,
                     dr_lease_generation := dr_lease_generation r + 1, dr_blocked_at := None,
                     dr_blocked_reason := None, dr_retry_count := 0, dr_retry_stage := None,
                     dr_next_attempt_at := now, dr_updated_at := now\<rparr>) db)
                (updated_request request_id row_not_found)))))))"

text \<open>\<open>clock\<close> is the time of the process, which the lease is compared with here.\<close>

definition leased_at :: "int \<Rightarrow> deletion_request \<Rightarrow> bool" where
  "leased_at clock r \<longleftrightarrow> dr_lease_owner r \<noteq> None \<and> at_or_after (dr_lease_until r) clock"

definition unblock ::
  "deletion_api \<Rightarrow> uuid \<Rightarrow> int \<Rightarrow> int \<Rightarrow> uuid \<Rightarrow> string \<Rightarrow> string \<Rightarrow> del_db \<Rightarrow> db_error + del_db \<times> deletion_request" where
  "unblock api nonce clock now request_id unblocked_by reason db =
     (let unblocked_by = trim unblocked_by; reason = trim reason in
      if unblocked_by = [] \<or> reason = []
      then Inl (InvalidData ''unblock requires non-empty operator identity and remediation reason'')
      else
        and_then (ok_or (List.find (\<lambda>r. dr_id r = request_id \<and> dr_blocked_at r \<noteq> None) (dt_requests db))
            (DeletionSafety (''deletion '' @ uuid_text api request_id @ '' is missing or is not blocked''))) (\<lambda>request.
        if dr_stage request \<in> {RetentionPending, Aborted}
        then Inl (DeletionSafety (''blocked deletion '' @ uuid_text api request_id @ '' at terminal stage ''
               @ stage_display (dr_stage request) @ '' cannot resume''))
        else if leased_at clock request
        then Inl (DeletionSafety (''blocked deletion '' @ uuid_text api request_id
               @ '' still has a live executor lease''))
        else
          and_then (insert_checkpoint (operator_checkpoint now request
              (''operator_unblock:'' @ uuid_text api nonce)
              [(''unblocked_by'', bound_text unblocked_by 512), (''reason'', bound_text reason 4096),
               (''previous_block'', case dr_blocked_reason request of None \<Rightarrow> ''null'' | Some b \<Rightarrow> b)]) db) (\<lambda>db.
          and_then (update_requests (\<lambda>r. dr_id r = request_id \<and> dr_blocked_at r \<noteq> None)
              (\<lambda>r. r\<lparr>dr_blocked_at := None, dr_blocked_reason := None, dr_retry_count := 0,
                 dr_retry_stage := None, dr_last_error := None, dr_last_error_at := None,
                 dr_next_attempt_at := now, dr_lease_owner := None, dr_lease_until := None,
                 dr_updated_at := now\<rparr>) db)
            (updated_request request_id row_not_found))))"

definition block_preclaim_setup ::
  "deletion_api \<Rightarrow> int \<Rightarrow> int \<Rightarrow> uuid \<Rightarrow> string \<Rightarrow> string \<Rightarrow> del_db \<Rightarrow> db_error + del_db \<times> deletion_request" where
  "block_preclaim_setup api clock now request_id unit_key error db =
     (let bounded = bound_text error 4096 in
      and_then (ok_or (find_request request_id db)
          (NotFound (''community deletion '' @ uuid_text api request_id))) (\<lambda>request.
      if dr_stage request \<in> {RetentionPending, Aborted}
      then Inl (DeletionSafety (''deletion '' @ uuid_text api request_id @ '' at terminal stage ''
             @ stage_display (dr_stage request) @ '' cannot record a setup failure''))
      else if leased_at clock request
      then Inl (DeletionSafety (''deletion '' @ uuid_text api request_id @ '' is leased by another executor''))
      else
        let generation = max (dr_lease_generation request) 1;
            db = upsert_checkpoint
              \<lparr>ck_request_id = dr_id request, ck_stage = dr_stage request, ck_unit_key = unit_key,
               ck_status = Ck_Failed, ck_lease_generation = generation, ck_attempts = 1,
               ck_detail = [(''error'', bounded)], ck_error = Some bounded, ck_completed_at = None\<rparr>
              (\<lambda>k. k\<lparr>ck_status := Ck_Failed, ck_lease_generation := generation,
                 ck_detail := [(''error'', bounded)], ck_error := Some bounded, ck_completed_at := None\<rparr>) db in
        and_then (set_request request_id
            (\<lambda>r. r\<lparr>dr_blocked_at := Some now, dr_blocked_reason := Some bounded,
               dr_last_error := Some bounded, dr_last_error_at := Some now, dr_updated_at := now\<rparr>) db)
          (updated_request request_id row_not_found)))"

definition block ::
  "deletion_api \<Rightarrow> int \<Rightarrow> lease_token \<Rightarrow> deletion_stage \<Rightarrow> string \<Rightarrow> string \<Rightarrow> del_db \<Rightarrow> db_error + del_db \<times> unit" where
  "block api now token stage unit_key error db =
     (let bounded = bound_text error 4096 in
      and_then (verify_lease api now token stage db) (\<lambda>_.
      and_then (update_requests
          (\<lambda>r. dr_id r = lt_request_id token \<and> dr_lease_owner r = Some (lt_owner token)
             \<and> dr_lease_generation r = lt_generation token)
          (\<lambda>r. r\<lparr>dr_blocked_at := Some now, dr_blocked_reason := Some bounded, dr_last_error := Some bounded,
             dr_last_error_at := Some now, dr_lease_owner := None, dr_lease_until := None, dr_updated_at := now\<rparr>)
          (checkpoint_failed_tx token stage unit_key bounded db)) (\<lambda>(db, _). Inr (db, ()))))"

section \<open>Serving writes\<close>

definition state_text :: "community_state \<Rightarrow> string" where
  "state_text s = (case s of Cs_Active \<Rightarrow> ''active'' | Cs_Quiescing \<Rightarrow> ''quiescing'' | Cs_Fenced \<Rightarrow> ''fenced''
     | Cs_Tombstone \<Rightarrow> ''tombstone'')"

definition guard_transaction :: "deletion_api \<Rightarrow> uuid \<Rightarrow> del_db \<Rightarrow> db_error + unit" where
  "guard_transaction api community db =
     (case List.find (\<lambda>c. co_id c = community \<and> co_deleted_at c = None) (dt_communities db) of
        None \<Rightarrow> Inl (AccessDenied (''community '' @ uuid_text api community @ '' is missing or tombstoned''))
      | Some c \<Rightarrow>
          if co_state c = Cs_Active then Inr ()
          else Inl (AccessDenied (''community '' @ uuid_text api community @ '' is write-fenced (''
                 @ state_text (co_state c) @ '')'')))"

definition same_lease :: "serving_write_lease \<Rightarrow> serving_write_lease \<Rightarrow> bool" where
  "same_lease l k \<longleftrightarrow>
     sw_id k = sw_id l \<and> sw_community_id k = sw_community_id l \<and> sw_owner k = sw_owner l
     \<and> sw_generation k = sw_generation l \<and> sw_fence_generation k = sw_fence_generation l"

text \<open>The join of a lease row with its community, which the lease checks share.\<close>

definition lease_row_valid :: "del_db \<Rightarrow> int \<Rightarrow> serving_write_lease \<Rightarrow> serving_write_lease \<Rightarrow> bool" where
  "lease_row_valid db now l k \<longleftrightarrow>
     same_lease l k \<and> sw_lease_until k \<ge> now
     \<and> list_ex (\<lambda>c. co_id c = sw_community_id k \<and> co_deleted_at c = None
          \<and> co_state c \<in> {Cs_Active, Cs_Quiescing} \<and> co_fence_generation c = sw_fence_generation k)
        (dt_communities db)"

definition stale_serving_lease :: "deletion_api \<Rightarrow> serving_write_lease \<Rightarrow> db_error" where
  "stale_serving_lease api l = AccessDenied (''stale serving write lease '' @ uuid_text api (sw_id l))"

definition guard_transaction_with_serving_lease ::
  "deletion_api \<Rightarrow> int \<Rightarrow> serving_write_lease \<Rightarrow> session \<Rightarrow> del_db \<Rightarrow> db_error + session" where
  "guard_transaction_with_serving_lease api now l s db =
     (if \<not> list_ex (lease_row_valid db now l) (dt_leases db) then Inl (stale_serving_lease api l)
      else Inr (s\<lparr>se_serving := Some (sw_community_id l, sw_id l, sw_owner l, sw_generation l,
             sw_fence_generation l)\<rparr>))"

definition acquire_serving_write_lease ::
  "deletion_api \<Rightarrow> uuid \<Rightarrow> int \<Rightarrow> uuid \<Rightarrow> string \<Rightarrow> string \<Rightarrow> nat \<Rightarrow> del_db
    \<Rightarrow> db_error + del_db \<times> serving_write_lease" where
  "acquire_serving_write_lease api new_id now community operation owner lease_duration db =
     (let refuse = Inl (AccessDenied (''community '' @ uuid_text api community @ '' is write-fenced or missing'')) in
      case assert_community_write_allowed plain_session now (Some community) db of
        Inl _ \<Rightarrow> refuse
      | Inr _ \<Rightarrow>
          (case List.find (\<lambda>c. co_id c = community \<and> co_state c = Cs_Active \<and> co_deleted_at c = None)
                  (dt_communities db) of
             None \<Rightarrow> refuse
           | Some c \<Rightarrow>
               if list_ex (\<lambda>l. sw_id l = new_id) (dt_leases db)
               then Inl (Sqlx ''duplicate key value violates unique constraint'')
               else (let l = \<lparr>sw_id = new_id, sw_community_id = community, sw_operation = operation,
                           sw_owner = owner, sw_generation = 1, sw_fence_generation = co_fence_generation c,
                           sw_lease_until = secs_from now lease_duration\<rparr> in
                     Inr (db\<lparr>dt_leases := dt_leases db @ [l]\<rparr>, l))))"

definition renew_serving_write_lease ::
  "deletion_api \<Rightarrow> int \<Rightarrow> serving_write_lease \<Rightarrow> nat \<Rightarrow> del_db \<Rightarrow> db_error + del_db \<times> serving_write_lease" where
  "renew_serving_write_lease api now l lease_duration db =
     (let until = secs_from now lease_duration in
      if \<not> list_ex (lease_row_valid db now l) (dt_leases db) then Inl (stale_serving_lease api l)
      else Inr (db\<lparr>dt_leases := sql_update (lease_row_valid db now l) (\<lambda>k. k\<lparr>sw_lease_until := until\<rparr>) (dt_leases db)\<rparr>,
             l\<lparr>sw_lease_until := until\<rparr>))"

definition release_serving_write_lease :: "serving_write_lease \<Rightarrow> del_db \<Rightarrow> db_error + del_db \<times> bool" where
  "release_serving_write_lease l db =
     Inr (db\<lparr>dt_leases := filter (\<lambda>k. \<not> same_lease l k) (dt_leases db)\<rparr>,
       rows_affected (same_lease l) (dt_leases db) = 1)"

definition verify_serving_write_lease ::
  "deletion_api \<Rightarrow> int \<Rightarrow> serving_write_lease \<Rightarrow> del_db \<Rightarrow> db_error + unit" where
  "verify_serving_write_lease api now l db =
     (if list_ex (lease_row_valid db now l) (dt_leases db) then Inr () else Inl (stale_serving_lease api l))"

definition reap_expired_serving_write_leases :: "int \<Rightarrow> int \<Rightarrow> del_db \<Rightarrow> db_error + del_db \<times> nat" where
  "reap_expired_serving_write_leases now limit db =
     (let expired = take (nat (max 1 (min limit 10000)))
            (sort_key sw_lease_until (filter (\<lambda>l. sw_lease_until l < now) (dt_leases db)));
          gone = (\<lambda>l. sw_id l \<in> sw_id ` set expired) in
      Inr (db\<lparr>dt_leases := filter (\<lambda>l. \<not> gone l) (dt_leases db)\<rparr>, rows_affected gone (dt_leases db)))"

definition serving_lease_stats :: "int \<Rightarrow> del_db \<Rightarrow> nat \<times> nat" where
  "serving_lease_stats now db =
     (rows_affected (\<lambda>l. sw_lease_until l \<ge> now) (dt_leases db),
      rows_affected (\<lambda>l. sw_lease_until l < now) (dt_leases db))"

definition is_serving_active :: "uuid \<Rightarrow> del_db \<Rightarrow> bool" where
  "is_serving_active community db =
     list_ex (\<lambda>c. co_id c = community \<and> co_archived_at c = None \<and> co_deleted_at c = None \<and> co_state c = Cs_Active)
       (dt_communities db)"

record deletion_inspection =
  di_request :: deletion_request
  di_approval :: "deletion_approval option"
  di_checkpoints :: "deletion_checkpoint list"

definition inspect :: "deletion_api \<Rightarrow> uuid \<Rightarrow> del_db \<Rightarrow> db_error + deletion_inspection" where
  "inspect api request_id db =
     and_then (get api request_id db) (\<lambda>request.
       Inr \<lparr>di_request = request,
            di_approval = List.find (\<lambda>a. ap_request_id a = request_id) (dt_approvals db),
            di_checkpoints = filter (\<lambda>k. ck_request_id k = request_id) (dt_checkpoints db)\<rparr>)"

section \<open>What else writes the database\<close>

text \<open>A tenant statement inserts, updates or deletes one row of a community-scoped table; the trigger checks
  the old and the new community. A community statement updates one community row, or adds a community. A
  migration changes the catalog; every migration keeps the fences of the expected tables, which the
  repository's migration lint enforces.\<close>

datatype row_write = Row_Insert tenant_row | Row_Delete tenant_row | Row_Update tenant_row tenant_row

fun write_targets :: "row_write \<Rightarrow> (string \<times> uuid option) list" where
  "write_targets (Row_Insert w) = [(tr_table w, tr_community w)]"
| "write_targets (Row_Delete w) = [(tr_table w, tr_community w)]"
| "write_targets (Row_Update w v) = [(tr_table w, tr_community w), (tr_table w, tr_community v)]"

fun check_targets :: "session \<Rightarrow> int \<Rightarrow> (string \<times> uuid option) list \<Rightarrow> del_db \<Rightarrow> db_error + unit" where
  "check_targets s now [] db = Inr ()"
| "check_targets s now ((table, c) # ts) db =
     and_then (enforce_community_write_fence s now table c db) (\<lambda>_. check_targets s now ts db)"

fun apply_write :: "row_write \<Rightarrow> tenant_row list \<Rightarrow> tenant_row list" where
  "apply_write (Row_Insert w) rows = rows @ [w]"
| "apply_write (Row_Delete w) rows = remove1 w rows"
| "apply_write (Row_Update w v) rows =
     (if w \<in> set rows then remove1 w rows @ [v\<lparr>tr_table := tr_table w\<rparr>] else rows)"

definition tenant_write :: "session \<Rightarrow> int \<Rightarrow> row_write \<Rightarrow> del_db \<Rightarrow> db_error + del_db \<times> unit" where
  "tenant_write s now w db =
     and_then (check_targets s now (write_targets w) db) (\<lambda>_.
       Inr (db\<lparr>dt_rows := apply_write w (dt_rows db)\<rparr>, ()))"

definition community_update ::
  "uuid \<Rightarrow> (community_row \<Rightarrow> community_row) \<Rightarrow> del_db \<Rightarrow> db_error + del_db \<times> nat" where
  "community_update i f db =
     update_communities plain_session (\<lambda>c. co_id c = i) (\<lambda>c. (f c)\<lparr>co_id := co_id c\<rparr>) db"

definition community_create :: "deletion_api \<Rightarrow> uuid \<Rightarrow> string \<Rightarrow> string option \<Rightarrow> del_db \<Rightarrow> db_error + del_db \<times> unit" where
  "community_create api new_id host signing_key db =
     (if list_ex (\<lambda>c. co_id c = new_id \<or> da_lower api (co_host c) = da_lower api host) (dt_communities db)
      then Inl (Sqlx ''duplicate key value violates unique constraint'')
      else Inr (db\<lparr>dt_communities := dt_communities db @
             [\<lparr>co_id = new_id, co_host = host, co_state = Cs_Active, co_fence_generation = 0,
               co_deleted_at = None, co_archived_at = None, co_signing_key = signing_key, co_icon = None\<rparr>]\<rparr>, ()))"

definition migrate :: "pg_table list \<Rightarrow> del_db \<Rightarrow> db_error + del_db \<times> unit" where
  "migrate catalog db =
     (if set EXPECTED_SCOPED_TABLES \<subseteq> live_fenced_tables_on (db\<lparr>dt_catalog := catalog\<rparr>)
      then Inr (db\<lparr>dt_catalog := catalog\<rparr>, ())
      else Inl (Sqlx ''migration would drop a community write fence''))"

end
