(* ===== verification/Deletion_Invariant.thy ===== *)
theory Deletion_Invariant
  imports Deletion_Store
begin

text \<open>
  The invariant of the deletion store and that every operation keeps it. The invariant ties the stage of the
  one live request of a community to the state of the community row, to the approval of the frozen inventory,
  to the frozen key chunks and to the rows that are left in the scoped tables.
\<close>

section \<open>The invariant\<close>

definition purged_stage :: "deletion_stage \<Rightarrow> bool" where
  "purged_stage s \<longleftrightarrow> s \<in> {PostgresPurged, CachePurged, LogicallyVerified, RetentionPending}"

definition state_for :: "deletion_request \<Rightarrow> community_row \<Rightarrow> bool" where
  "state_for r c \<longleftrightarrow>
     (if dr_stage r \<in> {Submitted, Inventoried} then co_state c = Cs_Active \<and> dr_quiescing_started_at r = None
      else if dr_stage r = Approved then
        (if dr_quiescing_started_at r = None then co_state c = Cs_Active
         else co_state c = Cs_Quiescing \<and> co_deleted_at c = None)
      else if dr_stage r = Aborted then True
      else
        dr_fence_generation r = Some (co_fence_generation c) \<and> dr_quiescing_started_at r \<noteq> None
        \<and> (if purged_stage (dr_stage r) then co_state c = Cs_Tombstone \<and> co_deleted_at c \<noteq> None
           else co_state c = Cs_Fenced \<and> co_deleted_at c = None))"

definition inventory_ok :: "deletion_api \<Rightarrow> deletion_request \<Rightarrow> bool" where
  "inventory_ok api r \<longleftrightarrow>
     (if dr_stage r = Submitted then dr_inventory_frozen_at r = None
      else dr_inventory_frozen_at r \<noteq> None
        \<and> (\<exists>inv. dr_inventory_manifest r = Some inv \<and> dr_inventory_digest r = Some (inventory_digest api inv)
             \<and> validate_storage_manifest (fi_storage inv) = Inr ()))"

definition chunks_ok :: "deletion_api \<Rightarrow> manifest_key_row list \<Rightarrow> deletion_request \<Rightarrow> bool" where
  "chunks_ok api chunks r \<longleftrightarrow>
     (case dr_destructive_storage_frozen_at r of
        None \<Rightarrow> dr_destructive_storage_manifest r = None
      | Some _ \<Rightarrow>
          dr_stage r \<notin> {Submitted, Inventoried, Approved}
          \<and> (\<exists>m. dr_destructive_storage_manifest r = Some m \<and> validate_storage_manifest m = Inr ()
               \<and> (dr_stage r \<notin> {LogicallyVerified, RetentionPending} \<longrightarrow>
                    validate_manifest_key_chunks api m (map chunk_row chunks) = Inr ())))
     \<and> (dr_stage r \<in> {LogicallyVerified, RetentionPending} \<longrightarrow> chunks = [])"

definition request_ok :: "deletion_api \<Rightarrow> del_db \<Rightarrow> deletion_request \<Rightarrow> bool" where
  "request_ok api db r \<longleftrightarrow>
     inventory_ok api r
     \<and> (dr_stage r \<notin> {Submitted, Inventoried} \<longrightarrow> approval_matches db r)
     \<and> (dr_stage r \<noteq> Aborted \<longrightarrow> (\<exists>c \<in> set (dt_communities db). co_id c = dr_community_id r \<and> state_for r c))
     \<and> (purged_stage (dr_stage r) \<longrightarrow> (\<forall>t \<in> set EXPECTED_SCOPED_TABLES. \<not> tenant_rows_in t (dr_community_id r) db))
     \<and> chunks_ok api (request_chunks (dr_id r) db) r"

definition sealed :: "community_row \<Rightarrow> bool" where
  "sealed c \<longleftrightarrow> co_state c \<in> {Cs_Fenced, Cs_Tombstone}"

definition lease_ok :: "del_db \<Rightarrow> serving_write_lease \<Rightarrow> bool" where
  "lease_ok db l \<longleftrightarrow>
     (\<forall>c \<in> set (dt_communities db). co_id c = sw_community_id l \<longrightarrow>
        sw_fence_generation l \<le> co_fence_generation c
        \<and> (sealed c \<longrightarrow> sw_fence_generation l < co_fence_generation c))"

definition lease_target :: "del_db \<Rightarrow> serving_write_lease \<Rightarrow> bool" where
  "lease_target db l \<longleftrightarrow> sw_community_id l \<in> co_id ` set (dt_communities db)"

definition community_ok :: "del_db \<Rightarrow> community_row \<Rightarrow> bool" where
  "community_ok db c \<longleftrightarrow>
     (if co_state c = Cs_Active then co_deleted_at c = None
      else \<exists>r \<in> set (dt_requests db). dr_community_id r = co_id c \<and> dr_stage r \<noteq> Aborted)"

definition one_live :: "del_db \<Rightarrow> bool" where
  "one_live db \<longleftrightarrow>
     (\<forall>r \<in> set (dt_requests db). \<forall>s \<in> set (dt_requests db).
        dr_community_id r = dr_community_id s \<longrightarrow> dr_stage r \<noteq> Aborted \<longrightarrow> dr_stage s \<noteq> Aborted \<longrightarrow> dr_id r = dr_id s)"

definition db_inv :: "deletion_api \<Rightarrow> del_db \<Rightarrow> bool" where
  "db_inv api db \<longleftrightarrow>
     distinct (map dr_id (dt_requests db)) \<and> distinct (map co_id (dt_communities db))
     \<and> one_live db
     \<and> (\<forall>r \<in> set (dt_requests db). request_ok api db r)
     \<and> (\<forall>c \<in> set (dt_communities db). community_ok db c)
     \<and> (\<forall>l \<in> set (dt_leases db). lease_target db l \<and> lease_ok db l)
     \<and> set EXPECTED_SCOPED_TABLES \<subseteq> live_fenced_tables_on db"

section \<open>Rows\<close>

lemma update_requests_Inr:
  "update_requests P f db = Inr (db', n) \<longleftrightarrow>
     (\<forall>r \<in> set (dt_requests db). P r \<longrightarrow> retargeting_ok r (f r))
     \<and> db' = db\<lparr>dt_requests := sql_update P f (dt_requests db)\<rparr> \<and> n = rows_affected P (dt_requests db)"
  by (auto simp: update_requests_def list_all_iff)

lemma update_communities_Inr:
  "update_communities s P f db = Inr (db', n) \<longleftrightarrow>
     (\<forall>c \<in> set (dt_communities db). P c \<longrightarrow> enforce_community_tombstone s c (f c))
     \<and> db' = db\<lparr>dt_communities := sql_update P f (dt_communities db)\<rparr> \<and> n = rows_affected P (dt_communities db)"
  by (auto simp: update_communities_def list_all_iff)

lemma rows_affected_pos: "rows_affected P rs \<noteq> 0 \<longleftrightarrow> (\<exists>r \<in> set rs. P r)"
  by (simp add: rows_affected_def filter_empty_conv)

definition put_row :: "('r \<Rightarrow> 'k) \<Rightarrow> 'r \<Rightarrow> 'r list \<Rightarrow> 'r list" where
  "put_row key new rows = map (\<lambda>r. if key r = key new then new else r) rows"

lemma put_row_keys [simp]: "map key (put_row key new rows) = map key rows"
  by (simp add: put_row_def)

lemma put_row_set:
  "x \<in> set (put_row key new rows) \<longleftrightarrow>
     x \<in> set rows \<and> key x \<noteq> key new \<or> x = new \<and> key new \<in> key ` set rows"
  by (auto simp: put_row_def image_iff) metis+

lemma put_row_mem: "c \<in> set rows \<Longrightarrow> key new = key c \<Longrightarrow> new \<in> set (put_row key new rows)"
  by (auto simp: put_row_set)

lemma put_row_same:
  assumes "distinct (map key rows)" "r \<in> set rows"
  shows "put_row key r rows = rows"
  using assms by (auto simp: put_row_def distinct_map inj_on_def intro!: map_idI)

lemma sql_update_put:
  assumes "distinct (map key rows)" "r \<in> set rows" "P r" "\<And>x. P x \<Longrightarrow> key x = key r" "key (f r) = key r"
  shows "sql_update P f rows = put_row key (f r) rows"
proof -
  have "x = r" if "x \<in> set rows" "key x = key r" for x
    using assms(1,2) that by (auto simp: distinct_map inj_on_def)
  then have "(if P x then f x else x) = (if key x = key (f r) then f r else x)" if "x \<in> set rows" for x
    using assms(3,4,5) that by metis
  then show ?thesis unfolding sql_update_def put_row_def by (rule map_cong [OF refl])
qed

lemma sql_update_none: "(\<And>x. x \<in> set rows \<Longrightarrow> \<not> P x) \<Longrightarrow> sql_update P f rows = rows"
  by (simp add: sql_update_def map_idI)

lemma sql_update_keys: "(\<And>x. key (f x) = key x) \<Longrightarrow> map key (sql_update P f rows) = map key rows"
  by (simp add: sql_update_def)

lemma sql_update_map: "(\<And>x. g (f x) = g x) \<Longrightarrow> map g (sql_update P f rows) = map g rows"
  by (simp add: sql_update_def)

lemma find_unique:
  assumes "distinct (map key rows)" "r \<in> set rows"
  shows "List.find (\<lambda>x. key x = key r) rows = Some r"
  using assms by (induction rows) auto

lemma find_SomeD: "List.find P xs = Some x \<Longrightarrow> x \<in> set xs \<and> P x"
  by (auto simp: find_Some_iff)

lemma find_request_iff:
  assumes "distinct (map dr_id (dt_requests db))"
  shows "find_request i db = Some r \<longleftrightarrow> r \<in> set (dt_requests db) \<and> dr_id r = i"
  unfolding find_request_def using find_unique [OF assms] by (auto simp: find_Some_iff dest: nth_mem)

lemma find_community_iff:
  assumes "distinct (map co_id (dt_communities db))"
  shows "find_community i db = Some c \<longleftrightarrow> c \<in> set (dt_communities db) \<and> co_id c = i"
  unfolding find_community_def using find_unique [OF assms] by (auto simp: find_Some_iff dest: nth_mem)

lemma upsert_checkpoint_frame [simp]:
  "dt_requests (upsert_checkpoint k f db) = dt_requests db"
  "dt_communities (upsert_checkpoint k f db) = dt_communities db"
  "dt_approvals (upsert_checkpoint k f db) = dt_approvals db"
  "dt_chunks (upsert_checkpoint k f db) = dt_chunks db"
  "dt_leases (upsert_checkpoint k f db) = dt_leases db"
  "dt_rows (upsert_checkpoint k f db) = dt_rows db"
  "dt_catalog (upsert_checkpoint k f db) = dt_catalog db"
  by (simp_all add: upsert_checkpoint_def Let_def)

lemma checkpoint_frame [simp]:
  "dt_requests (checkpoint_completed_tx now token s k d db) = dt_requests db"
  "dt_communities (checkpoint_completed_tx now token s k d db) = dt_communities db"
  "dt_approvals (checkpoint_completed_tx now token s k d db) = dt_approvals db"
  "dt_chunks (checkpoint_completed_tx now token s k d db) = dt_chunks db"
  "dt_leases (checkpoint_completed_tx now token s k d db) = dt_leases db"
  "dt_rows (checkpoint_completed_tx now token s k d db) = dt_rows db"
  "dt_catalog (checkpoint_completed_tx now token s k d db) = dt_catalog db"
  "dt_requests (checkpoint_failed_tx token s k e db) = dt_requests db"
  "dt_communities (checkpoint_failed_tx token s k e db) = dt_communities db"
  "dt_approvals (checkpoint_failed_tx token s k e db) = dt_approvals db"
  "dt_chunks (checkpoint_failed_tx token s k e db) = dt_chunks db"
  "dt_leases (checkpoint_failed_tx token s k e db) = dt_leases db"
  "dt_rows (checkpoint_failed_tx token s k e db) = dt_rows db"
  "dt_catalog (checkpoint_failed_tx token s k e db) = dt_catalog db"
  by (simp_all add: checkpoint_completed_tx_def checkpoint_failed_tx_def)

section \<open>Steps that keep the invariant\<close>

text \<open>What the invariant reads of a request row.\<close>

definition request_core where
  "request_core r =
     (dr_id r, dr_community_id r, dr_stage r, dr_destructive_storage_manifest r,
      dr_destructive_storage_frozen_at r, dr_inventory_manifest r, dr_inventory_digest r,
      dr_inventory_frozen_at r, dr_fence_generation r, dr_quiescing_started_at r)"

definition same_tables :: "del_db \<Rightarrow> del_db \<Rightarrow> bool" where
  "same_tables db db' \<longleftrightarrow>
     dt_communities db' = dt_communities db \<and> dt_approvals db' = dt_approvals db
     \<and> dt_chunks db' = dt_chunks db \<and> dt_leases db' = dt_leases db \<and> dt_rows db' = dt_rows db
     \<and> dt_catalog db' = dt_catalog db"

lemma request_ok_frame:
  assumes "request_core r' = request_core r"
    and "set (dt_approvals db) \<subseteq> set (dt_approvals db')"
    and "dr_stage r \<noteq> Aborted \<Longrightarrow> \<exists>c \<in> set (dt_communities db). co_id c = dr_community_id r \<and> state_for r c
          \<Longrightarrow> \<exists>c \<in> set (dt_communities db'). co_id c = dr_community_id r \<and> state_for r c"
    and "purged_stage (dr_stage r) \<Longrightarrow>
          \<forall>t \<in> set EXPECTED_SCOPED_TABLES. \<not> tenant_rows_in t (dr_community_id r) db \<Longrightarrow>
          \<forall>t \<in> set EXPECTED_SCOPED_TABLES. \<not> tenant_rows_in t (dr_community_id r) db'"
    and "request_chunks (dr_id r) db' = request_chunks (dr_id r) db"
    and "request_ok api db r"
  shows "request_ok api db' r'"
proof -
  have e: "dr_id r' = dr_id r" "dr_community_id r' = dr_community_id r" "dr_stage r' = dr_stage r"
    "dr_destructive_storage_manifest r' = dr_destructive_storage_manifest r"
    "dr_destructive_storage_frozen_at r' = dr_destructive_storage_frozen_at r"
    "dr_inventory_manifest r' = dr_inventory_manifest r" "dr_inventory_digest r' = dr_inventory_digest r"
    "dr_inventory_frozen_at r' = dr_inventory_frozen_at r" "dr_fence_generation r' = dr_fence_generation r"
    "dr_quiescing_started_at r' = dr_quiescing_started_at r"
    using assms(1) by (simp_all add: request_core_def)
  have eq: "inventory_ok api r' = inventory_ok api r" "state_for r' = state_for r"
    "chunks_ok api cs r' = chunks_ok api cs r" "approval_matches d r' = approval_matches d r"
    "dr_id r' = dr_id r" "dr_stage r' = dr_stage r" "dr_community_id r' = dr_community_id r" for cs d
    by (simp_all only: e inventory_ok_def state_for_def chunks_ok_def approval_matches_def fun_eq_iff simp_thms)
  have "approval_matches db r \<Longrightarrow> approval_matches db' r"
    using assms(2) by (auto simp: approval_matches_def list_ex_iff)
  with assms(3-6) show ?thesis by (simp add: request_ok_def eq)
qed

lemma core_rows:
  assumes "map request_core rs' = map request_core rs"
  shows "r' \<in> set rs' \<Longrightarrow> \<exists>r \<in> set rs. request_core r' = request_core r"
    and "r \<in> set rs \<Longrightarrow> \<exists>r' \<in> set rs'. request_core r' = request_core r"
  using assms by (metis (no_types, lifting) in_set_conv_nth length_map nth_map)+

lemma same_tables_frame:
  assumes "same_tables db db'"
  shows "request_chunks i db' = request_chunks i db" "tenant_rows_in t c db' = tenant_rows_in t c db"
    "live_fenced_tables_on db' = live_fenced_tables_on db"
    "lease_ok db' l = lease_ok db l" "lease_target db' l = lease_target db l"
  using assms
  by (simp_all add: same_tables_def request_chunks_def tenant_rows_in_def live_fenced_tables_on_def
      lease_ok_def lease_target_def)

lemma db_inv_core:
  assumes inv: "db_inv api db" and st: "same_tables db db'"
    and core: "map request_core (dt_requests db') = map request_core (dt_requests db)"
  shows "db_inv api db'"
proof -
  note rows = core_rows [OF core] and frame = same_tables_frame [OF st]
  have ids: "map dr_id (dt_requests db') = map dr_id (dt_requests db)"
    using arg_cong [OF core, of "map fst"] by (simp add: request_core_def comp_def)
  have one: "one_live db'"
    using inv unfolding db_inv_def one_live_def request_core_def
    by (metis (no_types, lifting) core_rows(1) [OF core, unfolded request_core_def] prod.inject)
  have req: "request_ok api db' r'" if r': "r' \<in> set (dt_requests db')" for r'
  proof -
    obtain r where r: "r \<in> set (dt_requests db)" "request_core r' = request_core r"
      using rows(1) [OF r'] by blast
    show ?thesis
      using inv r(1) st by (intro request_ok_frame [OF r(2)]) (auto simp: db_inv_def same_tables_def frame)
  qed
  have com: "community_ok db' c" if "community_ok db c" for c
    using that rows(2) unfolding community_ok_def request_core_def
    by (metis (no_types, lifting) prod.inject)
  show ?thesis
    using inv ids one req com st unfolding db_inv_def by (auto simp: same_tables_def frame)
qed

lemma db_inv_request:
  assumes "db_inv api db" "r \<in> set (dt_requests db)"
  shows "request_ok api db r"
  using assms by (simp add: db_inv_def)

lemma live_community:
  assumes "db_inv api db" "r \<in> set (dt_requests db)" "dr_stage r \<noteq> Aborted"
  obtains c where "c \<in> set (dt_communities db)" "co_id c = dr_community_id r" "state_for r c"
    "find_community (dr_community_id r) db = Some c"
proof -
  obtain c where "c \<in> set (dt_communities db)" "co_id c = dr_community_id r" "state_for r c"
    using db_inv_request [OF assms(1,2)] assms(3) by (auto simp: request_ok_def)
  then show thesis using that assms(1) by (auto simp: db_inv_def find_community_iff)
qed

lemma one_live_replace:
  assumes "one_live db" "r \<in> set (dt_requests db)" "dr_stage r \<noteq> Aborted"
    and "dr_id r' = dr_id r" "dr_community_id r' = dr_community_id r"
    and reqs: "dt_requests db' = put_row dr_id r' (dt_requests db)"
  shows "one_live db'"
proof -
  have old: "\<exists>x \<in> set (dt_requests db). dr_id x = dr_id s \<and> dr_community_id x = dr_community_id s \<and> dr_stage x \<noteq> Aborted"
    if "s \<in> set (dt_requests db')" "dr_stage s \<noteq> Aborted" for s
    using that assms(2-5) by (auto simp: reqs put_row_set)
  show ?thesis
    unfolding one_live_def
  proof (intro ballI impI)
    fix s u assume "s \<in> set (dt_requests db')" "u \<in> set (dt_requests db')" "dr_community_id s = dr_community_id u"
      "dr_stage s \<noteq> Aborted" "dr_stage u \<noteq> Aborted"
    with old [of s] old [of u] assms(1) show "dr_id s = dr_id u" unfolding one_live_def by metis
  qed
qed

lemma community_ok_replace:
  assumes comm: "\<forall>e \<in> set (dt_communities db). community_ok db e" and d: "distinct (map dr_id (dt_requests db))"
    and r: "r \<in> set (dt_requests db)" and c: "co_id c = dr_community_id r"
    and r': "dr_id r' = dr_id r" "dr_community_id r' = dr_community_id r" and c': "co_id c' = co_id c"
    and reqs: "dt_requests db' = put_row dr_id r' (dt_requests db)"
    and comms: "dt_communities db' = put_row co_id c' (dt_communities db)"
    and act: "dr_stage r' = Aborted \<Longrightarrow> co_state c' = Cs_Active"
      "co_state c' = Cs_Active \<Longrightarrow> co_deleted_at c' = None"
    and e': "e \<in> set (dt_communities db')"
  shows "community_ok db' e"
proof (cases "e = c'")
  case True
  have "r' \<in> set (dt_requests db')" using r r' by (auto simp: reqs put_row_set)
  then show ?thesis using True act r' c c' by (auto simp: community_ok_def)
next
  case False
  with e' have e: "e \<in> set (dt_communities db)" "co_id e \<noteq> co_id c" using c' by (auto simp: comms put_row_set)
  then have ok: "community_ok db e" using comm by simp
  have "s \<in> set (dt_requests db')" if "s \<in> set (dt_requests db)" "dr_community_id s = co_id e" for s
    using that e(2) c r d r' by (auto simp: reqs put_row_set distinct_map inj_on_def)
  with ok show ?thesis by (auto simp: community_ok_def split: if_splits)
qed

lemma lease_ok_replace:
  assumes l: "lease_ok db l" and c: "c \<in> set (dt_communities db)" and c': "co_id c' = co_id c"
    and comms: "dt_communities db' = put_row co_id c' (dt_communities db)"
    and gen: "co_fence_generation c \<le> co_fence_generation c'"
      "co_fence_generation c' = co_fence_generation c \<Longrightarrow> sealed c' \<Longrightarrow> sealed c"
  shows "lease_ok db' l"
proof -
  have "sw_fence_generation l \<le> co_fence_generation e \<and> (sealed e \<longrightarrow> sw_fence_generation l < co_fence_generation e)"
    if e: "e \<in> set (dt_communities db')" "co_id e = sw_community_id l" for e
  proof (cases "e = c'")
    case True
    then have "co_id c = sw_community_id l" using e c' by simp
    then have "sw_fence_generation l \<le> co_fence_generation c \<and> (sealed c \<longrightarrow> sw_fence_generation l < co_fence_generation c)"
      using l c by (simp add: lease_ok_def)
    then show ?thesis using True gen by (cases "co_fence_generation c' = co_fence_generation c") auto
  next
    case False
    then show ?thesis using e l by (auto simp: comms put_row_set lease_ok_def)
  qed
  then show ?thesis by (auto simp: lease_ok_def)
qed

text \<open>One live request and its community change; everything that belongs to others stays.\<close>

lemma db_inv_replace:
  assumes inv: "db_inv api db"
    and r: "r \<in> set (dt_requests db)" "dr_stage r \<noteq> Aborted"
    and c: "c \<in> set (dt_communities db)" "co_id c = dr_community_id r"
    and r': "dr_id r' = dr_id r" "dr_community_id r' = dr_community_id r" and c': "co_id c' = co_id c"
    and reqs: "dt_requests db' = put_row dr_id r' (dt_requests db)"
    and comms: "dt_communities db' = put_row co_id c' (dt_communities db)"
    and appr: "set (dt_approvals db) \<subseteq> set (dt_approvals db')"
    and chunks: "\<And>i. i \<noteq> dr_id r \<Longrightarrow> request_chunks i db' = request_chunks i db"
    and leases: "dt_leases db' = dt_leases db"
    and rows: "\<And>w i. w \<in> set (dt_rows db') \<Longrightarrow> tr_community w = Some i \<Longrightarrow> w \<in> set (dt_rows db)"
    and cat: "dt_catalog db' = dt_catalog db"
    and ok: "request_ok api db' r'"
    and gen: "co_fence_generation c \<le> co_fence_generation c'"
      "co_fence_generation c' = co_fence_generation c \<Longrightarrow> sealed c' \<Longrightarrow> sealed c"
    and act: "dr_stage r' = Aborted \<Longrightarrow> co_state c' = Cs_Active"
      "co_state c' = Cs_Active \<Longrightarrow> co_deleted_at c' = None"
  shows "db_inv api db'"
proof -
  have d: "distinct (map dr_id (dt_requests db))" "distinct (map co_id (dt_communities db))" "one_live db"
    using inv by (auto simp: db_inv_def)
  have others: "request_ok api db' s" if s: "s \<in> set (dt_requests db)" "dr_id s \<noteq> dr_id r" for s
  proof (rule request_ok_frame [where r = s and db = db, OF refl appr])
    show "request_ok api db s" using inv s by (simp add: db_inv_def)
    show "request_chunks (dr_id s) db' = request_chunks (dr_id s) db" using chunks s by simp
    show "\<forall>t \<in> set EXPECTED_SCOPED_TABLES. \<not> tenant_rows_in t (dr_community_id s) db'"
      if "\<forall>t \<in> set EXPECTED_SCOPED_TABLES. \<not> tenant_rows_in t (dr_community_id s) db"
      using that rows by (fastforce simp: tenant_rows_in_def list_ex_iff)
    assume "dr_stage s \<noteq> Aborted" and ex: "\<exists>c \<in> set (dt_communities db). co_id c = dr_community_id s \<and> state_for s c"
    have "dr_community_id s \<noteq> dr_community_id r" using \<open>dr_stage s \<noteq> Aborted\<close> d(3) r s unfolding one_live_def by blast
    then show "\<exists>c \<in> set (dt_communities db'). co_id c = dr_community_id s \<and> state_for s c"
      using ex c(2) c' by (auto simp: comms put_row_set)
  qed
  have req: "request_ok api db' s" if "s \<in> set (dt_requests db')" for s
    using that others ok r' by (auto simp: reqs put_row_set)
  have one: "one_live db'" by (rule one_live_replace [OF d(3) r r' reqs])
  have com: "community_ok db' e" if "e \<in> set (dt_communities db')" for e
    by (rule community_ok_replace [OF _ d(1) r(1) c(2) r' c' reqs comms act that]) (use inv in \<open>auto simp: db_inv_def\<close>)
  have lea: "lease_ok db' l" if "lease_ok db l" for l
    by (rule lease_ok_replace [OF that c(1) c' comms gen])
  have tgt: "lease_target db' l = lease_target db l" for l
    unfolding lease_target_def comms using put_row_keys [of co_id c' "dt_communities db"]
    by (metis image_set)
  have "live_fenced_tables_on db' = live_fenced_tables_on db" using cat by (simp add: live_fenced_tables_on_def)
  then show ?thesis
    using inv one req com lea tgt by (auto simp: db_inv_def reqs comms leases)
qed

section \<open>Claims, heartbeats, retries and blocks\<close>

definition core_step :: "del_db \<Rightarrow> del_db \<Rightarrow> bool" where
  "core_step db db' \<longleftrightarrow>
     same_tables db db' \<and> map request_core (dt_requests db') = map request_core (dt_requests db)"

lemma core_step_refl [simp, intro]: "core_step db db"
  by (simp add: core_step_def same_tables_def)

lemma core_step_trans: "core_step db db1 \<Longrightarrow> core_step db1 db2 \<Longrightarrow> core_step db db2"
  by (simp add: core_step_def same_tables_def)

lemma db_inv_core_step: "db_inv api db \<Longrightarrow> core_step db db' \<Longrightarrow> db_inv api db'"
  by (auto simp: core_step_def intro: db_inv_core)

lemma core_step_upsert [simp]: "core_step db (upsert_checkpoint k f db)"
  by (simp add: core_step_def same_tables_def)

lemma core_step_failed [simp]: "core_step db (checkpoint_failed_tx token s k e db)"
  by (simp add: core_step_def same_tables_def)

lemma core_step_update:
  assumes "update_requests P f db = Inr (db', n)" "\<And>r. request_core (f r) = request_core r"
  shows "core_step db db'"
  using assms(1) sql_update_map [of request_core f P, OF assms(2)]
  by (auto simp: update_requests_Inr core_step_def same_tables_def)

lemma core_step_insert_checkpoint: "insert_checkpoint k db = Inr db' \<Longrightarrow> core_step db db'"
  by (auto simp: insert_checkpoint_def core_step_def same_tables_def split: if_splits)

lemma updated_request_Inr:
  "updated_request i e (db, n) = Inr (db', r) \<longleftrightarrow> n \<noteq> 0 \<and> db' = db \<and> find_request i db = Some r"
  by (auto simp: updated_request_def and_then_Inr)

lemma core_step_claim:
  assumes "claim api now request_id owner d db = Inr (db', x)"
  shows "core_step db db'"
proof (cases "oldest_request (filter (claimable db now request_id) (dt_requests db))")
  case None
  then show ?thesis using assms by (simp add: claim_def)
next
  case (Some r)
  show ?thesis
  proof (cases "validate_catalog_on db")
    case (Inl e)
    then show ?thesis
      using assms Some
      by (auto simp: claim_def Let_def and_then_Inr set_request_def request_core_def
          elim!: core_step_update [THEN core_step_trans [OF core_step_upsert]])
  next
    case (Inr u)
    then show ?thesis
      using assms Some
      by (auto simp: claim_def and_then_Inr set_request_def updated_request_Inr request_core_def
          elim!: core_step_update)
  qed
qed

lemma core_step_heartbeat:
  assumes "heartbeat api now token mode d draining db = Inr (db', x)"
  shows "core_step db db'"
proof -
  obtain db1 n h where u: "update_requests
         (\<lambda>r. dr_id r = lt_request_id token \<and> dr_lease_owner r = Some (lt_owner token)
            \<and> dr_lease_generation r = lt_generation token \<and> at_or_after (dr_lease_until r) now
            \<and> dr_blocked_at r = None \<and> stage_runnable (dr_stage r) \<and> approval_matches db r)
         (\<lambda>r. r\<lparr>dr_lease_until := Some (secs_from now d), dr_updated_at := now\<rparr>) db = Inr (db1, n)"
    and db': "db' = upsert_heartbeat h db1"
    using assms by (fastforce simp: heartbeat_def and_then_Inr split: if_splits)
  have "core_step db1 db'" by (simp add: db' upsert_heartbeat_def Let_def core_step_def same_tables_def)
  with core_step_update [OF u] show ?thesis by (auto simp: request_core_def intro: core_step_trans)
qed

lemma core_step_stop:
  assumes "stop_executor now token ex db = Inr (db', x)"
  shows "core_step db db'"
proof -
  obtain db1 n where u: "(case token of
          None \<Rightarrow> Inr (db, 0)
        | Some token \<Rightarrow>
            update_requests
              (\<lambda>r. dr_id r = lt_request_id token \<and> dr_lease_owner r = Some (lt_owner token)
                 \<and> dr_lease_generation r = lt_generation token)
              (\<lambda>r. r\<lparr>dr_lease_owner := None, dr_lease_until := None, dr_updated_at := now\<rparr>) db) = Inr (db1, n)"
    and db': "core_step db1 db'"
    using assms by (auto simp: stop_executor_def and_then_Inr core_step_def same_tables_def)
  have "core_step db db1"
    using u by (cases token) (auto simp: request_core_def elim!: core_step_update)
  with db' show ?thesis by (blast intro: core_step_trans)
qed

lemma core_step_record_retry:
  assumes "record_retry api now token stage k e d db = Inr (db', x)"
  shows "core_step db db'"
  using assms
  by (auto simp: record_retry_def Let_def and_then_Inr request_core_def
      elim!: core_step_update [THEN core_step_trans [OF core_step_failed]])

lemma core_step_block:
  assumes "block api now token stage k e db = Inr (db', x)"
  shows "core_step db db'"
  using assms
  by (auto simp: block_def Let_def and_then_Inr request_core_def
      elim!: core_step_update [THEN core_step_trans [OF core_step_failed]])

lemma core_step_block_preclaim:
  assumes "block_preclaim_setup api clock now i k e db = Inr (db', x)"
  shows "core_step db db'"
  using assms
  by (auto simp: block_preclaim_setup_def Let_def and_then_Inr set_request_def updated_request_Inr request_core_def
      split: if_splits elim!: core_step_update [THEN core_step_trans [OF core_step_upsert]])

lemma core_step_unblock:
  assumes "unblock api nonce clock now i by reason db = Inr (db', x)"
  shows "core_step db db'"
  using assms
  by (auto simp: unblock_def Let_def and_then_Inr updated_request_Inr request_core_def
      split: if_splits elim!: core_step_trans [OF core_step_insert_checkpoint core_step_update])

section \<open>Transitions\<close>

definition advanced :: "int \<Rightarrow> deletion_stage \<Rightarrow> int option \<Rightarrow> deletion_request \<Rightarrow> deletion_request" where
  "advanced now to_stage g r =
     r\<lparr>dr_stage := to_stage, dr_fence_generation := coalesce g (dr_fence_generation r),
       dr_updated_at := now, dr_retry_count := 0, dr_retry_stage := None, dr_last_error := None,
       dr_last_error_at := None\<rparr>"

lemma advanced_simps [simp]:
  "dr_id (advanced now to_stage g r) = dr_id r"
  "dr_community_id (advanced now to_stage g r) = dr_community_id r"
  "dr_stage (advanced now to_stage g r) = to_stage"
  "dr_fence_generation (advanced now to_stage (Some x) r) = Some x"
  "dr_quiescing_started_at (advanced now to_stage g r) = dr_quiescing_started_at r"
  "dr_destructive_storage_frozen_at (advanced now to_stage g r) = dr_destructive_storage_frozen_at r"
  "dr_destructive_storage_manifest (advanced now to_stage g r) = dr_destructive_storage_manifest r"
  "dr_inventory_manifest (advanced now to_stage g r) = dr_inventory_manifest r"
  "dr_inventory_digest (advanced now to_stage g r) = dr_inventory_digest r"
  "dr_inventory_frozen_at (advanced now to_stage g r) = dr_inventory_frozen_at r"
  by (simp_all add: advanced_def coalesce_def)

lemma advance_request_tx_Inr:
  assumes "distinct (map dr_id (dt_requests db))" "advance_request_tx api now token from_stage to_stage g db = Inr db'"
  obtains r where "r \<in> set (dt_requests db)" "dr_id r = lt_request_id token" "dr_stage r = from_stage"
    "stage_next from_stage = Some to_stage"
    "db' = db\<lparr>dt_requests := put_row dr_id (advanced now to_stage g r) (dt_requests db)\<rparr>"
proof -
  let ?P = "\<lambda>r. dr_id r = lt_request_id token \<and> dr_stage r = from_stage \<and> dr_lease_owner r = Some (lt_owner token)
             \<and> dr_lease_generation r = lt_generation token \<and> at_or_after (dr_lease_until r) now
             \<and> dr_blocked_at r = None"
  have next_st: "stage_next from_stage = Some to_stage"
    and db': "db' = db\<lparr>dt_requests := sql_update ?P (advanced now to_stage g) (dt_requests db)\<rparr>"
    and "rows_affected ?P (dt_requests db) = 1"
    using assms(2)
    by (auto simp: advance_request_tx_def and_then_Inr update_requests_Inr advanced_def [abs_def] split: if_splits)
  then obtain r where r: "r \<in> set (dt_requests db)" "?P r" using rows_affected_pos [of ?P] by fastforce
  have "sql_update ?P (advanced now to_stage g) (dt_requests db) = put_row dr_id (advanced now to_stage g r) (dt_requests db)"
    by (rule sql_update_put [where P = ?P, OF assms(1) r]) (use r in auto)
  then show thesis using that r next_st db' by simp
qed

lemma verify_lease_Inr:
  "verify_lease api now token stage db = Inr u \<longleftrightarrow> (\<exists>r \<in> set (dt_requests db). lease_current db now token stage r)"
  by (simp add: verify_lease_def list_ex_iff)

lemma verify_lease_and_fence_Inr:
  "verify_lease_and_fence api now token stage g db = Inr u \<longleftrightarrow>
     (\<exists>r \<in> set (dt_requests db). lease_current db now token stage r \<and> dr_fence_generation r = Some g
        \<and> (\<exists>c \<in> set (dt_communities db). co_id c = dr_community_id r \<and> sealed c \<and> co_fence_generation c = g))"
  by (simp add: verify_lease_and_fence_def list_ex_iff sealed_def)

lemma update_community_put:
  assumes "distinct (map co_id (dt_communities db))" "c \<in> set (dt_communities db)"
    and "update_communities s P f db = Inr (db', n)" "n \<noteq> 0" "\<And>x. P x \<Longrightarrow> co_id x = co_id c" "co_id (f c) = co_id c"
  shows "P c \<and> enforce_community_tombstone s c (f c)
    \<and> db' = db\<lparr>dt_communities := put_row co_id (f c) (dt_communities db)\<rparr>"
proof -
  obtain e where e: "e \<in> set (dt_communities db)" "P e"
    using assms(3,4) rows_affected_pos [of P] by (auto simp: update_communities_Inr)
  then have "e = c" using assms(1,2,5) by (auto simp: distinct_map inj_on_def)
  with e have "P c" by simp
  then show ?thesis
    using assms(2,3) sql_update_put [where P = P and f = f, OF assms(1,2) \<open>P c\<close> assms(5,6)] by (auto simp: update_communities_Inr)
qed

lemma update_request_put:
  assumes "distinct (map dr_id (dt_requests db))" "r \<in> set (dt_requests db)"
    and "update_requests P f db = Inr (db', n)" "n \<noteq> 0" "\<And>x. P x \<Longrightarrow> dr_id x = dr_id r" "dr_id (f r) = dr_id r"
  shows "P r \<and> retargeting_ok r (f r) \<and> db' = db\<lparr>dt_requests := put_row dr_id (f r) (dt_requests db)\<rparr>"
proof -
  obtain e where e: "e \<in> set (dt_requests db)" "P e"
    using assms(3,4) rows_affected_pos [of P] by (auto simp: update_requests_Inr)
  then have "e = r" using assms(1,2,5) by (auto simp: distinct_map inj_on_def)
  with e have "P r" by simp
  then show ?thesis
    using assms(2,3) sql_update_put [where P = P and f = f, OF assms(1,2) \<open>P r\<close> assms(5,6)] by (auto simp: update_requests_Inr)
qed

lemma request_by_id:
  assumes "distinct (map dr_id (dt_requests db))" "r \<in> set (dt_requests db)" "s \<in> set (dt_requests db)" "dr_id r = dr_id s"
  shows "r = s"
  using assms by (auto simp: distinct_map inj_on_def)

lemma community_by_id:
  assumes "distinct (map co_id (dt_communities db))" "c \<in> set (dt_communities db)" "e \<in> set (dt_communities db)"
    "co_id c = co_id e"
  shows "c = e"
  using assms by (auto simp: distinct_map inj_on_def)

lemma db_inv_distinct:
  "db_inv api db \<Longrightarrow> distinct (map dr_id (dt_requests db))"
  "db_inv api db \<Longrightarrow> distinct (map co_id (dt_communities db))"
  by (simp_all add: db_inv_def)

text \<open>The advance of a fenced request inside the same community state: draining, binding removal, cache purge.\<close>

lemma db_inv_advance:
  assumes inv: "db_inv api db" and adv: "advance_request_tx api now token from_stage to_stage (Some g) db = Inr db1"
    and ver: "verify_lease_and_fence api now token from_stage g db = Inr ()"
    and st: "purged_stage to_stage = purged_stage from_stage"
      "from_stage \<notin> {Submitted, Inventoried, Approved, Aborted, LogicallyVerified, RetentionPending}"
      "to_stage \<notin> {LogicallyVerified, RetentionPending}"
    and frame: "same_tables db1 db'" "dt_requests db' = dt_requests db1"
  shows "db_inv api db'"
proof -
  obtain r where r: "r \<in> set (dt_requests db)" "dr_id r = lt_request_id token" "dr_stage r = from_stage"
    and nx: "stage_next from_stage = Some to_stage"
    and db1: "db1 = db\<lparr>dt_requests := put_row dr_id (advanced now to_stage (Some g) r) (dt_requests db)\<rparr>"
    by (rule advance_request_tx_Inr [OF db_inv_distinct(1) [OF inv] adv])
  have live: "dr_stage r \<noteq> Aborted" using st r by auto
  obtain c where c: "c \<in> set (dt_communities db)" "co_id c = dr_community_id r" "state_for r c"
    by (rule live_community [OF inv r(1) live]) blast
  obtain s where s: "s \<in> set (dt_requests db)" "dr_id s = lt_request_id token" "dr_fence_generation s = Some g"
    using ver unfolding verify_lease_and_fence_Inr lease_current_def by blast
  then have g: "dr_fence_generation r = Some g"
    using request_by_id [OF db_inv_distinct(1) [OF inv] r(1) s(1)] r(2) by simp
  have to: "to_stage \<notin> {Submitted, Inventoried, Approved, Aborted}"
    using nx st(2) by (cases from_stage) auto
  have cs: "dt_communities db' = put_row co_id c (dt_communities db)"
    using frame(1) by (simp add: db1 same_tables_def put_row_same [OF db_inv_distinct(2) [OF inv] c(1)])
  have ok: "request_ok api db r" by (rule db_inv_request [OF inv r(1)])
  have chunks: "request_chunks i db' = request_chunks i db" for i
    using frame(1) by (simp add: db1 same_tables_def request_chunks_def)
  show ?thesis
  proof (rule db_inv_replace [OF inv r(1) live c(1,2), where r' = "advanced now to_stage (Some g) r" and c' = c])
    show "request_ok api db' (advanced now to_stage (Some g) r)"
    proof -
      have "state_for (advanced now to_stage (Some g) r) c"
        using c(3) st to g r(3) live by (auto simp: state_for_def)
      moreover have "inventory_ok api (advanced now to_stage (Some g) r)" "approval_matches db' (advanced now to_stage (Some g) r)"
        "chunks_ok api (request_chunks (dr_id r) db') (advanced now to_stage (Some g) r)"
        using ok to st r(3) frame(1)
        by (auto simp: request_ok_def inventory_ok_def approval_matches_def chunks_ok_def chunks db1 same_tables_def
            split: option.splits)
      moreover have "\<forall>t \<in> set EXPECTED_SCOPED_TABLES. \<not> tenant_rows_in t (dr_community_id r) db'" if "purged_stage to_stage"
        using ok that st r(3) frame(1) by (simp add: request_ok_def tenant_rows_in_def same_tables_def db1)
      moreover have "c \<in> set (dt_communities db')" using c frame(1) by (simp add: db1 same_tables_def)
      ultimately show ?thesis using c(2) by (auto simp: request_ok_def)
    qed
    show "co_state c = Cs_Active \<Longrightarrow> co_deleted_at c = None" using inv c(1) by (simp add: db_inv_def community_ok_def)
  qed (use frame chunks cs to in \<open>auto simp: db1 same_tables_def\<close>)
qed

lemma require_fence_Inr: "require_fence_generation api token = Inr g \<longleftrightarrow> lt_fence_generation token = Some g"
  by (simp add: require_fence_generation_def)

lemma same_tables_checkpoint [simp]: "same_tables db (checkpoint_completed_tx now token s k d db)"
  by (simp add: same_tables_def)

lemma db_inv_mark_drained:
  assumes "db_inv api db" "mark_drained api now token db = Inr (db', x)"
  shows "db_inv api db'"
proof -
  obtain g db1 where v: "verify_lease_and_fence api now token Fenced g db = Inr ()"
    and a: "advance_request_tx api now token Fenced Drained (Some g) db = Inr db1"
    and db': "same_tables db1 db'" "dt_requests db' = dt_requests db1"
    using assms(2) by (auto simp: mark_drained_def and_then_Inr split: if_splits)
  show ?thesis by (rule db_inv_advance [OF assms(1) a v _ _ _ db']) (simp_all add: purged_stage_def)
qed

lemma db_inv_advance_with_checkpoint:
  assumes "db_inv api db" "advance_with_checkpoint api now token from_stage to_stage k d db = Inr (db', x)"
    "(from_stage, to_stage) \<in> {(Drained, BindingsRemoved), (PostgresPurged, CachePurged)}"
  shows "db_inv api db'"
proof -
  obtain g db1 where v: "verify_lease_and_fence api now token from_stage g db = Inr ()"
    and a: "advance_request_tx api now token from_stage to_stage (Some g) db = Inr db1"
    and db': "same_tables db1 db'" "dt_requests db' = dt_requests db1"
    using assms(2) by (auto simp: advance_with_checkpoint_def and_then_Inr)
  show ?thesis
    by (rule db_inv_advance [OF assms(1) a v _ _ _ db']) (use assms(3) in \<open>auto simp: purged_stage_def\<close>)
qed

text \<open>The request and the community that a verified token stands for.\<close>

lemma leased_request:
  assumes inv: "db_inv api db" and ver: "verify_lease api now token stage db = Inr ()" and live: "stage \<noteq> Aborted"
  obtains r c where "r \<in> set (dt_requests db)" "dr_id r = lt_request_id token"
    "dr_community_id r = lt_community_id token" "dr_stage r = stage" "c \<in> set (dt_communities db)"
    "co_id c = lt_community_id token" "state_for r c" "find_community (lt_community_id token) db = Some c"
    "lease_current db now token stage r"
proof -
  obtain r where r: "r \<in> set (dt_requests db)" "lease_current db now token stage r"
    using ver by (auto simp: verify_lease_Inr)
  then have e: "dr_stage r \<noteq> Aborted" "dr_community_id r = lt_community_id token" using live by (auto simp: lease_current_def)
  obtain c where "c \<in> set (dt_communities db)" "co_id c = dr_community_id r" "state_for r c"
    "find_community (dr_community_id r) db = Some c" by (rule live_community [OF inv r(1) e(1)])
  with r e show thesis by (intro that [of r c]) (auto simp: lease_current_def)
qed

lemma verify_fence_lease: "verify_lease_and_fence api now token stage g db = Inr () \<Longrightarrow> verify_lease api now token stage db = Inr ()"
  by (auto simp: verify_lease_and_fence_Inr verify_lease_Inr)

lemma fenced_request:
  assumes inv: "db_inv api db" and ver: "verify_lease_and_fence api now token stage g db = Inr ()" and live: "stage \<noteq> Aborted"
  obtains r c where "r \<in> set (dt_requests db)" "dr_id r = lt_request_id token"
    "dr_community_id r = lt_community_id token" "dr_stage r = stage" "c \<in> set (dt_communities db)"
    "co_id c = lt_community_id token" "state_for r c" "dr_fence_generation r = Some g"
    "co_fence_generation c = g" "sealed c" "lease_current db now token stage r"
proof -
  obtain r c where r: "r \<in> set (dt_requests db)" "lease_current db now token stage r" "dr_fence_generation r = Some g"
    and c: "c \<in> set (dt_communities db)" "co_id c = dr_community_id r" "sealed c" "co_fence_generation c = g"
    using ver by (auto simp: verify_lease_and_fence_Inr)
  then have e: "dr_stage r \<noteq> Aborted" "dr_community_id r = lt_community_id token" using live by (auto simp: lease_current_def)
  obtain c2 where c2: "c2 \<in> set (dt_communities db)" "co_id c2 = dr_community_id r" "state_for r c2"
    by (rule live_community [OF inv r(1) e(1)]) blast
  have "c2 = c" using community_by_id [OF db_inv_distinct(2) [OF inv] c2(1) c(1)] c2 c by simp
  with r c c2 e show thesis by (intro that [of r c]) (auto simp: lease_current_def)
qed

lemma one_live_append:
  assumes "one_live db" "dt_requests db' = dt_requests db @ [r]"
    "\<forall>q \<in> set (dt_requests db). dr_community_id q = dr_community_id r \<longrightarrow> dr_stage q = Aborted"
  shows "one_live db'"
  unfolding one_live_def assms(2)
proof (intro ballI impI)
  fix s u assume "s \<in> set (dt_requests db @ [r])" "u \<in> set (dt_requests db @ [r])"
    and h: "dr_community_id s = dr_community_id u" "dr_stage s \<noteq> Aborted" "dr_stage u \<noteq> Aborted"
  then consider "s \<in> set (dt_requests db)" "u \<in> set (dt_requests db)" | "s = r" "u = r"
    | "s = r" "u \<in> set (dt_requests db)" | "u = r" "s \<in> set (dt_requests db)" by auto
  then show "dr_id s = dr_id u"
  proof cases
    case 1 then show ?thesis using assms(1) h unfolding one_live_def by blast
  next
    case 3 then show ?thesis using assms(3) h by metis
  next
    case 4 then show ?thesis using assms(3) h by metis
  qed simp
qed

text \<open>Only a request row changes, and no other table but the approvals, which grow.\<close>

lemma db_inv_request_step:
  assumes inv: "db_inv api db" and r: "r \<in> set (dt_requests db)" "dr_stage r \<noteq> Aborted"
    and r': "dr_id r' = dr_id r" "dr_community_id r' = dr_community_id r" "dr_stage r' \<noteq> Aborted"
    and reqs: "dt_requests db' = put_row dr_id r' (dt_requests db)"
    and com: "dt_communities db' = dt_communities db" and appr: "set (dt_approvals db) \<subseteq> set (dt_approvals db')"
    and chunks: "\<And>i. i \<noteq> dr_id r \<Longrightarrow> request_chunks i db' = request_chunks i db"
    and rest: "dt_leases db' = dt_leases db" "dt_rows db' = dt_rows db" "dt_catalog db' = dt_catalog db"
    and ok: "request_ok api db' r'"
  shows "db_inv api db'"
proof -
  obtain c where c: "c \<in> set (dt_communities db)" "co_id c = dr_community_id r"
    by (rule live_community [OF inv r]) blast
  have "co_state c = Cs_Active \<Longrightarrow> co_deleted_at c = None" using inv c(1) by (simp add: db_inv_def community_ok_def)
  moreover have "dt_communities db' = put_row co_id c (dt_communities db)"
    using com by (simp add: put_row_same [OF db_inv_distinct(2) [OF inv] c(1)])
  ultimately show ?thesis
    using r'(3) rest by (intro db_inv_replace [OF inv r c r'(1,2) refl reqs _ appr chunks _ _ _ ok]) auto
qed

lemma db_inv_submit:
  assumes inv: "db_inv api db" and s: "submit api i now host by reason db = Inr (db', x)"
  shows "db_inv api db'"
proof (cases "db' = db")
  case False
  obtain c where f: "List.find (\<lambda>c. da_lower api (co_host c) = da_lower api host
             \<and> co_state c = Cs_Active \<and> co_deleted_at c = None) (dt_communities db) = Some c"
    using s by (auto simp: submit_def Let_def split: option.splits)
  then have c: "c \<in> set (dt_communities db)" "co_state c = Cs_Active" "co_deleted_at c = None"
    by (auto simp: find_Some_iff)
  let ?r = "new_request i now c by reason"
  have free: "\<forall>r \<in> set (dt_requests db). dr_community_id r = co_id c \<longrightarrow> dr_stage r = Aborted"
    and new: "i \<notin> dr_id ` set (dt_requests db)" and db': "db' = db\<lparr>dt_requests := dt_requests db @ [?r]\<rparr>"
    using s False by (auto simp: submit_def Let_def f list_ex_iff split: if_splits option.splits)
  have r: "dr_id ?r = i" "dr_community_id ?r = co_id c" "dr_stage ?r = Submitted"
    by (simp_all add: new_request_def)
  have "request_ok api db' ?r"
    using c by (auto simp: request_ok_def inventory_ok_def state_for_def chunks_ok_def purged_stage_def db' new_request_def)
  moreover have "request_ok api db' q = request_ok api db q" for q
    by (simp add: request_ok_def db' approval_matches_def tenant_rows_in_def request_chunks_def)
  moreover have "one_live db'"
    by (rule one_live_append [of db _ ?r]) (use inv free r(2) in \<open>simp_all add: db_inv_def db'\<close>)
  moreover have "community_ok db e \<Longrightarrow> community_ok db' e" for e by (auto simp: community_ok_def db')
  moreover have "lease_ok db' l = lease_ok db l" "lease_target db' l = lease_target db l"
    "live_fenced_tables_on db' = live_fenced_tables_on db" for l
    by (simp_all add: lease_ok_def lease_target_def db' live_fenced_tables_on_def)
  ultimately show ?thesis using inv new r by (auto simp: db_inv_def db')
qed (use inv in simp)

lemma db_inv_freeze_inventory:
  assumes inv: "db_inv api db" and s: "freeze_inventory api now i inventory db = Inr (db', x)"
  shows "db_inv api db'"
proof -
  let ?P = "\<lambda>r. dr_id r = i \<and> dr_stage r = Submitted \<and> dr_blocked_at r = None"
  define f :: "deletion_request \<Rightarrow> deletion_request" where "f = (\<lambda>r. r\<lparr>dr_stage := Inventoried, dr_schema_manifest := Some (fi_schema inventory),
            dr_storage_manifest := Some (fi_storage inventory), dr_inventory_manifest := Some inventory,
            dr_inventory_digest := Some (inventory_digest api inventory), dr_inventory_frozen_at := Some now,
            dr_updated_at := now, dr_last_error := None, dr_last_error_at := None\<rparr>)"
  obtain n where val: "validate_storage_manifest (fi_storage inventory) = Inr ()"
    and u: "update_requests ?P f db = Inr (db', n)" "n \<noteq> 0"
    using s by (auto simp: freeze_inventory_def f_def and_then_Inr updated_request_Inr)
  obtain r where r: "r \<in> set (dt_requests db)" "?P r"
    using u rows_affected_pos [of ?P] by (auto simp: update_requests_Inr)
  have db': "db' = db\<lparr>dt_requests := put_row dr_id (f r) (dt_requests db)\<rparr>"
    using update_request_put [OF db_inv_distinct(1) [OF inv] r(1) u] r(2) by (simp add: f_def)
  obtain c where c: "c \<in> set (dt_communities db)" "co_id c = dr_community_id r" "state_for r c"
    by (rule live_community [OF inv r(1)]) (use r in auto)
  have ok: "request_ok api db r" by (rule db_inv_request [OF inv r(1)])
  have fr: "dr_id (f r) = dr_id r" "dr_community_id (f r) = dr_community_id r" "dr_stage (f r) = Inventoried"
    by (simp_all add: f_def)
  have ok': "request_ok api db' (f r)"
    using ok r c val
    by (auto simp: request_ok_def db' f_def inventory_ok_def state_for_def purged_stage_def chunks_ok_def
        request_chunks_def split: option.splits)
  show ?thesis
    by (rule db_inv_request_step [OF inv r(1) _ fr(1,2)]) (use r(2) ok' fr(3) in \<open>simp_all add: db' request_chunks_def\<close>)
qed

lemma approve_cases:
  assumes "approve api now i by note db = Inr (db', x)"
  obtains r digest inventory n where
    "List.find (\<lambda>r. dr_id r = i \<and> dr_stage r = Inventoried \<and> dr_blocked_at r = None) (dt_requests db) = Some r"
    "dr_inventory_digest r = Some digest" "dr_inventory_manifest r = Some inventory"
    "digest = inventory_digest api inventory"
    "update_requests (\<lambda>r. dr_id r = i \<and> dr_stage r = Inventoried \<and> dr_blocked_at r = None)
       (\<lambda>r. r\<lparr>dr_stage := Approved, dr_updated_at := now, dr_next_attempt_at := now\<rparr>)
       (db\<lparr>dt_approvals := dt_approvals db @
          [\<lparr>ap_request_id = i, ap_community_id = dr_community_id r, ap_inventory_digest = digest,
            ap_approved_by = by, ap_note = note, ap_approved_at = now\<rparr>]\<rparr>) = Inr (db', n)"
    "n \<noteq> 0" "find_request i db' = Some x"
  using assms
  by (auto simp: approve_def Let_def and_then_Inr updated_request_Inr split: option.splits if_splits)

lemma db_inv_approve:
  assumes inv: "db_inv api db" and s: "approve api now i by note db = Inr (db', x)"
  shows "db_inv api db'"
proof -
  let ?P = "\<lambda>r. dr_id r = i \<and> dr_stage r = Inventoried \<and> dr_blocked_at r = None"
  define f :: "deletion_request \<Rightarrow> deletion_request"
    where "f = (\<lambda>r. r\<lparr>dr_stage := Approved, dr_updated_at := now, dr_next_attempt_at := now\<rparr>)"
  obtain r digest inventory n where
    find: "List.find ?P (dt_requests db) = Some r" and dig: "dr_inventory_digest r = Some digest"
    and u: "update_requests ?P f (db\<lparr>dt_approvals := dt_approvals db @
          [\<lparr>ap_request_id = i, ap_community_id = dr_community_id r, ap_inventory_digest = digest,
            ap_approved_by = by, ap_note = note, ap_approved_at = now\<rparr>]\<rparr>) = Inr (db', n)" "n \<noteq> 0"
    unfolding f_def using s by (rule approve_cases) blast
  have r: "r \<in> set (dt_requests db)" "dr_id r = i" "dr_stage r = Inventoried"
    using find by (auto simp: find_Some_iff)
  have db': "dt_requests db' = put_row dr_id (f r) (dt_requests db)" "dt_communities db' = dt_communities db"
    "dt_approvals db' = dt_approvals db @ [\<lparr>ap_request_id = i, ap_community_id = dr_community_id r,
       ap_inventory_digest = digest, ap_approved_by = by, ap_note = note, ap_approved_at = now\<rparr>]"
    "dt_chunks db' = dt_chunks db" "dt_leases db' = dt_leases db" "dt_rows db' = dt_rows db" "dt_catalog db' = dt_catalog db"
    using update_request_put [OF _ _ u, where r = r] r db_inv_distinct(1) [OF inv] by (simp_all add: f_def)
  have fr: "dr_id (f r) = dr_id r" "dr_community_id (f r) = dr_community_id r" "dr_stage (f r) \<noteq> Aborted"
    by (simp_all add: f_def)
  have "request_ok api db r" by (rule db_inv_request [OF inv r(1)])
  then have "request_ok api db' (f r)"
    using r dig
    by (auto simp: request_ok_def db' f_def inventory_ok_def state_for_def purged_stage_def chunks_ok_def
        approval_matches_def request_chunks_def split: option.splits)
  then show ?thesis
    by (intro db_inv_request_step [OF inv r(1) _ fr db'(1,2)]) (simp_all add: r db' request_chunks_def subset_insertI)
qed

lemma begin_quiescing_cases:
  assumes "begin_quiescing api now token db = Inr (db', x)"
  obtains c db1 db2 n m where "verify_lease api now token Approved db = Inr ()"
    "find_community (lt_community_id token) db = Some c"
    "update_requests (\<lambda>r. dr_id r = lt_request_id token \<and> dr_quiescing_started_at r = None)
         (\<lambda>r. r\<lparr>dr_pre_quiesce_archived_at := co_archived_at c, dr_quiescing_started_at := Some now,
            dr_updated_at := now\<rparr>) db = Inr (db1, m)"
    "update_communities (set_executor_gucs (lt_community_id token) (co_fence_generation c) plain_session)
         (\<lambda>c. co_id c = lt_community_id token \<and> co_state c \<in> {Cs_Active, Cs_Quiescing} \<and> co_deleted_at c = None)
         (\<lambda>c. c\<lparr>co_state := Cs_Quiescing, co_archived_at := coalesce (co_archived_at c) (Some now)\<rparr>) db1 = Inr (db2, n)"
    "n = 1" "db' = checkpoint_completed_tx now token Approved ''quiesce_serving_writes'' [(''community_state'', ''quiescing'')] db2"
  using assms by (auto simp: begin_quiescing_def and_then_Inr simp del: insert_iff split: if_splits)

definition quiesced :: "int \<Rightarrow> community_row \<Rightarrow> deletion_request \<Rightarrow> deletion_request" where
  "quiesced now c r =
     (if dr_quiescing_started_at r = None
      then r\<lparr>dr_pre_quiesce_archived_at := co_archived_at c, dr_quiescing_started_at := Some now, dr_updated_at := now\<rparr>
      else r)"

text \<open>What quiescing does to the two rows.\<close>

lemma begin_quiescing_effect:
  assumes inv: "db_inv api db" and s: "begin_quiescing api now token db = Inr (db', x)"
  obtains r c where "r \<in> set (dt_requests db)" "dr_id r = lt_request_id token" "dr_stage r = Approved"
    "c \<in> set (dt_communities db)" "co_id c = dr_community_id r" "state_for r c" "lease_current db now token Approved r"
    "dt_requests db' = put_row dr_id (quiesced now c r) (dt_requests db)"
    "dt_communities db' = put_row co_id (c\<lparr>co_state := Cs_Quiescing,
        co_archived_at := coalesce (co_archived_at c) (Some now)\<rparr>) (dt_communities db)"
    "co_deleted_at c = None" "dt_approvals db' = dt_approvals db" "dt_chunks db' = dt_chunks db"
    "dt_leases db' = dt_leases db" "dt_rows db' = dt_rows db" "dt_catalog db' = dt_catalog db"
proof -
  obtain c db1 db2 n m where v: "verify_lease api now token Approved db = Inr ()"
    and fc: "find_community (lt_community_id token) db = Some c"
    and u1: "update_requests (\<lambda>r. dr_id r = lt_request_id token \<and> dr_quiescing_started_at r = None)
         (\<lambda>r. r\<lparr>dr_pre_quiesce_archived_at := co_archived_at c, dr_quiescing_started_at := Some now,
            dr_updated_at := now\<rparr>) db = Inr (db1, m)"
    and u2: "update_communities (set_executor_gucs (lt_community_id token) (co_fence_generation c) plain_session)
         (\<lambda>c. co_id c = lt_community_id token \<and> co_state c \<in> {Cs_Active, Cs_Quiescing} \<and> co_deleted_at c = None)
         (\<lambda>c. c\<lparr>co_state := Cs_Quiescing, co_archived_at := coalesce (co_archived_at c) (Some now)\<rparr>) db1 = Inr (db2, n)"
    and n: "n = 1" and db': "db' = checkpoint_completed_tx now token Approved ''quiesce_serving_writes''
         [(''community_state'', ''quiescing'')] db2"
    by (rule begin_quiescing_cases [OF s])
  obtain r e where r: "r \<in> set (dt_requests db)" "dr_id r = lt_request_id token"
    "dr_community_id r = lt_community_id token" "dr_stage r = Approved" "e \<in> set (dt_communities db)"
    "co_id e = lt_community_id token" "state_for r e" "find_community (lt_community_id token) db = Some e"
    "lease_current db now token Approved r"
    by (rule leased_request [OF inv v]) simp
  have e: "e = c" using r(8) fc by simp
  have db1: "dt_communities db1 = dt_communities db" "dt_approvals db1 = dt_approvals db" "dt_chunks db1 = dt_chunks db"
    "dt_leases db1 = dt_leases db" "dt_rows db1 = dt_rows db" "dt_catalog db1 = dt_catalog db"
    using u1 by (simp_all add: update_requests_Inr)
  have "dt_requests db1 = put_row dr_id (quiesced now c r) (dt_requests db)"
  proof (cases "dr_quiescing_started_at r = None")
    case True
    then show ?thesis
      using u1 r sql_update_put [where P = "\<lambda>r. dr_id r = lt_request_id token \<and> dr_quiescing_started_at r = None",
          OF db_inv_distinct(1) [OF inv] r(1)]
      by (simp add: update_requests_Inr quiesced_def)
  next
    case False
    have "\<not> (dr_id q = lt_request_id token \<and> dr_quiescing_started_at q = None)" if "q \<in> set (dt_requests db)" for q
      using False r request_by_id [OF db_inv_distinct(1) [OF inv] r(1) that] by auto
    then have "sql_update (\<lambda>r. dr_id r = lt_request_id token \<and> dr_quiescing_started_at r = None) f (dt_requests db)
        = dt_requests db" for f
      by (rule sql_update_none)
    then have "dt_requests db1 = dt_requests db" using u1 by (simp add: update_requests_Inr)
    moreover have "quiesced now c r = r" using False by (auto simp: quiesced_def)
    ultimately show ?thesis by (simp add: put_row_same [OF db_inv_distinct(1) [OF inv] r(1)])
  qed
  moreover have "co_deleted_at c = None \<and> db2 = db1\<lparr>dt_communities := put_row co_id (c\<lparr>co_state := Cs_Quiescing,
        co_archived_at := coalesce (co_archived_at c) (Some now)\<rparr>) (dt_communities db1)\<rparr>"
    using update_community_put [OF _ _ u2, of c] n r e db_inv_distinct(2) [OF inv] db1(1) by simp
  ultimately show thesis
    using r e db1 db' by (intro that [of r c]) simp_all
qed

lemma db_inv_begin_quiescing:
  assumes inv: "db_inv api db" and s: "begin_quiescing api now token db = Inr (db', x)"
  shows "db_inv api db'"
proof -
  obtain r c where r: "r \<in> set (dt_requests db)" "dr_stage r = Approved"
    and c: "c \<in> set (dt_communities db)" "co_id c = dr_community_id r" "state_for r c" "co_deleted_at c = None"
    and db': "dt_requests db' = put_row dr_id (quiesced now c r) (dt_requests db)"
    "dt_communities db' = put_row co_id (c\<lparr>co_state := Cs_Quiescing,
        co_archived_at := coalesce (co_archived_at c) (Some now)\<rparr>) (dt_communities db)"
    "dt_approvals db' = dt_approvals db" "dt_chunks db' = dt_chunks db"
    "dt_leases db' = dt_leases db" "dt_rows db' = dt_rows db" "dt_catalog db' = dt_catalog db"
    by (rule begin_quiescing_effect [OF inv s]) blast
  let ?c = "c\<lparr>co_state := Cs_Quiescing, co_archived_at := coalesce (co_archived_at c) (Some now)\<rparr>"
  have q: "dr_id (quiesced now c r) = dr_id r" "dr_community_id (quiesced now c r) = dr_community_id r"
    "dr_stage (quiesced now c r) = Approved" "dr_quiescing_started_at (quiesced now c r) \<noteq> None"
    "inventory_ok api (quiesced now c r) = inventory_ok api r"
    "approval_matches d (quiesced now c r) = approval_matches d r"
    "chunks_ok api cs (quiesced now c r) = chunks_ok api cs r" for d cs
    using r(2) by (simp_all add: quiesced_def inventory_ok_def approval_matches_def chunks_ok_def split: option.split)
  have st: "state_for (quiesced now c r) ?c" using q c(4) by (simp add: state_for_def)
  have m: "?c \<in> set (dt_communities db')" unfolding db'(2) by (rule put_row_mem [OF c(1)]) simp
  have "request_ok api db' (quiesced now c r)"
    using db_inv_request [OF inv r(1)] q r(2) st m c(2)
    by (auto simp: request_ok_def db' purged_stage_def request_chunks_def approval_matches_def intro!: bexI [of _ ?c])
  then show ?thesis
    by (intro db_inv_replace [OF inv r(1) _ c(1,2) q(1,2) _ db'(1,2)]) (simp_all add: r q db' request_chunks_def sealed_def)
qed

lemma next_generation_Inr: "next_generation g = Inr h \<longleftrightarrow> g \<noteq> I64_MAX \<and> h = g + 1"
  by (auto simp: next_generation_def)

lemma fence_cases:
  assumes "fence api now token db = Inr (db', g)"
  obtains c db1 db2 n where "verify_lease api now token Approved db = Inr ()"
    "active_leases now (lt_community_id token) db = []"
    "find_community (lt_community_id token) db = Some c" "next_generation (co_fence_generation c) = Inr g"
    "update_communities (set_executor_gucs (lt_community_id token) g plain_session)
             (\<lambda>c. co_id c = lt_community_id token \<and> co_state c = Cs_Quiescing)
             (\<lambda>c. c\<lparr>co_state := Cs_Fenced, co_fence_generation := g,
                co_archived_at := coalesce (co_archived_at c) (Some now)\<rparr>) db = Inr (db1, n)" "n = 1"
    "advance_request_tx api now token Approved Fenced (Some g) db1 = Inr db2"
    "db' = checkpoint_completed_tx now token Approved ''activate_fence'' [(''fence_generation'', show_int g)] db2"
  using assms by (auto simp: fence_def Let_def and_then_Inr split: if_splits)

lemma fence_effect:
  assumes inv: "db_inv api db" and s: "fence api now token db = Inr (db', g)"
  obtains r c where "r \<in> set (dt_requests db)" "dr_id r = lt_request_id token" "dr_stage r = Approved"
    "c \<in> set (dt_communities db)" "co_id c = dr_community_id r" "state_for r c" "lease_current db now token Approved r"
    "co_state c = Cs_Quiescing" "g = co_fence_generation c + 1" "active_leases now (co_id c) db = []"
    "dt_requests db' = put_row dr_id (advanced now Fenced (Some g) r) (dt_requests db)"
    "dt_communities db' = put_row co_id (c\<lparr>co_state := Cs_Fenced, co_fence_generation := g,
        co_archived_at := coalesce (co_archived_at c) (Some now)\<rparr>) (dt_communities db)"
    "dt_approvals db' = dt_approvals db" "dt_chunks db' = dt_chunks db"
    "dt_leases db' = dt_leases db" "dt_rows db' = dt_rows db" "dt_catalog db' = dt_catalog db"
proof -
  obtain c db1 db2 n where v: "verify_lease api now token Approved db = Inr ()"
    and al: "active_leases now (lt_community_id token) db = []"
    and fc: "find_community (lt_community_id token) db = Some c" "next_generation (co_fence_generation c) = Inr g"
    and u: "update_communities (set_executor_gucs (lt_community_id token) g plain_session)
             (\<lambda>c. co_id c = lt_community_id token \<and> co_state c = Cs_Quiescing)
             (\<lambda>c. c\<lparr>co_state := Cs_Fenced, co_fence_generation := g,
                co_archived_at := coalesce (co_archived_at c) (Some now)\<rparr>) db = Inr (db1, n)" and n: "n = 1"
    and a: "advance_request_tx api now token Approved Fenced (Some g) db1 = Inr db2"
    and db': "db' = checkpoint_completed_tx now token Approved ''activate_fence'' [(''fence_generation'', show_int g)] db2"
    by (rule fence_cases [OF s])
  obtain r e where r: "r \<in> set (dt_requests db)" "dr_id r = lt_request_id token"
    "dr_community_id r = lt_community_id token" "dr_stage r = Approved" "e \<in> set (dt_communities db)"
    "co_id e = lt_community_id token" "state_for r e" "find_community (lt_community_id token) db = Some e"
    "lease_current db now token Approved r"
    by (rule leased_request [OF inv v]) simp
  have e: "e = c" using r(8) fc by simp
  have c1: "co_state c = Cs_Quiescing \<and> db1 = db\<lparr>dt_communities := put_row co_id (c\<lparr>co_state := Cs_Fenced,
        co_fence_generation := g, co_archived_at := coalesce (co_archived_at c) (Some now)\<rparr>) (dt_communities db)\<rparr>"
    using update_community_put [OF db_inv_distinct(2) [OF inv] _ u, of c] n r e by simp
  then have d1: "dt_requests db1 = dt_requests db" by simp
  obtain q where q: "q \<in> set (dt_requests db1)" "dr_id q = lt_request_id token"
    "db2 = db1\<lparr>dt_requests := put_row dr_id (advanced now Fenced (Some g) q) (dt_requests db1)\<rparr>"
    by (rule advance_request_tx_Inr [OF _ a]) (use d1 db_inv_distinct(1) [OF inv] in auto)
  have "q = r" using request_by_id [OF db_inv_distinct(1) [OF inv] r(1)] q d1 r by simp
  then show thesis
    using r e c1 q db' fc(2) al by (intro that [of r c]) (simp_all add: next_generation_Inr)
qed

lemma db_inv_fence:
  assumes inv: "db_inv api db" and s: "fence api now token db = Inr (db', g)"
  shows "db_inv api db'"
proof -
  obtain r c where r: "r \<in> set (dt_requests db)" "dr_stage r = Approved"
    and c: "c \<in> set (dt_communities db)" "co_id c = dr_community_id r" "state_for r c"
      "co_state c = Cs_Quiescing" "g = co_fence_generation c + 1"
    and db': "dt_requests db' = put_row dr_id (advanced now Fenced (Some g) r) (dt_requests db)"
    "dt_communities db' = put_row co_id (c\<lparr>co_state := Cs_Fenced, co_fence_generation := g,
        co_archived_at := coalesce (co_archived_at c) (Some now)\<rparr>) (dt_communities db)"
    "dt_approvals db' = dt_approvals db" "dt_chunks db' = dt_chunks db"
    "dt_leases db' = dt_leases db" "dt_rows db' = dt_rows db" "dt_catalog db' = dt_catalog db"
    by (rule fence_effect [OF inv s]) blast
  let ?c = "c\<lparr>co_state := Cs_Fenced, co_fence_generation := g, co_archived_at := coalesce (co_archived_at c) (Some now)\<rparr>"
  have "state_for (advanced now Fenced (Some g) r) ?c"
    using c r by (auto simp: state_for_def purged_stage_def split: if_splits)
  moreover have "?c \<in> set (dt_communities db')" unfolding db'(2) by (rule put_row_mem [OF c(1)]) simp
  ultimately have "request_ok api db' (advanced now Fenced (Some g) r)"
    using db_inv_request [OF inv r(1)] r(2) c(2)
    by (auto simp: request_ok_def purged_stage_def request_chunks_def approval_matches_def inventory_ok_def
        chunks_ok_def db'(3,4) split: option.splits intro!: bexI [of _ ?c])
  then show ?thesis
    by (intro db_inv_replace [OF inv r(1) _ c(1,2) _ _ _ db'(1,2)]) (simp_all add: r c db' request_chunks_def sealed_def)
qed

text \<open>The key list.\<close>

lemma db_inv_chunks_step:
  assumes inv: "db_inv api db" and r: "r \<in> set (dt_requests db)" "dr_stage r \<noteq> Aborted"
    and db': "same_tables (db\<lparr>dt_chunks := dt_chunks db'\<rparr>) db'" "dt_requests db' = dt_requests db"
    and other: "\<And>i. i \<noteq> dr_id r \<Longrightarrow> request_chunks i db' = request_chunks i db"
    and ok: "chunks_ok api (request_chunks (dr_id r) db') r"
  shows "db_inv api db'"
proof -
  have "request_ok api db' r"
    using db_inv_request [OF inv r(1)] ok db'
    by (simp add: request_ok_def same_tables_def approval_matches_def tenant_rows_in_def)
  then show ?thesis
    using db' r other
    by (intro db_inv_request_step [OF inv r, of r]) (simp_all add: same_tables_def put_row_same [OF db_inv_distinct(1) [OF inv]])
qed

lemma request_chunks_filter_other:
  "i \<noteq> j \<Longrightarrow> request_chunks i (db\<lparr>dt_chunks := filter (\<lambda>m. mk_request_id m \<noteq> j) (dt_chunks db)\<rparr>) = request_chunks i db"
  by (simp add: request_chunks_def) (metis (mono_tags, lifting) filter_cong)

lemma request_chunks_filter_same [simp]:
  "request_chunks j (db\<lparr>dt_chunks := filter (\<lambda>m. mk_request_id m \<noteq> j) (dt_chunks db)\<rparr>) = []"
  by (simp add: request_chunks_def filter_empty_conv)

lemma request_chunks_empty: "request_chunks i db = [] \<longleftrightarrow> (\<forall>m \<in> set (dt_chunks db). mk_request_id m \<noteq> i)"
  by (metis (mono_tags, lifting) filter_empty_conv length_0_conv length_sort request_chunks_def)

lemma delete_chunks_Inr:
  "delete_chunks i db = Inr db' \<longleftrightarrow>
     (request_chunks i db = [] \<or> chunk_delete_ok db i)
     \<and> db' = db\<lparr>dt_chunks := filter (\<lambda>m. mk_request_id m \<noteq> i) (dt_chunks db)\<rparr>"
  by (auto simp: delete_chunks_def request_chunks_empty list_ex_iff)

lemma db_inv_clear_chunks:
  assumes inv: "db_inv api db" and s: "clear_manifest_key_chunks api now token db = Inr (db', x)"
  shows "db_inv api db'"
proof -
  obtain g where v: "verify_lease_and_fence api now token Fenced g db = Inr ()"
    and d: "request_chunks (lt_request_id token) db = [] \<or> chunk_delete_ok db (lt_request_id token)"
    and db': "db' = db\<lparr>dt_chunks := filter (\<lambda>m. mk_request_id m \<noteq> lt_request_id token) (dt_chunks db)\<rparr>"
    using s by (auto simp: clear_manifest_key_chunks_def and_then_Inr delete_chunks_Inr)
  obtain r where r: "r \<in> set (dt_requests db)" "dr_id r = lt_request_id token" "dr_stage r = Fenced"
    by (rule fenced_request [OF inv v]) auto
  have f: "find_request (lt_request_id token) db = Some r"
    using r by (simp add: find_request_iff [OF db_inv_distinct(1) [OF inv]])
  have ok: "chunks_ok api (request_chunks (dr_id r) db) r" using db_inv_request [OF inv r(1)] by (simp add: request_ok_def)
  have "chunks_ok api (request_chunks (dr_id r) db') r"
  proof (cases "request_chunks (dr_id r) db = []")
    case True
    then show ?thesis using ok by (simp add: db' r)
  next
    case False
    then have "dr_destructive_storage_frozen_at r = None" using d r f by (auto simp: chunk_delete_ok_def)
    then show ?thesis using ok r by (simp add: chunks_ok_def)
  qed
  then show ?thesis
    by (intro db_inv_chunks_step [OF inv r(1)]) (simp_all add: r db' same_tables_def request_chunks_filter_other)
qed

lemma db_inv_append_chunk:
  assumes inv: "db_inv api db" and s: "append_manifest_key_chunk api now token no prefix keys db = Inr (db', x)"
  shows "db_inv api db'"
proof -
  obtain g m where v: "verify_lease_and_fence api now token Fenced g db = Inr ()"
    and d: "chunk_insert_ok db (lt_request_id token)"
    and db': "db' = db\<lparr>dt_chunks := dt_chunks db @ [m]\<rparr>" "mk_request_id m = lt_request_id token"
    using s by (auto simp: append_manifest_key_chunk_def and_then_Inr split: if_splits)
  obtain r where r: "r \<in> set (dt_requests db)" "dr_id r = lt_request_id token" "dr_stage r = Fenced"
    by (rule fenced_request [OF inv v]) auto
  have f: "find_request (lt_request_id token) db = Some r"
    using r by (simp add: find_request_iff [OF db_inv_distinct(1) [OF inv]])
  have "chunks_ok api (request_chunks (dr_id r) db') r"
    using db_inv_request [OF inv r(1)] d f r by (auto simp: request_ok_def chunks_ok_def chunk_insert_ok_def)
  then show ?thesis
    using db'(2) by (intro db_inv_chunks_step [OF inv r(1)]) (auto simp: r db' same_tables_def request_chunks_def)
qed

lemma insort_key_map: "insort_key f (g x) (map g xs) = map g (insort_key (\<lambda>y. f (g y)) x xs)"
  by (induction xs) auto

lemma sort_key_map: "sort_key f (map g xs) = map g (sort_key (\<lambda>y. f (g y)) xs)"
  by (induction xs) (auto simp: insort_key_map)

lemma request_chunks_map:
  assumes "\<And>m. mk_request_id (h m) = mk_request_id m" "\<And>m. mk_chunk_no (h m) = mk_chunk_no m"
  shows "request_chunks i (db\<lparr>dt_chunks := map h (dt_chunks db)\<rparr>) = map h (request_chunks i db)"
  using assms by (simp add: request_chunks_def filter_map comp_def sort_key_map)

lemma db_inv_mark_chunk:
  assumes inv: "db_inv api db" and s: "mark_manifest_chunk_deleted api now token no detail db = Inr (db', x)"
  shows "db_inv api db'"
proof -
  define h where "h = (\<lambda>m. if mk_request_id m = lt_request_id token \<and> mk_chunk_no m = no \<and> mk_deleted_at m = None
      then m\<lparr>mk_deleted_at := Some now\<rparr> else (m :: manifest_key_row))"
  obtain g where v: "verify_lease_and_fence api now token Drained g db = Inr ()"
    and db': "db' = checkpoint_completed_tx now token Drained (''chunk:'' @ show_int no) detail
       (db\<lparr>dt_chunks := map h (dt_chunks db)\<rparr>)"
    using s by (auto simp: mark_manifest_chunk_deleted_def Let_def and_then_Inr h_def sql_update_def split: if_splits)
  obtain r where r: "r \<in> set (dt_requests db)" "dr_id r = lt_request_id token" "dr_stage r = Drained"
    by (rule fenced_request [OF inv v]) auto
  have ch: "request_chunks i db' = map h (request_chunks i db)" for i
    using request_chunks_map [of h i db] by (simp add: db' h_def request_chunks_def)
  have "map chunk_row (map h cs) = map chunk_row cs" for cs by (simp add: h_def chunk_row_def)
  then have "chunks_ok api (request_chunks (dr_id r) db') r"
    using db_inv_request [OF inv r(1)] unfolding request_ok_def chunks_ok_def ch
    by (simp del: map_map split: option.splits)
  moreover have "map h (request_chunks i db) = request_chunks i db" if "i \<noteq> dr_id r" for i
    using that r by (intro map_idI) (auto simp: h_def request_chunks_def)
  moreover have "same_tables (db\<lparr>dt_chunks := dt_chunks db'\<rparr>) db'" "dt_requests db' = dt_requests db"
    by (simp_all add: db' same_tables_def)
  ultimately show ?thesis using ch by (intro db_inv_chunks_step [OF inv r(1)]) (simp_all add: r)
qed

lemma db_inv_freeze_destructive:
  assumes inv: "db_inv api db" and s: "freeze_destructive_storage_manifest api now token manifest db = Inr (db', x)"
  shows "db_inv api db'"
proof -
  let ?P = "\<lambda>r. dr_id r = lt_request_id token \<and> dr_lease_owner r = Some (lt_owner token)
                \<and> dr_lease_generation r = lt_generation token \<and> dr_stage r = Fenced
                \<and> (dr_destructive_storage_manifest r = None \<or> dr_destructive_storage_manifest r = Some manifest)"
  define f :: "deletion_request \<Rightarrow> deletion_request"
    where "f = (\<lambda>r. r\<lparr>dr_destructive_storage_manifest := coalesce (dr_destructive_storage_manifest r) (Some manifest),
                dr_destructive_storage_frozen_at := coalesce (dr_destructive_storage_frozen_at r) (Some now),
                dr_updated_at := now\<rparr>)"
  obtain g n where v: "verify_lease_and_fence api now token Fenced g db = Inr ()"
    and m: "validate_storage_manifest manifest = Inr ()"
      "validate_manifest_key_chunks api manifest (map chunk_row (request_chunks (lt_request_id token) db)) = Inr ()"
    and u: "update_requests ?P f db = Inr (db', n)" "n \<noteq> 0"
    using s by (auto simp: freeze_destructive_storage_manifest_def and_then_Inr f_def split: if_splits)
  obtain r where r: "r \<in> set (dt_requests db)" "dr_id r = lt_request_id token" "dr_stage r = Fenced"
    by (rule fenced_request [OF inv v]) auto
  have db': "?P r" "db' = db\<lparr>dt_requests := put_row dr_id (f r) (dt_requests db)\<rparr>"
    using update_request_put [OF db_inv_distinct(1) [OF inv] r(1) u] r by (simp_all add: f_def)
  have "dr_destructive_storage_manifest (f r) = Some manifest" "dr_destructive_storage_frozen_at (f r) \<noteq> None"
    using db'(1) by (auto simp: f_def coalesce_def split: option.splits)
  then have "request_ok api db' (f r)"
    using db_inv_request [OF inv r(1)] r m
    by (auto simp: request_ok_def db'(2) f_def inventory_ok_def state_for_def chunks_ok_def approval_matches_def
        request_chunks_def tenant_rows_in_def split: option.splits if_splits)
  then show ?thesis
    by (intro db_inv_request_step [OF inv r(1), of "f r"]) (simp_all add: r db'(2) request_chunks_def, simp_all add: f_def r)
qed

text \<open>The purge.\<close>

lemma purge_covers: "set PURGE_SCOPED_TABLES = set EXPECTED_SCOPED_TABLES"
  by code_simp

lemma delete_tenant_rows_Inr:
  "delete_tenant_rows s now t c db = Inr (db', n) \<Longrightarrow>
     db' = db\<lparr>dt_rows := filter (\<lambda>w. \<not> (tr_table w = t \<and> tr_community w = Some c)) (dt_rows db)\<rparr>"
  by (auto simp: delete_tenant_rows_def Let_def and_then_Inr)

lemma purge_tables_Inr:
  "purge_tables s now token ts db = Inr (db', del) \<Longrightarrow>
     same_tables (db\<lparr>dt_rows := dt_rows db'\<rparr>) db' \<and> dt_requests db' = dt_requests db
     \<and> dt_rows db' = filter (\<lambda>w. \<not> (tr_table w \<in> set ts \<and> tr_community w = Some (lt_community_id token))) (dt_rows db)"
proof (induction s now token ts db arbitrary: db' del rule: purge_tables.induct)
  case (1 s now token db)
  then show ?case by (auto simp: same_tables_def)
next
  case (2 s now token t ts db)
  obtain db1 n del' where d: "delete_tenant_rows s now t (lt_community_id token) db = Inr (db1, n)"
    and p: "purge_tables s now token ts (checkpoint_completed_tx now token BindingsRemoved (''purge:'' @ t)
           [(''rows'', show_nat n)] db1) = Inr (db', del')"
    using "2.prems" by (auto simp: and_then_Inr)
  from "2.IH" [OF p] d show ?case
    by (auto simp: same_tables_def dest!: delete_tenant_rows_Inr intro: filter_cong)
qed

lemma clear_provenance_all_Inr:
  "clear_provenance_all s now token ts db = Inr db' \<Longrightarrow>
     same_tables (db\<lparr>dt_rows := dt_rows db'\<rparr>) db' \<and> dt_requests db' = dt_requests db
     \<and> (\<forall>w \<in> set (dt_rows db'). \<forall>i. tr_community w = Some i \<longrightarrow> w \<in> set (dt_rows db))"
proof (induction s now token ts db arbitrary: db' rule: clear_provenance_all.induct)
  case (1 s now token db)
  then show ?case by (auto simp: same_tables_def)
next
  case (2 s now token t ts db)
  obtain db1 n where d: "clear_provenance s now t (lt_community_id token) db = Inr (db1, n)"
    and p: "clear_provenance_all s now token ts (checkpoint_completed_tx now token BindingsRemoved
         (''clear_provenance:'' @ t) [(''rows'', show_nat n)] db1) = Inr db'"
    using "2.prems" by (auto simp: and_then_Inr)
  have "db1 = db\<lparr>dt_rows := sql_update (\<lambda>w. tr_table w = t \<and> tr_community w = Some (lt_community_id token))
      (\<lambda>w. w\<lparr>tr_community := None\<rparr>) (dt_rows db)\<rparr>"
    using d by (auto simp: clear_provenance_def Let_def and_then_Inr)
  with "2.IH" [OF p] show ?case by (fastforce simp: same_tables_def sql_update_def split: if_splits)
qed

lemma purge_cases:
  assumes "purge_postgres api now token db = Inr (db', deleted)"
  obtains g db1 db2 db3 db4 n where "lt_fence_generation token = Some g" "validate_catalog_on db = Inr ()"
    "verify_lease_and_fence api now token BindingsRemoved g db = Inr ()"
    "clear_provenance_all (set_executor_gucs (lt_community_id token) g plain_session) now token
       [''product_feedback'', ''rate_limit_violations''] db = Inr db1"
    "purge_tables (set_executor_gucs (lt_community_id token) g plain_session) now token PURGE_SCOPED_TABLES db1
       = Inr (db2, deleted)"
    "update_communities (set_executor_gucs (lt_community_id token) g plain_session)
           (\<lambda>c. co_id c = lt_community_id token \<and> co_state c = Cs_Fenced \<and> co_fence_generation c = g)
           (\<lambda>c. c\<lparr>co_state := Cs_Tombstone, co_deleted_at := coalesce (co_deleted_at c) (Some now),
              co_archived_at := coalesce (co_archived_at c) (Some now), co_signing_key := None,
              co_icon := None\<rparr>) db2 = Inr (db3, n)" "n = 1"
    "advance_request_tx api now token BindingsRemoved PostgresPurged (Some g) db3 = Inr db4"
    "db' = checkpoint_completed_tx now token BindingsRemoved ''postgres_tombstone_committed''
               (map (\<lambda>(t, n). (t, show_nat n)) deleted) db4"
  using assms by (auto simp: purge_postgres_def Let_def and_then_Inr require_fence_Inr split: if_splits)

definition tombstoned :: "int \<Rightarrow> community_row \<Rightarrow> community_row" where
  "tombstoned now c =
     c\<lparr>co_state := Cs_Tombstone, co_deleted_at := coalesce (co_deleted_at c) (Some now),
       co_archived_at := coalesce (co_archived_at c) (Some now), co_signing_key := None, co_icon := None\<rparr>"

lemma purge_effect:
  assumes inv: "db_inv api db" and s: "purge_postgres api now token db = Inr (db', deleted)"
  obtains r c g where "r \<in> set (dt_requests db)" "dr_id r = lt_request_id token" "dr_stage r = BindingsRemoved"
    "c \<in> set (dt_communities db)" "co_id c = dr_community_id r" "state_for r c" "co_fence_generation c = g"
    "dr_fence_generation r = Some g" "lease_current db now token BindingsRemoved r"
    "dt_requests db' = put_row dr_id (advanced now PostgresPurged (Some g) r) (dt_requests db)"
    "dt_communities db' = put_row co_id (tombstoned now c) (dt_communities db)"
    "dt_approvals db' = dt_approvals db" "dt_chunks db' = dt_chunks db"
    "dt_leases db' = dt_leases db" "dt_catalog db' = dt_catalog db"
    "\<forall>w \<in> set (dt_rows db'). \<forall>i. tr_community w = Some i \<longrightarrow> w \<in> set (dt_rows db)"
    "\<forall>t \<in> set EXPECTED_SCOPED_TABLES. \<not> tenant_rows_in t (dr_community_id r) db'"
    "validate_catalog_on db = Inr ()"
proof -
  obtain g db1 db2 db3 db4 n where cat: "validate_catalog_on db = Inr ()"
    and v: "verify_lease_and_fence api now token BindingsRemoved g db = Inr ()"
    and p1: "clear_provenance_all (set_executor_gucs (lt_community_id token) g plain_session) now token
       [''product_feedback'', ''rate_limit_violations''] db = Inr db1"
    and p2: "purge_tables (set_executor_gucs (lt_community_id token) g plain_session) now token PURGE_SCOPED_TABLES db1
       = Inr (db2, deleted)"
    and u: "update_communities (set_executor_gucs (lt_community_id token) g plain_session)
           (\<lambda>c. co_id c = lt_community_id token \<and> co_state c = Cs_Fenced \<and> co_fence_generation c = g)
           (tombstoned now) db2 = Inr (db3, n)" and n: "n = 1"
    and a: "advance_request_tx api now token BindingsRemoved PostgresPurged (Some g) db3 = Inr db4"
    and db': "db' = checkpoint_completed_tx now token BindingsRemoved ''postgres_tombstone_committed''
               (map (\<lambda>(t, n). (t, show_nat n)) deleted) db4"
    unfolding tombstoned_def [abs_def] by (rule purge_cases [OF s])
  obtain r c where r: "r \<in> set (dt_requests db)" "dr_id r = lt_request_id token"
    "dr_community_id r = lt_community_id token" "dr_stage r = BindingsRemoved" "c \<in> set (dt_communities db)"
    "co_id c = lt_community_id token" "state_for r c" "dr_fence_generation r = Some g" "co_fence_generation c = g"
    "lease_current db now token BindingsRemoved r"
    by (rule fenced_request [OF inv v]) auto
  note f1 = clear_provenance_all_Inr [OF p1] and f2 = purge_tables_Inr [OF p2]
  have e2: "dt_requests db2 = dt_requests db" "dt_communities db2 = dt_communities db" "dt_approvals db2 = dt_approvals db"
    "dt_chunks db2 = dt_chunks db" "dt_leases db2 = dt_leases db" "dt_catalog db2 = dt_catalog db"
    using f1 f2 by (simp_all add: same_tables_def)
  have e3: "db3 = db2\<lparr>dt_communities := put_row co_id (tombstoned now c) (dt_communities db)\<rparr>"
    using update_community_put [OF _ _ u, of c] n r db_inv_distinct(2) [OF inv] e2 by (simp add: tombstoned_def)
  obtain q where q: "q \<in> set (dt_requests db3)" "dr_id q = lt_request_id token"
    "db4 = db3\<lparr>dt_requests := put_row dr_id (advanced now PostgresPurged (Some g) q) (dt_requests db3)\<rparr>"
    by (rule advance_request_tx_Inr [OF _ a]) (use e2 e3 db_inv_distinct(1) [OF inv] in auto)
  have "q = r" using request_by_id [OF db_inv_distinct(1) [OF inv] r(1)] q e3 e2 r by simp
  moreover have "\<forall>w \<in> set (dt_rows db'). \<forall>i. tr_community w = Some i \<longrightarrow> w \<in> set (dt_rows db)"
    using f1 f2 by (simp add: db' q e3)
  moreover have "\<forall>t \<in> set EXPECTED_SCOPED_TABLES. \<not> tenant_rows_in t (dr_community_id r) db'"
    using f2 by (auto simp: db' q e3 tenant_rows_in_def list_ex_iff purge_covers r)
  ultimately show thesis
    using r e2 e3 q db' cat by (intro that [of r c g]) simp_all
qed

lemma db_inv_purge:
  assumes inv: "db_inv api db" and s: "purge_postgres api now token db = Inr (db', deleted)"
  shows "db_inv api db'"
proof -
  obtain r c g where r: "r \<in> set (dt_requests db)" "dr_stage r = BindingsRemoved"
    and c: "c \<in> set (dt_communities db)" "co_id c = dr_community_id r" "state_for r c" "co_fence_generation c = g"
    and db': "dt_requests db' = put_row dr_id (advanced now PostgresPurged (Some g) r) (dt_requests db)"
    "dt_communities db' = put_row co_id (tombstoned now c) (dt_communities db)"
    "dt_approvals db' = dt_approvals db" "dt_chunks db' = dt_chunks db"
    "dt_leases db' = dt_leases db" "dt_catalog db' = dt_catalog db"
    "\<forall>w \<in> set (dt_rows db'). \<forall>i. tr_community w = Some i \<longrightarrow> w \<in> set (dt_rows db)"
    "\<forall>t \<in> set EXPECTED_SCOPED_TABLES. \<not> tenant_rows_in t (dr_community_id r) db'"
    by (rule purge_effect [OF inv s]) blast
  have t: "co_id (tombstoned now c) = co_id c" "co_state (tombstoned now c) = Cs_Tombstone"
    "co_deleted_at (tombstoned now c) \<noteq> None" "co_fence_generation (tombstoned now c) = co_fence_generation c"
    by (simp_all add: tombstoned_def coalesce_def split: option.split)
  have "sealed c" using c r by (auto simp: state_for_def sealed_def purged_stage_def)
  have "state_for (advanced now PostgresPurged (Some g) r) (tombstoned now c)"
    using c r t by (auto simp: state_for_def purged_stage_def)
  moreover have "tombstoned now c \<in> set (dt_communities db')" unfolding db'(2) by (rule put_row_mem [OF c(1) t(1)])
  ultimately have "request_ok api db' (advanced now PostgresPurged (Some g) r)"
    using db_inv_request [OF inv r(1)] r(2) c(2) t db'(8)
    by (auto simp: request_ok_def request_chunks_def approval_matches_def inventory_ok_def
        chunks_ok_def db'(3,4) split: option.splits intro!: bexI [of _ "tombstoned now c"])
  then show ?thesis
    using db'(7) t \<open>sealed c\<close>
    by (intro db_inv_replace [OF inv r(1) _ c(1,2) _ _ t(1) db'(1,2)]) (auto simp: r c db'(3-6) request_chunks_def)
qed

text \<open>The end of a deletion, and the abort.\<close>

lemma db_inv_logically_verified:
  assumes inv: "db_inv api db" and s: "mark_logically_verified api now token detail db = Inr (db', x)"
  shows "db_inv api db'"
proof -
  obtain g db1 where v: "verify_lease_and_fence api now token CachePurged g db = Inr ()"
    and a: "advance_request_tx api now token CachePurged LogicallyVerified (Some g) db = Inr db1"
    and d: "db' = (checkpoint_completed_tx now token CachePurged ''verify_cross_store_absence'' detail db1)
       \<lparr>dt_chunks := filter (\<lambda>m. mk_request_id m \<noteq> lt_request_id token) (dt_chunks db1)\<rparr>"
    using s by (auto simp: mark_logically_verified_def and_then_Inr delete_chunks_Inr)
  obtain r c where r: "r \<in> set (dt_requests db)" "dr_id r = lt_request_id token" "dr_stage r = CachePurged"
    "dr_community_id r = lt_community_id token" "c \<in> set (dt_communities db)" "co_id c = lt_community_id token"
    "state_for r c" "dr_fence_generation r = Some g"
    by (rule fenced_request [OF inv v]) auto
  obtain q where q: "q \<in> set (dt_requests db)" "dr_id q = lt_request_id token"
    "db1 = db\<lparr>dt_requests := put_row dr_id (advanced now LogicallyVerified (Some g) q) (dt_requests db)\<rparr>"
    by (rule advance_request_tx_Inr [OF db_inv_distinct(1) [OF inv] a]) auto
  have qr: "q = r" using request_by_id [OF db_inv_distinct(1) [OF inv] q(1) r(1)] q r by simp
  have db': "dt_requests db' = put_row dr_id (advanced now LogicallyVerified (Some g) r) (dt_requests db)"
    "dt_communities db' = dt_communities db" "dt_approvals db' = dt_approvals db"
    "dt_leases db' = dt_leases db" "dt_rows db' = dt_rows db" "dt_catalog db' = dt_catalog db"
    "dt_chunks db' = filter (\<lambda>m. mk_request_id m \<noteq> lt_request_id token) (dt_chunks db)"
    by (simp_all add: d q(3) qr)
  have ch: "request_chunks (lt_request_id token) db' = []"
    "i \<noteq> lt_request_id token \<Longrightarrow> request_chunks i db' = request_chunks i db" for i
    using request_chunks_filter_same [of "lt_request_id token" db]
      request_chunks_filter_other [of i "lt_request_id token" db]
    by (simp_all add: request_chunks_def db'(7))
  have "state_for (advanced now LogicallyVerified (Some g) r) c"
    using r by (auto simp: state_for_def purged_stage_def split: if_splits)
  then have "request_ok api db' (advanced now LogicallyVerified (Some g) r)"
    using db_inv_request [OF inv r(1)] r ch(1)
    by (auto simp: request_ok_def inventory_ok_def approval_matches_def chunks_ok_def purged_stage_def tenant_rows_in_def
        db'(2,3,5) split: option.splits intro!: bexI [of _ c])
  then show ?thesis
    using ch(2) by (intro db_inv_request_step [OF inv r(1) _ _ _ _ db'(1)]) (simp_all add: r db')
qed

lemma db_inv_retention_pending:
  assumes inv: "db_inv api db" and s: "mark_retention_pending api now token detail db = Inr (db', x)"
  shows "db_inv api db'"
proof -
  define f :: "deletion_request \<Rightarrow> deletion_request"
    where "f = (\<lambda>r. r\<lparr>dr_stage := RetentionPending, dr_completed_at := Some now, dr_updated_at := now,
            dr_lease_owner := None, dr_lease_until := None, dr_retry_count := 0, dr_retry_stage := None,
            dr_last_error := None, dr_last_error_at := None\<rparr>)"
  let ?db = "checkpoint_completed_tx now token LogicallyVerified ''retention_physical_expiry_pending'' detail db"
  obtain g where v: "verify_lease_and_fence api now token LogicallyVerified g db = Inr ()"
    and u: "update_requests
         (\<lambda>r. dr_id r = lt_request_id token \<and> dr_stage r = LogicallyVerified
            \<and> dr_lease_owner r = Some (lt_owner token) \<and> dr_lease_generation r = lt_generation token
            \<and> at_or_after (dr_lease_until r) now \<and> dr_fence_generation r = Some g) f ?db = Inr (db', 1)"
    using s by (auto simp: mark_retention_pending_def and_then_Inr f_def split: if_splits)
  obtain r where r: "r \<in> set (dt_requests db)" "dr_id r = lt_request_id token" "dr_stage r = LogicallyVerified"
    by (rule fenced_request [OF inv v]) auto
  have e: "db' = ?db\<lparr>dt_requests := put_row dr_id (f r) (dt_requests db)\<rparr>"
    using update_request_put [OF _ _ u, of r] r db_inv_distinct(1) [OF inv] by (simp add: f_def)
  have db': "dt_requests db' = put_row dr_id (f r) (dt_requests db)"
    "dt_communities db' = dt_communities db" "dt_approvals db' = dt_approvals db" "dt_chunks db' = dt_chunks db"
    "dt_leases db' = dt_leases db" "dt_rows db' = dt_rows db" "dt_catalog db' = dt_catalog db"
    by (simp_all add: e)
  have fr: "dr_id (f r) = dr_id r" "dr_community_id (f r) = dr_community_id r" "dr_stage (f r) \<noteq> Aborted"
    by (simp_all add: f_def)
  have "request_ok api db' (f r)"
    using db_inv_request [OF inv r(1)] r(3)
    by (auto simp: request_ok_def inventory_ok_def approval_matches_def chunks_ok_def purged_stage_def tenant_rows_in_def
        state_for_def request_chunks_def f_def db'(2,3,4,6) split: option.splits)
  then show ?thesis
    by (intro db_inv_request_step [OF inv r(1) _ fr db'(1,2)]) (simp_all add: r db'(3-7) request_chunks_def)
qed

definition aborted_row :: "int \<Rightarrow> int \<Rightarrow> string \<Rightarrow> string \<Rightarrow> deletion_request \<Rightarrow> deletion_request" where
  "aborted_row now g by reason r =
     r\<lparr>dr_stage := Aborted, dr_aborted_by := Some (bound_text by 512), dr_abort_reason := Some (bound_text reason 4096),
       dr_aborted_at := Some now, dr_completed_at := Some now, dr_fence_generation := Some g,
       dr_lease_owner := None, dr_lease_until := None, dr_lease_generation := dr_lease_generation r + 1,
       dr_blocked_at := None, dr_blocked_reason := None, dr_retry_count := 0, dr_retry_stage := None,
       dr_next_attempt_at := now, dr_updated_at := now\<rparr>"

definition restored_row :: "int \<Rightarrow> deletion_request \<Rightarrow> community_row \<Rightarrow> community_row" where
  "restored_row g r c =
     c\<lparr>co_state := Cs_Active, co_fence_generation := g,
       co_archived_at := restored_archived_at r c\<rparr>"

lemma abort_cases:
  assumes "abort_request api nonce now i by reason db = Inr (db', x)"
  obtains r c g db1 db2 n m k where "find_request i db = Some r" "dr_stage r = Approved \<or> dr_stage r = Fenced"
    "active_leases now (dr_community_id r) db = []" "find_community (dr_community_id r) db = Some c"
    "next_generation (co_fence_generation c) = Inr g"
    "update_communities (set_executor_gucs (dr_community_id r) g plain_session)
       (\<lambda>c. co_id c = dr_community_id r \<and> co_state c \<in> {Cs_Active, Cs_Quiescing, Cs_Fenced} \<and> co_deleted_at c = None)
       (\<lambda>e. e\<lparr>co_state := Cs_Active, co_fence_generation := g,
          co_archived_at := restored_archived_at r c\<rparr>)
       db = Inr (db1, n)" "n = 1"
    "insert_checkpoint k db1 = Inr db2"
    "update_requests (\<lambda>r. dr_id r = i) (aborted_row now g (trim by) (trim reason)) db2 = Inr (db', m)" "m \<noteq> 0"
    "find_request i db' = Some x" "trim by \<noteq> []" "trim reason \<noteq> []"
  using assms
  by (auto simp: abort_request_def Let_def and_then_Inr updated_request_Inr set_request_def aborted_row_def [abs_def]
      simp del: insert_iff split: if_splits)

lemma abort_effect:
  assumes inv: "db_inv api db" and s: "abort_request api nonce now i by reason db = Inr (db', x)"
  obtains r c g where "r \<in> set (dt_requests db)" "dr_id r = i" "dr_stage r \<in> {Approved, Fenced}"
    "c \<in> set (dt_communities db)" "co_id c = dr_community_id r" "state_for r c" "g = co_fence_generation c + 1"
    "active_leases now (dr_community_id r) db = []" "co_deleted_at c = None"
    "dt_requests db' = put_row dr_id (aborted_row now g (trim by) (trim reason) r) (dt_requests db)"
    "dt_communities db' = put_row co_id (restored_row g r c) (dt_communities db)"
    "dt_approvals db' = dt_approvals db" "dt_chunks db' = dt_chunks db"
    "dt_leases db' = dt_leases db" "dt_rows db' = dt_rows db" "dt_catalog db' = dt_catalog db"
    "x = aborted_row now g (trim by) (trim reason) r"
proof -
  obtain r c g db1 db2 n m k where fr: "find_request i db = Some r" and st: "dr_stage r = Approved \<or> dr_stage r = Fenced"
    and al: "active_leases now (dr_community_id r) db = []" and fc: "find_community (dr_community_id r) db = Some c"
    and g: "next_generation (co_fence_generation c) = Inr g"
    and u: "update_communities (set_executor_gucs (dr_community_id r) g plain_session)
       (\<lambda>c. co_id c = dr_community_id r \<and> co_state c \<in> {Cs_Active, Cs_Quiescing, Cs_Fenced} \<and> co_deleted_at c = None)
       (\<lambda>e. e\<lparr>co_state := Cs_Active, co_fence_generation := g,
          co_archived_at := restored_archived_at r c\<rparr>)
       db = Inr (db1, n)" and n: "n = 1"
    and k: "insert_checkpoint k db1 = Inr db2"
    and w: "update_requests (\<lambda>r. dr_id r = i) (aborted_row now g (trim by) (trim reason)) db2 = Inr (db', m)" "m \<noteq> 0"
    and x: "find_request i db' = Some x"
    by (rule abort_cases [OF s])
  have r: "r \<in> set (dt_requests db)" "dr_id r = i" using fr by (simp_all add: find_request_iff [OF db_inv_distinct(1) [OF inv]])
  have c: "c \<in> set (dt_communities db)" "co_id c = dr_community_id r"
    using fc by (simp_all add: find_community_iff [OF db_inv_distinct(2) [OF inv]])
  obtain e where "e \<in> set (dt_communities db)" "co_id e = dr_community_id r" "state_for r e"
    by (rule live_community [OF inv r(1)]) (use st in auto)
  then have sf: "state_for r c" using community_by_id [OF db_inv_distinct(2) [OF inv] c(1)] c by metis
  have e1: "co_deleted_at c = None" "db1 = db\<lparr>dt_communities := put_row co_id (restored_row g r c) (dt_communities db)\<rparr>"
    using update_community_put [OF db_inv_distinct(2) [OF inv] c(1) u] n c by (simp_all add: restored_row_def)
  have e2: "dt_requests db2 = dt_requests db1" "dt_communities db2 = dt_communities db1"
    "dt_approvals db2 = dt_approvals db1" "dt_chunks db2 = dt_chunks db1" "dt_leases db2 = dt_leases db1"
    "dt_rows db2 = dt_rows db1" "dt_catalog db2 = dt_catalog db1"
    using k by (auto simp: insert_checkpoint_def split: if_splits)
  have ar: "dr_id (aborted_row now g (trim by) (trim reason) r) = dr_id r" by (simp add: aborted_row_def)
  have e3: "db' = db2\<lparr>dt_requests := put_row dr_id (aborted_row now g (trim by) (trim reason) r) (dt_requests db)\<rparr>"
    using update_request_put [OF _ _ w, of r] r ar db_inv_distinct(1) [OF inv] e1 e2 by simp
  have "distinct (map dr_id (dt_requests db'))" using db_inv_distinct(1) [OF inv] by (simp add: e3)
  moreover have "aborted_row now g (trim by) (trim reason) r \<in> set (dt_requests db')"
    by (simp add: e3 put_row_mem [OF r(1) ar])
  moreover have "x \<in> set (dt_requests db') \<and> dr_id x = i" using x find_request_iff [OF calculation(1)] by simp
  ultimately have "x = aborted_row now g (trim by) (trim reason) r"
    using r(2) ar by (intro request_by_id [of db']) simp_all
  then show thesis
    using r st c sf g al e1 e2 e3 by (intro that [of r c g]) (simp_all add: next_generation_Inr)
qed

lemma db_inv_abort:
  assumes inv: "db_inv api db" and s: "abort_request api nonce now i by reason db = Inr (db', x)"
  shows "db_inv api db'"
proof -
  obtain r c g where r: "r \<in> set (dt_requests db)" "dr_stage r \<in> {Approved, Fenced}"
    and c: "c \<in> set (dt_communities db)" "co_id c = dr_community_id r" "g = co_fence_generation c + 1" "co_deleted_at c = None"
    and db': "dt_requests db' = put_row dr_id (aborted_row now g (trim by) (trim reason) r) (dt_requests db)"
    "dt_communities db' = put_row co_id (restored_row g r c) (dt_communities db)"
    "dt_approvals db' = dt_approvals db" "dt_chunks db' = dt_chunks db"
    "dt_leases db' = dt_leases db" "dt_rows db' = dt_rows db" "dt_catalog db' = dt_catalog db"
    by (rule abort_effect [OF inv s]) blast
  let ?a = "aborted_row now g (trim by) (trim reason) r"
  have a: "dr_id ?a = dr_id r" "dr_community_id ?a = dr_community_id r" "dr_stage ?a = Aborted"
    "dr_inventory_manifest ?a = dr_inventory_manifest r" "dr_inventory_digest ?a = dr_inventory_digest r"
    "dr_inventory_frozen_at ?a = dr_inventory_frozen_at r"
    "dr_destructive_storage_manifest ?a = dr_destructive_storage_manifest r"
    "dr_destructive_storage_frozen_at ?a = dr_destructive_storage_frozen_at r"
    by (simp_all add: aborted_row_def)
  have ok: "inventory_ok api r" "approval_matches db r" "chunks_ok api (request_chunks (dr_id r) db) r"
    "dr_stage r \<noteq> Submitted"
    using db_inv_request [OF inv r(1)] r(2) by (auto simp: request_ok_def)
  have ch: "request_chunks i db' = request_chunks i db" for i by (simp add: request_chunks_def db'(4))
  have "chunks_ok api (request_chunks (dr_id r) db) ?a"
    using ok(3) r(2) unfolding chunks_ok_def a by (cases "dr_destructive_storage_frozen_at r") auto
  moreover have "inventory_ok api ?a" using ok(1,4) unfolding inventory_ok_def a by simp
  moreover have "approval_matches db' ?a" using ok(2) unfolding approval_matches_def a db'(3) .
  ultimately have "request_ok api db' ?a" by (simp add: request_ok_def a ch purged_stage_def)
  then show ?thesis
    using r(2) c
    by (intro db_inv_replace [OF inv r(1) _ c(1,2) a(1,2) _ db'(1,2)])
      (auto simp: db'(3-7) ch restored_row_def a sealed_def)
qed

section \<open>Serving leases and the rest of the system\<close>

text \<open>The request table stays.\<close>

lemma one_live_same: "dt_requests db' = dt_requests db \<Longrightarrow> one_live db' = one_live db"
  by (simp only: one_live_def)

lemma db_inv_same_requests:
  assumes inv: "db_inv api db" and reqs: "dt_requests db' = dt_requests db"
    and "distinct (map co_id (dt_communities db'))"
    and "\<And>r. r \<in> set (dt_requests db) \<Longrightarrow> request_ok api db r \<Longrightarrow> request_ok api db' r"
    and "\<And>c. c \<in> set (dt_communities db') \<Longrightarrow> community_ok db' c"
    and "\<And>l. l \<in> set (dt_leases db') \<Longrightarrow> lease_target db' l \<and> lease_ok db' l"
    and "set EXPECTED_SCOPED_TABLES \<subseteq> live_fenced_tables_on db'"
  shows "db_inv api db'"
  unfolding db_inv_def reqs one_live_same [OF reqs]
  using assms(3-7) inv [unfolded db_inv_def] by blast

lemma community_ok_same: "dt_requests db' = dt_requests db \<Longrightarrow> community_ok db' c = community_ok db c"
  by (simp only: community_ok_def)

lemma lease_same:
  assumes "dt_communities db' = dt_communities db"
  shows "lease_ok db' l = lease_ok db l" "lease_target db' l = lease_target db l"
  using assms by (simp_all only: lease_ok_def lease_target_def)

lemma request_ok_same:
  assumes "dt_approvals db' = dt_approvals db" "dt_communities db' = dt_communities db" "dt_rows db' = dt_rows db"
    "dt_chunks db' = dt_chunks db"
  shows "request_ok api db' r = request_ok api db r"
  using assms by (simp only: request_ok_def approval_matches_def tenant_rows_in_def request_chunks_def)

lemma fenced_same: "dt_catalog db' = dt_catalog db \<Longrightarrow> live_fenced_tables_on db' = live_fenced_tables_on db"
  by (simp only: live_fenced_tables_on_def)

lemmas same_simps = community_ok_same lease_same request_ok_same fenced_same

lemma db_invD:
  assumes "db_inv api db"
  shows "c \<in> set (dt_communities db) \<Longrightarrow> community_ok db c"
    "l \<in> set (dt_leases db) \<Longrightarrow> lease_target db l \<and> lease_ok db l"
    "set EXPECTED_SCOPED_TABLES \<subseteq> live_fenced_tables_on db"
  using assms unfolding db_inv_def by blast+

lemma db_inv_leases:
  assumes "db_inv api db" "db' = db\<lparr>dt_leases := ls\<rparr>" "\<And>l. l \<in> set ls \<Longrightarrow> lease_target db l \<and> lease_ok db l"
  shows "db_inv api db'"
proof -
  have f: "dt_requests db' = dt_requests db" "dt_communities db' = dt_communities db" "dt_approvals db' = dt_approvals db"
    "dt_chunks db' = dt_chunks db" "dt_rows db' = dt_rows db" "dt_catalog db' = dt_catalog db" "dt_leases db' = ls"
    by (simp_all add: assms(2))
  show ?thesis
    by (rule db_inv_same_requests [OF assms(1)])
      (use assms(3) db_invD [OF assms(1)] db_inv_distinct [OF assms(1)] in \<open>simp_all add: same_simps [of db' db] f\<close>)
qed

lemma db_inv_acquire:
  assumes inv: "db_inv api db" and s: "acquire_serving_write_lease api i now c op owner d db = Inr (db', l)"
  shows "db_inv api db'"
proof -
  obtain e where e: "e \<in> set (dt_communities db)" "co_id e = c" "co_state e = Cs_Active"
    and l: "sw_community_id l = c" "sw_fence_generation l = co_fence_generation e"
    and db': "db' = db\<lparr>dt_leases := dt_leases db @ [l]\<rparr>"
    using s
    by (auto simp: acquire_serving_write_lease_def Let_def split: sum.splits option.splits if_splits dest!: find_SomeD)
  have "lease_ok db l"
    unfolding lease_ok_def
  proof (intro ballI impI)
    fix k assume "k \<in> set (dt_communities db)" "co_id k = sw_community_id l"
    then have "k = e" using community_by_id [OF db_inv_distinct(2) [OF inv] _ e(1)] e l by simp
    then show "sw_fence_generation l \<le> co_fence_generation k
        \<and> (sealed k \<longrightarrow> sw_fence_generation l < co_fence_generation k)"
      using e l by (simp add: sealed_def)
  qed
  then show ?thesis
    using db_invD(2) [OF inv] e l by (intro db_inv_leases [OF inv db']) (auto simp: lease_target_def)
qed

lemma db_inv_renew:
  assumes inv: "db_inv api db" and s: "renew_serving_write_lease api now l d db = Inr (db', x)"
  shows "db_inv api db'"
proof -
  have db': "db' = db\<lparr>dt_leases := sql_update (lease_row_valid db now l)
      (\<lambda>k. k\<lparr>sw_lease_until := secs_from now d\<rparr>) (dt_leases db)\<rparr>"
    using s by (auto simp: renew_serving_write_lease_def Let_def split: if_splits)
  show ?thesis
    using db_invD(2) [OF inv]
    by (intro db_inv_leases [OF inv db']) (auto simp: lease_target_def lease_ok_def sql_update_def split: if_splits)
qed

lemma db_inv_filter_leases:
  assumes inv: "db_inv api db" and db': "db' = db\<lparr>dt_leases := filter P (dt_leases db)\<rparr>"
  shows "db_inv api db'"
  by (rule db_inv_leases [OF inv db']) (use db_invD(2) [OF inv] in simp)

lemma db_inv_release:
  assumes inv: "db_inv api db" and s: "release_serving_write_lease l db = Inr (db', x)"
  shows "db_inv api db'"
  using s unfolding release_serving_write_lease_def sum.inject prod.inject
  by (elim conjE) (rule db_inv_filter_leases [OF inv sym])

lemma db_inv_reap:
  assumes inv: "db_inv api db" and s: "reap_expired_serving_write_leases now limit db = Inr (db', x)"
  shows "db_inv api db'"
  using s unfolding reap_expired_serving_write_leases_def Let_def sum.inject prod.inject
  by (elim conjE) (rule db_inv_filter_leases [OF inv sym])

lemma assert_allowed_sealed:
  assumes "assert_community_write_allowed s now (Some i) db = Inr u" "se_executor s = None"
    and "find_community i db = Some c"
  shows "\<not> sealed c"
proof
  assume "sealed c"
  then have "(co_state c \<in> {Cs_Active, Cs_Quiescing} \<and> P) = False" "co_state c \<noteq> Cs_Active" for P
    by (auto simp: sealed_def)
  with assms show False unfolding assert_community_write_allowed_def by (simp only: option.case) simp
qed

lemma check_targets_Inr:
  "check_targets s now ts db = Inr u \<longleftrightarrow> (\<forall>(t, c) \<in> set ts. enforce_community_write_fence s now t c db = Inr ())"
  by (induction s now ts db rule: check_targets.induct) (auto simp: and_then_Inr)

lemma apply_write_rows:
  "w \<in> set (apply_write a rows) \<Longrightarrow> w \<in> set rows \<or> (tr_table w, tr_community w) \<in> set (write_targets a)"
  by (cases a) (auto split: if_splits dest: notin_set_remove1)

lemma tenant_write_Inr:
  "tenant_write s now a db = Inr (db', x) \<longleftrightarrow>
     (\<forall>(t, c) \<in> set (write_targets a). enforce_community_write_fence s now t c db = Inr ())
     \<and> db' = db\<lparr>dt_rows := apply_write a (dt_rows db)\<rparr>"
  by (auto simp: tenant_write_def and_then_Inr check_targets_Inr)

text \<open>A tenant statement adds no row of an expected table to a sealed community.\<close>

lemma tenant_write_sealed:
  assumes inv: "db_inv api db" and s: "tenant_write s now a db = Inr (db', x)" and ex: "se_executor s = None"
    and c: "c \<in> set (dt_communities db)" "sealed c" and t: "t \<in> set EXPECTED_SCOPED_TABLES"
    and w: "w \<in> set (dt_rows db')" "tr_table w = t" "tr_community w = Some (co_id c)"
  shows "w \<in> set (dt_rows db)"
proof (rule ccontr)
  assume "w \<notin> set (dt_rows db)"
  then have "(t, Some (co_id c)) \<in> set (write_targets a)"
    using s w apply_write_rows [of w a] by (auto simp: tenant_write_Inr)
  then have "enforce_community_write_fence s now t (Some (co_id c)) db = Inr ()" using s by (auto simp: tenant_write_Inr)
  moreover have "t \<in> live_fenced_tables_on db" using inv t by (auto simp: db_inv_def)
  ultimately have "assert_community_write_allowed s now (Some (co_id c)) db = Inr ()"
    by (simp add: enforce_community_write_fence_def)
  moreover have "find_community (co_id c) db = Some c" using c by (simp add: find_community_iff [OF db_inv_distinct(2) [OF inv]])
  ultimately show False using assert_allowed_sealed ex c(2) by blast
qed

lemma db_inv_tenant_write:
  assumes inv: "db_inv api db" and s: "tenant_write s now a db = Inr (db', x)" and ex: "se_executor s = None"
  shows "db_inv api db'"
proof -
  have db': "db' = db\<lparr>dt_rows := dt_rows db'\<rparr>" using s by (auto simp: tenant_write_Inr)
  have "request_ok api db' r" if r: "r \<in> set (dt_requests db)" for r
  proof (rule request_ok_frame [OF refl _ _ _ _ db_inv_request [OF inv r]])
    show "set (dt_approvals db) \<subseteq> set (dt_approvals db')" "request_chunks (dr_id r) db' = request_chunks (dr_id r) db"
      by (subst db', simp add: request_chunks_def)+
    show "\<exists>c \<in> set (dt_communities db'). co_id c = dr_community_id r \<and> state_for r c"
      if "\<exists>c \<in> set (dt_communities db). co_id c = dr_community_id r \<and> state_for r c"
      using that by (subst db') simp
    assume p: "purged_stage (dr_stage r)" and none: "\<forall>t \<in> set EXPECTED_SCOPED_TABLES. \<not> tenant_rows_in t (dr_community_id r) db"
    then obtain c where c: "c \<in> set (dt_communities db)" "co_id c = dr_community_id r" "state_for r c"
      by (rule_tac live_community [OF inv r]) (auto simp: purged_stage_def)
    have "sealed c" using c(3) p by (auto simp: state_for_def sealed_def purged_stage_def split: if_splits)
    then show "\<forall>t \<in> set EXPECTED_SCOPED_TABLES. \<not> tenant_rows_in t (dr_community_id r) db'"
      using none tenant_write_sealed [OF inv s ex c(1)] c(2) by (fastforce simp: tenant_rows_in_def list_ex_iff)
  qed
  moreover have "dt_requests db' = dt_requests db" "dt_communities db' = dt_communities db" "dt_leases db' = dt_leases db"
    "dt_catalog db' = dt_catalog db"
    by (subst db', simp)+
  ultimately show ?thesis
    using db_invD [OF inv] db_inv_distinct [OF inv]
    by (intro db_inv_same_requests [OF inv]) (simp_all add: same_simps [of db' db])
qed

lemma db_inv_communities_map:
  assumes inv: "db_inv api db" and db': "db' = db\<lparr>dt_communities := map h (dt_communities db)\<rparr>"
    and h: "\<And>c. c \<in> set (dt_communities db) \<Longrightarrow>
        co_id (h c) = co_id c \<and> co_state (h c) = co_state c \<and> co_fence_generation (h c) = co_fence_generation c
        \<and> co_deleted_at (h c) = co_deleted_at c"
  shows "db_inv api db'"
proof -
  have m: "map co_id (dt_communities db') = map co_id (dt_communities db)" using h by (simp add: db')
  have "state_for r (h c) = state_for r c" if "c \<in> set (dt_communities db)" for r c
    using h [OF that] by (simp add: state_for_def)
  then have "request_ok api db' r" if "request_ok api db r" for r
    by (intro request_ok_frame [OF refl _ _ _ _ that])
      (use h in \<open>auto simp: db' request_chunks_def tenant_rows_in_def\<close>)
  moreover have "community_ok db' (h c)" if "c \<in> set (dt_communities db)" "community_ok db c" for c
    using that h [OF that(1)] by (simp add: community_ok_def db')
  moreover have "lease_ok db' l" if "lease_ok db l" for l
    using that h by (auto simp: lease_ok_def db' sealed_def)
  moreover have "lease_target db' l = lease_target db l" for l using m by (metis lease_target_def list.set_map)
  moreover have "dt_requests db' = dt_requests db" "dt_leases db' = dt_leases db" "dt_catalog db' = dt_catalog db"
    "set (dt_communities db') = h ` set (dt_communities db)"
    by (simp_all add: db')
  ultimately show ?thesis
    using db_invD [OF inv] db_inv_distinct [OF inv] m
    by (intro db_inv_same_requests [OF inv]) (auto simp: fenced_same [of db' db] simp del: map_eq_conv)
qed

lemma db_inv_community_update:
  assumes inv: "db_inv api db" and s: "community_update i f db = Inr (db', x)"
  shows "db_inv api db'"
proof -
  let ?h = "\<lambda>c. if co_id c = i then (f c)\<lparr>co_id := co_id c\<rparr> else c"
  have db': "db' = db\<lparr>dt_communities := map ?h (dt_communities db)\<rparr>"
    and t: "\<forall>c \<in> set (dt_communities db). co_id c = i \<longrightarrow> enforce_community_tombstone plain_session c ((f c)\<lparr>co_id := co_id c\<rparr>)"
    using s by (auto simp: community_update_def update_communities_Inr sql_update_def)
  show ?thesis
    by (rule db_inv_communities_map [OF inv db'])
      (use t in \<open>auto simp: enforce_community_tombstone_def plain_session_def Let_def\<close>)
qed

lemma db_inv_community_create:
  assumes inv: "db_inv api db" and s: "community_create api i host key db = Inr (db', x)"
  shows "db_inv api db'"
proof -
  obtain c where db': "db' = db\<lparr>dt_communities := dt_communities db @ [c]\<rparr>"
    and c: "co_id c = i" "co_state c = Cs_Active" "co_deleted_at c = None" "i \<notin> co_id ` set (dt_communities db)"
    using s by (fastforce simp: community_create_def list_ex_iff split: if_splits)
  have "request_ok api db' r" if "request_ok api db r" for r
    by (rule request_ok_frame [OF refl _ _ _ _ that]) (auto simp: db' request_chunks_def tenant_rows_in_def)
  moreover have "lease_ok db' l" if "lease_ok db l" "lease_target db l" for l
    using that c by (auto simp: lease_ok_def lease_target_def db')
  moreover have "community_ok db' e = community_ok db e" for e by (simp add: community_ok_def db')
  moreover have "community_ok db c" using c by (simp add: community_ok_def)
  moreover have "lease_target db' l" if "lease_target db l" for l using that by (simp add: lease_target_def db')
  moreover have "dt_requests db' = dt_requests db" "dt_leases db' = dt_leases db" "dt_catalog db' = dt_catalog db"
    "dt_communities db' = dt_communities db @ [c]"
    by (simp_all add: db')
  ultimately show ?thesis
    using db_invD [OF inv] db_inv_distinct [OF inv] c
    by (intro db_inv_same_requests [OF inv]) (auto simp: fenced_same [of db' db])
qed

lemma db_inv_migrate:
  assumes inv: "db_inv api db" and s: "migrate cat db = Inr (db', x)"
  shows "db_inv api db'"
proof -
  have db': "db' = db\<lparr>dt_catalog := cat\<rparr>" "set EXPECTED_SCOPED_TABLES \<subseteq> live_fenced_tables_on db'"
    using s by (auto simp: migrate_def split: if_splits)
  have f: "dt_requests db' = dt_requests db" "dt_communities db' = dt_communities db" "dt_approvals db' = dt_approvals db"
    "dt_chunks db' = dt_chunks db" "dt_rows db' = dt_rows db" "dt_leases db' = dt_leases db"
    by (simp_all add: db'(1))
  show ?thesis
    using db_invD [OF inv] db_inv_distinct [OF inv] db'(2)
    by (intro db_inv_same_requests [OF inv]) (simp_all add: same_simps(1-4) [of db' db] f)
qed

lemma db_inv_sweep:
  assumes inv: "db_inv api db" and s: "record_taxonomy_sweep i n st l u k cap db = Inr (db', x)"
  shows "db_inv api db'"
  by (rule db_inv_core_step [OF inv])
    (use s in \<open>auto simp: record_taxonomy_sweep_def Let_def core_step_def same_tables_def split: if_splits\<close>)

end
