(* ===== verification/Deletion_Trace.thy ===== *)
theory Deletion_Trace
  imports Deletion_Invariant
begin

text \<open>
  Runs of the deletion store: the operations as values, what one run of an operation does, the reachable
  databases, and the properties that hold along every run, whoever calls which operation with which token at
  which time.
\<close>

section \<open>Operations and runs\<close>

text \<open>Executor operations carry the token of the claim they act under; control operations are those of
  operators and of the claim loop; system operations are those of the serving relays and of deployments.\<close>

datatype token_op =
    Heartbeat string nat bool
  | Begin_Quiescing
  | Fence
  | Freeze_Destructive storage_manifest
  | Clear_Chunks
  | Append_Chunk int string "string list"
  | Mark_Chunk int "(string \<times> string) list"
  | Mark_Drained
  | Mark_Bindings_Removed "(string \<times> string) list"
  | Purge_Postgres
  | Mark_Cache_Purged "(string \<times> string) list"
  | Mark_Logically_Verified "(string \<times> string) list"
  | Mark_Retention_Pending "(string \<times> string) list"
  | Record_Retry deletion_stage string string nat
  | Block deletion_stage string string

datatype control_op =
    Submit uuid string string "string option"
  | Freeze_Inventory uuid frozen_inventory
  | Approve uuid string "string option"
  | Claim "uuid option" string nat
  | Stop "lease_token option" string
  | Block_Preclaim int uuid string string
  | Unblock uuid int uuid string string
  | Abort uuid uuid string string

datatype system_op =
    Record_Sweep uuid int u64 u64 "string list" u64
  | Acquire_Lease uuid uuid string string nat
  | Renew_Lease serving_write_lease nat
  | Release_Lease serving_write_lease
  | Reap_Leases int
  | Tenant_Write "serving_write_lease option" row_write
  | Community_Update uuid "community_row \<Rightarrow> community_row"
  | Community_Create uuid string "string option"
  | Migrate "pg_table list"

datatype del_op =
    Op_Token int lease_token token_op
  | Op_Control int control_op
  | Op_System int system_op

definition drop_result :: "db_error + del_db \<times> 'a \<Rightarrow> db_error + del_db" where
  "drop_result x = and_then x (\<lambda>(db, _). Inr db)"

lemma drop_result_Inr: "drop_result x = Inr db \<longleftrightarrow> (\<exists>y. x = Inr (db, y))"
  by (auto simp: drop_result_def and_then_Inr)

lemma drop_result_Inl: "drop_result x = Inl e \<longleftrightarrow> x = Inl e"
  by (cases x) (auto simp: drop_result_def)

definition serving_session ::
  "deletion_api \<Rightarrow> int \<Rightarrow> serving_write_lease option \<Rightarrow> del_db \<Rightarrow> db_error + session" where
  "serving_session api now lease db =
     (case lease of
        None \<Rightarrow> Inr plain_session
      | Some l \<Rightarrow> guard_transaction_with_serving_lease api now l plain_session db)"

primrec run_token :: "deletion_api \<Rightarrow> int \<Rightarrow> lease_token \<Rightarrow> token_op \<Rightarrow> del_db \<Rightarrow> db_error + del_db" where
  "run_token api now token (Heartbeat mode d draining) db = drop_result (heartbeat api now token mode d draining db)"
| "run_token api now token Begin_Quiescing db = drop_result (begin_quiescing api now token db)"
| "run_token api now token Fence db = drop_result (fence api now token db)"
| "run_token api now token (Freeze_Destructive m) db =
     drop_result (freeze_destructive_storage_manifest api now token m db)"
| "run_token api now token Clear_Chunks db = drop_result (clear_manifest_key_chunks api now token db)"
| "run_token api now token (Append_Chunk n prefix ks) db =
     drop_result (append_manifest_key_chunk api now token n prefix ks db)"
| "run_token api now token (Mark_Chunk n d) db = drop_result (mark_manifest_chunk_deleted api now token n d db)"
| "run_token api now token Mark_Drained db = drop_result (mark_drained api now token db)"
| "run_token api now token (Mark_Bindings_Removed d) db = drop_result (mark_bindings_removed api now token d db)"
| "run_token api now token Purge_Postgres db = drop_result (purge_postgres api now token db)"
| "run_token api now token (Mark_Cache_Purged d) db = drop_result (mark_cache_purged api now token d db)"
| "run_token api now token (Mark_Logically_Verified d) db = drop_result (mark_logically_verified api now token d db)"
| "run_token api now token (Mark_Retention_Pending d) db = drop_result (mark_retention_pending api now token d db)"
| "run_token api now token (Record_Retry st k e d) db = drop_result (record_retry api now token st k e d db)"
| "run_token api now token (Block st k e) db = drop_result (block api now token st k e db)"

primrec run_control :: "deletion_api \<Rightarrow> int \<Rightarrow> control_op \<Rightarrow> del_db \<Rightarrow> db_error + del_db" where
  "run_control api now (Submit i host by reason) db = drop_result (submit api i now host by reason db)"
| "run_control api now (Freeze_Inventory i inventory) db = drop_result (freeze_inventory api now i inventory db)"
| "run_control api now (Approve i by note) db = drop_result (approve api now i by note db)"
| "run_control api now (Claim i owner d) db = drop_result (claim api now i owner d db)"
| "run_control api now (Stop token ex) db = drop_result (stop_executor now token ex db)"
| "run_control api now (Block_Preclaim clock i k e) db = drop_result (block_preclaim_setup api clock now i k e db)"
| "run_control api now (Unblock nonce clock i by reason) db = drop_result (unblock api nonce clock now i by reason db)"
| "run_control api now (Abort nonce i by reason) db = drop_result (abort_request api nonce now i by reason db)"

primrec run_system :: "deletion_api \<Rightarrow> int \<Rightarrow> system_op \<Rightarrow> del_db \<Rightarrow> db_error + del_db" where
  "run_system api now (Record_Sweep i st l u k cap) db = drop_result (record_taxonomy_sweep i now st l u k cap db)"
| "run_system api now (Acquire_Lease i c op owner d) db =
     drop_result (acquire_serving_write_lease api i now c op owner d db)"
| "run_system api now (Renew_Lease l d) db = drop_result (renew_serving_write_lease api now l d db)"
| "run_system api now (Release_Lease l) db = drop_result (release_serving_write_lease l db)"
| "run_system api now (Reap_Leases n) db = drop_result (reap_expired_serving_write_leases now n db)"
| "run_system api now (Tenant_Write lease w) db =
     and_then (serving_session api now lease db) (\<lambda>s. drop_result (tenant_write s now w db))"
| "run_system api now (Community_Update i f) db = drop_result (community_update i f db)"
| "run_system api now (Community_Create i host key) db = drop_result (community_create api i host key db)"
| "run_system api now (Migrate cat) db = drop_result (migrate cat db)"

primrec run_op :: "deletion_api \<Rightarrow> del_op \<Rightarrow> del_db \<Rightarrow> db_error + del_db" where
  "run_op api (Op_Token now token op) db = run_token api now token op db"
| "run_op api (Op_Control now op) db = run_control api now op db"
| "run_op api (Op_System now op) db = run_system api now op db"

text \<open>A sequence of transactions: one that fails is rolled back.\<close>

primrec run_ops :: "deletion_api \<Rightarrow> del_op list \<Rightarrow> del_db \<Rightarrow> del_db" where
  "run_ops api [] db = db"
| "run_ops api (op # ops) db = run_ops api ops (case run_op api op db of Inl _ \<Rightarrow> db | Inr db' \<Rightarrow> db')"

definition initial_db :: "del_db \<Rightarrow> bool" where
  "initial_db db \<longleftrightarrow>
     dt_requests db = [] \<and> dt_approvals db = [] \<and> dt_chunks db = [] \<and> dt_leases db = []
     \<and> distinct (map co_id (dt_communities db))
     \<and> list_all (\<lambda>c. co_state c = Cs_Active \<and> co_deleted_at c = None) (dt_communities db)
     \<and> set EXPECTED_SCOPED_TABLES \<subseteq> live_fenced_tables_on db"

inductive reachable :: "deletion_api \<Rightarrow> del_db \<Rightarrow> bool" for api where
  initial: "initial_db db \<Longrightarrow> reachable api db"
| step: "reachable api db \<Longrightarrow> run_op api op db = Inr db' \<Longrightarrow> reachable api db'"

inductive_cases reachableE: "reachable api db"

lemma reachable_run_ops: "reachable api db \<Longrightarrow> reachable api (run_ops api ops db)"
  by (induction ops arbitrary: db) (auto split: sum.split intro: reachable.step)

section \<open>The invariant along runs\<close>

lemma db_inv_initial: "initial_db db \<Longrightarrow> db_inv api db"
  by (auto simp: initial_db_def db_inv_def one_live_def community_ok_def list_all_iff)

lemma serving_session_executor: "serving_session api now l db = Inr s \<Longrightarrow> se_executor s = None"
  by (auto simp: serving_session_def guard_transaction_with_serving_lease_def plain_session_def
      split: option.splits if_splits)

lemma db_inv_run_token:
  assumes inv: "db_inv api db" and s: "run_token api now token op db = Inr db'"
  shows "db_inv api db'"
proof (cases op)
  case (Mark_Bindings_Removed d)
  then show ?thesis
    using s by (auto simp: drop_result_Inr mark_bindings_removed_def intro: db_inv_advance_with_checkpoint [OF inv])
next
  case (Mark_Cache_Purged d)
  then show ?thesis
    using s by (auto simp: drop_result_Inr mark_cache_purged_def intro: db_inv_advance_with_checkpoint [OF inv])
qed (use s in \<open>auto simp: drop_result_Inr
    dest: db_inv_begin_quiescing [OF inv] db_inv_fence [OF inv] db_inv_freeze_destructive [OF inv]
      db_inv_clear_chunks [OF inv] db_inv_append_chunk [OF inv] db_inv_mark_chunk [OF inv]
      db_inv_mark_drained [OF inv] db_inv_purge [OF inv] db_inv_logically_verified [OF inv]
      db_inv_retention_pending [OF inv] db_inv_core_step [OF inv core_step_heartbeat]
      db_inv_core_step [OF inv core_step_record_retry] db_inv_core_step [OF inv core_step_block]\<close>)

lemma db_inv_run_control:
  assumes inv: "db_inv api db" and s: "run_control api now op db = Inr db'"
  shows "db_inv api db'"
  by (cases op; use s in \<open>auto simp: drop_result_Inr
    dest: db_inv_submit [OF inv] db_inv_freeze_inventory [OF inv] db_inv_approve [OF inv] db_inv_abort [OF inv]
      db_inv_core_step [OF inv core_step_claim] db_inv_core_step [OF inv core_step_stop]
      db_inv_core_step [OF inv core_step_block_preclaim] db_inv_core_step [OF inv core_step_unblock]\<close>)

lemma db_inv_run_system:
  assumes inv: "db_inv api db" and s: "run_system api now op db = Inr db'"
  shows "db_inv api db'"
  by (cases op; use s in \<open>auto simp: drop_result_Inr and_then_Inr
    dest: db_inv_sweep [OF inv] db_inv_acquire [OF inv] db_inv_renew [OF inv] db_inv_release [OF inv]
      db_inv_reap [OF inv] db_inv_community_update [OF inv] db_inv_community_create [OF inv] db_inv_migrate [OF inv]
      serving_session_executor db_inv_tenant_write [OF inv]\<close>)

lemma db_inv_run_op: "db_inv api db \<Longrightarrow> run_op api op db = Inr db' \<Longrightarrow> db_inv api db'"
  by (cases op) (auto intro: db_inv_run_token db_inv_run_control db_inv_run_system)

lemma reachable_db_inv: "reachable api db \<Longrightarrow> db_inv api db"
  by (induction rule: reachable.induct) (blast intro: db_inv_initial db_inv_run_op)+

section \<open>How a request row may change\<close>

definition stage_step :: "deletion_stage \<Rightarrow> deletion_stage \<Rightarrow> bool" where
  "stage_step s s' \<longleftrightarrow> s' = s \<or> stage_next s = Some s' \<or> s \<in> {Approved, Fenced} \<and> s' = Aborted"

definition retries_ok :: "deletion_request \<Rightarrow> bool" where
  "retries_ok r \<longleftrightarrow>
     0 \<le> dr_retry_count r \<and> dr_retry_count r \<le> MAX_CONSECUTIVE_RETRIES
     \<and> (dr_blocked_at r = None \<longrightarrow> dr_retry_count r < MAX_CONSECUTIVE_RETRIES)"

definition row_step :: "deletion_request \<Rightarrow> deletion_request \<Rightarrow> bool" where
  "row_step r r' \<longleftrightarrow>
     dr_id r' = dr_id r \<and> retargeting_ok r r' \<and> stage_step (dr_stage r) (dr_stage r')
     \<and> dr_lease_generation r \<le> dr_lease_generation r'
     \<and> (dr_quiescing_started_at r \<noteq> None \<longrightarrow>
          dr_quiescing_started_at r' = dr_quiescing_started_at r
          \<and> dr_pre_quiesce_archived_at r' = dr_pre_quiesce_archived_at r)
     \<and> (retries_ok r \<longrightarrow> retries_ok r')"

lemma row_step_refl [simp]: "row_step r r"
  by (simp add: row_step_def retargeting_ok_def stage_step_def)

definition requests_step :: "del_db \<Rightarrow> del_db \<Rightarrow> bool" where
  "requests_step db db' \<longleftrightarrow>
     (\<exists>rs new. dt_requests db' = rs @ new \<and> list_all2 row_step (dt_requests db) rs
        \<and> (\<forall>r \<in> set new. dr_stage r = Submitted \<and> retries_ok r))"

lemma requests_step_same: "dt_requests db' = dt_requests db \<Longrightarrow> requests_step db db'"
  unfolding requests_step_def by (rule exI [of _ "dt_requests db"], rule exI [of _ "[]"]) (simp add: list.rel_refl)

lemma requests_step_update:
  assumes "update_requests P f db1 = Inr (db2, n)" "dt_requests db1 = dt_requests db" "dt_requests db' = dt_requests db2"
    and "\<And>r. r \<in> set (dt_requests db) \<Longrightarrow> P r \<Longrightarrow> retargeting_ok r (f r) \<Longrightarrow> row_step r (f r)"
  shows "requests_step db db'"
proof -
  have rs: "dt_requests db' = sql_update P f (dt_requests db)"
    and ok: "\<forall>r \<in> set (dt_requests db). P r \<longrightarrow> retargeting_ok r (f r)"
    using assms(1-3) by (auto simp: update_requests_Inr)
  have "list_all2 row_step (dt_requests db) (sql_update P f (dt_requests db))"
    using ok assms(4) by (auto simp: sql_update_def list_all2_conv_all_nth)
  with rs show ?thesis unfolding requests_step_def by (metis append_Nil2 empty_iff list.set(1))
qed

lemma requests_step_put:
  assumes "dt_requests db' = put_row dr_id r' (dt_requests db)" "distinct (map dr_id (dt_requests db))"
    and "r \<in> set (dt_requests db)" "dr_id r' = dr_id r" "row_step r r'"
  shows "requests_step db db'"
proof -
  have "row_step x (if dr_id x = dr_id r' then r' else x)" if "x \<in> set (dt_requests db)" for x
    using assms(4,5) request_by_id [OF assms(2) that assms(3)] by auto
  then have "list_all2 row_step (dt_requests db) (dt_requests db')"
    by (simp add: assms(1) put_row_def list_all2_conv_all_nth)
  then show ?thesis unfolding requests_step_def by (metis append_Nil2 empty_iff list.set(1))
qed

lemma row_step_advanced:
  assumes "stage_next (dr_stage r) = Some to_stage"
  shows "row_step r (advanced now to_stage g r)"
  using assms
  by (simp add: row_step_def advanced_def retargeting_ok_def stage_step_def retries_ok_def MAX_CONSECUTIVE_RETRIES_def)

lemma requests_step_advance:
  assumes "advance_request_tx api now token a b g db1 = Inr db2" "distinct (map dr_id (dt_requests db))"
    "dt_requests db1 = dt_requests db" "dt_requests db' = dt_requests db2"
  shows "requests_step db db'"
proof -
  obtain r where r: "r \<in> set (dt_requests db1)" "dr_stage r = a" "stage_next a = Some b"
    "db2 = db1\<lparr>dt_requests := put_row dr_id (advanced now b g r) (dt_requests db1)\<rparr>"
    by (rule advance_request_tx_Inr [OF _ assms(1)]) (use assms(2,3) in auto)
  then show ?thesis
    using assms by (intro requests_step_put [of db' "advanced now b g r" db r]) (simp_all add: row_step_advanced)
qed

lemmas row_defs = row_step_def stage_step_def retargeting_ok_def retries_ok_def

lemma requests_step_claim:
  assumes "claim api now i owner d db = Inr (db', x)"
  shows "requests_step db db'"
proof (cases "oldest_request (filter (claimable db now i) (dt_requests db))")
  case None
  then show ?thesis using assms by (intro requests_step_same) (simp add: claim_def)
next
  case (Some r)
  show ?thesis
  proof (cases "validate_catalog_on db")
    case (Inl e)
    show ?thesis
      using assms Some Inl
      by (auto simp: claim_def Let_def and_then_Inr set_request_def row_defs elim!: requests_step_update)
  next
    case (Inr u)
    show ?thesis
      using assms Some Inr
      by (auto simp: claim_def and_then_Inr set_request_def updated_request_Inr row_defs elim!: requests_step_update)
  qed
qed

lemma requests_step_record_retry:
  assumes inv: "db_inv api db" and s: "record_retry api now token stage k e d db = Inr (db', x)"
  shows "requests_step db db'"
proof -
  obtain r where v: "verify_lease api now token stage db = Inr ()" and f: "find_request (lt_request_id token) db = Some r"
    using s by (auto simp: record_retry_def Let_def and_then_Inr)
  have r: "r \<in> set (dt_requests db)" "dr_id r = lt_request_id token"
    using f by (simp_all add: find_request_iff [OF db_inv_distinct(1) [OF inv]])
  obtain q where q: "q \<in> set (dt_requests db)" "lease_current db now token stage q"
    using v by (auto simp: verify_lease_Inr)
  have "q = r" using request_by_id [OF db_inv_distinct(1) [OF inv] q(1) r(1)] q(2) r(2) by (simp add: lease_current_def)
  then have "dr_blocked_at r = None" using q by (simp add: lease_current_def)
  then have c: "retries_ok r \<Longrightarrow> 0 \<le> consecutive_retries r stage \<and> consecutive_retries r stage \<le> 8"
    by (simp add: retries_ok_def consecutive_retries_def MAX_CONSECUTIVE_RETRIES_def)
  have eq: "y = r" if "y \<in> set (dt_requests db)" "dr_id y = lt_request_id token" for y
    using request_by_id [OF db_inv_distinct(1) [OF inv] that(1) r(1)] that(2) r(2) by simp
  show ?thesis
    using s f c
    by (auto simp: record_retry_def Let_def and_then_Inr MAX_CONSECUTIVE_RETRIES_def row_defs dest: eq
        elim!: requests_step_update)
qed

lemma requests_step_benign:
  "heartbeat api now token mode d draining db = Inr (db', x1) \<Longrightarrow> requests_step db db'"
  "block api now token stage k e db = Inr (db', x2) \<Longrightarrow> requests_step db db'"
  "block_preclaim_setup api clock now i k e db = Inr (db', x3) \<Longrightarrow> requests_step db db'"
  by (auto simp: heartbeat_def upsert_heartbeat_def block_def block_preclaim_setup_def Let_def and_then_Inr set_request_def
      updated_request_Inr row_defs split: if_splits elim!: requests_step_update)

lemma requests_step_unblock:
  "unblock api nonce clock now i by reason db = Inr (db', x) \<Longrightarrow> requests_step db db'"
  by (auto simp: unblock_def Let_def and_then_Inr updated_request_Inr insert_checkpoint_def row_defs
      MAX_CONSECUTIVE_RETRIES_def split: if_splits elim!: requests_step_update)

lemma requests_step_stop:
  assumes "stop_executor now token ex db = Inr (db', x)"
  shows "requests_step db db'"
proof (cases token)
  case None
  then show ?thesis using assms by (intro requests_step_same) (auto simp: stop_executor_def)
next
  case (Some tk)
  then show ?thesis
    using assms by (auto simp: stop_executor_def and_then_Inr row_defs elim!: requests_step_update)
qed

lemma requests_step_submit:
  assumes "submit api i now host by reason db = Inr (db', x)"
  shows "requests_step db db'"
proof (cases "db' = db")
  case False
  then obtain c where "dt_requests db' = dt_requests db @ [new_request i now c by reason]"
    using assms by (auto simp: submit_def Let_def split: option.splits if_splits)
  then show ?thesis
    unfolding requests_step_def
    by (intro exI [of _ "dt_requests db"] exI [of _ "[new_request i now c by reason]"])
      (simp add: list.rel_refl new_request_def retries_ok_def MAX_CONSECUTIVE_RETRIES_def)
qed (simp add: requests_step_same)

lemma requests_step_freeze_inventory:
  assumes "freeze_inventory api now i inventory db = Inr (db', x)"
  shows "requests_step db db'"
  using assms
  by (auto simp: freeze_inventory_def and_then_Inr updated_request_Inr row_defs elim!: requests_step_update)

lemma requests_step_approve:
  assumes "approve api now i by note db = Inr (db', x)"
  shows "requests_step db db'"
  using assms by (rule approve_cases) (auto simp: row_defs elim!: requests_step_update)

lemma requests_step_begin_quiescing:
  assumes inv: "db_inv api db" and "begin_quiescing api now token db = Inr (db', x)"
  shows "requests_step db db'"
proof -
  obtain r c where "r \<in> set (dt_requests db)" "dt_requests db' = put_row dr_id (quiesced now c r) (dt_requests db)"
    by (rule begin_quiescing_effect [OF assms]) blast
  then show ?thesis
    by (intro requests_step_put [OF _ db_inv_distinct(1) [OF inv], of _ "quiesced now c r" r])
      (simp_all add: quiesced_def row_defs)
qed

lemma requests_step_fence:
  assumes inv: "db_inv api db" and "fence api now token db = Inr (db', g)"
  shows "requests_step db db'"
proof -
  obtain r where "r \<in> set (dt_requests db)" "dr_stage r = Approved"
    "dt_requests db' = put_row dr_id (advanced now Fenced (Some g) r) (dt_requests db)"
    by (rule fence_effect [OF assms]) blast
  then show ?thesis
    by (intro requests_step_put [OF _ db_inv_distinct(1) [OF inv], of _ "advanced now Fenced (Some g) r" r])
      (simp_all add: row_step_advanced)
qed

lemma requests_step_purge:
  assumes inv: "db_inv api db" and "purge_postgres api now token db = Inr (db', x)"
  shows "requests_step db db'"
proof -
  obtain r g where "r \<in> set (dt_requests db)" "dr_stage r = BindingsRemoved"
    "dt_requests db' = put_row dr_id (advanced now PostgresPurged (Some g) r) (dt_requests db)"
    by (rule purge_effect [OF assms]) blast
  then show ?thesis
    by (intro requests_step_put [OF _ db_inv_distinct(1) [OF inv], of _ "advanced now PostgresPurged (Some g) r" r])
      (simp_all add: row_step_advanced)
qed

lemma requests_step_abort:
  assumes inv: "db_inv api db" and "abort_request api nonce now i by reason db = Inr (db', x)"
  shows "requests_step db db'"
proof -
  obtain r g where "r \<in> set (dt_requests db)" "dr_stage r \<in> {Approved, Fenced}"
    "dt_requests db' = put_row dr_id (aborted_row now g (trim by) (trim reason) r) (dt_requests db)"
    by (rule abort_effect [OF assms]) blast
  then show ?thesis
    by (intro requests_step_put [OF _ db_inv_distinct(1) [OF inv], of _ "aborted_row now g (trim by) (trim reason) r" r])
      (auto simp: aborted_row_def row_defs MAX_CONSECUTIVE_RETRIES_def)
qed

lemma requests_step_freeze_destructive:
  assumes "freeze_destructive_storage_manifest api now token m db = Inr (db', x)"
  shows "requests_step db db'"
  using assms
  by (auto simp: freeze_destructive_storage_manifest_def and_then_Inr row_step_def stage_step_def retries_ok_def
      split: if_splits elim!: requests_step_update)

lemma requests_step_advancing:
  assumes "db_inv api db"
  shows "mark_drained api now token db = Inr (db', x) \<Longrightarrow> requests_step db db'"
    "advance_with_checkpoint api now token a b k d db = Inr (db', x) \<Longrightarrow> requests_step db db'"
    "mark_logically_verified api now token d db = Inr (db', x) \<Longrightarrow> requests_step db db'"
  using db_inv_distinct(1) [OF assms]
  by (auto simp: mark_drained_def advance_with_checkpoint_def mark_logically_verified_def and_then_Inr delete_chunks_Inr
      split: if_splits elim!: requests_step_advance)

lemma requests_step_retention_pending:
  assumes "mark_retention_pending api now token d db = Inr (db', x)"
  shows "requests_step db db'"
  using assms
  by (auto simp: mark_retention_pending_def and_then_Inr row_defs MAX_CONSECUTIVE_RETRIES_def split: if_splits
      elim!: requests_step_update)

lemma requests_step_chunks:
  "clear_manifest_key_chunks api now token db = Inr (db', x) \<Longrightarrow> requests_step db db'"
  "append_manifest_key_chunk api now token n p ks db = Inr (db', x) \<Longrightarrow> requests_step db db'"
  "mark_manifest_chunk_deleted api now token n d db = Inr (db', x) \<Longrightarrow> requests_step db db'"
  by (auto simp: clear_manifest_key_chunks_def append_manifest_key_chunk_def mark_manifest_chunk_deleted_def Let_def
      and_then_Inr delete_chunks_Inr split: if_splits intro!: requests_step_same)

lemma requests_step_run_system:
  assumes "run_system api now op db = Inr db'"
  shows "requests_step db db'"
proof (rule requests_step_same, cases op)
  case (Reap_Leases n)
  then show "dt_requests db' = dt_requests db"
    using assms by (auto simp: drop_result_Inr reap_expired_serving_write_leases_def Let_def simp del: set_sort)
qed (use assms in \<open>auto simp: drop_result_Inr and_then_Inr tenant_write_Inr community_update_def update_communities_Inr
    record_taxonomy_sweep_def acquire_serving_write_lease_def renew_serving_write_lease_def release_serving_write_lease_def
    community_create_def migrate_def Let_def split: if_splits sum.splits option.splits\<close>)

lemma requests_step_run_op:
  assumes inv: "db_inv api db" and s: "run_op api op db = Inr db'"
  shows "requests_step db db'"
proof (cases op)
  case (Op_Token now token t)
  then show ?thesis
    using s
    by (cases t) (auto simp: drop_result_Inr mark_bindings_removed_def mark_cache_purged_def
      dest: requests_step_benign requests_step_chunks requests_step_begin_quiescing [OF inv] requests_step_fence [OF inv]
        requests_step_freeze_destructive requests_step_advancing [OF inv] requests_step_purge [OF inv]
        requests_step_retention_pending requests_step_record_retry [OF inv])
next
  case (Op_Control now t)
  then show ?thesis
    using s
    by (cases t) (auto simp: drop_result_Inr
      dest: requests_step_submit requests_step_freeze_inventory requests_step_approve requests_step_claim requests_step_stop
        requests_step_benign requests_step_unblock requests_step_abort [OF inv])
next
  case (Op_System now t)
  then show ?thesis using s requests_step_run_system by simp
qed

end
