(* ===== verification/Deletion_Progress.thy ===== *)
theory Deletion_Progress
  imports Deletion_Trace
begin

text \<open>
  Progress of the deletion store: when each transaction of an executor succeeds, and that the transactions
  from the claim of an approved request to \<open>RetentionPending\<close> all succeed under one claim.
\<close>

section \<open>Progress\<close>

text \<open>A token that is current at \<open>stage\<close> under the fence generation \<open>g\<close>, on a catalog without drift.\<close>

definition token_ready :: "deletion_api \<Rightarrow> int \<Rightarrow> lease_token \<Rightarrow> deletion_stage \<Rightarrow> int \<Rightarrow> del_db \<Rightarrow> bool" where
  "token_ready api now token stage g db \<longleftrightarrow>
     db_inv api db \<and> validate_catalog_on db = Inr () \<and> lt_fence_generation token = Some g
     \<and> active_leases now (lt_community_id token) db = []
     \<and> verify_lease_and_fence api now token stage g db = Inr ()"

lemma verify_fence_cong:
  "dt_requests db' = dt_requests db \<Longrightarrow> dt_communities db' = dt_communities db \<Longrightarrow> dt_approvals db' = dt_approvals db \<Longrightarrow>
     verify_lease_and_fence api now token stage g db' = verify_lease_and_fence api now token stage g db"
  by (simp add: verify_lease_and_fence_def lease_current_def [abs_def] approval_matches_def)

lemma validate_catalog_cong: "dt_catalog db' = dt_catalog db \<Longrightarrow> validate_catalog_on db' = validate_catalog_on db"
  by (simp add: validate_catalog_on_def live_scoped_tables_on_def live_fenced_tables_on_def)

lemma filter_one:
  assumes "distinct (map key rows)" "r \<in> set rows" "P r" "\<And>x. P x \<Longrightarrow> key x = key r"
  shows "filter P rows = [r]"
proof -
  have "x = r" if "x \<in> set rows" "P x" for x
    using assms(1,2) assms(4) [OF that(2)] that(1) by (auto simp: distinct_map inj_on_def)
  then have s: "set (filter P rows) = {r}" unfolding set_filter using assms(2,3) by blast
  moreover have d: "distinct (filter P rows)" using assms(1) by (simp add: distinct_map)
  from distinct_card [OF d] have "length (filter P rows) = 1" unfolding s by simp
  ultimately show ?thesis by (auto simp: length_Suc_conv simp del: set_filter)
qed

lemma rows_affected_one:
  assumes "distinct (map key rows)" "r \<in> set rows" "P r" "\<And>x. P x \<Longrightarrow> key x = key r"
  shows "rows_affected P rows = 1"
  unfolding rows_affected_def using filter_one [where P = P, OF assms] by simp

lemma advance_progress:
  assumes d: "distinct (map dr_id (dt_requests db))" and r: "r \<in> set (dt_requests db)" "lease_current db now token a r"
    and n: "stage_next a = Some b"
  shows "advance_request_tx api now token a b g db
     = Inr (db\<lparr>dt_requests := put_row dr_id (advanced now b g r) (dt_requests db)\<rparr>)"
proof -
  let ?P = "\<lambda>r. dr_id r = lt_request_id token \<and> dr_stage r = a \<and> dr_lease_owner r = Some (lt_owner token)
             \<and> dr_lease_generation r = lt_generation token \<and> at_or_after (dr_lease_until r) now
             \<and> dr_blocked_at r = None"
  have P: "?P r" using r(2) by (simp add: lease_current_def)
  have "rows_affected ?P (dt_requests db) = 1" by (rule rows_affected_one [where P = ?P, OF d r(1) P]) (use P in auto)
  moreover have "sql_update ?P (advanced now b g) (dt_requests db) = put_row dr_id (advanced now b g r) (dt_requests db)"
    by (rule sql_update_put [where P = ?P, OF d r(1) P]) (use P in auto)
  ultimately show ?thesis
    using n by (simp add: advance_request_tx_def update_requests_def retargeting_ok_def list_all_iff advanced_def [abs_def])
qed

lemma lease_current_advanced:
  "lease_current db now token a r \<Longrightarrow> dt_approvals db' = dt_approvals db \<Longrightarrow> lease_current db' now token b (advanced now b g r)"
  by (auto simp: lease_current_def advanced_def approval_matches_def)

lemma token_ready_advanced:
  assumes "token_ready api now token a g db" "stage_next a = Some b" "a \<noteq> Aborted"
  obtains r db1 where "r \<in> set (dt_requests db)" "lease_current db now token a r"
    "advance_request_tx api now token a b (Some g) db = Inr db1"
    "db1 = db\<lparr>dt_requests := put_row dr_id (advanced now b (Some g) r) (dt_requests db)\<rparr>"
    "verify_lease_and_fence api now token b g db1 = Inr ()"
proof -
  have inv: "db_inv api db" and v: "verify_lease_and_fence api now token a g db = Inr ()"
    using assms(1) by (simp_all add: token_ready_def)
  obtain r c where r: "r \<in> set (dt_requests db)" "lease_current db now token a r"
    and c: "c \<in> set (dt_communities db)" "co_id c = lt_community_id token" "sealed c" "co_fence_generation c = g"
    by (rule fenced_request [OF inv v assms(3)]) blast
  let ?r = "advanced now b (Some g) r"
  let ?db = "db\<lparr>dt_requests := put_row dr_id ?r (dt_requests db)\<rparr>"
  have "?r \<in> set (dt_requests ?db)" using put_row_mem [OF r(1), of dr_id ?r] by simp
  moreover have "lease_current ?db now token b ?r" using lease_current_advanced [OF r(2)] by simp
  moreover have "dr_community_id r = lt_community_id token" using r(2) by (simp add: lease_current_def)
  ultimately have "verify_lease_and_fence api now token b g ?db = Inr ()"
    unfolding verify_lease_and_fence_Inr using c by (intro bexI [of _ ?r]) auto
  then show thesis using that [OF r advance_progress [OF db_inv_distinct(1) [OF inv] r assms(2)]] by simp
qed

lemma token_ready_step:
  assumes "token_ready api now token a g db" "run_token api now token op db = Inr db'"
    and "verify_lease_and_fence api now token b g db1 = Inr ()"
    and "dt_requests db' = dt_requests db1" "dt_communities db' = dt_communities db1" "dt_approvals db' = dt_approvals db1"
    and "dt_leases db' = dt_leases db" "dt_catalog db' = dt_catalog db"
  shows "token_ready api now token b g db'"
  using assms db_inv_run_token [OF _ assms(2)] validate_catalog_cong [OF assms(8)] verify_fence_cong [OF assms(4-6)]
  by (simp add: token_ready_def active_leases_def)

lemma progress_mark_drained:
  assumes "token_ready api now token Fenced g db"
  shows "\<exists>db'. run_token api now token Mark_Drained db = Inr db' \<and> token_ready api now token Drained g db'"
proof -
  obtain r db1 where a: "advance_request_tx api now token Fenced Drained (Some g) db = Inr db1"
    and db1: "db1 = db\<lparr>dt_requests := put_row dr_id (advanced now Drained (Some g) r) (dt_requests db)\<rparr>"
    and v: "verify_lease_and_fence api now token Drained g db1 = Inr ()"
    by (rule token_ready_advanced [OF assms]) auto
  have run: "run_token api now token Mark_Drained db = Inr (checkpoint_completed_tx now token Fenced
      ''serving_writes_drained'' [(''fence_generation'', show_int g)] db1)"
    using assms a by (simp add: drop_result_def mark_drained_def token_ready_def require_fence_generation_def)
  then show ?thesis using token_ready_step [OF assms run v] db1 by simp
qed

lemma progress_advance:
  assumes "token_ready api now token a g db" "stage_next a = Some b" "a \<noteq> Aborted"
    and op: "run_token api now token op db = drop_result (advance_with_checkpoint api now token a b k d db)"
  shows "\<exists>db'. run_token api now token op db = Inr db' \<and> token_ready api now token b g db'"
proof -
  obtain r db1 where a: "advance_request_tx api now token a b (Some g) db = Inr db1"
    and db1: "db1 = db\<lparr>dt_requests := put_row dr_id (advanced now b (Some g) r) (dt_requests db)\<rparr>"
    and v: "verify_lease_and_fence api now token b g db1 = Inr ()"
    by (rule token_ready_advanced [OF assms(1-3)])
  have run: "run_token api now token op db = Inr (checkpoint_completed_tx now token a k d db1)"
    using assms(1) a by (simp add: op drop_result_def advance_with_checkpoint_def token_ready_def require_fence_generation_def)
  then show ?thesis using token_ready_step [OF assms(1) run v] db1 by simp
qed

lemma executor_write_allowed:
  assumes "find_community i db = Some c" "co_fence_generation c = g"
  shows "enforce_community_write_fence (set_executor_gucs i g plain_session) now t (Some i) db = Inr ()"
  using assms by (simp add: enforce_community_write_fence_def assert_community_write_allowed_def set_executor_gucs_def)

lemma clear_provenance_ok:
  assumes "find_community i db = Some c" "co_fence_generation c = g"
  obtains db1 n where "clear_provenance (set_executor_gucs i g plain_session) now t i db = Inr (db1, n)"
    "dt_communities db1 = dt_communities db"
proof -
  have "\<exists>db1 n. clear_provenance (set_executor_gucs i g plain_session) now t i db = Inr (db1, n)
      \<and> dt_communities db1 = dt_communities db"
    using executor_write_allowed [OF assms, of now t] by (simp add: clear_provenance_def Let_def)
  then show thesis using that by blast
qed

lemma delete_tenant_rows_ok:
  assumes "find_community i db = Some c" "co_fence_generation c = g"
  obtains db1 n where "delete_tenant_rows (set_executor_gucs i g plain_session) now t i db = Inr (db1, n)"
    "dt_communities db1 = dt_communities db"
proof -
  have "\<exists>db1 n. delete_tenant_rows (set_executor_gucs i g plain_session) now t i db = Inr (db1, n)
      \<and> dt_communities db1 = dt_communities db"
    using executor_write_allowed [OF assms, of now t] by (simp add: delete_tenant_rows_def Let_def)
  then show thesis using that by blast
qed

lemma clear_provenance_all_ok:
  assumes "find_community (lt_community_id token) db = Some c" "co_fence_generation c = g"
  shows "\<exists>db'. clear_provenance_all (set_executor_gucs (lt_community_id token) g plain_session) now token ts db = Inr db'"
  using assms
proof (induction ts arbitrary: db)
  case (Cons t ts)
  let ?s = "set_executor_gucs (lt_community_id token) g plain_session"
  obtain db1 n where s: "clear_provenance ?s now t (lt_community_id token) db = Inr (db1, n)"
    "dt_communities db1 = dt_communities db" by (rule clear_provenance_ok [OF Cons.prems])
  then show ?case using Cons.IH Cons.prems by (simp add: find_community_def)
qed simp

lemma purge_tables_ok:
  assumes "find_community (lt_community_id token) db = Some c" "co_fence_generation c = g"
  shows "\<exists>db' n. purge_tables (set_executor_gucs (lt_community_id token) g plain_session) now token ts db = Inr (db', n)"
  using assms
proof (induction ts arbitrary: db)
  case (Cons t ts)
  let ?s = "set_executor_gucs (lt_community_id token) g plain_session"
  obtain db1 n where s: "delete_tenant_rows ?s now t (lt_community_id token) db = Inr (db1, n)"
    "dt_communities db1 = dt_communities db" by (rule delete_tenant_rows_ok [OF Cons.prems])
  let ?db = "checkpoint_completed_tx now token BindingsRemoved (''purge:'' @ t) [(''rows'', show_nat n)] db1"
  obtain db2 m where "purge_tables ?s now token ts ?db = Inr (db2, m)"
    using Cons.IH [of ?db] Cons.prems s(2) by (auto simp: find_community_def)
  then show ?case using s(1) by simp
qed simp

lemma progress_purge:
  assumes ready: "token_ready api now token BindingsRemoved g db"
  shows "\<exists>db'. run_token api now token Purge_Postgres db = Inr db' \<and> token_ready api now token PostgresPurged g db'"
proof -
  have inv: "db_inv api db" and v: "verify_lease_and_fence api now token BindingsRemoved g db = Inr ()"
    and cat: "validate_catalog_on db = Inr ()" and g: "lt_fence_generation token = Some g"
    using ready by (simp_all add: token_ready_def)
  obtain r c where r: "r \<in> set (dt_requests db)" "lease_current db now token BindingsRemoved r" "dr_stage r = BindingsRemoved"
      "dr_fence_generation r = Some g"
    and c: "c \<in> set (dt_communities db)" "co_id c = lt_community_id token" "state_for r c" "co_fence_generation c = g"
    by (rule fenced_request [OF inv v]) auto
  let ?s = "set_executor_gucs (lt_community_id token) g plain_session"
  have fc: "find_community (lt_community_id token) db = Some c"
    using c find_community_iff [OF db_inv_distinct(2) [OF inv]] by simp
  obtain db1 where p1: "clear_provenance_all ?s now token [''product_feedback'', ''rate_limit_violations''] db = Inr db1"
    using clear_provenance_all_ok [OF fc c(4)] by blast
  note f1 = clear_provenance_all_Inr [OF p1]
  have "find_community (lt_community_id token) db1 = Some c" using f1 fc by (simp add: same_tables_def find_community_def)
  then obtain db2 n where p2: "purge_tables ?s now token PURGE_SCOPED_TABLES db1 = Inr (db2, n)"
    using purge_tables_ok c(4) by blast
  note f2 = purge_tables_Inr [OF p2]
  have e2: "dt_requests db2 = dt_requests db" "dt_communities db2 = dt_communities db" "dt_approvals db2 = dt_approvals db"
    "dt_leases db2 = dt_leases db" "dt_catalog db2 = dt_catalog db"
    using f1 f2 by (simp_all add: same_tables_def)
  let ?P = "\<lambda>c. co_id c = lt_community_id token \<and> co_state c = Cs_Fenced \<and> co_fence_generation c = g"
  let ?db3 = "db2\<lparr>dt_communities := put_row co_id (tombstoned now c) (dt_communities db)\<rparr>"
  have P: "?P c" using c r(3) by (simp add: state_for_def purged_stage_def)
  have u: "update_communities ?s ?P (tombstoned now) db2 = Inr (?db3, 1)"
    using sql_update_put [where P = ?P and f = "tombstoned now", OF db_inv_distinct(2) [OF inv] c(1) P]
      rows_affected_one [where P = ?P, OF db_inv_distinct(2) [OF inv] c(1) P] c(2)
    by (auto simp: update_communities_def e2 list_all_iff tombstoned_def enforce_community_tombstone_def set_executor_gucs_def)
  have r3: "lease_current ?db3 now token BindingsRemoved r" "r \<in> set (dt_requests ?db3)"
    using r e2 by (auto simp: lease_current_def approval_matches_def)
  let ?r = "advanced now PostgresPurged (Some g) r"
  let ?db4 = "?db3\<lparr>dt_requests := put_row dr_id ?r (dt_requests ?db3)\<rparr>"
  have a: "advance_request_tx api now token BindingsRemoved PostgresPurged (Some g) ?db3 = Inr ?db4"
    by (rule advance_progress [OF _ r3(2,1)]) (use db_inv_distinct(1) [OF inv] e2 in simp_all)
  let ?db5 = "checkpoint_completed_tx now token BindingsRemoved ''postgres_tombstone_committed''
               (map (\<lambda>(t, n). (t, show_nat n)) n) ?db4"
  have run: "run_token api now token Purge_Postgres db = Inr ?db5"
    using g cat v p1 p2 u a
    by (simp add: drop_result_def purge_postgres_def require_fence_generation_def tombstoned_def [abs_def])
  have t: "tombstoned now c \<in> set (dt_communities ?db4)" using put_row_mem [OF c(1), of co_id "tombstoned now c"]
    by (simp add: tombstoned_def)
  have v4: "verify_lease_and_fence api now token PostgresPurged g ?db4 = Inr ()"
    unfolding verify_lease_and_fence_Inr
  proof (intro bexI conjI)
    show "?r \<in> set (dt_requests ?db4)" using put_row_mem [OF r3(2), of dr_id ?r] by simp
    show "lease_current ?db4 now token PostgresPurged ?r" using lease_current_advanced [OF r3(1)] by simp
    show "tombstoned now c \<in> set (dt_communities ?db4)" by (rule t)
  qed (use c r in \<open>auto simp: tombstoned_def sealed_def lease_current_def\<close>)
  have "token_ready api now token PostgresPurged g ?db5" by (rule token_ready_step [OF ready run v4]) (simp_all add: e2)
  with run show ?thesis by blast
qed

lemma progress_logically_verified:
  assumes ready: "token_ready api now token CachePurged g db"
  shows "\<exists>db'. run_token api now token (Mark_Logically_Verified d) db = Inr db'
    \<and> token_ready api now token LogicallyVerified g db'"
proof -
  obtain r db1 where r: "r \<in> set (dt_requests db)" "lease_current db now token CachePurged r"
    and a: "advance_request_tx api now token CachePurged LogicallyVerified (Some g) db = Inr db1"
    and db1: "db1 = db\<lparr>dt_requests := put_row dr_id (advanced now LogicallyVerified (Some g) r) (dt_requests db)\<rparr>"
    and v: "verify_lease_and_fence api now token LogicallyVerified g db1 = Inr ()"
    by (rule token_ready_advanced [OF ready]) auto
  let ?r = "advanced now LogicallyVerified (Some g) r"
  let ?db2 = "checkpoint_completed_tx now token CachePurged ''verify_cross_store_absence'' d db1"
  have dist: "distinct (map dr_id (dt_requests ?db2))"
    using db_inv_distinct(1) [of api db] ready by (simp add: token_ready_def db1)
  have "find_request (lt_request_id token) ?db2 = Some ?r"
    using r put_row_mem [OF r(1), of dr_id ?r] unfolding find_request_iff [OF dist] by (simp add: db1 lease_current_def)
  then have d: "delete_chunks (lt_request_id token) ?db2
      = Inr (?db2\<lparr>dt_chunks := filter (\<lambda>m. mk_request_id m \<noteq> lt_request_id token) (dt_chunks ?db2)\<rparr>)" (is "_ = Inr ?db3")
    by (simp add: delete_chunks_def chunk_delete_ok_def)
  have run: "run_token api now token (Mark_Logically_Verified d) db = Inr ?db3"
    using ready a d by (simp add: drop_result_def mark_logically_verified_def token_ready_def require_fence_generation_def)
  have "token_ready api now token LogicallyVerified g ?db3"
    by (rule token_ready_step [OF ready run v]) (simp_all add: db1)
  with run show ?thesis by blast
qed

lemma progress_retention_pending:
  assumes ready: "token_ready api now token LogicallyVerified g db"
  shows "\<exists>db'. run_token api now token (Mark_Retention_Pending d) db = Inr db'
    \<and> (\<exists>r \<in> set (dt_requests db'). dr_id r = lt_request_id token \<and> dr_stage r = RetentionPending
          \<and> dr_community_id r = lt_community_id token)"
proof -
  have inv: "db_inv api db" and v: "verify_lease_and_fence api now token LogicallyVerified g db = Inr ()"
    and g: "lt_fence_generation token = Some g"
    using ready by (simp_all add: token_ready_def)
  obtain r where r: "r \<in> set (dt_requests db)" "lease_current db now token LogicallyVerified r" "dr_fence_generation r = Some g"
    by (rule fenced_request [OF inv v]) auto
  let ?P = "\<lambda>r. dr_id r = lt_request_id token \<and> dr_stage r = LogicallyVerified
            \<and> dr_lease_owner r = Some (lt_owner token) \<and> dr_lease_generation r = lt_generation token
            \<and> at_or_after (dr_lease_until r) now \<and> dr_fence_generation r = Some g"
  have P: "?P r" using r by (simp add: lease_current_def)
  have n: "rows_affected ?P (dt_requests db) = 1"
    by (rule rows_affected_one [where P = ?P, OF db_inv_distinct(1) [OF inv] r(1) P]) (use P in auto)
  have m: "Q (f r) \<Longrightarrow> \<exists>q \<in> set (sql_update ?P f (dt_requests db)). Q q" for f Q
    using r(1) P by (auto simp: sql_update_def)
  have "dr_community_id r = lt_community_id token" using r by (simp add: lease_current_def)
  then show ?thesis
    using v g n P
    by (auto simp: drop_result_def mark_retention_pending_def require_fence_generation_def update_requests_def list_all_iff
        retargeting_ok_def intro!: m)
qed

text \<open>The way into the fence: a claim, quiescing, and the fence itself.\<close>

definition claim_token :: "string \<Rightarrow> deletion_request \<Rightarrow> lease_token" where
  "claim_token owner r =
     \<lparr>lt_request_id = dr_id r, lt_owner = owner, lt_generation = dr_lease_generation r + 1,
      lt_community_id = dr_community_id r, lt_fence_generation = dr_fence_generation r\<rparr>"

definition claimed_row :: "int \<Rightarrow> string \<Rightarrow> nat \<Rightarrow> deletion_request \<Rightarrow> deletion_request" where
  "claimed_row now owner d r =
     r\<lparr>dr_lease_owner := Some owner, dr_lease_generation := dr_lease_generation r + 1,
       dr_lease_until := Some (secs_from now d), dr_attempts := dr_attempts r + 1, dr_updated_at := now\<rparr>"

lemma progress_claim:
  assumes inv: "db_inv api db" and r: "r \<in> set (dt_requests db)" "claimable db now (Some (dr_id r)) r"
    and cat: "validate_catalog_on db = Inr ()"
  shows "claim api now (Some (dr_id r)) owner d db
    = Inr (db\<lparr>dt_requests := put_row dr_id (claimed_row now owner d r) (dt_requests db)\<rparr>,
        Some \<lparr>cd_request = claimed_row now owner d r, cd_lease = claim_token owner r\<rparr>)" (is "_ = Inr (?db, _)")
proof -
  have "filter (claimable db now (Some (dr_id r))) (dt_requests db) = [r]"
    by (rule filter_one [where P = "claimable db now (Some (dr_id r))", OF db_inv_distinct(1) [OF inv] r])
      (simp add: claimable_def)
  then have o: "oldest_request (filter (claimable db now (Some (dr_id r))) (dt_requests db)) = Some r" by simp
  have k: "dr_id (claimed_row now owner d r) = dr_id r" by (simp add: claimed_row_def)
  have u: "set_request (dr_id r) (claimed_row now owner d) db = Inr (?db, 1)"
    using sql_update_put [where P = "\<lambda>x. dr_id x = dr_id r" and f = "claimed_row now owner d", OF db_inv_distinct(1) [OF inv] r(1) refl _ k]
      rows_affected_one [where P = "\<lambda>x. dr_id x = dr_id r", OF db_inv_distinct(1) [OF inv] r(1)]
    by (simp add: set_request_def update_requests_def list_all_iff retargeting_ok_def claimed_row_def)
  have "distinct (map dr_id (dt_requests ?db))" using db_inv_distinct(1) [OF inv] by simp
  then have f: "find_request (dr_id r) ?db = Some (claimed_row now owner d r)"
    using put_row_mem [OF r(1) k] k by (subst find_request_iff) simp_all
  show ?thesis
    using u f by (simp add: claim_def o cat claimed_row_def [abs_def] updated_request_def claim_token_def)
qed

lemma claimed_row_current:
  assumes "claimable db now i r" "dt_approvals db' = dt_approvals db"
  shows "lease_current db' now (claim_token owner r) (dr_stage r) (claimed_row now owner d r)"
  using assms
  by (auto simp: lease_current_def claim_token_def claimed_row_def claimable_def approval_matches_def at_or_after_def secs_from_def)

definition lease_ready :: "deletion_api \<Rightarrow> int \<Rightarrow> lease_token \<Rightarrow> del_db \<Rightarrow> bool" where
  "lease_ready api now token db \<longleftrightarrow>
     db_inv api db \<and> validate_catalog_on db = Inr () \<and> active_leases now (lt_community_id token) db = []
     \<and> verify_lease api now token Approved db = Inr ()"

lemma progress_quiescing:
  assumes ready: "lease_ready api now token db"
  shows "\<exists>db'. begin_quiescing api now token db = Inr (db', ())"
proof -
  have inv: "db_inv api db" and v: "verify_lease api now token Approved db = Inr ()"
    using ready by (simp_all add: lease_ready_def)
  obtain r c where r: "r \<in> set (dt_requests db)" "dr_stage r = Approved"
    and c: "c \<in> set (dt_communities db)" "co_id c = lt_community_id token" "state_for r c"
      "find_community (lt_community_id token) db = Some c"
    by (rule leased_request [OF inv v]) auto
  have "co_state c = Cs_Active \<Longrightarrow> co_deleted_at c = None"
    using inv c(1) by (auto simp: db_inv_def community_ok_def)
  then have st: "co_state c \<in> {Cs_Active, Cs_Quiescing} \<and> co_deleted_at c = None"
    using c(3) r(2) by (auto simp: state_for_def split: if_splits)
  let ?P = "\<lambda>c. co_id c = lt_community_id token \<and> co_state c \<in> {Cs_Active, Cs_Quiescing} \<and> co_deleted_at c = None"
  have n: "rows_affected ?P (dt_communities db) = 1"
    by (rule rows_affected_one [where P = ?P, OF db_inv_distinct(2) [OF inv] c(1)]) (use st c(2) in auto)
  have e: "x = c" if "x \<in> set (dt_communities db)" "co_id x = lt_community_id token" for x
    using community_by_id [OF db_inv_distinct(2) [OF inv] that(1) c(1)] that c(2) by simp
  show ?thesis
    using v c(2,4) n e
    by (auto simp: begin_quiescing_def update_requests_def list_all_iff retargeting_ok_def update_communities_def
        enforce_community_tombstone_def set_executor_gucs_def simp del: insert_iff)
qed

lemma quiescing_ready:
  assumes ready: "lease_ready api now token db" and s: "begin_quiescing api now token db = Inr (db', ())"
  shows "lease_ready api now token db'"
    "\<exists>c. find_community (lt_community_id token) db = Some c
       \<and> (\<exists>c'. find_community (lt_community_id token) db' = Some c' \<and> co_state c' = Cs_Quiescing
           \<and> co_fence_generation c' = co_fence_generation c)"
proof -
  have inv: "db_inv api db" using ready by (simp add: lease_ready_def)
  obtain r c where r: "r \<in> set (dt_requests db)" "lease_current db now token Approved r"
    and c: "c \<in> set (dt_communities db)" "co_id c = dr_community_id r"
    and db': "dt_requests db' = put_row dr_id (quiesced now c r) (dt_requests db)"
    "dt_communities db' = put_row co_id (c\<lparr>co_state := Cs_Quiescing,
        co_archived_at := coalesce (co_archived_at c) (Some now)\<rparr>) (dt_communities db)"
    "dt_approvals db' = dt_approvals db" "dt_leases db' = dt_leases db" "dt_catalog db' = dt_catalog db"
    by (rule begin_quiescing_effect [OF inv s]) blast
  have inv': "db_inv api db'" by (rule db_inv_begin_quiescing [OF inv s])
  have q: "dr_id (quiesced now c r) = dr_id r" by (simp add: quiesced_def)
  have "lease_current db' now token Approved (quiesced now c r)"
    using r(2) by (auto simp: lease_current_def quiesced_def approval_matches_def db'(3))
  then have "verify_lease api now token Approved db' = Inr ()"
    unfolding verify_lease_Inr db'(1) using put_row_mem [OF r(1) q] by blast
  then show "lease_ready api now token db'"
    using ready inv' validate_catalog_cong [OF db'(5)] by (simp add: lease_ready_def active_leases_def db'(4))
  let ?c = "c\<lparr>co_state := Cs_Quiescing, co_archived_at := coalesce (co_archived_at c) (Some now)\<rparr>"
  have i: "dr_community_id r = lt_community_id token" using r(2) by (simp add: lease_current_def)
  have "?c \<in> set (dt_communities db')" unfolding db'(2) by (rule put_row_mem [OF c(1)]) simp
  then have "find_community (lt_community_id token) db' = Some ?c"
    using find_community_iff [OF db_inv_distinct(2) [OF inv']] c(2) i by simp
  moreover have "find_community (lt_community_id token) db = Some c"
    using find_community_iff [OF db_inv_distinct(2) [OF inv]] c i by simp
  ultimately show "\<exists>c. find_community (lt_community_id token) db = Some c
       \<and> (\<exists>c'. find_community (lt_community_id token) db' = Some c' \<and> co_state c' = Cs_Quiescing
           \<and> co_fence_generation c' = co_fence_generation c)" by simp
qed

lemma progress_fence:
  assumes ready: "lease_ready api now token db"
    and c: "find_community (lt_community_id token) db = Some c" "co_state c = Cs_Quiescing" "co_fence_generation c \<noteq> I64_MAX"
  defines "g \<equiv> co_fence_generation c + 1"
  shows "\<exists>db'. fence api now token db = Inr (db', g) \<and> token_ready api now (token\<lparr>lt_fence_generation := Some g\<rparr>) Fenced g db'"
proof -
  have inv: "db_inv api db" and v: "verify_lease api now token Approved db = Inr ()"
    and al: "active_leases now (lt_community_id token) db = []"
    using ready by (simp_all add: lease_ready_def)
  obtain r where r: "r \<in> set (dt_requests db)" "lease_current db now token Approved r" "dr_community_id r = lt_community_id token"
    by (rule leased_request [OF inv v]) auto
  have m: "c \<in> set (dt_communities db)" "co_id c = lt_community_id token"
    using c(1) find_community_iff [OF db_inv_distinct(2) [OF inv]] by simp_all
  let ?f = "\<lambda>c. c\<lparr>co_state := Cs_Fenced, co_fence_generation := g, co_archived_at := coalesce (co_archived_at c) (Some now)\<rparr>"
  let ?P = "\<lambda>c. co_id c = lt_community_id token \<and> co_state c = Cs_Quiescing"
  let ?db1 = "db\<lparr>dt_communities := put_row co_id (?f c) (dt_communities db)\<rparr>"
  have P: "?P c" using m c by simp
  have e: "x = c" if "x \<in> set (dt_communities db)" "co_id x = lt_community_id token" for x
    using community_by_id [OF db_inv_distinct(2) [OF inv] that(1) m(1)] that m(2) by simp
  have u: "update_communities (set_executor_gucs (lt_community_id token) g plain_session) ?P ?f db = Inr (?db1, 1)"
    using sql_update_put [where P = ?P and f = ?f, OF db_inv_distinct(2) [OF inv] m(1) P]
      rows_affected_one [where P = ?P, OF db_inv_distinct(2) [OF inv] m(1) P] m(2) e
    by (auto simp: update_communities_def list_all_iff enforce_community_tombstone_def set_executor_gucs_def g_def)
  have r1: "r \<in> set (dt_requests ?db1)" "lease_current ?db1 now token Approved r"
    using r by (auto simp: lease_current_def approval_matches_def)
  let ?r = "advanced now Fenced (Some g) r"
  let ?db2 = "?db1\<lparr>dt_requests := put_row dr_id ?r (dt_requests ?db1)\<rparr>"
  have a: "advance_request_tx api now token Approved Fenced (Some g) ?db1 = Inr ?db2"
    by (rule advance_progress [OF _ r1]) (use db_inv_distinct(1) [OF inv] in simp_all)
  let ?db3 = "checkpoint_completed_tx now token Approved ''activate_fence'' [(''fence_generation'', show_int g)] ?db2"
  have run: "fence api now token db = Inr (?db3, g)"
    using v al c u a by (simp add: fence_def next_generation_def g_def)
  let ?tk = "token\<lparr>lt_fence_generation := Some g\<rparr>"
  have "verify_lease_and_fence api now ?tk Fenced g ?db3 = Inr ()"
    unfolding verify_lease_and_fence_Inr
  proof (intro bexI conjI)
    show "?r \<in> set (dt_requests ?db3)" using put_row_mem [OF r(1), of dr_id ?r] by simp
    have "lease_current ?db3 now token Fenced ?r" by (rule lease_current_advanced [OF r(2)]) simp
    then show "lease_current ?db3 now ?tk Fenced ?r" by (simp add: lease_current_def)
    show "?f c \<in> set (dt_communities ?db3)" using put_row_mem [OF m(1), of co_id "?f c"] by simp
  qed (use m r in \<open>simp_all add: sealed_def\<close>)
  moreover have "validate_catalog_on ?db3 = Inr ()"
    using validate_catalog_cong [of ?db3 db] ready by (simp add: lease_ready_def)
  ultimately have "token_ready api now ?tk Fenced g ?db3"
    using db_inv_fence [OF inv run] al by (simp add: token_ready_def active_leases_def)
  with run show ?thesis by blast
qed

text \<open>The transactions that take an approved request to its end, all under one claim.\<close>

definition finish_ops :: "int \<Rightarrow> string \<Rightarrow> nat \<Rightarrow> deletion_request \<Rightarrow> community_row \<Rightarrow> del_op list" where
  "finish_ops now owner d r c =
     (let token = claim_token owner r;
          fenced = token\<lparr>lt_fence_generation := Some (co_fence_generation c + 1)\<rparr> in
      [Op_Control now (Claim (Some (dr_id r)) owner d), Op_Token now token Begin_Quiescing, Op_Token now token Fence,
       Op_Token now fenced Mark_Drained, Op_Token now fenced (Mark_Bindings_Removed []), Op_Token now fenced Purge_Postgres,
       Op_Token now fenced (Mark_Cache_Purged []), Op_Token now fenced (Mark_Logically_Verified []),
       Op_Token now fenced (Mark_Retention_Pending [])])"

lemma progress_fenced:
  assumes "token_ready api now token Fenced g db"
  shows "\<exists>r \<in> set (dt_requests (run_ops api [Op_Token now token Mark_Drained, Op_Token now token (Mark_Bindings_Removed []),
      Op_Token now token Purge_Postgres, Op_Token now token (Mark_Cache_Purged []),
      Op_Token now token (Mark_Logically_Verified []), Op_Token now token (Mark_Retention_Pending [])] db)).
    dr_id r = lt_request_id token \<and> dr_stage r = RetentionPending \<and> dr_community_id r = lt_community_id token"
proof -
  obtain db1 where 1: "run_token api now token Mark_Drained db = Inr db1" "token_ready api now token Drained g db1"
    using progress_mark_drained [OF assms] by blast
  obtain db2 where 2: "run_token api now token (Mark_Bindings_Removed []) db1 = Inr db2" "token_ready api now token BindingsRemoved g db2"
    using progress_advance [OF 1(2), of BindingsRemoved "Mark_Bindings_Removed []" "''remove_storage_bindings''" "[]"]
    by (auto simp: mark_bindings_removed_def)
  obtain db3 where 3: "run_token api now token Purge_Postgres db2 = Inr db3" "token_ready api now token PostgresPurged g db3"
    using progress_purge [OF 2(2)] by blast
  obtain db4 where 4: "run_token api now token (Mark_Cache_Purged []) db3 = Inr db4" "token_ready api now token CachePurged g db4"
    using progress_advance [OF 3(2), of CachePurged "Mark_Cache_Purged []" "''purge_cache_namespace''" "[]"]
    by (auto simp: mark_cache_purged_def)
  obtain db5 where 5: "run_token api now token (Mark_Logically_Verified []) db4 = Inr db5" "token_ready api now token LogicallyVerified g db5"
    using progress_logically_verified [OF 4(2)] by blast
  show ?thesis using progress_retention_pending [OF 5(2), of "[]"] 1(1) 2(1) 3(1) 4(1) 5(1) by (auto simp del: run_token.simps)
qed

lemma finish_progress:
  assumes inv: "db_inv api db" and r: "r \<in> set (dt_requests db)" "dr_stage r = Approved" "claimable db now (Some (dr_id r)) r"
    and cat: "validate_catalog_on db = Inr ()" and al: "active_leases now (dr_community_id r) db = []"
    and c: "find_community (dr_community_id r) db = Some c" "co_fence_generation c \<noteq> I64_MAX"
  shows "\<exists>r' \<in> set (dt_requests (run_ops api (finish_ops now owner d r c) db)).
    dr_id r' = dr_id r \<and> dr_stage r' = RetentionPending \<and> dr_community_id r' = dr_community_id r"
proof -
  let ?tk = "claim_token owner r"
  have t: "lt_community_id ?tk = dr_community_id r" "lt_request_id ?tk = dr_id r" by (simp_all add: claim_token_def)
  let ?db1 = "db\<lparr>dt_requests := put_row dr_id (claimed_row now owner d r) (dt_requests db)\<rparr>"
  have run1: "run_op api (Op_Control now (Claim (Some (dr_id r)) owner d)) db = Inr ?db1"
    using progress_claim [OF inv r(1,3) cat] by (simp add: drop_result_def)
  have "claimed_row now owner d r \<in> set (dt_requests ?db1)"
    using put_row_mem [OF r(1), of dr_id "claimed_row now owner d r"] by (simp add: claimed_row_def)
  moreover have "lease_current ?db1 now ?tk Approved (claimed_row now owner d r)"
    using claimed_row_current [OF r(3), of ?db1 owner d] r(2) by simp
  ultimately have "verify_lease api now ?tk Approved ?db1 = Inr ()" unfolding verify_lease_Inr by blast
  then have ready: "lease_ready api now ?tk ?db1"
    using db_inv_run_op [OF inv run1] cat validate_catalog_cong [of ?db1 db] al
    by (simp add: lease_ready_def active_leases_def t)
  obtain db2 where q: "begin_quiescing api now ?tk ?db1 = Inr (db2, ())" using progress_quiescing [OF ready] by blast
  obtain c2 where c2: "find_community (lt_community_id ?tk) db2 = Some c2" "co_state c2 = Cs_Quiescing"
    "co_fence_generation c2 = co_fence_generation c"
    using quiescing_ready(2) [OF ready q] c(1) by (auto simp: t find_community_def)
  obtain db3 where f: "fence api now ?tk db2 = Inr (db3, co_fence_generation c + 1)"
    "token_ready api now (?tk\<lparr>lt_fence_generation := Some (co_fence_generation c + 1)\<rparr>) Fenced (co_fence_generation c + 1) db3"
    using progress_fence [OF quiescing_ready(1) [OF ready q] c2(1,2)] c2(3) c(2) by auto
  have "run_ops api (finish_ops now owner d r c) db = run_ops api
      (drop 3 (finish_ops now owner d r c)) db3"
    using run1 q f(1) by (simp add: finish_ops_def drop_result_def Let_def del: run_op.simps(2))
  then show ?thesis using progress_fenced [OF f(2)] by (simp add: finish_ops_def Let_def t del: run_ops.simps run_op.simps)
qed

end
