(* ===== verification/Deletion_Props.thy ===== *)
theory Deletion_Props
  imports Deletion_Progress
begin

text \<open>
  Properties of the deletion store along runs: what a community admits in each stage, what an approval
  authorises, what a stale executor can do, how an abort restores a community, that nothing returns after the
  purge, that retries are bounded and that an approved deletion can be finished. The sample is a community with
  one request that is submitted, inventoried, approved, claimed and fenced.
\<close>

section \<open>How a community row may change\<close>

definition state_step :: "community_state \<Rightarrow> community_state \<Rightarrow> bool" where
  "state_step s s' \<longleftrightarrow>
     s' = s \<or> (s, s') \<in> {(Cs_Active, Cs_Quiescing), (Cs_Quiescing, Cs_Fenced), (Cs_Fenced, Cs_Tombstone),
                          (Cs_Quiescing, Cs_Active), (Cs_Fenced, Cs_Active)}"

definition community_step :: "community_row \<Rightarrow> community_row \<Rightarrow> bool" where
  "community_step c c' \<longleftrightarrow>
     co_id c' = co_id c \<and> co_fence_generation c \<le> co_fence_generation c' \<and> state_step (co_state c) (co_state c')
     \<and> (co_state c = Cs_Tombstone \<longrightarrow> c' = c)"

lemma community_step_refl [simp]: "community_step c c"
  by (simp add: community_step_def state_step_def)

definition communities_step :: "del_db \<Rightarrow> del_db \<Rightarrow> bool" where
  "communities_step db db' \<longleftrightarrow>
     (\<exists>cs new. dt_communities db' = cs @ new \<and> list_all2 community_step (dt_communities db) cs
        \<and> (\<forall>c \<in> set new. co_state c = Cs_Active))"

lemma communities_step_same: "dt_communities db' = dt_communities db \<Longrightarrow> communities_step db db'"
  unfolding communities_step_def by (rule exI [of _ "dt_communities db"], rule exI [of _ "[]"]) (simp add: list.rel_refl)

lemma communities_step_map:
  assumes "dt_communities db' = map h (dt_communities db)" "\<And>c. c \<in> set (dt_communities db) \<Longrightarrow> community_step c (h c)"
  shows "communities_step db db'"
  unfolding communities_step_def
  by (rule exI [of _ "map h (dt_communities db)"], rule exI [of _ "[]"])
    (use assms in \<open>auto simp: list_all2_conv_all_nth\<close>)

lemma communities_step_put:
  assumes "dt_communities db' = put_row co_id c' (dt_communities db)" "distinct (map co_id (dt_communities db))"
    and "c \<in> set (dt_communities db)" "co_id c' = co_id c" "community_step c c'"
  shows "communities_step db db'"
  using assms(4,5) community_by_id [OF assms(2) _ assms(3)]
  by (intro communities_step_map [OF assms(1) [unfolded put_row_def]]) auto

lemma communities_step_begin_quiescing:
  assumes inv: "db_inv api db" and s: "begin_quiescing api now token db = Inr (db', x)"
  shows "communities_step db db'"
proof -
  obtain r c where "dr_stage r = Approved" and c: "c \<in> set (dt_communities db)" and "state_for r c"
    and eq: "dt_communities db' = put_row co_id (c\<lparr>co_state := Cs_Quiescing,
        co_archived_at := coalesce (co_archived_at c) (Some now)\<rparr>) (dt_communities db)"
    by (rule begin_quiescing_effect [OF inv s]) blast
  then show ?thesis
    by (intro communities_step_put [OF eq db_inv_distinct(2) [OF inv] c])
      (auto simp: community_step_def state_step_def state_for_def split: if_splits)
qed

lemma communities_step_fence:
  assumes inv: "db_inv api db" and s: "fence api now token db = Inr (db', g)"
  shows "communities_step db db'"
proof -
  obtain c where c: "c \<in> set (dt_communities db)" and "co_state c = Cs_Quiescing" "g = co_fence_generation c + 1"
    and eq: "dt_communities db' = put_row co_id (c\<lparr>co_state := Cs_Fenced, co_fence_generation := g,
        co_archived_at := coalesce (co_archived_at c) (Some now)\<rparr>) (dt_communities db)"
    by (rule fence_effect [OF inv s]) blast
  then show ?thesis
    by (intro communities_step_put [OF eq db_inv_distinct(2) [OF inv] c]) (auto simp: community_step_def state_step_def)
qed

lemma communities_step_purge:
  assumes inv: "db_inv api db" and s: "purge_postgres api now token db = Inr (db', x)"
  shows "communities_step db db'"
proof -
  obtain r c where "dr_stage r = BindingsRemoved" and c: "c \<in> set (dt_communities db)" and "state_for r c"
    and eq: "dt_communities db' = put_row co_id (tombstoned now c) (dt_communities db)"
    by (rule purge_effect [OF inv s]) blast
  then show ?thesis
    by (intro communities_step_put [OF eq db_inv_distinct(2) [OF inv] c])
      (auto simp: community_step_def state_step_def state_for_def tombstoned_def purged_stage_def)
qed

lemma communities_step_abort:
  assumes inv: "db_inv api db" and s: "abort_request api nonce now i by reason db = Inr (db', x)"
  shows "communities_step db db'"
proof -
  obtain r c g where "dr_stage r \<in> {Approved, Fenced}" and c: "c \<in> set (dt_communities db)" and "state_for r c"
    "g = co_fence_generation c + 1"
    and eq: "dt_communities db' = put_row co_id (restored_row g r c) (dt_communities db)"
    by (rule abort_effect [OF inv s]) blast
  then show ?thesis
    by (intro communities_step_put [OF eq db_inv_distinct(2) [OF inv] c])
      (auto simp: community_step_def state_step_def state_for_def restored_row_def purged_stage_def split: if_splits)
qed

lemma communities_step_core: "core_step db db' \<Longrightarrow> communities_step db db'"
  by (simp add: core_step_def same_tables_def communities_step_same)

lemma communities_step_community_update:
  assumes "community_update i f db = Inr (db', x)"
  shows "communities_step db db'"
proof -
  let ?h = "\<lambda>c. if co_id c = i then (f c)\<lparr>co_id := co_id c\<rparr> else c"
  have "dt_communities db' = map ?h (dt_communities db)"
    and "\<forall>c \<in> set (dt_communities db). co_id c = i \<longrightarrow> enforce_community_tombstone plain_session c ((f c)\<lparr>co_id := co_id c\<rparr>)"
    using assms by (auto simp: community_update_def update_communities_Inr sql_update_def)
  then show ?thesis
    by (intro communities_step_map [of db' ?h])
      (auto simp: enforce_community_tombstone_def plain_session_def Let_def community_step_def state_step_def)
qed

lemma communities_step_community_create:
  assumes "community_create api i host key db = Inr (db', x)"
  shows "communities_step db db'"
proof -
  obtain c where "dt_communities db' = dt_communities db @ [c]" "co_state c = Cs_Active"
    using assms by (auto simp: community_create_def split: if_splits)
  then show ?thesis
    unfolding communities_step_def
    by (intro exI [of _ "dt_communities db"] exI [of _ "[c]"]) (simp add: list.rel_refl)
qed

lemma communities_same_stage_ops:
  "mark_drained api now token db = Inr (db', x) \<Longrightarrow> dt_communities db' = dt_communities db"
  "advance_with_checkpoint api now token a b k d db = Inr (db', x) \<Longrightarrow> dt_communities db' = dt_communities db"
  "mark_logically_verified api now token d db = Inr (db', x) \<Longrightarrow> dt_communities db' = dt_communities db"
  "mark_retention_pending api now token d db = Inr (db', x) \<Longrightarrow> dt_communities db' = dt_communities db"
  "freeze_destructive_storage_manifest api now token m db = Inr (db', x) \<Longrightarrow> dt_communities db' = dt_communities db"
  "clear_manifest_key_chunks api now token db = Inr (db', x) \<Longrightarrow> dt_communities db' = dt_communities db"
  "append_manifest_key_chunk api now token n p ks db = Inr (db', x) \<Longrightarrow> dt_communities db' = dt_communities db"
  "mark_manifest_chunk_deleted api now token n d db = Inr (db', x) \<Longrightarrow> dt_communities db' = dt_communities db"
  by (auto simp: mark_drained_def advance_with_checkpoint_def mark_logically_verified_def mark_retention_pending_def
      freeze_destructive_storage_manifest_def clear_manifest_key_chunks_def append_manifest_key_chunk_def
      mark_manifest_chunk_deleted_def advance_request_tx_def Let_def and_then_Inr update_requests_Inr delete_chunks_Inr
      split: if_splits)

lemma communities_same_control_ops:
  "submit api i now host by reason db = Inr (db', x1) \<Longrightarrow> dt_communities db' = dt_communities db"
  "freeze_inventory api now i inventory db = Inr (db', x2) \<Longrightarrow> dt_communities db' = dt_communities db"
  "approve api now i by note db = Inr (db', x3) \<Longrightarrow> dt_communities db' = dt_communities db"
  by (auto simp: submit_def freeze_inventory_def approve_def Let_def and_then_Inr updated_request_Inr update_requests_Inr
      split: if_splits option.splits)

lemma communities_step_run_token:
  assumes inv: "db_inv api db" and s: "run_token api now token op db = Inr db'"
  shows "communities_step db db'"
  by (cases op; use s in \<open>auto simp: drop_result_Inr mark_bindings_removed_def mark_cache_purged_def
      dest: communities_step_begin_quiescing [OF inv] communities_step_fence [OF inv] communities_step_purge [OF inv]
        communities_same_stage_ops [THEN communities_step_same] core_step_heartbeat [THEN communities_step_core]
        core_step_record_retry [THEN communities_step_core] core_step_block [THEN communities_step_core]\<close>)

lemma communities_step_run_control:
  assumes inv: "db_inv api db" and s: "run_control api now op db = Inr db'"
  shows "communities_step db db'"
  by (cases op; use s in \<open>auto simp: drop_result_Inr
      dest: communities_step_abort [OF inv] communities_same_control_ops [THEN communities_step_same]
        core_step_claim [THEN communities_step_core] core_step_stop [THEN communities_step_core]
        core_step_block_preclaim [THEN communities_step_core] core_step_unblock [THEN communities_step_core]\<close>)

lemma communities_step_run_system:
  assumes s: "run_system api now op db = Inr db'"
  shows "communities_step db db'"
proof (cases op)
  case (Community_Update i f)
  then show ?thesis using s by (auto simp: drop_result_Inr intro: communities_step_community_update)
next
  case (Community_Create i host key)
  then show ?thesis using s by (auto simp: drop_result_Inr intro: communities_step_community_create)
next
  case (Reap_Leases n)
  then have "dt_communities db' = dt_communities db"
    using s by (auto simp: drop_result_Inr reap_expired_serving_write_leases_def Let_def simp del: set_sort)
  then show ?thesis by (rule communities_step_same)
qed (rule communities_step_same, use s in \<open>auto simp: drop_result_Inr and_then_Inr tenant_write_Inr
    record_taxonomy_sweep_def acquire_serving_write_lease_def renew_serving_write_lease_def release_serving_write_lease_def
    migrate_def Let_def split: if_splits sum.splits option.splits\<close>)+

lemma communities_step_run_op:
  "db_inv api db \<Longrightarrow> run_op api op db = Inr db' \<Longrightarrow> communities_step db db'"
  by (cases op) (auto intro: communities_step_run_token communities_step_run_control communities_step_run_system)

section \<open>What stays along a run\<close>

lemma list_all2_image:
  assumes "list_all2 R xs ys" "x \<in> set xs"
  obtains y where "y \<in> set ys" "R x y"
  using assms by (metis in_set_conv_nth list_all2_conv_all_nth)

lemma run_ops_rows:
  assumes P: "\<And>r r'. row_step r r' \<Longrightarrow> P r \<Longrightarrow> P r'"
  shows "db_inv api db \<Longrightarrow> r \<in> set (dt_requests db) \<Longrightarrow> P r \<Longrightarrow>
    \<exists>r' \<in> set (dt_requests (run_ops api ops db)). dr_id r' = dr_id r \<and> P r'"
proof (induction ops arbitrary: db r)
  case Nil
  then show ?case by auto
next
  case (Cons op ops)
  show ?case
  proof (cases "run_op api op db")
    case (Inl e)
    then show ?thesis using Cons by simp
  next
    case (Inr db1)
    obtain rs new where "dt_requests db1 = rs @ new" "list_all2 row_step (dt_requests db) rs"
      using requests_step_run_op [OF Cons.prems(1) Inr] by (auto simp: requests_step_def)
    with Cons.prems(2) obtain r1 where r1: "r1 \<in> set (dt_requests db1)" "row_step r r1"
      by (auto elim: list_all2_image)
    from Cons.IH [OF db_inv_run_op [OF Cons.prems(1) Inr] r1(1) P [OF r1(2) Cons.prems(3)]] r1(2) Inr
    show ?thesis by (auto simp: row_step_def)
  qed
qed

lemma run_ops_communities:
  assumes P: "\<And>c c'. community_step c c' \<Longrightarrow> P c \<Longrightarrow> P c'"
  shows "db_inv api db \<Longrightarrow> c \<in> set (dt_communities db) \<Longrightarrow> P c \<Longrightarrow>
    \<exists>c' \<in> set (dt_communities (run_ops api ops db)). co_id c' = co_id c \<and> P c'"
proof (induction ops arbitrary: db c)
  case Nil
  then show ?case by auto
next
  case (Cons op ops)
  show ?case
  proof (cases "run_op api op db")
    case (Inl e)
    then show ?thesis using Cons by simp
  next
    case (Inr db1)
    obtain cs new where "dt_communities db1 = cs @ new" "list_all2 community_step (dt_communities db) cs"
      using communities_step_run_op [OF Cons.prems(1) Inr] by (auto simp: communities_step_def)
    with Cons.prems(2) obtain c1 where c1: "c1 \<in> set (dt_communities db1)" "community_step c c1"
      by (auto elim: list_all2_image)
    from Cons.IH [OF db_inv_run_op [OF Cons.prems(1) Inr] c1(1) P [OF c1(2) Cons.prems(3)]] c1(2) Inr
    show ?thesis by (auto simp: community_step_def)
  qed
qed

section \<open>A sample\<close>

definition fenced_table :: "string \<Rightarrow> pg_table" where
  "fenced_table name =
     \<lparr>pt_name = name, pt_schema = ''public'', pt_relkind = CHR ''r'', pt_relispartition = False,
      pt_columns = [''community_id''],
      pt_triggers = [\<lparr>tg_internal = False, tg_function = ''enforce_community_write_fence'', tg_enabled = CHR ''O'',
        tg_type = 31\<rparr>]\<rparr>"

definition sample_catalog :: "pg_table list" where
  "sample_catalog = map fenced_table EXPECTED_SCOPED_TABLES"

definition sample_db :: del_db where
  "sample_db =
     \<lparr>dt_communities =
        [\<lparr>co_id = 7, co_host = ''h'', co_state = Cs_Active, co_fence_generation = 0, co_deleted_at = None,
          co_archived_at = Some 5, co_signing_key = Some ''k'', co_icon = None\<rparr>],
      dt_requests = [], dt_approvals = [], dt_checkpoints = [], dt_chunks = [], dt_leases = [], dt_heartbeats = [],
      dt_sweeps = [],
      dt_rows = [\<lparr>tr_table = ''events'', tr_community = Some 7, tr_data = ''e''\<rparr>,
        \<lparr>tr_table = ''product_feedback'', tr_community = Some 7, tr_data = ''f''\<rparr>],
      dt_catalog = sample_catalog\<rparr>"

definition sample_inventory :: frozen_inventory where
  "sample_inventory =
     \<lparr>fi_schema = \<lparr>sc_scoped_tables = [], sc_row_counts = [], sc_fenced_tables = []\<rparr>, fi_storage = sample_manifest\<rparr>"

definition sample_token :: "int option \<Rightarrow> lease_token" where
  "sample_token g = \<lparr>lt_request_id = 1, lt_owner = ''ex'', lt_generation = 1, lt_community_id = 7, lt_fence_generation = g\<rparr>"

definition sample_approved_ops :: "del_op list" where
  "sample_approved_ops =
     [Op_Control 10 (Submit 1 ''h'' ''op'' None), Op_Control 20 (Freeze_Inventory 1 sample_inventory),
      Op_Control 30 (Approve 1 ''boss'' None)]"

definition sample_claimed_ops :: "del_op list" where
  "sample_claimed_ops = sample_approved_ops @ [Op_Control 40 (Claim None ''ex'' 60)]"

definition sample_fenced_ops :: "del_op list" where
  "sample_fenced_ops = sample_claimed_ops @
     [Op_Token 50 (sample_token None) Begin_Quiescing, Op_Token 60 (sample_token None) Fence]"

definition sample_blocked_ops :: "del_op list" where
  "sample_blocked_ops = sample_claimed_ops @ [Op_Token 50 (sample_token None) (Block Approved ''k'' ''e'')]"

lemma sample_catalog_tables:
  assumes "dt_catalog db = sample_catalog"
  shows "live_scoped_tables_on db = set EXPECTED_SCOPED_TABLES" "live_fenced_tables_on db = set EXPECTED_SCOPED_TABLES"
proof -
  have n: "set FENCE_EXCLUDED_TABLES \<inter> set EXPECTED_SCOPED_TABLES = {}" by code_simp
  have f: "list_ex fence_trigger (pt_triggers (fenced_table t))" for t
    by (simp add: fenced_table_def fence_trigger_def bit_simps)
  show "live_scoped_tables_on db = set EXPECTED_SCOPED_TABLES"
    using n unfolding live_scoped_tables_on_def assms sample_catalog_def
    by (auto simp: fenced_table_def filter_map comp_def)
  show "live_fenced_tables_on db = set EXPECTED_SCOPED_TABLES"
    using f unfolding live_fenced_tables_on_def assms sample_catalog_def
    by (auto simp: fenced_table_def filter_map comp_def)
qed

lemma sample_catalog_valid [simp]: "dt_catalog db = sample_catalog \<Longrightarrow> validate_catalog_on db = Inr ()"
  by (simp add: validate_catalog_on_def sample_catalog_tables)

lemma sample_manifest_valid [simp]: "validate_storage_manifest sample_manifest = Inr ()"
  by code_simp

lemmas sample_op_defs = drop_result_def submit_def freeze_inventory_def approve_def claim_def begin_quiescing_def fence_def
  Let_def update_requests_def sql_update_def rows_affected_def updated_request_def retargeting_ok_def find_request_def
  new_request_def claimable_def approval_matches_def stage_runnable_def set_request_def verify_lease_def lease_current_def
  at_or_after_def secs_from_def sample_token_def find_community_def update_communities_def enforce_community_tombstone_def
  set_executor_gucs_def plain_session_def coalesce_def checkpoint_completed_tx_def upsert_checkpoint_def active_leases_def
  next_generation_def I64_MAX_def advance_request_tx_def sample_db_def sample_deletion_api_def sample_inventory_def
  inventory_digest_def sample_approved_ops_def sample_claimed_ops_def sample_fenced_ops_def

lemma sample_initial: "initial_db sample_db"
  by code_simp

lemma sample_runs_reachable: "reachable sample_deletion_api (run_ops sample_deletion_api ops sample_db)"
  by (rule reachable_run_ops [OF reachable.initial [OF sample_initial]])

lemma sample_approved:
  "map (\<lambda>r. (dr_id r, dr_stage r, dr_community_id r)) (dt_requests (run_ops sample_deletion_api sample_approved_ops sample_db))
     = [(1, Approved, 7)]"
  by (simp add: sample_op_defs)

lemma sample_fenced:
  "map (\<lambda>r. (dr_id r, dr_stage r, dr_community_id r)) (dt_requests (run_ops sample_deletion_api sample_fenced_ops sample_db))
     = [(1, Fenced, 7)]"
  "map (\<lambda>c. (co_id c, co_state c, co_fence_generation c)) (dt_communities (run_ops sample_deletion_api sample_fenced_ops sample_db))
     = [(7, Cs_Fenced, 1)]"
  by (simp_all add: sample_op_defs)

section \<open>Lemmas for the properties\<close>

lemma sample_blocked:
  "map (\<lambda>r. (dr_id r, dr_blocked_at r)) (dt_requests (run_ops sample_deletion_api sample_blocked_ops sample_db)) = [(1, Some 50)]"
  by (simp add: sample_op_defs sample_blocked_ops_def block_def checkpoint_failed_tx_def)

lemma sample_reclaim:
  "\<exists>db' claimed. claim sample_deletion_api 100000000 None ''other'' 60
      (run_ops sample_deletion_api sample_claimed_ops sample_db) = Inr (db', Some claimed)
    \<and> lt_request_id (cd_lease claimed) = 1 \<and> lt_generation (cd_lease claimed) = 2"
  by (simp add: sample_op_defs)

lemma sample_trim: "trim ''op'' = ''op''" "trim ''why'' = ''why''"
  by (simp_all add: trim_def whitespace_encodings_def char_of_def)

lemma sample_abort:
  "\<exists>c db1 db' x. find_community 7 (run_ops sample_deletion_api sample_claimed_ops sample_db) = Some c \<and> co_state c = Cs_Active
    \<and> begin_quiescing sample_deletion_api 50 (sample_token None) (run_ops sample_deletion_api sample_claimed_ops sample_db)
        = Inr (db1, ())
    \<and> abort_request sample_deletion_api 9 70 1 ''op'' ''why'' (run_ops sample_deletion_api [] db1) = Inr (db', x)"
  by (simp add: sample_op_defs abort_request_def sample_trim insert_checkpoint_def restored_archived_at_def
      operator_checkpoint_def)

lemma sample_finish:
  "\<exists>r c. r \<in> set (dt_requests (run_ops sample_deletion_api sample_approved_ops sample_db)) \<and> dr_stage r = Approved
    \<and> dr_id r = 1 \<and> dr_community_id r = 7
    \<and> claimable (run_ops sample_deletion_api sample_approved_ops sample_db) 40 (Some (dr_id r)) r
    \<and> validate_catalog_on (run_ops sample_deletion_api sample_approved_ops sample_db) = Inr ()
    \<and> active_leases 40 (dr_community_id r) (run_ops sample_deletion_api sample_approved_ops sample_db) = []
    \<and> find_community (dr_community_id r) (run_ops sample_deletion_api sample_approved_ops sample_db) = Some c
    \<and> co_fence_generation c \<noteq> I64_MAX"
  by (simp add: sample_op_defs)

lemma run_ops_append: "run_ops api (xs @ ys) db = run_ops api ys (run_ops api xs db)"
  by (induction xs arbitrary: db) simp_all

lemma finished_tombstone:
  assumes inv: "db_inv api db" and r: "r \<in> set (dt_requests db)" "dr_stage r = RetentionPending"
  obtains c where "c \<in> set (dt_communities db)" "co_id c = dr_community_id r" "co_state c = Cs_Tombstone"
proof -
  obtain c where "c \<in> set (dt_communities db)" "co_id c = dr_community_id r" "state_for r c"
    by (rule live_community [OF inv r(1)]) (use r(2) in auto)
  then show thesis using r(2) by (intro that [of c]) (auto simp: state_for_def purged_stage_def)
qed

lemma sample_tombstone:
  obtains ops c where "c \<in> set (dt_communities (run_ops sample_deletion_api ops sample_db))"
    "co_state c = Cs_Tombstone" "co_id c = 7"
proof -
  let ?db = "run_ops sample_deletion_api sample_approved_ops sample_db"
  obtain r c where r: "r \<in> set (dt_requests ?db)" "dr_stage r = Approved" "claimable ?db 40 (Some (dr_id r)) r"
    "validate_catalog_on ?db = Inr ()" "active_leases 40 (dr_community_id r) ?db = []"
    "find_community (dr_community_id r) ?db = Some c" "co_fence_generation c \<noteq> I64_MAX" and i: "dr_community_id r = 7"
    using sample_finish by blast
  let ?ops = "sample_approved_ops @ finish_ops 40 ''ex'' 60 r c"
  obtain r' where "r' \<in> set (dt_requests (run_ops sample_deletion_api ?ops sample_db))" "dr_stage r' = RetentionPending"
    "dr_community_id r' = 7"
    using finish_progress [OF reachable_db_inv [OF sample_runs_reachable] r, of "''ex''" 60] i by (auto simp: run_ops_append)
  then show thesis
    using finished_tombstone [OF reachable_db_inv [OF sample_runs_reachable]] that by metis
qed

lemma not_Inr_Inl: "(\<And>y. x \<noteq> Inr y) \<Longrightarrow> \<exists>e. x = Inl e"
  by (cases x) auto

text \<open>Every transaction of an executor runs under a current, unblocked lease.\<close>

lemma run_token_current:
  assumes "run_token api now token op db = Inr db'"
  shows "\<exists>r \<in> set (dt_requests db). dr_id r = lt_request_id token \<and> dr_lease_owner r = Some (lt_owner token)
    \<and> dr_lease_generation r = lt_generation token \<and> dr_blocked_at r = None"
proof -
  have "\<exists>stage. verify_lease api now token stage db = Inr ()" if "\<forall>m d b. op \<noteq> Heartbeat m d b"
    using assms that
    by (cases op) (auto simp: drop_result_Inr and_then_Inr begin_quiescing_def fence_def
        freeze_destructive_storage_manifest_def clear_manifest_key_chunks_def append_manifest_key_chunk_def
        mark_manifest_chunk_deleted_def mark_drained_def mark_bindings_removed_def mark_cache_purged_def
        advance_with_checkpoint_def purge_postgres_def mark_logically_verified_def mark_retention_pending_def
        record_retry_def block_def Let_def split: if_splits intro: verify_fence_lease)
  then show ?thesis
  proof (cases "\<forall>m d b. op \<noteq> Heartbeat m d b")
    case False
    then obtain m d b where "op = Heartbeat m d b" by blast
    with assms have "rows_affected (\<lambda>r. dr_id r = lt_request_id token \<and> dr_lease_owner r = Some (lt_owner token)
            \<and> dr_lease_generation r = lt_generation token \<and> at_or_after (dr_lease_until r) now
            \<and> dr_blocked_at r = None \<and> stage_runnable (dr_stage r) \<and> approval_matches db r) (dt_requests db) \<noteq> 0"
      by (auto simp: drop_result_Inr heartbeat_def and_then_Inr update_requests_Inr split: if_splits)
    then show ?thesis unfolding rows_affected_pos by blast
  qed (auto simp: verify_lease_Inr lease_current_def)
qed

lemma old_generation_powerless:
  assumes inv: "db_inv api db" and r: "r \<in> set (dt_requests db)" "lt_request_id token = dr_id r"
    and g: "lt_generation token < dr_lease_generation r"
  shows "\<exists>e. run_op api (Op_Token t token op) (run_ops api ops db) = Inl e"
proof (rule not_Inr_Inl, rule notI)
  fix db'
  assume run: "run_op api (Op_Token t token op) (run_ops api ops db) = Inr db'"
  have inv': "db_inv api (run_ops api ops db)"
    using inv by (induction ops arbitrary: db) (auto split: sum.split intro: db_inv_run_op)
  obtain q where q: "q \<in> set (dt_requests (run_ops api ops db))" "dr_id q = lt_request_id token"
    "dr_lease_generation q = lt_generation token"
    using run_token_current [of api t token op] run by auto
  obtain r' where r': "r' \<in> set (dt_requests (run_ops api ops db))" "dr_id r' = dr_id r"
    "lt_generation token < dr_lease_generation r'"
    using run_ops_rows [where P = "\<lambda>r. lt_generation token < dr_lease_generation r", OF _ inv r(1) g]
    by (auto simp: row_step_def)
  have "q = r'" using request_by_id [OF db_inv_distinct(1) [OF inv'] q(1) r'(1)] q r' r by simp
  with q r' show False by simp
qed

lemma reachable_retries_ok: "reachable api db \<Longrightarrow> r \<in> set (dt_requests db) \<Longrightarrow> retries_ok r"
proof (induction arbitrary: r rule: reachable.induct)
  case (step db op db')
  from requests_step_run_op [OF reachable_db_inv [OF step.hyps(1)] step.hyps(2)]
  obtain rs new where new: "dt_requests db' = rs @ new" "\<forall>r \<in> set new. retries_ok r"
    and rs: "list_all2 row_step (dt_requests db) rs"
    by (auto simp: requests_step_def)
  have "retries_ok q" if "q \<in> set rs" for q
    using rs that step.IH by (metis in_set_conv_nth list_all2_conv_all_nth nth_mem row_step_def)
  with new step.prems show ?case by auto
qed (simp add: initial_db_def)

lemma sealed_request:
  assumes inv: "db_inv api db" and r: "r \<in> set (dt_requests db)" "dr_stage r \<notin> {Submitted, Inventoried, Approved, Aborted}"
  obtains c where "c \<in> set (dt_communities db)" "co_id c = dr_community_id r" "sealed c"
    "find_community (dr_community_id r) db = Some c"
proof -
  obtain c where "c \<in> set (dt_communities db)" "co_id c = dr_community_id r" "state_for r c"
    "find_community (dr_community_id r) db = Some c"
    by (rule live_community [OF inv r(1)]) (use r(2) in auto)
  then show thesis using r(2) by (intro that [of c]) (auto simp: state_for_def sealed_def split: if_splits)
qed

lemma find_request_id: "find_request i db = Some r \<Longrightarrow> dr_id r = i"
  unfolding find_request_def by (drule find_SomeD) simp

lemma claim_row:
  assumes "claim api now i owner d db = Inr (db', Some claimed)"
  shows "find_request (lt_request_id (cd_lease claimed)) db' = Some (cd_request claimed)"
    "dr_lease_generation (cd_request claimed) = lt_generation (cd_lease claimed)"
proof -
  obtain j where "find_request j db' = Some (cd_request claimed)"
    "lt_request_id (cd_lease claimed) = dr_id (cd_request claimed)"
    "lt_generation (cd_lease claimed) = dr_lease_generation (cd_request claimed)"
    using assms by (auto simp: claim_def Let_def and_then_Inr updated_request_Inr split: option.splits sum.splits)
  then show "find_request (lt_request_id (cd_lease claimed)) db' = Some (cd_request claimed)"
    "dr_lease_generation (cd_request claimed) = lt_generation (cd_lease claimed)"
    using find_request_id by auto
qed

text \<open>What quiescing an active community leaves in the request, and what an abort makes of it.\<close>

lemma quiesced_snapshot:
  assumes inv: "db_inv api db" and c: "find_community (lt_community_id token) db = Some c" "co_state c = Cs_Active"
    and s: "begin_quiescing api now token db = Inr (db1, ())"
  obtains q k where "q \<in> set (dt_requests db1)" "dr_id q = lt_request_id token" "dr_quiescing_started_at q \<noteq> None"
    "dr_pre_quiesce_archived_at q = co_archived_at c" "dr_community_id q = lt_community_id token"
    "dr_lease_generation q = lt_generation token"
    "k \<in> set (dt_communities db1)" "co_id k = lt_community_id token" "co_fence_generation k = co_fence_generation c"
proof -
  obtain r e where r: "r \<in> set (dt_requests db)" "dr_id r = lt_request_id token" "dr_stage r = Approved"
    and e: "e \<in> set (dt_communities db)" "co_id e = dr_community_id r" "state_for r e" "lease_current db now token Approved r"
    and db1: "dt_requests db1 = put_row dr_id (quiesced now e r) (dt_requests db)"
      "dt_communities db1 = put_row co_id (e\<lparr>co_state := Cs_Quiescing,
        co_archived_at := coalesce (co_archived_at e) (Some now)\<rparr>) (dt_communities db)"
    by (rule begin_quiescing_effect [OF inv s]) blast
  have i: "dr_community_id r = lt_community_id token" "dr_lease_generation r = lt_generation token"
    using e(4) by (simp_all add: lease_current_def)
  have "find_community (lt_community_id token) db = Some e" using e(1,2) i find_community_iff [OF db_inv_distinct(2) [OF inv]] by simp
  then have ec: "e = c" using c(1) by simp
  have "dr_quiescing_started_at r = None" using e(3) r(3) c(2) ec by (auto simp: state_for_def split: if_splits)
  moreover have "quiesced now c r \<in> set (dt_requests db1)"
    using put_row_mem [OF r(1), of dr_id "quiesced now c r"] ec by (simp add: db1 quiesced_def)
  moreover have "c\<lparr>co_state := Cs_Quiescing, co_archived_at := coalesce (co_archived_at c) (Some now)\<rparr> \<in> set (dt_communities db1)"
    using put_row_mem [OF e(1), of co_id "c\<lparr>co_state := Cs_Quiescing, co_archived_at := coalesce (co_archived_at c) (Some now)\<rparr>"] ec
    by (simp add: db1)
  ultimately show thesis
    using r i e(2) ec by (intro that [of "quiesced now c r" "c\<lparr>co_state := Cs_Quiescing, co_archived_at := coalesce (co_archived_at c) (Some now)\<rparr>"])
      (auto simp: quiesced_def)
qed

lemma abort_rows:
  assumes inv: "db_inv api db" and s: "abort_request api nonce t i by reason db = Inr (db', x)"
    and p: "p \<in> set (dt_requests db)" "dr_id p = i" "dr_quiescing_started_at p \<noteq> None"
    and k: "k \<in> set (dt_communities db)" "co_id k = dr_community_id p"
  shows "dr_stage x = Aborted \<and> dt_rows db' = dt_rows db \<and> x \<in> set (dt_requests db') \<and> dr_id x = i
    \<and> dr_lease_generation x = dr_lease_generation p + 1
    \<and> (\<exists>c'. find_community (dr_community_id p) db' = Some c' \<and> co_state c' = Cs_Active \<and> co_deleted_at c' = None
         \<and> co_archived_at c' = dr_pre_quiesce_archived_at p \<and> co_fence_generation c' = co_fence_generation k + 1)"
proof -
  obtain r c g where r: "r \<in> set (dt_requests db)" "dr_id r = i" "c \<in> set (dt_communities db)"
      "co_id c = dr_community_id r" "g = co_fence_generation c + 1" "co_deleted_at c = None"
    and db': "dt_communities db' = put_row co_id (restored_row g r c) (dt_communities db)"
      "dt_requests db' = put_row dr_id (aborted_row t g (trim by) (trim reason) r) (dt_requests db)"
      "dt_rows db' = dt_rows db" "x = aborted_row t g (trim by) (trim reason) r"
    by (rule abort_effect [OF inv s]) blast
  have rp: "r = p" using request_by_id [OF db_inv_distinct(1) [OF inv] r(1) p(1)] r(2) p(2) by simp
  have ck: "c = k" using community_by_id [OF db_inv_distinct(2) [OF inv] r(3) k(1)] r(4) k(2) rp by simp
  have "restored_row g r c \<in> set (dt_communities db')"
    using put_row_mem [OF r(3), of co_id "restored_row g r c"] by (simp add: db' restored_row_def)
  then have "find_community (dr_community_id p) db' = Some (restored_row g r c)"
    using find_community_iff [OF db_inv_distinct(2) [OF db_inv_abort [OF inv s]]] r(4) rp by (simp add: restored_row_def)
  moreover have "x \<in> set (dt_requests db')"
    using put_row_mem [OF r(1), of dr_id x] by (simp add: db' aborted_row_def)
  ultimately show ?thesis
    using r p rp ck db'(3,4) by (simp add: restored_row_def restored_archived_at_def aborted_row_def)
qed

lemma guard_transaction_active:
  assumes "find_community i db = Some c" "co_state c = Cs_Active" "co_deleted_at c = None" "db_inv api db"
  shows "guard_transaction api i db = Inr ()"
proof -
  have c: "c \<in> set (dt_communities db)" "co_id c = i"
    using assms(1) find_community_iff [OF db_inv_distinct(2) [OF assms(4)]] by simp_all
  have e: "x = c" if "x \<in> set (dt_communities db)" "co_id x = i" for x
    using community_by_id [OF db_inv_distinct(2) [OF assms(4)] that(1) c(1)] that(2) c(2) by simp
  have "List.find (\<lambda>c. co_id c = i \<and> co_deleted_at c = None) (dt_communities db) \<noteq> None"
    using c assms(3) by (auto simp: find_None_iff)
  then obtain x where x: "List.find (\<lambda>c. co_id c = i \<and> co_deleted_at c = None) (dt_communities db) = Some x" by blast
  then have "x = c" using e find_SomeD by fastforce
  with x show ?thesis by (simp add: guard_transaction_def assms(2))
qed

lemma inactive_request:
  assumes inv: "db_inv api db" and c: "c \<in> set (dt_communities db)" "co_state c \<noteq> Cs_Active"
  obtains r where "r \<in> set (dt_requests db)" "dr_community_id r = co_id c" "dr_stage r \<noteq> Aborted" "state_for r c"
proof -
  have "community_ok db c" using inv c(1) by (simp add: db_inv_def)
  then obtain r where r: "r \<in> set (dt_requests db)" "dr_community_id r = co_id c" "dr_stage r \<noteq> Aborted"
    using c(2) by (auto simp: community_ok_def)
  obtain e where e: "e \<in> set (dt_communities db)" "co_id e = dr_community_id r" "state_for r e"
    by (rule live_community [OF inv r(1,3)])
  have "e = c" using community_by_id [OF db_inv_distinct(2) [OF inv] e(1) c(1)] e(2) r(2) by simp
  with r e show thesis by (intro that) auto
qed

lemma sealed_refuses:
  assumes inv: "db_inv api db" and c: "c \<in> set (dt_communities db)" "sealed c"
  shows "t \<in> set EXPECTED_SCOPED_TABLES \<Longrightarrow> (t, Some (co_id c)) \<in> set (write_targets w) \<Longrightarrow>
      se_executor s = None \<Longrightarrow> tenant_write s now w db \<noteq> Inr y"
    "acquire_serving_write_lease api i now (co_id c) op owner d db \<noteq> Inr z"
    "sw_community_id l = co_id c \<Longrightarrow> \<not> lease_row_valid db now l k"
    "guard_transaction api (co_id c) db \<noteq> Inr u"
proof -
  have f: "find_community (co_id c) db = Some c" using c(1) find_community_iff [OF db_inv_distinct(2) [OF inv]] by simp
  have e: "x = c" if "x \<in> set (dt_communities db)" "co_id x = co_id c" for x
    by (rule community_by_id [OF db_inv_distinct(2) [OF inv] that(1) c(1) that(2)])
  show "tenant_write s now w db \<noteq> Inr y" if t: "t \<in> set EXPECTED_SCOPED_TABLES"
    and w: "(t, Some (co_id c)) \<in> set (write_targets w)" and ex: "se_executor s = None"
  proof
    assume "tenant_write s now w db = Inr y"
    then have "enforce_community_write_fence s now t (Some (co_id c)) db = Inr ()"
      using w by (cases y) (auto simp: tenant_write_Inr)
    moreover have "t \<in> live_fenced_tables_on db" using inv t by (auto simp: db_inv_def)
    ultimately have "assert_community_write_allowed s now (Some (co_id c)) db = Inr ()"
      by (simp add: enforce_community_write_fence_def)
    then show False using assert_allowed_sealed [OF _ ex f] c(2) by simp
  qed
  have n: "co_state x \<noteq> Cs_Active \<and> co_state x \<noteq> Cs_Quiescing" if "x \<in> set (dt_communities db)" "co_id x = co_id c" for x
    using e [OF that] c(2) by (auto simp: sealed_def)
  show "acquire_serving_write_lease api i now (co_id c) op owner d db \<noteq> Inr z"
    using n by (auto simp: acquire_serving_write_lease_def Let_def find_Some_iff split: sum.splits option.splits if_splits
        dest: nth_mem)
  show "\<not> lease_row_valid db now l k" if "sw_community_id l = co_id c"
    using n that by (auto simp: lease_row_valid_def same_lease_def list_ex_iff)
  show "guard_transaction api (co_id c) db \<noteq> Inr u"
    using n by (auto simp: guard_transaction_def find_Some_iff split: option.splits if_splits dest: nth_mem)
qed

section \<open>Properties\<close>

text \<open>C3. Whatever sequence of submissions, approvals, claims, executor transactions, retries, aborts, serving
  leases, tenant writes, community updates and migrations runs, with whatever tokens and at whatever times, the
  store keeps its invariant: one live request per community, whose stage determines the community's state and
  fence generation, an approval of exactly the frozen inventory from \<open>Approved\<close> on, frozen key chunks that
  re-validate against the frozen manifest, no serving lease of a sealed community with its current generation,
  and no row of a purged community in a scoped table.\<close>

theorem deletion_store_invariant:
  assumes "reachable api db"
  shows "db_inv api db"
  by (rule reachable_db_inv [OF assms])

theorem deletion_store_invariant_witness:
  "db_inv sample_deletion_api (run_ops sample_deletion_api sample_fenced_ops sample_db)
    \<and> map dr_stage (dt_requests (run_ops sample_deletion_api sample_fenced_ops sample_db)) = [Fenced]"
proof
  show "db_inv sample_deletion_api (run_ops sample_deletion_api sample_fenced_ops sample_db)"
    by (rule deletion_store_invariant [OF sample_runs_reachable])
  show "map dr_stage (dt_requests (run_ops sample_deletion_api sample_fenced_ops sample_db)) = [Fenced]"
    by (simp add: sample_op_defs)
qed

text \<open>C4. From the fence on, a community is sealed: while its request is at \<open>Fenced\<close> or later, every write of
  the serving side that touches one of its rows in a scoped table fails, with or without a serving lease, and so
  do a new serving lease, the renewal or verification of an old one and the plain write guard.\<close>

theorem fenced_community_sealed:
  assumes "reachable api db" "r \<in> set (dt_requests db)" "dr_stage r \<notin> {Submitted, Inventoried, Approved, Aborted}"
    and "t \<in> set EXPECTED_SCOPED_TABLES" "(t, Some (dr_community_id r)) \<in> set (write_targets w)"
    and "sw_community_id l = dr_community_id r"
  shows "(\<exists>e. run_op api (Op_System now (Tenant_Write lease w)) db = Inl e)
    \<and> (\<exists>e. acquire_serving_write_lease api i now (dr_community_id r) operation owner d db = Inl e)
    \<and> (\<exists>e. renew_serving_write_lease api now l d db = Inl e)
    \<and> (\<exists>e. verify_serving_write_lease api now l db = Inl e)
    \<and> (\<exists>e. guard_transaction api (dr_community_id r) db = Inl e)"
proof -
  have inv: "db_inv api db" by (rule reachable_db_inv [OF assms(1)])
  obtain c where c: "c \<in> set (dt_communities db)" "co_id c = dr_community_id r" "sealed c"
    by (rule sealed_request [OF inv assms(2,3)])
  note s = sealed_refuses [OF inv c(1,3), unfolded c(2)]
  have "\<exists>e. run_op api (Op_System now (Tenant_Write lease w)) db = Inl e"
    by (rule not_Inr_Inl)
      (auto simp: and_then_Inr drop_result_Inr dest: serving_session_executor s(1) [OF assms(4,5)])
  moreover have "\<exists>e. acquire_serving_write_lease api i now (dr_community_id r) operation owner d db = Inl e"
    and "\<exists>e. guard_transaction api (dr_community_id r) db = Inl e"
    using s(2,4) by (auto intro!: not_Inr_Inl)
  ultimately show ?thesis
    using s(3) [OF assms(6)]
    by (simp add: renew_serving_write_lease_def verify_serving_write_lease_def Let_def list_ex_iff)
qed

theorem fenced_community_sealed_witness:
  "\<exists>e. run_op sample_deletion_api (Op_System 70 (Tenant_Write None
      (Row_Insert \<lparr>tr_table = ''events'', tr_community = Some 7, tr_data = ''x''\<rparr>)))
      (run_ops sample_deletion_api sample_fenced_ops sample_db) = Inl e"
proof -
  let ?l = "\<lparr>sw_id = 3, sw_community_id = 7, sw_operation = ''o'', sw_owner = ''w'', sw_generation = 1,
    sw_fence_generation = 0, sw_lease_until = 100\<rparr>"
  obtain r where r: "r \<in> set (dt_requests (run_ops sample_deletion_api sample_fenced_ops sample_db))" "dr_stage r = Fenced"
    "dr_community_id r = 7"
    using sample_fenced(1) by (auto simp: map_eq_Cons_conv)
  have "''events'' \<in> set EXPECTED_SCOPED_TABLES" by code_simp
  with fenced_community_sealed [OF sample_runs_reachable r(1), of "''events''"
      "Row_Insert \<lparr>tr_table = ''events'', tr_community = Some 7, tr_data = ''x''\<rparr>" ?l 70 None] r(2,3)
  show ?thesis by simp
qed

text \<open>C5. A tombstone is final and what was purged stays purged: once a community is a tombstone, after any
  further sequence of transactions its row is the same row, and no scoped table has a row of it.\<close>

theorem tombstone_permanent:
  assumes "reachable api db" "c \<in> set (dt_communities db)" "co_state c = Cs_Tombstone"
  shows "c \<in> set (dt_communities (run_ops api ops db))
    \<and> (\<forall>t \<in> set EXPECTED_SCOPED_TABLES. \<not> tenant_rows_in t (co_id c) (run_ops api ops db))"
proof -
  let ?db = "run_ops api ops db"
  have inv': "db_inv api ?db" by (rule reachable_db_inv [OF reachable_run_ops [OF assms(1)]])
  obtain c' where "c' \<in> set (dt_communities ?db)" "c' = c"
    using run_ops_communities [where P = "\<lambda>x. x = c", OF _ reachable_db_inv [OF assms(1)] assms(2)] assms(3)
    by (auto simp: community_step_def)
  then have c: "c \<in> set (dt_communities ?db)" by simp
  obtain r where r: "r \<in> set (dt_requests ?db)" "dr_community_id r = co_id c" "dr_stage r \<noteq> Aborted" "state_for r c"
    by (rule inactive_request [OF inv' c]) (use assms(3) in auto)
  then have "purged_stage (dr_stage r)" using assms(3) by (auto simp: state_for_def split: if_splits)
  then have "\<forall>t \<in> set EXPECTED_SCOPED_TABLES. \<not> tenant_rows_in t (co_id c) ?db"
    using db_inv_request [OF inv' r(1)] r(2) by (simp add: request_ok_def)
  with c show ?thesis by simp
qed

theorem tombstone_permanent_witness:
  "\<exists>db c. co_state c = Cs_Tombstone \<and> co_id c = 7 \<and> reachable sample_deletion_api db
    \<and> c \<in> set (dt_communities (run_ops sample_deletion_api
         [Op_System 80 (Tenant_Write None (Row_Insert \<lparr>tr_table = ''events'', tr_community = Some 7, tr_data = ''x''\<rparr>))] db))"
proof -
  obtain ops c where "c \<in> set (dt_communities (run_ops sample_deletion_api ops sample_db))" "co_state c = Cs_Tombstone"
    "co_id c = 7"
    by (rule sample_tombstone)
  with tombstone_permanent [OF sample_runs_reachable this(1,2)] show ?thesis using sample_runs_reachable by blast
qed

text \<open>C6. A community leaves \<open>active\<close> only with an authorised deletion: whenever its row is quiescing, fenced or
  a tombstone there is a live request for it past inventory, and an approval for that request and that community
  whose digest is the digest of the inventory frozen in the request, which is a valid one.\<close>

theorem deletion_authorised:
  assumes "reachable api db" "c \<in> set (dt_communities db)" "co_state c \<noteq> Cs_Active"
  shows "\<exists>r \<in> set (dt_requests db). \<exists>a \<in> set (dt_approvals db). \<exists>inventory.
    dr_community_id r = co_id c \<and> dr_stage r \<notin> {Submitted, Inventoried, Aborted}
    \<and> ap_request_id a = dr_id r \<and> ap_community_id a = co_id c
    \<and> dr_inventory_manifest r = Some inventory \<and> ap_inventory_digest a = inventory_digest api inventory
    \<and> validate_storage_manifest (fi_storage inventory) = Inr ()"
proof -
  have inv: "db_inv api db" by (rule reachable_db_inv [OF assms(1)])
  obtain r where r: "r \<in> set (dt_requests db)" "dr_community_id r = co_id c" "dr_stage r \<noteq> Aborted" "state_for r c"
    by (rule inactive_request [OF inv assms(2,3)])
  then have st: "dr_stage r \<notin> {Submitted, Inventoried, Aborted}" using assms(3) by (auto simp: state_for_def)
  then obtain a where a: "a \<in> set (dt_approvals db)" "ap_request_id a = dr_id r" "ap_community_id a = dr_community_id r"
    "dr_inventory_digest r = Some (ap_inventory_digest a)"
    using db_inv_request [OF inv r(1)] by (auto simp: request_ok_def approval_matches_def list_ex_iff)
  obtain inventory where "dr_inventory_manifest r = Some inventory" "dr_inventory_digest r = Some (inventory_digest api inventory)"
    "validate_storage_manifest (fi_storage inventory) = Inr ()"
    using db_inv_request [OF inv r(1)] st by (auto simp: request_ok_def inventory_ok_def split: if_splits)
  with r a st show ?thesis by (intro bexI [of _ r] bexI [of _ a] exI [of _ inventory]) auto
qed

theorem deletion_authorised_witness:
  "\<exists>r \<in> set (dt_requests (run_ops sample_deletion_api sample_fenced_ops sample_db)).
     \<exists>a \<in> set (dt_approvals (run_ops sample_deletion_api sample_fenced_ops sample_db)).
       dr_community_id r = 7 \<and> ap_request_id a = dr_id r"
proof -
  obtain c where c: "c \<in> set (dt_communities (run_ops sample_deletion_api sample_fenced_ops sample_db))"
    "co_id c = 7" "co_state c = Cs_Fenced"
    using sample_fenced(2) by (auto simp: map_eq_Cons_conv)
  show ?thesis using deletion_authorised [OF sample_runs_reachable c(1)] c(2,3) by auto
qed

text \<open>C7. A newer claim disarms every older token for good: after a claim, whatever transactions follow, every
  executor transaction under a token of the same request with a lower lease generation fails and changes nothing,
  even when the token's owner still believes its lease is live.\<close>

theorem stale_token_powerless:
  assumes "reachable api db" "claim api now i owner d db = Inr (db', Some claimed)"
    and "lt_request_id token = lt_request_id (cd_lease claimed)" "lt_generation token < lt_generation (cd_lease claimed)"
  shows "\<exists>e. run_op api (Op_Token t token op) (run_ops api ops db') = Inl e"
proof -
  have "run_op api (Op_Control now (Claim i owner d)) db = Inr db'" using assms(2) by (simp add: drop_result_def)
  then have inv: "db_inv api db'" by (rule db_inv_run_op [OF reachable_db_inv [OF assms(1)]])
  note r = claim_row [OF assms(2)]
  show ?thesis
    by (rule old_generation_powerless [OF inv, of "cd_request claimed"])
      (use r assms(3,4) find_request_iff [OF db_inv_distinct(1) [OF inv]] in simp_all)
qed

theorem stale_token_powerless_witness:
  "\<exists>db' claimed. claim sample_deletion_api 100000000 None ''other'' 60 (run_ops sample_deletion_api sample_claimed_ops sample_db)
      = Inr (db', Some claimed)
    \<and> (\<exists>e. run_op sample_deletion_api (Op_Token 50 (sample_token None) Begin_Quiescing) (run_ops sample_deletion_api [] db') = Inl e)"
proof -
  obtain db' claimed where c: "claim sample_deletion_api 100000000 None ''other'' 60
      (run_ops sample_deletion_api sample_claimed_ops sample_db) = Inr (db', Some claimed)"
    "lt_request_id (cd_lease claimed) = 1" "lt_generation (cd_lease claimed) = 2"
    using sample_reclaim by blast
  then have "\<exists>e. run_op sample_deletion_api (Op_Token 50 (sample_token None) Begin_Quiescing)
      (run_ops sample_deletion_api [] db') = Inl e"
    by (intro stale_token_powerless [OF sample_runs_reachable c(1)]) (simp_all add: sample_token_def)
  with c(1) show ?thesis by blast
qed







text \<open>C11. An approved deletion can be finished: when the request is claimable, no serving lease is active, the
  catalog has no drift and the fence generation is not at its maximum, then a claim followed by the stage
  transactions under that claim's token, in the order of the stages, all succeed; the request ends at
  \<open>RetentionPending\<close>, the community is a tombstone and no scoped table has a row of it.\<close>

theorem deletion_can_finish:
  assumes "reachable api db" "r \<in> set (dt_requests db)" "dr_stage r = Approved" "claimable db now (Some (dr_id r)) r"
    and "validate_catalog_on db = Inr ()" "active_leases now (dr_community_id r) db = []"
    and "find_community (dr_community_id r) db = Some c" "co_fence_generation c \<noteq> I64_MAX"
  shows "(\<exists>r' \<in> set (dt_requests (run_ops api (finish_ops now owner d r c) db)).
      dr_id r' = dr_id r \<and> dr_stage r' = RetentionPending)
    \<and> (\<exists>c' \<in> set (dt_communities (run_ops api (finish_ops now owner d r c) db)).
      co_id c' = dr_community_id r \<and> co_state c' = Cs_Tombstone)
    \<and> (\<forall>t \<in> set EXPECTED_SCOPED_TABLES.
      \<not> tenant_rows_in t (dr_community_id r) (run_ops api (finish_ops now owner d r c) db))"
proof -
  let ?db = "run_ops api (finish_ops now owner d r c) db"
  have inv: "db_inv api ?db" by (rule reachable_db_inv [OF reachable_run_ops [OF assms(1)]])
  obtain r' where r': "r' \<in> set (dt_requests ?db)" "dr_id r' = dr_id r" "dr_stage r' = RetentionPending"
    "dr_community_id r' = dr_community_id r"
    using finish_progress [OF reachable_db_inv [OF assms(1)] assms(2-8)] by blast
  obtain c' where "c' \<in> set (dt_communities ?db)" "co_id c' = dr_community_id r" "co_state c' = Cs_Tombstone"
    by (rule finished_tombstone [OF inv r'(1,3)]) (use r'(4) in auto)
  moreover have "\<forall>t \<in> set EXPECTED_SCOPED_TABLES. \<not> tenant_rows_in t (dr_community_id r) ?db"
    using db_inv_request [OF inv r'(1)] r'(3,4) by (simp add: request_ok_def purged_stage_def)
  ultimately show ?thesis using r' by blast
qed

theorem deletion_can_finish_witness:
  "\<exists>ops. \<exists>r' \<in> set (dt_requests (run_ops sample_deletion_api ops sample_db)). dr_id r' = 1 \<and> dr_stage r' = RetentionPending"
proof -
  let ?db = "run_ops sample_deletion_api sample_approved_ops sample_db"
  obtain r c where r: "r \<in> set (dt_requests ?db)" "dr_stage r = Approved" "claimable ?db 40 (Some (dr_id r)) r"
    "validate_catalog_on ?db = Inr ()" "active_leases 40 (dr_community_id r) ?db = []"
    "find_community (dr_community_id r) ?db = Some c" "co_fence_generation c \<noteq> I64_MAX" and i: "dr_id r = 1"
    using sample_finish by blast
  show ?thesis
    by (rule exI [of _ "sample_approved_ops @ finish_ops 40 ''ex'' 60 r c"])
      (use deletion_can_finish [OF sample_runs_reachable r, of "''ex''" 60] i in \<open>simp add: run_ops_append\<close>)
qed

end
