(* ===== verification/Media_Versions.thy ===== *)
theory Media_Versions
  imports Media_Keys
begin

text \<open>
  Object versions and bulk deletion of \<open>crates/maju-media/src/storage.rs\<close>: what one \<open>ListObjectVersions\<close> page
  holds, and how the answer of \<open>DeleteObjects\<close> is folded into an outcome, with and without explicit versions.
  The object store itself is a parameter: a function that answers a list of identifiers.
\<close>

datatype object_version_kind = Version_Object | Version_DeleteMarker

record object_version_entry =
  ov_key :: string
  ov_version_id :: string
  ov_kind :: object_version_kind
  ov_size :: u64

record object_version_ref =
  vr_key :: string
  vr_version_id :: string

record object_versions_page =
  vp_entries :: "object_version_entry list"
  vp_next_key_marker :: "string option"
  vp_next_version_id_marker :: "string option"
  vp_is_truncated :: bool

text \<open>The answer of the \<open>s3\<close> package to a bulk delete.\<close>

record deleted_object =
  do_key :: string
  do_delete_marker :: "bool option"
  do_delete_marker_version_id :: "string option"
  do_version_id :: "string option"

record delete_error =
  de_key :: string
  de_code :: string
  de_message :: string

record delete_objects_result =
  dl_deleted :: "deleted_object list"
  dl_errors :: "delete_error list"

type_synonym object_identifier = "string \<times> string option"

record bulk_delete_outcome =
  bd_deleted :: u64
  bd_already_missing :: u64
  bd_versioned_keys :: "string list"
  bd_failed :: "(string \<times> string \<times> string) list"

definition bulk_delete_default :: bulk_delete_outcome where
  "bulk_delete_default = \<lparr>bd_deleted = 0, bd_already_missing = 0, bd_versioned_keys = [], bd_failed = []\<rparr>"

datatype delete_mode = Unversioned | ExplicitVersion

definition fold_deleted :: "delete_mode \<Rightarrow> deleted_object \<Rightarrow> bulk_delete_outcome \<Rightarrow> bulk_delete_outcome" where
  "fold_deleted mode d out =
     (let has_version_artifact = do_delete_marker d = Some True \<or> do_delete_marker_version_id d \<noteq> None
            \<or> do_version_id d \<noteq> None in
      if mode = Unversioned \<and> has_version_artifact
      then out\<lparr>bd_versioned_keys := bd_versioned_keys out @ [do_key d]\<rparr>
      else out\<lparr>bd_deleted := bd_deleted out + 1\<rparr>)"

definition fold_error :: "delete_error \<Rightarrow> bulk_delete_outcome \<Rightarrow> bulk_delete_outcome" where
  "fold_error e out =
     (if de_code e = ''NoSuchKey'' \<or> de_code e = ''NoSuchVersion''
      then out\<lparr>bd_already_missing := bd_already_missing out + 1\<rparr>
      else out\<lparr>bd_failed := bd_failed out @ [(de_key e, de_code e, de_message e)]\<rparr>)"

definition fold_delete_result :: "delete_objects_result \<Rightarrow> delete_mode \<Rightarrow> bulk_delete_outcome" where
  "fold_delete_result result mode =
     fold fold_error (dl_errors result) (fold (fold_deleted mode) (dl_deleted result) bulk_delete_default)"

definition object_version_identifiers :: "object_version_ref list \<Rightarrow> object_identifier list" where
  "object_version_identifiers versions = map (\<lambda>v. (vr_key v, Some (vr_version_id v))) versions"

text \<open>An empty request is answered without a call: \<open>None\<close> instead of the identifiers to send.\<close>

definition delete_objects_request :: "string list \<Rightarrow> object_identifier list option" where
  "delete_objects_request keys = (if keys = [] then None else Some (map (\<lambda>k. (k, None)) keys))"

definition delete_object_versions_request :: "object_version_ref list \<Rightarrow> object_identifier list option" where
  "delete_object_versions_request versions = (if versions = [] then None else Some (object_version_identifiers versions))"

definition delete_outcome :: "delete_mode \<Rightarrow> string + delete_objects_result \<Rightarrow> string + bulk_delete_outcome" where
  "delete_outcome mode answer =
     (case answer of Inl e \<Rightarrow> Inl e | Inr result \<Rightarrow> Inr (fold_delete_result result mode))"

text \<open>An outcome without failures and version artifacts accounts for every answered key.\<close>

lemma fold_deleted_counts:
  assumes "length ds < 2 ^ 64"
  shows "bd_versioned_keys (fold (fold_deleted mode) ds bulk_delete_default) = [] \<Longrightarrow>
    unat (bd_deleted (fold (fold_deleted mode) ds bulk_delete_default)) = length ds"
    "bd_already_missing (fold (fold_deleted mode) ds bulk_delete_default) = 0"
    "bd_failed (fold (fold_deleted mode) ds bulk_delete_default) = []"
proof -
  have "(bd_versioned_keys (fold (fold_deleted mode) ds bulk_delete_default) = [] \<longrightarrow>
      bd_deleted (fold (fold_deleted mode) ds bulk_delete_default) = of_nat (length ds))
    \<and> bd_already_missing (fold (fold_deleted mode) ds bulk_delete_default) = 0
    \<and> bd_failed (fold (fold_deleted mode) ds bulk_delete_default) = []"
    by (induction ds rule: rev_induct) (auto simp: fold_deleted_def bulk_delete_default_def Let_def)
  then show "bd_versioned_keys (fold (fold_deleted mode) ds bulk_delete_default) = [] \<Longrightarrow>
      unat (bd_deleted (fold (fold_deleted mode) ds bulk_delete_default)) = length ds"
    "bd_already_missing (fold (fold_deleted mode) ds bulk_delete_default) = 0"
    "bd_failed (fold (fold_deleted mode) ds bulk_delete_default) = []"
    using assms by (simp_all add: unat_of_nat take_bit_nat_eq_self)
qed

definition missing_code :: "delete_error \<Rightarrow> bool" where
  "missing_code e \<longleftrightarrow> de_code e = ''NoSuchKey'' \<or> de_code e = ''NoSuchVersion''"

lemma fold_errors_frame:
  "bd_versioned_keys (fold fold_error es out) = bd_versioned_keys out"
  "bd_deleted (fold fold_error es out) = bd_deleted out"
  by (induction es arbitrary: out) (simp_all add: fold_error_def)

lemma fold_errors_missing:
  "bd_failed (fold fold_error es out) = [] \<Longrightarrow> bd_failed out = [] \<and> list_all missing_code es
     \<and> bd_already_missing (fold fold_error es out) = bd_already_missing out + of_nat (length es)"
proof (induction es arbitrary: out)
  case (Cons e es)
  note IH = Cons.IH [of "fold_error e out", simplified]
  show ?case
  proof (cases "missing_code e")
    case True
    then have "fold_error e out = out\<lparr>bd_already_missing := bd_already_missing out + 1\<rparr>"
      by (simp add: fold_error_def missing_code_def)
    then show ?thesis using IH Cons.prems True by simp
  next
    case False
    then have "bd_failed (fold_error e out) \<noteq> []" by (simp add: fold_error_def missing_code_def)
    then show ?thesis using IH Cons.prems by simp
  qed
qed simp

lemma fold_delete_result_accounts:
  assumes "length (dl_deleted r) < 2 ^ 64" "length (dl_errors r) < 2 ^ 64"
    and "bd_versioned_keys (fold_delete_result r mode) = []" "bd_failed (fold_delete_result r mode) = []"
  shows "unat (bd_deleted (fold_delete_result r mode)) = length (dl_deleted r)
    \<and> unat (bd_already_missing (fold_delete_result r mode)) = length (dl_errors r)
    \<and> list_all missing_code (dl_errors r)"
proof -
  let ?o = "fold (fold_deleted mode) (dl_deleted r) bulk_delete_default"
  note c = fold_deleted_counts [OF assms(1), of mode]
  have m: "list_all missing_code (dl_errors r)"
    "bd_already_missing (fold_delete_result r mode) = bd_already_missing ?o + of_nat (length (dl_errors r))"
    using fold_errors_missing [of "dl_errors r" ?o] assms(4) by (simp_all add: fold_delete_result_def)
  have v: "bd_versioned_keys ?o = []" using assms(3) by (simp add: fold_delete_result_def fold_errors_frame)
  have "unat (bd_already_missing (fold_delete_result r mode)) = length (dl_errors r)"
    unfolding m(2) c(2) using assms(2) by (simp add: unat_of_nat take_bit_nat_eq_self)
  then show ?thesis using c(1) [OF v] m(1) by (simp add: fold_delete_result_def fold_errors_frame)
qed

end
