(* ===== verification/Deletion_Engine.thy ===== *)
theory Deletion_Engine
  imports Deletion_Props Media_Versions
begin

text \<open>
  The deletion executor of \<open>crates/maju-deletion/src/lib.rs\<close>: the check of a frozen inventory, the enumeration of
  the tenant prefixes, the stages, and the loops that run a claim.

  A computation of the executor is a function of the world, which is the database, the number of calls made
  so far and the log of what was asked of the object store and of Redis. The executor is not alone: before
  its call number \<open>n\<close> the transactions \<open>ev_noise n\<close> of any other callers run, among them the heartbeats of its
  own background task, whose failure is \<open>ev_lost\<close>. The fate of a call says whether it proceeds, is dropped at
  this await point (before or after it took effect, because of a shutdown or of a lost lease), or fails
  although the transaction may have committed. Answers of the object store and of Redis are functions of the
  call number and the question. Nothing is assumed of noise, fates, times and answers.

  Loops over pages of a listing or a scan end when the other side says so; they run for \<open>ev_rounds\<close> pages and
  then give \<open>Diverged\<close>, which stands for a listing that has not ended. JSON columns hold the values they encode,
  so decoding errors of the code do not arise.
\<close>

section \<open>Errors\<close>

datatype drop_reason = By_Shutdown | By_Lease_Loss

datatype engine_error =
    Permanent string
  | Transient string
  | Store_Error db_error
  | Dependency string
  | Lease_Lost
  | Bail string
  | Dropped drop_reason
  | Diverged

definition is_permanent_error :: "engine_error \<Rightarrow> bool" where
  "is_permanent_error error =
     (case error of Permanent _ \<Rightarrow> True | Store_Error (DeletionSafety _) \<Rightarrow> True | _ \<Rightarrow> False)"

definition engine_error_text :: "deletion_api \<Rightarrow> engine_error \<Rightarrow> string" where
  "engine_error_text api error =
     (case error of
        Permanent m \<Rightarrow> ''permanent deletion safety failure: '' @ m
      | Transient m \<Rightarrow> ''transient deletion dependency failure: '' @ m
      | Store_Error e \<Rightarrow> error_text api e
      | Dependency m \<Rightarrow> m
      | Lease_Lost \<Rightarrow> ''deletion execution lease heartbeat failed''
      | Bail m \<Rightarrow> m
      | _ \<Rightarrow> [])"

section \<open>The world of an executor\<close>

datatype engine_effect =
    Delete_Request "object_identifier list"
  | Unlink_Keys "string list"
  | Published string

record world =
  wo_db :: del_db
  wo_clock :: nat
  wo_effects :: "(engine_effect \<times> del_db) list"

datatype fate =
    Proceed
  | Drop_Before drop_reason
  | Drop_After drop_reason
  | Fail_Before string
  | Fail_After string

record engine_env =
  ev_api :: deletion_api
  ev_noise :: "nat \<Rightarrow> del_op list"
  ev_now :: "nat \<Rightarrow> int"
  ev_fate :: "nat \<Rightarrow> fate"
  ev_lost :: "nat \<Rightarrow> bool"
  ev_shutdown :: "nat \<Rightarrow> bool"
  ev_rounds :: nat
  ev_chunk_keys :: "nat option"
  ev_list :: "nat \<Rightarrow> string \<Rightarrow> (string \<times> string) option \<Rightarrow> nat \<Rightarrow> string + object_versions_page"
  ev_delete :: "nat \<Rightarrow> object_identifier list \<Rightarrow> string + delete_objects_result"
  ev_publish :: "nat \<Rightarrow> string \<Rightarrow> string + unit"
  ev_scan :: "nat \<Rightarrow> u64 \<Rightarrow> string \<Rightarrow> string + u64 \<times> string list"
  ev_unlink :: "nat \<Rightarrow> string list \<Rightarrow> string + u64"

type_synonym 'a task = "world \<Rightarrow> (engine_error + 'a) \<times> world"

definition eret :: "'a \<Rightarrow> 'a task" where
  "eret x w = (Inr x, w)"

definition efail :: "engine_error \<Rightarrow> 'a task" where
  "efail e w = (Inl e, w)"

definition ebind :: "'a task \<Rightarrow> ('a \<Rightarrow> 'b task) \<Rightarrow> 'b task" where
  "ebind m f w = (case m w of (Inl e, w) \<Rightarrow> (Inl e, w) | (Inr x, w) \<Rightarrow> f x w)"

definition elift :: "engine_error + 'a \<Rightarrow> 'a task" where
  "elift r w = (r, w)"

definition elift_db :: "db_error + 'a \<Rightarrow> 'a task" where
  "elift_db r = (case r of Inl e \<Rightarrow> efail (Store_Error e) | Inr x \<Rightarrow> eret x)"

fun efor :: "('x \<Rightarrow> unit task) \<Rightarrow> 'x list \<Rightarrow> unit task" where
  "efor f [] = eret ()"
| "efor f (x # xs) = ebind (f x) (\<lambda>_. efor f xs)"

text \<open>One call: first the others, then the call itself, as its fate allows.\<close>

definition enter :: "engine_env \<Rightarrow> world \<Rightarrow> world" where
  "enter env w =
     w\<lparr>wo_db := run_ops (ev_api env) (ev_noise env (wo_clock w)) (wo_db w), wo_clock := Suc (wo_clock w)\<rparr>"

definition after_call :: "fate \<Rightarrow> 'a \<Rightarrow> 'a task" where
  "after_call fate x =
     (case fate of
        Drop_After r \<Rightarrow> efail (Dropped r)
      | Fail_After m \<Rightarrow> efail (Store_Error (Sqlx m))
      | _ \<Rightarrow> eret x)"

definition db_call :: "engine_env \<Rightarrow> (int \<Rightarrow> del_db \<Rightarrow> db_error + del_db \<times> 'a) \<Rightarrow> 'a task" where
  "db_call env f w =
     (let n = wo_clock w; w = enter env w in
      case ev_fate env n of
        Drop_Before r \<Rightarrow> (Inl (Dropped r), w)
      | Fail_Before m \<Rightarrow> (Inl (Store_Error (Sqlx m)), w)
      | fate \<Rightarrow>
          (case f (ev_now env n) (wo_db w) of
             Inl e \<Rightarrow> (Inl (Store_Error e), w)
           | Inr (db, x) \<Rightarrow> after_call fate x (w\<lparr>wo_db := db\<rparr>)))"

definition db_read :: "engine_env \<Rightarrow> (int \<Rightarrow> del_db \<Rightarrow> db_error + 'a) \<Rightarrow> 'a task" where
  "db_read env f = db_call env (\<lambda>now db. and_then (f now db) (\<lambda>x. Inr (db, x)))"

definition ext_call :: "engine_env \<Rightarrow> engine_effect list \<Rightarrow> (nat \<Rightarrow> string + 'a) \<Rightarrow> 'a task" where
  "ext_call env effects answer w =
     (let n = wo_clock w; w = enter env w in
      case ev_fate env n of
        Drop_Before r \<Rightarrow> (Inl (Dropped r), w)
      | fate \<Rightarrow>
          (let w = w\<lparr>wo_effects := wo_effects w @ map (\<lambda>e. (e, wo_db w)) effects\<rparr> in
           case answer n of
             Inl m \<Rightarrow> (Inl (Dependency m), w)
           | Inr x \<Rightarrow> (case fate of Drop_After r \<Rightarrow> (Inl (Dropped r), w) | _ \<Rightarrow> (Inr x, w))))"

definition with_context :: "string \<Rightarrow> 'a task \<Rightarrow> 'a task" where
  "with_context c m w =
     (case m w of (Inl (Dependency e), w) \<Rightarrow> (Inl (Dependency (c @ '': '' @ e)), w) | r \<Rightarrow> r)"

definition check_lost :: "engine_env \<Rightarrow> unit task" where
  "check_lost env w = (if ev_lost env (wo_clock w) then (Inl Lease_Lost, w) else (Inr (), w))"

definition community_uuid_api :: "engine_env \<Rightarrow> uuid_api" where
  "community_uuid_api env = da_uuid (ev_api env)"

section \<open>Checks of a request\<close>

definition validate_storage_ownership ::
  "deletion_api \<Rightarrow> deletion_request \<Rightarrow> storage_manifest \<Rightarrow> engine_error + unit" where
  "validate_storage_ownership api request manifest =
     (case validate_storage_manifest manifest of
        Inl e \<Rightarrow> Inl (Store_Error e)
      | Inr _ \<Rightarrow>
          if map pm_prefix (sm_prefixes manifest) \<noteq> tenant_prefixes (da_uuid api) (dr_community_id request)
          then Inl (Permanent ''storage manifest prefixes are not the deletion target's tenant prefixes'')
          else Inr ())"

definition validate_frozen_inventory :: "deletion_api \<Rightarrow> deletion_request \<Rightarrow> engine_error + frozen_inventory" where
  "validate_frozen_inventory api request =
     (case dr_inventory_manifest request of
        None \<Rightarrow> Inl (Permanent ''approved request has no frozen inventory'')
      | Some frozen \<Rightarrow>
          (case dr_inventory_digest request of
             None \<Rightarrow> Inl (Permanent ''approved request has no frozen inventory digest'')
           | Some expected \<Rightarrow>
               if da_hex api (inventory_digest api frozen) \<noteq> da_hex api expected
               then Inl (Permanent ''approved frozen inventory digest mismatch'')
               else and_then (validate_storage_ownership api request (fi_storage frozen)) (\<lambda>_. Inr frozen)))"

definition token_with_current_fence :: "lease_token \<Rightarrow> deletion_request \<Rightarrow> lease_token" where
  "token_with_current_fence token request = token\<lparr>lt_fence_generation := dr_fence_generation request\<rparr>"

section \<open>The enumeration of the tenant prefixes\<close>

definition DEFAULT_MANIFEST_CHUNK_KEYS :: nat where
  "DEFAULT_MANIFEST_CHUNK_KEYS = 10000"

definition LIST_PAGE_SIZE :: nat where
  "LIST_PAGE_SIZE = 1000"

definition manifest_chunk_keys :: "nat option \<Rightarrow> nat" where
  "manifest_chunk_keys configured =
     (case configured of
        Some n \<Rightarrow> if n > 0 then min n 100000 else DEFAULT_MANIFEST_CHUNK_KEYS
      | None \<Rightarrow> DEFAULT_MANIFEST_CHUNK_KEYS)"

definition manifest_kind_name :: "object_version_kind \<Rightarrow> string" where
  "manifest_kind_name kind =
     (case kind of Version_Object \<Rightarrow> ''object'' | Version_DeleteMarker \<Rightarrow> ''delete_marker'')"

definition require_truncated_version_markers ::
  "string option \<Rightarrow> string option \<Rightarrow> engine_error + string \<times> string" where
  "require_truncated_version_markers next_key next_version =
     (case (next_key, next_version) of
        (Some k, Some v) \<Rightarrow> Inr (k, v)
      | (None, Some _) \<Rightarrow> Inl (Transient ''truncated tenant version listing page has no key marker'')
      | (Some _, None) \<Rightarrow> Inl (Transient ''truncated tenant version listing page has no version id marker'')
      | (None, None) \<Rightarrow>
          Inl (Transient ''truncated tenant version listing page has no key marker or version id marker''))"

text \<open>The state of an enumeration: the digest and the bytes of the current prefix and, when a sink is given,
  the next chunk number and the buffered entries.\<close>

record enum_state =
  es_digest :: key_stream_digest
  es_total :: u64
  es_chunk_no :: int
  es_buffered :: "string list"

definition saturating_add :: "u64 \<Rightarrow> u64 \<Rightarrow> u64" where
  "saturating_add a b = (if a + b < a then - 1 else a + b)"

definition flush_chunk :: "engine_env \<Rightarrow> lease_token option \<Rightarrow> string \<Rightarrow> enum_state \<Rightarrow> enum_state task" where
  "flush_chunk env sink prefix st =
     (case sink of
        None \<Rightarrow> eret st
      | Some token \<Rightarrow>
          if es_buffered st = [] then eret st
          else ebind (db_call env (\<lambda>now. append_manifest_key_chunk (ev_api env) now token (es_chunk_no st) prefix
                 (es_buffered st))) (\<lambda>_.
               eret (st\<lparr>es_chunk_no := es_chunk_no st + 1, es_buffered := []\<rparr>)))"

definition enum_entry ::
  "engine_env \<Rightarrow> uuid \<Rightarrow> lease_token option \<Rightarrow> string \<Rightarrow> object_version_entry \<Rightarrow> enum_state \<Rightarrow> enum_state task" where
  "enum_entry env community sink prefix entry st =
     (if \<not> is_tenant_owned_key (community_uuid_api env) community (ov_key entry)
      then efail (Permanent (''key under a tenant prefix is outside the exact writer taxonomy: '' @ ov_key entry))
      else
        ebind (elift_db (entry_encode (entry_new (ov_key entry) (ov_version_id entry) (manifest_kind_name (ov_kind entry)))))
          (\<lambda>encoded.
        ebind (elift_db (fold_unordered encoded (es_digest st))) (\<lambda>digest.
          let st = st\<lparr>es_digest := digest, es_total := saturating_add (es_total st) (ov_size entry)\<rparr> in
          if sink = None then eret st
          else
            let st = st\<lparr>es_buffered := es_buffered st @ [encoded]\<rparr> in
            if length (es_buffered st) \<ge> manifest_chunk_keys (ev_chunk_keys env) then flush_chunk env sink prefix st
            else eret st)))"

fun enum_entries ::
  "engine_env \<Rightarrow> uuid \<Rightarrow> lease_token option \<Rightarrow> string \<Rightarrow> object_version_entry list \<Rightarrow> enum_state \<Rightarrow> enum_state task" where
  "enum_entries env community sink prefix [] st = eret st"
| "enum_entries env community sink prefix (e # es) st =
     ebind (enum_entry env community sink prefix e st) (enum_entries env community sink prefix es)"

fun enum_pages ::
  "nat \<Rightarrow> engine_env \<Rightarrow> uuid \<Rightarrow> bool \<Rightarrow> lease_token option \<Rightarrow> string \<Rightarrow> (string \<times> string) option \<Rightarrow> enum_state
    \<Rightarrow> enum_state task" where
  "enum_pages 0 env community guarded sink prefix marker st = efail Diverged"
| "enum_pages (Suc n) env community guarded sink prefix marker st =
     ebind (if guarded then check_lost env else eret ()) (\<lambda>_.
     ebind (ext_call env [] (\<lambda>k. ev_list env k prefix marker LIST_PAGE_SIZE)) (\<lambda>page.
     ebind (enum_entries env community sink prefix (vp_entries page) st) (\<lambda>st.
       if \<not> vp_is_truncated page then eret st
       else
         ebind (elift (require_truncated_version_markers (vp_next_key_marker page) (vp_next_version_id_marker page)))
           (\<lambda>markers. enum_pages n env community guarded sink prefix (Some markers) st))))"

fun enum_prefixes ::
  "engine_env \<Rightarrow> uuid \<Rightarrow> bool \<Rightarrow> lease_token option \<Rightarrow> int \<Rightarrow> string list \<Rightarrow> prefix_manifest list task" where
  "enum_prefixes env community guarded sink chunk_no [] = eret []"
| "enum_prefixes env community guarded sink chunk_no (prefix # prefixes) =
     ebind (enum_pages (ev_rounds env) env community guarded sink prefix None
         \<lparr>es_digest = digest_new, es_total = 0, es_chunk_no = chunk_no, es_buffered = []\<rparr>) (\<lambda>st.
     ebind (flush_chunk env sink prefix st) (\<lambda>st.
     ebind (enum_prefixes env community guarded sink (es_chunk_no st) prefixes) (\<lambda>rest.
       let (keys_digest, object_count) = digest_finish (ev_api env) (es_digest st) in
       eret (\<lparr>pm_prefix = prefix, pm_object_count = object_count, pm_total_bytes = es_total st,
              pm_keys_digest = keys_digest\<rparr> # rest))))"

definition enumerate_tenant_prefixes ::
  "engine_env \<Rightarrow> deletion_request \<Rightarrow> bool \<Rightarrow> lease_token option \<Rightarrow> storage_manifest task" where
  "enumerate_tenant_prefixes env request guarded sink =
     ebind (enum_prefixes env (dr_community_id request) guarded sink 0
         (tenant_prefixes (community_uuid_api env) (dr_community_id request))) (\<lambda>prefixes.
       let manifest = \<lparr>sm_version = 5, sm_prefixes = prefixes\<rparr> in
       ebind (elift_db (validate_storage_manifest manifest)) (\<lambda>_. eret manifest))"

definition build_inventory :: "engine_env \<Rightarrow> deletion_request \<Rightarrow> frozen_inventory task" where
  "build_inventory env request =
     ebind (db_read env (\<lambda>_. inventory_schema (dr_community_id request))) (\<lambda>schema.
     ebind (enumerate_tenant_prefixes env request False None) (\<lambda>storage.
       eret \<lparr>fi_schema = schema, fi_storage = storage\<rparr>))"

definition freeze_destructive_manifest ::
  "engine_env \<Rightarrow> deletion_request \<Rightarrow> lease_token \<Rightarrow> storage_manifest task" where
  "freeze_destructive_manifest env request token =
     ebind (elift (validate_frozen_inventory (ev_api env) request)) (\<lambda>_.
     ebind (db_call env (\<lambda>now. clear_manifest_key_chunks (ev_api env) now token)) (\<lambda>_.
     ebind (enumerate_tenant_prefixes env request True (Some token)) (\<lambda>manifest.
     ebind (db_call env (\<lambda>now. freeze_destructive_storage_manifest (ev_api env) now token manifest)) (\<lambda>_.
       eret manifest))))"

section \<open>Deleting a frozen chunk\<close>

fun decode_versions :: "string list \<Rightarrow> db_error + object_version_ref list" where
  "decode_versions [] = Inr []"
| "decode_versions (entry # entries) =
     and_then (entry_decode entry) (\<lambda>e.
     and_then (decode_versions entries) (\<lambda>vs.
       Inr (\<lparr>vr_key = me_key e, vr_version_id = me_version_id e\<rparr> # vs)))"

definition object_versions_from_manifest_chunk ::
  "manifest_key_row \<Rightarrow> int \<Rightarrow> db_error + object_version_ref list" where
  "object_versions_from_manifest_chunk chunk storage_version =
     (if storage_version \<ge> 5 then decode_versions (mk_keys chunk)
      else Inr (map (\<lambda>key. \<lparr>vr_key = key, vr_version_id = []\<rparr>) (mk_keys chunk)))"

definition send_delete :: "engine_env \<Rightarrow> delete_mode \<Rightarrow> object_identifier list option \<Rightarrow> bulk_delete_outcome task" where
  "send_delete env mode request =
     (case request of
        None \<Rightarrow> eret bulk_delete_default
      | Some ids \<Rightarrow> ext_call env [Delete_Request ids] (\<lambda>n. delete_outcome mode (ev_delete env n ids)))"

definition delete_manifest_chunk ::
  "engine_env \<Rightarrow> int \<Rightarrow> manifest_key_row \<Rightarrow> bulk_delete_outcome task" where
  "delete_manifest_chunk env storage_version chunk =
     ebind (elift_db (object_versions_from_manifest_chunk chunk storage_version)) (\<lambda>versions.
       if storage_version \<ge> 5 then send_delete env ExplicitVersion (delete_object_versions_request versions)
       else send_delete env Unversioned (delete_objects_request (map vr_key versions)))"

definition validate_manifest_chunk_delete_outcome ::
  "manifest_key_row \<Rightarrow> bulk_delete_outcome \<Rightarrow> engine_error + unit" where
  "validate_manifest_chunk_delete_outcome chunk out =
     (if bd_versioned_keys out \<noteq> []
      then Inl (Transient (''bulk delete returned version metadata for '' @ show_nat (length (bd_versioned_keys out))
             @ '' explicit versions: '' @ join_with CHR '','' (bd_versioned_keys out)))
      else
        case bd_failed out of
          (key, code, message) # _ \<Rightarrow>
            Inl (Transient (''bulk delete failed for '' @ show_nat (length (bd_failed out)) @ '' key(s); first: ''
              @ key @ '': '' @ code @ '': '' @ message))
        | [] \<Rightarrow>
            let acknowledged = saturating_add (bd_deleted out) (bd_already_missing out) in
            if acknowledged \<noteq> of_nat (length (mk_keys chunk))
            then Inl (Transient (''bulk delete acknowledged '' @ show_nat (unat acknowledged) @ '' of ''
                   @ show_nat (length (mk_keys chunk)) @ '' keys in chunk '' @ show_int (mk_chunk_no chunk)))
            else Inr ())"

definition manifest_chunk_deleted_detail ::
  "string \<Rightarrow> nat \<Rightarrow> bulk_delete_outcome \<Rightarrow> (string \<times> string) list" where
  "manifest_chunk_deleted_detail prefix key_count out =
     [(''prefix'', prefix), (''keys'', show_nat key_count), (''deleted'', show_nat (unat (bd_deleted out))),
      (''already_missing'', show_nat (unat (bd_already_missing out)))]"

definition manifest_chunk_deleted_checkpoint_detail ::
  "manifest_key_row \<Rightarrow> bulk_delete_outcome \<Rightarrow> engine_error + (string \<times> string) list" where
  "manifest_chunk_deleted_checkpoint_detail chunk out =
     and_then (validate_manifest_chunk_delete_outcome chunk out) (\<lambda>_.
       Inr (manifest_chunk_deleted_detail (mk_prefix chunk) (length (mk_keys chunk)) out))"

section \<open>Guarded steps and Redis\<close>

definition verify_token :: "engine_env \<Rightarrow> lease_token \<Rightarrow> deletion_stage \<Rightarrow> unit task" where
  "verify_token env token stage =
     db_read env (\<lambda>now. verify_execution_token (ev_api env) now token stage)"

definition run_guarded_external_step ::
  "engine_env \<Rightarrow> lease_token \<Rightarrow> deletion_stage \<Rightarrow> 'a task \<Rightarrow> 'a task" where
  "run_guarded_external_step env token stage operation =
     ebind (verify_token env token stage) (\<lambda>_.
     ebind (check_lost env) (\<lambda>_.
     ebind operation (\<lambda>output.
     ebind (verify_token env token stage) (\<lambda>_. eret output))))"

definition namespace_pattern :: "engine_env \<Rightarrow> uuid \<Rightarrow> string" where
  "namespace_pattern env community = ''maju:'' @ uuid_text (ev_api env) community @ '':*''"

definition publish_disconnect_community :: "engine_env \<Rightarrow> uuid \<Rightarrow> unit task" where
  "publish_disconnect_community env community =
     (let channel = ''maju:'' @ uuid_text (ev_api env) community @ '':conn-control'' in
      ext_call env [Published channel] (\<lambda>n. ev_publish env n channel))"

fun purge_redis :: "nat \<Rightarrow> engine_env \<Rightarrow> string \<Rightarrow> u64 \<Rightarrow> u64 \<Rightarrow> u64 task" where
  "purge_redis 0 env pattern cursor deleted = efail Diverged"
| "purge_redis (Suc n) env pattern cursor deleted =
     ebind (ext_call env [] (\<lambda>k. ev_scan env k cursor pattern)) (\<lambda>(next_cursor, keys).
     ebind (if keys = [] then eret 0 else ext_call env [Unlink_Keys keys] (\<lambda>k. ev_unlink env k keys)) (\<lambda>count.
       let deleted = saturating_add deleted count in
       if next_cursor = 0 then eret deleted else purge_redis n env pattern next_cursor deleted))"

definition purge_redis_namespace :: "engine_env \<Rightarrow> uuid \<Rightarrow> u64 task" where
  "purge_redis_namespace env community = purge_redis (ev_rounds env) env (namespace_pattern env community) 0 0"

fun scan_redis :: "nat \<Rightarrow> engine_env \<Rightarrow> string \<Rightarrow> u64 \<Rightarrow> (u64 \<times> string list) list task" where
  "scan_redis 0 env pattern cursor = efail Diverged"
| "scan_redis (Suc n) env pattern cursor =
     ebind (ext_call env [] (\<lambda>k. ev_scan env k cursor pattern)) (\<lambda>page.
       if fst page = 0 then eret [page]
       else ebind (scan_redis n env pattern (fst page)) (\<lambda>pages. eret (page # pages)))"

definition scan_proves_absence :: "(u64 \<times> string list) list \<Rightarrow> bool" where
  "scan_proves_absence pages \<longleftrightarrow> pages \<noteq> [] \<and> fst (last pages) = 0 \<and> list_all (\<lambda>p. snd p = []) pages"

definition verify_redis_absence :: "engine_env \<Rightarrow> uuid \<Rightarrow> unit task" where
  "verify_redis_absence env community =
     ebind (scan_redis (ev_rounds env) env (namespace_pattern env community) 0) (\<lambda>pass1.
     ebind (scan_redis (ev_rounds env) env (namespace_pattern env community) 0) (\<lambda>pass2.
       if scan_proves_absence pass1 \<and> scan_proves_absence pass2 then eret ()
       else efail (Transient ''logical verification found a Redis namespace key'')))"

definition verify_storage_absence :: "engine_env \<Rightarrow> deletion_request \<Rightarrow> unit task" where
  "verify_storage_absence env request =
     efor (\<lambda>prefix.
       ebind (ext_call env [] (\<lambda>n. ev_list env n prefix None 1)) (\<lambda>page.
         case vp_entries page of
           entry # _ \<Rightarrow> efail (Transient (''logical verification found a retained target object version: ''
               @ ov_key entry @ ''@'' @ ov_version_id entry @ '' ('' @ manifest_kind_name (ov_kind entry) @ '')''))
         | [] \<Rightarrow> eret ()))
       (tenant_prefixes (community_uuid_api env) (dr_community_id request))"

section \<open>The stages\<close>

definition preflight_version_listing :: "engine_env \<Rightarrow> string \<Rightarrow> unit task" where
  "preflight_version_listing env prefix =
     with_context (''S3 version-list preflight failed for prefix '' @ prefix
         @ ''; verify s3:ListBucketVersions and s3:DeleteObjectVersion on the relay bucket before fencing'')
       (ebind (ext_call env [] (\<lambda>n. ev_list env n prefix None 1)) (\<lambda>_. eret ()))"

definition fence_or_retry :: "engine_env \<Rightarrow> lease_token \<Rightarrow> unit task" where
  "fence_or_retry env token w =
     (case db_call env (\<lambda>now. fence (ev_api env) now token) w of
        (Inl (Store_Error (ServingWritesNotDrained _ active_count operations)), w) \<Rightarrow>
          (Inl (Transient (''serving writes not drained before fence: count='' @ show_nat active_count
             @ '', operations='' @ debug_list (ev_api env) operations)), w)
      | (Inl e, w) \<Rightarrow> (Inl e, w)
      | (Inr _, w) \<Rightarrow> (Inr (), w))"

definition stage_approved :: "engine_env \<Rightarrow> deletion_request \<Rightarrow> lease_token \<Rightarrow> unit task" where
  "stage_approved env request token =
     ebind (run_guarded_external_step env token Approved
         (efor (preflight_version_listing env) (tenant_prefixes (community_uuid_api env) (dr_community_id request)))) (\<lambda>_.
     ebind (db_read env (\<lambda>_. inventory_schema (dr_community_id request))) (\<lambda>live_schema.
     ebind (elift (validate_frozen_inventory (ev_api env) request)) (\<lambda>frozen.
       if sc_scoped_tables live_schema \<noteq> sc_scoped_tables (fi_schema frozen)
         \<or> sc_fenced_tables live_schema \<noteq> sc_fenced_tables (fi_schema frozen)
       then efail (Permanent ''approved structural catalog drifted before fencing'')
       else
         ebind (db_call env (\<lambda>now. begin_quiescing (ev_api env) now token)) (\<lambda>_. fence_or_retry env token))))"

definition stage_fenced :: "engine_env \<Rightarrow> deletion_request \<Rightarrow> lease_token \<Rightarrow> unit task" where
  "stage_fenced env request token =
     ebind (verify_token env token Fenced) (\<lambda>_.
     ebind (check_lost env) (\<lambda>_.
     ebind (publish_disconnect_community env (dr_community_id request)) (\<lambda>_.
     ebind (verify_token env token Fenced) (\<lambda>_.
     ebind (db_read env (\<lambda>now db. Inr (serving_writes_drained now (dr_community_id request) db))) (\<lambda>drained.
       if \<not> drained then efail (Transient ''serving writes have not drained'')
       else
         ebind (case dr_destructive_storage_manifest request of
                  Some manifest \<Rightarrow> eret manifest
                | None \<Rightarrow> freeze_destructive_manifest env request token) (\<lambda>destructive.
         ebind (elift (validate_storage_ownership (ev_api env) request destructive)) (\<lambda>_.
           db_call env (\<lambda>now. mark_drained (ev_api env) now token))))))))"

fun drain_chunks ::
  "nat \<Rightarrow> engine_env \<Rightarrow> lease_token \<Rightarrow> int \<Rightarrow> u64 \<Rightarrow> u64 \<Rightarrow> (u64 \<times> u64) task" where
  "drain_chunks 0 env token version removed missing = efail Diverged"
| "drain_chunks (Suc n) env token version removed missing =
     ebind (db_read env (\<lambda>_ db. Inr (next_pending_manifest_chunk token db))) (\<lambda>next_chunk.
       case next_chunk of
         None \<Rightarrow> eret (removed, missing)
       | Some chunk \<Rightarrow>
           ebind (run_guarded_external_step env token Drained (delete_manifest_chunk env version chunk)) (\<lambda>out.
           ebind (check_lost env) (\<lambda>_.
           ebind (elift (manifest_chunk_deleted_checkpoint_detail chunk out)) (\<lambda>detail.
           ebind (db_call env (\<lambda>now. mark_manifest_chunk_deleted (ev_api env) now token (mk_chunk_no chunk) detail)) (\<lambda>_.
             drain_chunks n env token version (removed + bd_deleted out) (missing + bd_already_missing out))))))"

definition stage_drained :: "engine_env \<Rightarrow> deletion_request \<Rightarrow> lease_token \<Rightarrow> unit task" where
  "stage_drained env request token =
     (case dr_destructive_storage_manifest request of
        None \<Rightarrow> efail (Bail ''request has no post-fence destructive storage manifest'')
      | Some storage \<Rightarrow>
          ebind (elift (validate_storage_ownership (ev_api env) request storage)) (\<lambda>_.
          ebind (drain_chunks (ev_rounds env) env token (sm_version storage) 0 0) (\<lambda>(removed, missing).
            db_call env (\<lambda>now. mark_bindings_removed (ev_api env) now token
              [(''deleted_keys'', show_nat (unat (sum_list (map pm_object_count (sm_prefixes storage))))),
               (''removed_now'', show_nat (unat removed)), (''already_missing'', show_nat (unat missing))]))))"

definition stage_postgres_purged :: "engine_env \<Rightarrow> deletion_request \<Rightarrow> lease_token \<Rightarrow> unit task" where
  "stage_postgres_purged env request token =
     ebind (verify_token env token PostgresPurged) (\<lambda>_.
     ebind (purge_redis_namespace env (dr_community_id request)) (\<lambda>deleted.
     ebind (verify_token env token PostgresPurged) (\<lambda>_.
       db_call env (\<lambda>now. mark_cache_purged (ev_api env) now token [(''deleted_keys'', show_nat (unat deleted))]))))"

definition stage_cache_purged :: "engine_env \<Rightarrow> deletion_request \<Rightarrow> lease_token \<Rightarrow> unit task" where
  "stage_cache_purged env request token =
     ebind (db_read env (\<lambda>now. verify_postgres_logically_deleted (ev_api env) now token)) (\<lambda>_.
     ebind (verify_storage_absence env request) (\<lambda>_.
     ebind (verify_redis_absence env (dr_community_id request)) (\<lambda>_.
       db_call env (\<lambda>now. mark_logically_verified (ev_api env) now token
         [(''postgres'', ''true''), (''object_store'', ''true''), (''redis'', ''true'')]))))"

definition execute_stage :: "engine_env \<Rightarrow> claimed_deletion \<Rightarrow> unit task" where
  "execute_stage env claimed =
     (let request = cd_request claimed; token = token_with_current_fence (cd_lease claimed) request in
      ebind (if stage_runnable (dr_stage request)
             then ebind (elift (validate_frozen_inventory (ev_api env) request)) (\<lambda>_. eret ())
             else eret ()) (\<lambda>_.
        case dr_stage request of
          Approved \<Rightarrow> stage_approved env request token
        | Fenced \<Rightarrow> stage_fenced env request token
        | Drained \<Rightarrow> stage_drained env request token
        | BindingsRemoved \<Rightarrow> ebind (db_call env (\<lambda>now. purge_postgres (ev_api env) now token)) (\<lambda>_. eret ())
        | PostgresPurged \<Rightarrow> stage_postgres_purged env request token
        | CachePurged \<Rightarrow> stage_cache_purged env request token
        | LogicallyVerified \<Rightarrow>
            ebind (elift (validate_frozen_inventory (ev_api env) request)) (\<lambda>_.
              db_call env (\<lambda>now. mark_retention_pending (ev_api env) now token
                [(''policy'', ''member-erasure and fleet-wide shared-CAS GC are out of V1 scope'')]))
        | Submitted \<Rightarrow> efail (Bail ''request has not crossed the explicit approval boundary'')
        | Inventoried \<Rightarrow> efail (Bail ''request has not crossed the explicit approval boundary'')
        | RetentionPending \<Rightarrow> eret ()
        | Aborted \<Rightarrow> eret ()))"

section \<open>Running a claim\<close>

datatype stage_outcome = Stage_Completed | Stage_Shutdown | Stage_Failed engine_error

definition run_stage_with_heartbeat :: "engine_env \<Rightarrow> claimed_deletion \<Rightarrow> world \<Rightarrow> stage_outcome \<times> world" where
  "run_stage_with_heartbeat env claimed w =
     (if ev_shutdown env (wo_clock w) then (Stage_Shutdown, w)
      else if ev_lost env (wo_clock w) then (Stage_Failed Lease_Lost, w)
      else
        case execute_stage env claimed w of
          (Inr _, w) \<Rightarrow> (Stage_Completed, w)
        | (Inl (Dropped By_Shutdown), w) \<Rightarrow> (Stage_Shutdown, w)
        | (Inl (Dropped By_Lease_Loss), w) \<Rightarrow> (Stage_Failed Lease_Lost, w)
        | (Inl e, w) \<Rightarrow> (Stage_Failed e, w))"

datatype loop_mode = Mode_Run | Mode_Drain

definition loop_mode_str :: "loop_mode \<Rightarrow> string" where
  "loop_mode_str mode = (case mode of Mode_Run \<Rightarrow> ''run'' | Mode_Drain \<Rightarrow> ''drain'')"

record run_output =
  ro_request_id :: uuid
  ro_stage :: deletion_stage
  ro_retry_count :: int
  ro_last_error :: "string option"
  ro_next_attempt_at :: int
  ro_blocked_reason :: "string option"

definition run_output_of :: "deletion_request \<Rightarrow> run_output" where
  "run_output_of r =
     \<lparr>ro_request_id = dr_id r, ro_stage = dr_stage r, ro_retry_count = dr_retry_count r,
      ro_last_error = dr_last_error r, ro_next_attempt_at = dr_next_attempt_at r,
      ro_blocked_reason = dr_blocked_reason r\<rparr>"

definition RETRY_DELAY :: nat where
  "RETRY_DELAY = 30"

definition fetch_request :: "engine_env \<Rightarrow> lease_token \<Rightarrow> deletion_request task" where
  "fetch_request env token = db_read env (\<lambda>_. get (ev_api env) (lt_request_id token))"

definition stop_claim_executor :: "engine_env \<Rightarrow> loop_mode \<Rightarrow> lease_token \<Rightarrow> unit task" where
  "stop_claim_executor env mode token w =
     (case db_call env (\<lambda>now. heartbeat (ev_api env) now token (loop_mode_str mode) DEFAULT_LEASE_DURATION True) w of
        (_, w) \<Rightarrow> db_call env (\<lambda>now. stop_executor now (Some token) (lt_owner token)) w)"

definition record_stage_failure ::
  "engine_env \<Rightarrow> lease_token \<Rightarrow> deletion_stage \<Rightarrow> engine_error \<Rightarrow> bool task" where
  "record_stage_failure env token stage error w =
     (let message = engine_error_text (ev_api env) error in
      case db_call env (\<lambda>now.
          if is_permanent_error error then block (ev_api env) now token stage ''stage'' message
          else record_retry (ev_api env) now token stage ''stage'' message RETRY_DELAY) w of
        (Inr _, w) \<Rightarrow> (Inr True, w)
      | (Inl (Store_Error e), w) \<Rightarrow>
          if is_stale_deletion_lease e then (Inr False, w) else (Inl (Store_Error e), w)
      | (Inl e, w) \<Rightarrow> (Inl e, w))"

definition stop_and_report :: "engine_env \<Rightarrow> loop_mode \<Rightarrow> lease_token \<Rightarrow> run_output task" where
  "stop_and_report env mode token =
     ebind (stop_claim_executor env mode token) (\<lambda>_.
     ebind (fetch_request env token) (\<lambda>request. eret (run_output_of request)))"

definition report_failure ::
  "engine_env \<Rightarrow> lease_token \<Rightarrow> deletion_stage \<Rightarrow> engine_error \<Rightarrow> run_output task" where
  "report_failure env token stage error =
     ebind (fetch_request env token) (\<lambda>request.
       if dr_lease_owner request \<noteq> Some (lt_owner token) \<or> dr_lease_generation request \<noteq> lt_generation token
       then eret (run_output_of request)
       else
         ebind (record_stage_failure env token stage error) (\<lambda>_.
         ebind (fetch_request env token) (\<lambda>request. eret (run_output_of request))))"

fun execute_claim ::
  "nat \<Rightarrow> engine_env \<Rightarrow> loop_mode \<Rightarrow> claimed_deletion \<Rightarrow> lease_token \<Rightarrow> world
    \<Rightarrow> ((engine_error + run_output) \<times> world) option" where
  "execute_claim 0 env mode claimed token w = None"
| "execute_claim (Suc n) env mode claimed token w =
     (if ev_shutdown env (wo_clock w) then Some (stop_and_report env mode token w)
      else
        case db_call env (\<lambda>now. heartbeat (ev_api env) now token (loop_mode_str mode) DEFAULT_LEASE_DURATION False) w of
          (Inl e, w) \<Rightarrow> Some (Inl e, w)
        | (Inr _, w) \<Rightarrow>
            (case run_stage_with_heartbeat env claimed w of
               (Stage_Shutdown, w) \<Rightarrow> Some (stop_and_report env mode token w)
             | (Stage_Failed error, w) \<Rightarrow> Some (report_failure env token (dr_stage (cd_request claimed)) error w)
             | (Stage_Completed, w) \<Rightarrow>
                 (case fetch_request env token w of
                    (Inl e, w) \<Rightarrow> Some (Inl e, w)
                  | (Inr request, w) \<Rightarrow>
                      if dr_stage request = RetentionPending \<or> dr_blocked_reason request \<noteq> None
                      then Some (Inr (run_output_of request), w)
                      else execute_claim n env mode
                             (claimed\<lparr>cd_request := request,
                                cd_lease := (cd_lease claimed)\<lparr>lt_fence_generation := dr_fence_generation request\<rparr>\<rparr>)
                             token w)))"

text \<open>The outer loop: the exit code, or \<open>None\<close> when \<open>n\<close> claims or one of them were not enough to end it.\<close>

fun run_loop ::
  "nat \<Rightarrow> engine_env \<Rightarrow> loop_mode \<Rightarrow> uuid option \<Rightarrow> string \<Rightarrow> bool \<Rightarrow> world \<Rightarrow> ((engine_error + int) \<times> world) option" where
  "run_loop 0 env mode request_id executor_id has_run w = None"
| "run_loop (Suc n) env mode request_id executor_id has_run w =
     (if ev_shutdown env (wo_clock w)
      then Some (ebind (db_call env (\<lambda>now. stop_executor now None executor_id)) (\<lambda>_. eret 0) w)
      else
        case db_call env (\<lambda>now. claim (ev_api env) now request_id executor_id DEFAULT_LEASE_DURATION) w of
          (Inl e, w) \<Rightarrow> Some (Inl e, w)
        | (Inr None, w) \<Rightarrow>
            if mode = Mode_Run \<and> \<not> has_run
            then Some (Inl (Bail ''deletion request is not runnable, is blocked, or is leased by another executor''), w)
            else Some (Inr 0, w)
        | (Inr (Some claimed), w) \<Rightarrow>
            (case execute_claim n env mode claimed (cd_lease claimed) w of
               None \<Rightarrow> None
             | Some (Inl e, w) \<Rightarrow> Some (Inl e, w)
             | Some (Inr out, w) \<Rightarrow>
                 (let failed = ro_last_error out \<noteq> None \<or> ro_blocked_reason out \<noteq> None in
                  if mode = Mode_Run \<or> ev_shutdown env (wo_clock w) \<or> failed
                  then Some (Inr (if failed then 1 else 0), w)
                  else run_loop n env mode request_id executor_id True w)))"

end
