(* ===== verification/Deletion_Executor.thy ===== *)
theory Deletion_Executor
  imports Deletion_Engine
begin

text \<open>
  What the executor does under any interference: it changes the database only through transactions of the
  store, it deletes only versions of keys under the tenant prefixes of a sealed, approved target, and the loop
  that runs a claim returns after at most nine stages.
\<close>

section \<open>Relations between worlds\<close>

definition keeps_at :: "(world \<Rightarrow> world \<Rightarrow> bool) \<Rightarrow> 'a task \<Rightarrow> world \<Rightarrow> bool" where
  "keeps_at R m w \<longleftrightarrow> (\<forall>x w'. m w = (x, w') \<longrightarrow> R w w')"

text \<open>What a computation of the executor does to the world is composed of what its calls do, for every
  preorder on worlds.\<close>

locale world_preorder =
  fixes R :: "world \<Rightarrow> world \<Rightarrow> bool"
  assumes R_refl: "R w w" and R_trans: "R w w1 \<Longrightarrow> R w1 w2 \<Longrightarrow> R w w2"
begin

lemma keeps_pure [simp, intro]:
  "keeps_at R (eret x) w" "keeps_at R (efail e) w" "keeps_at R (elift r) w" "keeps_at R (elift_db s) w" "keeps_at R (check_lost env) w"
  by (auto simp: keeps_at_def eret_def efail_def elift_def elift_db_def check_lost_def R_refl split: sum.splits if_splits)

lemma keeps_bind:
  assumes "keeps_at R m w" "\<And>x w'. m w = (Inr x, w') \<Longrightarrow> R w w' \<Longrightarrow> keeps_at R (f x) w'"
  shows "keeps_at R (ebind m f) w"
  using assms unfolding keeps_at_def ebind_def by (auto split: prod.splits sum.splits intro: R_trans)

lemma keeps_for:
  assumes "\<And>x w. keeps_at R (f x) w"
  shows "keeps_at R (efor f xs) w"
  by (induction xs arbitrary: w) (auto intro: keeps_bind assms)

lemma keeps_context: "keeps_at R m w \<Longrightarrow> keeps_at R (with_context c m) w"
  unfolding keeps_at_def with_context_def by (auto split: prod.splits sum.splits engine_error.splits)

lemma keeps_case_option:
  "(v = None \<Longrightarrow> keeps_at R m w) \<Longrightarrow> (\<And>x. v = Some x \<Longrightarrow> keeps_at R (f x) w) \<Longrightarrow>
     keeps_at R (case v of None \<Rightarrow> m | Some x \<Rightarrow> f x) w"
  by (cases v) auto

end

section \<open>Evolution of the database\<close>

definition evolves :: "deletion_api \<Rightarrow> del_db \<Rightarrow> del_db \<Rightarrow> bool" where
  "evolves api db db' \<longleftrightarrow> (\<exists>ops. db' = run_ops api ops db)"

lemma evolves_refl [simp, intro]: "evolves api db db"
  unfolding evolves_def by (rule exI [of _ "[]"]) simp

lemma evolves_trans: "evolves api db db1 \<Longrightarrow> evolves api db1 db2 \<Longrightarrow> evolves api db db2"
  unfolding evolves_def by (metis run_ops_append)

lemma evolves_op: "run_op api op db = Inr db' \<Longrightarrow> evolves api db db'"
  unfolding evolves_def by (rule exI [of _ "[op]"]) simp

lemma evolves_enter: "ev_api env = api \<Longrightarrow> evolves api (wo_db w) (wo_db (enter env w))"
  unfolding evolves_def enter_def by auto

lemma evolves_reachable: "evolves api db db' \<Longrightarrow> reachable api db \<Longrightarrow> reachable api db'"
  by (auto simp: evolves_def reachable_run_ops)

definition transaction :: "deletion_api \<Rightarrow> (int \<Rightarrow> del_db \<Rightarrow> db_error + del_db \<times> 'a) \<Rightarrow> bool" where
  "transaction api f \<longleftrightarrow> (\<forall>now db db' x. f now db = Inr (db', x) \<longrightarrow> evolves api db db')"

lemma transactionI: "(\<And>now. \<exists>op. \<forall>db. run_op api op db = drop_result (f now db)) \<Longrightarrow> transaction api f"
  unfolding transaction_def by (metis drop_result_Inr evolves_op)

lemma transaction_token:
  assumes "\<And>now db. run_token api now token op db = drop_result (f now db)"
  shows "transaction api f"
  by (rule transactionI) (use assms in \<open>auto intro!: exI [of _ "Op_Token now token op" for now]\<close>)

lemma transaction_control:
  assumes "\<And>now db. run_control api now op db = drop_result (f now db)"
  shows "transaction api f"
  by (rule transactionI) (use assms in \<open>auto intro!: exI [of _ "Op_Control now op" for now]\<close>)

lemma transactions [intro]:
  "transaction api (\<lambda>now. heartbeat api now token m d b)"
  "transaction api (\<lambda>now. begin_quiescing api now token)"
  "transaction api (\<lambda>now. fence api now token)"
  "transaction api (\<lambda>now. freeze_destructive_storage_manifest api now token manifest)"
  "transaction api (\<lambda>now. clear_manifest_key_chunks api now token)"
  "transaction api (\<lambda>now. append_manifest_key_chunk api now token k p keys)"
  "transaction api (\<lambda>now. mark_manifest_chunk_deleted api now token k detail)"
  "transaction api (\<lambda>now. mark_drained api now token)"
  "transaction api (\<lambda>now. mark_bindings_removed api now token detail)"
  "transaction api (\<lambda>now. purge_postgres api now token)"
  "transaction api (\<lambda>now. mark_cache_purged api now token detail)"
  "transaction api (\<lambda>now. mark_logically_verified api now token detail)"
  "transaction api (\<lambda>now. mark_retention_pending api now token detail)"
  "transaction api (\<lambda>now. record_retry api now token s key e d)"
  "transaction api (\<lambda>now. block api now token s key e)"
  "transaction api (\<lambda>now. claim api now i owner d)"
  "transaction api (\<lambda>now. stop_executor now t owner)"
  by (rule transaction_token transaction_control, rule run_token.simps run_control.simps)+

lemma transaction_if [intro]: "transaction api f \<Longrightarrow> transaction api g \<Longrightarrow> transaction api (\<lambda>now. if b then f now else g now)"
  by (cases b) auto

lemma transaction_read [intro]: "transaction api (\<lambda>now db. and_then (f now db) (\<lambda>x. Inr (db, x)))"
  by (auto simp: transaction_def and_then_Inr)

section \<open>The relation of the executor\<close>

definition past_drain :: "deletion_stage \<Rightarrow> bool" where
  "past_drain s \<longleftrightarrow> s \<in> {Drained, BindingsRemoved, PostgresPurged, CachePurged, LogicallyVerified, RetentionPending}"

definition effect_ok :: "deletion_api \<Rightarrow> engine_effect \<Rightarrow> del_db \<Rightarrow> bool" where
  "effect_ok api eff db =
     (case eff of
        Delete_Request ids \<Rightarrow>
          (\<exists>r \<in> set (dt_requests db). past_drain (dr_stage r)
             \<and> (\<forall>(k, v) \<in> set ids. \<exists>p \<in> set (tenant_prefixes (da_uuid api) (dr_community_id r)). is_prefix p k))
      | _ \<Rightarrow> True)"

definition world_ok :: "deletion_api \<Rightarrow> world \<Rightarrow> world \<Rightarrow> bool" where
  "world_ok api w w' \<longleftrightarrow>
     evolves api (wo_db w) (wo_db w')
     \<and> (\<exists>new. wo_effects w' = wo_effects w @ new
          \<and> (\<forall>(eff, db) \<in> set new. evolves api (wo_db w) db \<and> effect_ok api eff db))"

lemma world_ok_same_effects: "evolves api (wo_db w) (wo_db w') \<Longrightarrow> wo_effects w' = wo_effects w \<Longrightarrow> world_ok api w w'"
  by (simp add: world_ok_def)

interpretation executor: world_preorder "world_ok api" for api
proof
  show "world_ok api w w" for w by (simp add: world_ok_same_effects)
  show "world_ok api w w2" if one: "world_ok api w w1" and two: "world_ok api w1 w2" for w w1 w2
  proof -
    obtain new1 new2 where n: "wo_effects w1 = wo_effects w @ new1" "wo_effects w2 = wo_effects w1 @ new2"
      "\<forall>(eff, db) \<in> set new1. evolves api (wo_db w) db \<and> effect_ok api eff db"
      "\<forall>(eff, db) \<in> set new2. evolves api (wo_db w1) db \<and> effect_ok api eff db"
      using one two by (auto simp: world_ok_def)
    have e: "evolves api (wo_db w) (wo_db w1)" "evolves api (wo_db w1) (wo_db w2)"
      using one two by (simp_all add: world_ok_def)
    have "\<forall>(eff, db) \<in> set (new1 @ new2). evolves api (wo_db w) db \<and> effect_ok api eff db"
      using n(3,4) evolves_trans [OF e(1)] by fastforce
    then show ?thesis
      unfolding world_ok_def using n(1,2) evolves_trans [OF e] by (metis append.assoc)
  qed
qed

lemma keeps_db_call:
  assumes "ev_api env = api" "transaction api f"
  shows "keeps_at (world_ok api) (db_call env f) w"
proof -
  have e: "evolves api (wo_db w) (wo_db (enter env w))" by (rule evolves_enter [OF assms(1)])
  have t: "evolves api (wo_db w) db" if "f now (wo_db (enter env w)) = Inr (db, x)" for now db x
    using assms(2) that e unfolding transaction_def by (blast intro: evolves_trans)
  have "wo_effects (enter env w) = wo_effects w" by (simp add: enter_def)
  then show ?thesis
    unfolding keeps_at_def db_call_def Let_def after_call_def eret_def efail_def
    using e t by (auto intro!: world_ok_same_effects split: fate.splits sum.splits prod.splits)
qed

lemma keeps_db_read: "ev_api env = api \<Longrightarrow> keeps_at (world_ok api) (db_read env f) w"
  unfolding db_read_def by (rule keeps_db_call) auto

lemma keeps_ext_call:
  assumes "ev_api env = api" "\<And>e. e \<in> set effects \<Longrightarrow> effect_ok api e (wo_db (enter env w))"
  shows "keeps_at (world_ok api) (ext_call env effects answer) w"
proof -
  let ?w = "enter env w"
  have e: "evolves api (wo_db w) (wo_db ?w)" by (rule evolves_enter [OF assms(1)])
  have f: "wo_effects ?w = wo_effects w" by (simp add: enter_def)
  have "world_ok api w (?w\<lparr>wo_effects := wo_effects w @ map (\<lambda>e. (e, wo_db ?w)) effects\<rparr>)"
    unfolding world_ok_def using e assms(2) by auto
  moreover have "world_ok api w ?w" using e f by (rule world_ok_same_effects)
  ultimately show ?thesis
    unfolding keeps_at_def ext_call_def Let_def f by (auto split: fate.splits sum.splits)
qed

lemmas keeps_rules = executor.keeps_bind executor.keeps_pure executor.keeps_for executor.keeps_context
  executor.keeps_case_option keeps_db_call keeps_db_read keeps_ext_call

lemma keeps_verify_token: "ev_api env = api \<Longrightarrow> keeps_at (world_ok api) (verify_token env token stage) w"
  by (simp add: verify_token_def keeps_db_read)

lemma keeps_guarded:
  assumes "ev_api env = api" "\<And>w1. verify_token env token stage w = (Inr (), w1) \<Longrightarrow> keeps_at (world_ok api) m w1"
  shows "keeps_at (world_ok api) (run_guarded_external_step env token stage m) w"
  unfolding run_guarded_external_step_def
  by (intro keeps_rules keeps_verify_token [OF assms(1)]) (auto simp: check_lost_def assms(2) split: if_splits)

lemma keeps_flush_chunk: "ev_api env = api \<Longrightarrow> keeps_at (world_ok api) (flush_chunk env sink prefix st) w"
  unfolding flush_chunk_def by (cases sink) (auto intro!: keeps_rules)

lemma keeps_enum_entry: "ev_api env = api \<Longrightarrow> keeps_at (world_ok api) (enum_entry env c sink prefix e st) w"
  unfolding enum_entry_def by (auto simp: Let_def intro!: keeps_rules keeps_flush_chunk)

lemma keeps_enum_entries: "ev_api env = api \<Longrightarrow> keeps_at (world_ok api) (enum_entries env c sink prefix es st) w"
  by (induction es arbitrary: st w) (auto intro!: keeps_rules keeps_enum_entry)

lemma keeps_enum_pages: "ev_api env = api \<Longrightarrow> keeps_at (world_ok api) (enum_pages n env c g sink prefix marker st) w"
  by (induction n arbitrary: marker st w) (auto intro!: keeps_rules keeps_enum_entries)

lemma keeps_enum_prefixes: "ev_api env = api \<Longrightarrow> keeps_at (world_ok api) (enum_prefixes env c g sink k ps) w"
  by (induction ps arbitrary: k w) (auto simp: Let_def split: prod.split intro!: keeps_rules keeps_enum_pages keeps_flush_chunk)

lemma keeps_enumerate: "ev_api env = api \<Longrightarrow> keeps_at (world_ok api) (enumerate_tenant_prefixes env r g sink) w"
  unfolding enumerate_tenant_prefixes_def by (auto simp: Let_def intro!: keeps_rules keeps_enum_prefixes)

lemma keeps_freeze: "ev_api env = api \<Longrightarrow> keeps_at (world_ok api) (freeze_destructive_manifest env r token) w"
  unfolding freeze_destructive_manifest_def by (auto intro!: keeps_rules keeps_enumerate)

lemma effect_ok_other [simp]: "effect_ok api (Unlink_Keys ks) db" "effect_ok api (Published ch) db"
  by (simp_all add: effect_ok_def)

lemma keeps_publish: "ev_api env = api \<Longrightarrow> keeps_at (world_ok api) (publish_disconnect_community env c) w"
  unfolding publish_disconnect_community_def by (auto simp: Let_def intro!: keeps_rules)

lemma keeps_purge_redis: "ev_api env = api \<Longrightarrow> keeps_at (world_ok api) (purge_redis n env pattern cursor d) w"
  by (induction n arbitrary: cursor d w) (auto simp: Let_def split: prod.split intro!: keeps_rules)

lemma keeps_scan_redis: "ev_api env = api \<Longrightarrow> keeps_at (world_ok api) (scan_redis n env pattern cursor) w"
  by (induction n arbitrary: cursor w) (auto intro!: keeps_rules)

lemma keeps_redis_absence: "ev_api env = api \<Longrightarrow> keeps_at (world_ok api) (verify_redis_absence env c) w"
  unfolding verify_redis_absence_def by (auto intro!: keeps_rules keeps_scan_redis)

lemma keeps_storage_absence: "ev_api env = api \<Longrightarrow> keeps_at (world_ok api) (verify_storage_absence env r) w"
  unfolding verify_storage_absence_def by (auto split: list.split intro!: keeps_rules)

lemma keeps_preflight: "ev_api env = api \<Longrightarrow> keeps_at (world_ok api) (preflight_version_listing env prefix) w"
  unfolding preflight_version_listing_def by (auto intro!: keeps_rules)

lemma keeps_fence:
  assumes "ev_api env = api"
  shows "keeps_at (world_ok api) (fence_or_retry env token) w"
  using keeps_db_call [OF assms transactions(3), of token w] assms
  unfolding keeps_at_def fence_or_retry_def by (auto split: prod.splits sum.splits engine_error.splits db_error.splits)

lemma keeps_stage_approved: "ev_api env = api \<Longrightarrow> keeps_at (world_ok api) (stage_approved env r token) w"
  unfolding stage_approved_def by (auto intro!: keeps_rules keeps_guarded keeps_preflight keeps_fence)

lemma keeps_stage_fenced: "ev_api env = api \<Longrightarrow> keeps_at (world_ok api) (stage_fenced env r token) w"
  unfolding stage_fenced_def
  by (auto split: option.split intro!: keeps_rules keeps_verify_token keeps_publish keeps_freeze)

lemma keeps_stage_postgres_purged: "ev_api env = api \<Longrightarrow> keeps_at (world_ok api) (stage_postgres_purged env r token) w"
  unfolding stage_postgres_purged_def purge_redis_namespace_def
  by (auto intro!: keeps_rules keeps_verify_token keeps_purge_redis)

lemma keeps_stage_cache_purged: "ev_api env = api \<Longrightarrow> keeps_at (world_ok api) (stage_cache_purged env r token) w"
  unfolding stage_cache_purged_def by (auto intro!: keeps_rules keeps_storage_absence keeps_redis_absence)

section \<open>Deleting the frozen keys\<close>

text \<open>A request row that the executor has read: it was a row of a reachable database that the current one
  evolved from.\<close>

definition row_snapshot :: "deletion_api \<Rightarrow> deletion_request \<Rightarrow> del_db \<Rightarrow> bool" where
  "row_snapshot api request db \<longleftrightarrow>
     (\<exists>db0. reachable api db0 \<and> request \<in> set (dt_requests db0) \<and> evolves api db0 db)"

lemma snapshot_reachable: "row_snapshot api request db \<Longrightarrow> reachable api db"
  by (auto simp: row_snapshot_def evolves_reachable)

lemma snapshot_evolves: "row_snapshot api request db \<Longrightarrow> evolves api db db' \<Longrightarrow> row_snapshot api request db'"
  unfolding row_snapshot_def using evolves_trans by blast

lemma evolved_row:
  assumes "evolves api db db'" "reachable api db" "r \<in> set (dt_requests db)" "Q r"
    and "\<And>r r'. row_step r r' \<Longrightarrow> Q r \<Longrightarrow> Q r'"
  shows "\<exists>r' \<in> set (dt_requests db'). dr_id r' = dr_id r \<and> Q r'"
  using assms(1) run_ops_rows [where P = Q, OF assms(5) reachable_db_inv [OF assms(2)] assms(3,4)]
  by (auto simp: evolves_def)

lemma row_step_target: "row_step r r' \<Longrightarrow> dr_community_id r' = dr_community_id r"
  by (simp add: row_step_def retargeting_ok_def)

lemma snapshot_row:
  assumes "row_snapshot api request db" "Q request" "\<And>r r'. row_step r r' \<Longrightarrow> Q r \<Longrightarrow> Q r'"
  shows "\<exists>r \<in> set (dt_requests db). dr_id r = dr_id request \<and> dr_community_id r = dr_community_id request \<and> Q r"
proof -
  obtain db0 where d: "reachable api db0" "request \<in> set (dt_requests db0)" "evolves api db0 db"
    using assms(1) by (auto simp: row_snapshot_def)
  have "\<exists>r \<in> set (dt_requests db). dr_id r = dr_id request \<and> (dr_community_id r = dr_community_id request \<and> Q r)"
    by (rule evolved_row [where Q = "\<lambda>r. dr_community_id r = dr_community_id request \<and> Q r", OF d(3,1,2)])
      (use assms(2,3) row_step_target in auto)
  then show ?thesis by simp
qed

lemma past_drain_step: "row_step r r' \<Longrightarrow> past_drain (dr_stage r) \<Longrightarrow> past_drain (dr_stage r')"
  unfolding row_step_def stage_step_def past_drain_def by (cases "dr_stage r") auto

definition frozen_with :: "storage_manifest \<Rightarrow> deletion_request \<Rightarrow> bool" where
  "frozen_with m r \<longleftrightarrow> dr_destructive_storage_frozen_at r \<noteq> None \<and> dr_destructive_storage_manifest r = Some m"

lemma snapshot_frozen:
  assumes "row_snapshot api request db" "dr_destructive_storage_manifest request = Some m"
  shows "\<exists>r \<in> set (dt_requests db). dr_id r = dr_id request \<and> frozen_with m r"
proof -
  obtain db0 where d: "reachable api db0" "request \<in> set (dt_requests db0)"
    using assms(1) by (auto simp: row_snapshot_def)
  have "chunks_ok api (request_chunks (dr_id request) db0) request"
    using db_inv_request [OF reachable_db_inv [OF d(1)] d(2)] by (simp add: request_ok_def)
  then have "frozen_with m request" using assms(2) by (auto simp: chunks_ok_def frozen_with_def split: option.splits)
  then have "\<exists>r \<in> set (dt_requests db). dr_id r = dr_id request \<and> dr_community_id r = dr_community_id request \<and> frozen_with m r"
    by (rule snapshot_row [OF assms(1)]) (auto simp: row_step_def retargeting_ok_def frozen_with_def)
  then show ?thesis by blast
qed

definition chunk_under :: "storage_manifest \<Rightarrow> manifest_key_row \<Rightarrow> bool" where
  "chunk_under m chunk \<longleftrightarrow>
     mk_prefix chunk \<in> pm_prefix ` set (sm_prefixes m) \<and> (\<forall>key \<in> set (mk_keys chunk). key_ok (sm_version m) (mk_prefix chunk) key)"

lemma frozen_chunk_under:
  assumes inv: "db_inv api db" and r: "r \<in> set (dt_requests db)" "frozen_with m r"
    and c: "chunk \<in> set (request_chunks (dr_id r) db)"
  shows "chunk_under m chunk"
proof -
  have "chunks_ok api (request_chunks (dr_id r) db) r" using db_inv_request [OF inv r(1)] by (simp add: request_ok_def)
  then have v: "validate_storage_manifest m = Inr ()"
    "validate_manifest_key_chunks api m (map chunk_row (request_chunks (dr_id r) db)) = Inr ()"
    using r(2) c by (auto simp: chunks_ok_def frozen_with_def split: option.splits)
  have "chunk_row chunk \<in> set (map chunk_row (request_chunks (dr_id r) db))" using c by simp
  then show ?thesis
    using manifest_chunks_ok(2) [OF v] unfolding chunk_under_def chunk_row_def by blast
qed

lemma pending_chunk: "next_pending_manifest_chunk token db = Some chunk \<Longrightarrow> chunk \<in> set (request_chunks (lt_request_id token) db)"
  unfolding next_pending_manifest_chunk_def by (drule find_SomeD) simp

lemma decode_versions_under:
  "decode_versions keys = Inr vs \<Longrightarrow> v \<ge> 5 \<Longrightarrow> \<forall>key \<in> set keys. key_ok v p key \<Longrightarrow> \<forall>x \<in> set vs. is_prefix p (vr_key x)"
  by (induction keys arbitrary: vs) (auto simp: and_then_Inr key_ok_def)

lemma versions_under:
  assumes "object_versions_from_manifest_chunk chunk (sm_version m) = Inr vs" "chunk_under m chunk"
  shows "\<forall>x \<in> set vs. is_prefix (mk_prefix chunk) (vr_key x)"
  using assms decode_versions_under [of "mk_keys chunk" vs "sm_version m" "mk_prefix chunk"]
  by (auto simp: object_versions_from_manifest_chunk_def chunk_under_def key_ok_def split: if_splits)

text \<open>The database of a world has the request of the community past the drain.\<close>

definition drained_in :: "uuid \<Rightarrow> del_db \<Rightarrow> bool" where
  "drained_in c db \<longleftrightarrow> (\<exists>r \<in> set (dt_requests db). past_drain (dr_stage r) \<and> dr_community_id r = c)"

lemma drained_in_evolves:
  assumes "drained_in c db" "evolves api db db'" "reachable api db"
  shows "drained_in c db'"
proof -
  obtain r where r: "r \<in> set (dt_requests db)" "past_drain (dr_stage r)" "dr_community_id r = c"
    using assms(1) by (auto simp: drained_in_def)
  have "\<exists>r' \<in> set (dt_requests db'). dr_id r' = dr_id r \<and> (past_drain (dr_stage r') \<and> dr_community_id r' = c)"
    by (rule evolved_row [where Q = "\<lambda>r. past_drain (dr_stage r) \<and> dr_community_id r = c", OF assms(2,3) r(1)])
      (use r(2,3) past_drain_step row_step_target in auto)
  then show ?thesis by (auto simp: drained_in_def)
qed

lemma keeps_send_delete:
  assumes api: "ev_api env = api" and d: "drained_in c (wo_db w)" "reachable api (wo_db w)"
    and ids: "\<And>xs. request = Some xs \<Longrightarrow> \<forall>(k, v) \<in> set xs. \<exists>p \<in> set (tenant_prefixes (da_uuid api) c). is_prefix p k"
  shows "keeps_at (world_ok api) (send_delete env mode request) w"
proof -
  have "drained_in c (wo_db (enter env w))" by (rule drained_in_evolves [OF d(1) evolves_enter [OF api] d(2)])
  then show ?thesis
    unfolding send_delete_def using ids api
    by (auto simp: effect_ok_def drained_in_def split: option.split intro!: keeps_rules)
qed

lemma keeps_delete_chunk:
  assumes api: "ev_api env = api" and d: "drained_in c (wo_db w)" "reachable api (wo_db w)"
    and own: "map pm_prefix (sm_prefixes m) = tenant_prefixes (da_uuid api) c" and u: "chunk_under m chunk"
  shows "keeps_at (world_ok api) (delete_manifest_chunk env (sm_version m) chunk) w"
proof -
  have p: "mk_prefix chunk \<in> set (tenant_prefixes (da_uuid api) c)"
    using u own by (metis chunk_under_def image_set)
  have "keeps_at (world_ok api) (if sm_version m \<ge> 5 then send_delete env ExplicitVersion (delete_object_versions_request vs)
       else send_delete env Unversioned (delete_objects_request (map vr_key vs))) w"
    if "object_versions_from_manifest_chunk chunk (sm_version m) = Inr vs" for vs
    using versions_under [OF that u] bexI [OF _ p]
    by (auto simp: delete_object_versions_request_def delete_objects_request_def object_version_identifiers_def
        split: if_splits intro!: keeps_send_delete [OF api d])
  then show ?thesis
    unfolding delete_manifest_chunk_def
    by (intro keeps_rules) (auto simp: elift_db_def eret_def efail_def split: sum.splits)
qed

lemma db_call_Inr:
  assumes "db_call env f w = (Inr x, w')"
  shows "f (ev_now env (wo_clock w)) (wo_db (enter env w)) = Inr (wo_db w', x)" "wo_effects w' = wo_effects w"
  using assms unfolding db_call_def Let_def after_call_def eret_def efail_def
  by (auto simp: enter_def split: fate.splits sum.splits prod.splits)

lemma db_read_Inr:
  assumes "db_read env f w = (Inr x, w')"
  shows "f (ev_now env (wo_clock w)) (wo_db w') = Inr x"
  using db_call_Inr(1) [OF assms [unfolded db_read_def]] by (auto simp: and_then_Inr)

lemma keeps_atD: "keeps_at R m w \<Longrightarrow> m w = (x, w') \<Longrightarrow> R w w'"
  by (simp add: keeps_at_def)

lemma world_ok_evolves: "world_ok api w w' \<Longrightarrow> evolves api (wo_db w) (wo_db w')"
  by (simp add: world_ok_def)

lemma verified_row:
  assumes "verify_token env token stage w = (Inr (), w')" "ev_api env = api"
  shows "\<exists>r \<in> set (dt_requests (wo_db w')). dr_id r = lt_request_id token \<and> dr_community_id r = lt_community_id token
    \<and> dr_stage r = stage"
proof -
  have "\<exists>now. verify_lease api now token stage (wo_db w') = Inr ()"
    using db_read_Inr [OF assms(1) [unfolded verify_token_def]] assms(2)
    by (auto simp: verify_execution_token_def intro: verify_fence_lease split: option.splits)
  then show ?thesis by (auto simp: verify_lease_Inr lease_current_def)
qed

lemma snapshot_bind:
  assumes "row_snapshot api request (wo_db w)" "keeps_at (world_ok api) m w"
    and "\<And>x w'. m w = (Inr x, w') \<Longrightarrow> row_snapshot api request (wo_db w') \<Longrightarrow> keeps_at (world_ok api) (f x) w'"
  shows "keeps_at (world_ok api) (ebind m f) w"
  using assms by (intro executor.keeps_bind) (auto intro: snapshot_evolves world_ok_evolves)

lemma keeps_guarded_delete:
  assumes api: "ev_api env = api" and own: "map pm_prefix (sm_prefixes m) = tenant_prefixes (da_uuid api) (dr_community_id request)"
    and m: "dr_destructive_storage_manifest request = Some m" and t: "lt_request_id token = dr_id request"
    and s1: "row_snapshot api request (wo_db w)" and p: "next_pending_manifest_chunk token (wo_db w) = Some chunk"
  shows "keeps_at (world_ok api) (run_guarded_external_step env token Drained (delete_manifest_chunk env (sm_version m) chunk)) w"
proof (rule keeps_guarded [OF api])
  fix w2
  assume v: "verify_token env token Drained w = (Inr (), w2)"
  have s2: "row_snapshot api request (wo_db w2)"
    by (rule snapshot_evolves [OF s1 world_ok_evolves [OF keeps_atD [OF keeps_verify_token [OF api] v]]])
  obtain r where r: "r \<in> set (dt_requests (wo_db w))" "dr_id r = dr_id request" "frozen_with m r"
    using snapshot_frozen [OF s1 m] by blast
  have u: "chunk_under m chunk"
    by (rule frozen_chunk_under [OF reachable_db_inv [OF snapshot_reachable [OF s1]] r(1,3)])
      (use pending_chunk [OF p] r(2) t in simp)
  obtain q where q: "q \<in> set (dt_requests (wo_db w2))" "dr_id q = dr_id request" "dr_stage q = Drained"
    using verified_row [OF v api] t by auto
  obtain q' where q': "q' \<in> set (dt_requests (wo_db w2))" "dr_id q' = dr_id request" "dr_community_id q' = dr_community_id request"
    using snapshot_row [where Q = "\<lambda>_. True", OF s2] by auto
  have "q' = q"
    using request_by_id [OF db_inv_distinct(1) [OF reachable_db_inv [OF snapshot_reachable [OF s2]]] q'(1) q(1)] q q' by simp
  then have "drained_in (dr_community_id request) (wo_db w2)" using q q' by (auto simp: drained_in_def past_drain_def)
  then show "keeps_at (world_ok api) (delete_manifest_chunk env (sm_version m) chunk) w2"
    by (rule keeps_delete_chunk [OF api _ snapshot_reachable [OF s2] own u])
qed

lemma keeps_drain_chunks:
  assumes api: "ev_api env = api" and own: "map pm_prefix (sm_prefixes m) = tenant_prefixes (da_uuid api) (dr_community_id request)"
    and m: "dr_destructive_storage_manifest request = Some m" and t: "lt_request_id token = dr_id request"
  shows "row_snapshot api request (wo_db w) \<Longrightarrow> keeps_at (world_ok api) (drain_chunks n env token (sm_version m) a b) w"
proof (induction n arbitrary: w a b)
  case (Suc n)
  show ?case
    unfolding drain_chunks.simps
  proof (rule snapshot_bind [OF Suc.prems keeps_db_read [OF api]])
    fix x w1
    assume rd: "db_read env (\<lambda>_ db. Inr (next_pending_manifest_chunk token db)) w = (Inr x, w1)"
      and s1: "row_snapshot api request (wo_db w1)"
    have p: "next_pending_manifest_chunk token (wo_db w1) = x" using db_read_Inr [OF rd] by simp
    show "keeps_at (world_ok api) (case x of None \<Rightarrow> eret (a, b) | Some chunk \<Rightarrow>
           ebind (run_guarded_external_step env token Drained (delete_manifest_chunk env (sm_version m) chunk)) (\<lambda>out.
           ebind (check_lost env) (\<lambda>_.
           ebind (elift (manifest_chunk_deleted_checkpoint_detail chunk out)) (\<lambda>detail.
           ebind (db_call env (\<lambda>now. mark_manifest_chunk_deleted (ev_api env) now token (mk_chunk_no chunk) detail)) (\<lambda>_.
             drain_chunks n env token (sm_version m) (a + bd_deleted out) (b + bd_already_missing out)))))) w1"
    proof (cases x)
      case (Some chunk)
      have c: "keeps_at (world_ok api) (run_guarded_external_step env token Drained (delete_manifest_chunk env (sm_version m) chunk)) w1"
        by (rule keeps_guarded_delete [OF api own m t s1]) (simp add: p Some)
      show ?thesis
        unfolding Some option.case
        by (rule snapshot_bind [OF s1 c], rule snapshot_bind, assumption, rule executor.keeps_pure,
            rule snapshot_bind, assumption, rule executor.keeps_pure, rule snapshot_bind, assumption,
            rule keeps_db_call [OF api], use api in blast, rule Suc.IH)
    qed simp
  qed
qed simp

lemma keeps_stage_drained:
  assumes "ev_api env = api" "lt_request_id token = dr_id request" "row_snapshot api request (wo_db w)"
  shows "keeps_at (world_ok api) (stage_drained env request token) w"
proof (cases "dr_destructive_storage_manifest request")
  case (Some m)
  have d: "keeps_at (world_ok api) (ebind (drain_chunks (ev_rounds env) env token (sm_version m) 0 0) f) w"
    if "validate_storage_ownership api request m = Inr ()" "\<And>x w. keeps_at (world_ok api) (f x) w" for f :: "u64 \<times> u64 \<Rightarrow> unit task"
    using that
    by (intro executor.keeps_bind keeps_drain_chunks [OF assms(1) _ Some assms(2,3)])
      (auto simp: validate_storage_ownership_def split: sum.splits if_splits)
  show ?thesis
    unfolding stage_drained_def Some option.case
    by (rule executor.keeps_bind [OF executor.keeps_pure(3)])
      (auto simp: elift_def assms(1) split: prod.split intro!: keeps_db_call d)
qed (simp add: stage_drained_def)

lemma keeps_execute_stage:
  assumes api: "ev_api env = api" and t: "lt_request_id (cd_lease claimed) = dr_id (cd_request claimed)"
    and s: "row_snapshot api (cd_request claimed) (wo_db w)"
  shows "keeps_at (world_ok api) (execute_stage env claimed) w"
proof -
  let ?r = "cd_request claimed" and ?t = "token_with_current_fence (cd_lease claimed) (cd_request claimed)"
  have "keeps_at (world_ok api) (stage_drained env ?r ?t) w'" if "row_snapshot api ?r (wo_db w')" for w'
    using that t by (intro keeps_stage_drained [OF api]) (simp add: token_with_current_fence_def)
  then show ?thesis
    unfolding execute_stage_def Let_def
    by (intro snapshot_bind [OF s])
      (auto split: deletion_stage.split intro!: keeps_rules keeps_stage_approved keeps_stage_fenced keeps_stage_postgres_purged
        keeps_stage_cache_purged simp: api)
qed

section \<open>Runs of the executor\<close>

lemma keeps_run_stage:
  assumes "keeps_at (world_ok api) (execute_stage env claimed) w" "run_stage_with_heartbeat env claimed w = (o', w')"
  shows "world_ok api w w'"
  using assms executor.R_refl unfolding run_stage_with_heartbeat_def keeps_at_def
  by (auto split: if_splits prod.splits sum.splits engine_error.splits drop_reason.splits)

lemma keeps_fetch: "ev_api env = api \<Longrightarrow> keeps_at (world_ok api) (fetch_request env token) w"
  by (simp add: fetch_request_def keeps_db_read)

lemma fetched_snapshot:
  assumes "fetch_request env token w = (Inr r, w')" "ev_api env = api" "reachable api (wo_db w')"
  shows "row_snapshot api r (wo_db w')" "dr_id r = lt_request_id token" "r \<in> set (dt_requests (wo_db w'))"
proof -
  have "find_request (lt_request_id token) (wo_db w') = Some r"
    using db_read_Inr [OF assms(1) [unfolded fetch_request_def]] assms(2)
    by (auto simp: get_def ok_or_def split: option.splits)
  then show "dr_id r = lt_request_id token" "r \<in> set (dt_requests (wo_db w'))"
    using find_request_iff [OF db_inv_distinct(1) [OF reachable_db_inv [OF assms(3)]]] by simp_all
  then show "row_snapshot api r (wo_db w')" using assms(3) by (auto simp: row_snapshot_def)
qed

lemma keeps_stop_and_report: "ev_api env = api \<Longrightarrow> keeps_at (world_ok api) (stop_and_report env mode token) w"
proof -
  assume api: "ev_api env = api"
  have "keeps_at (world_ok api) (stop_claim_executor env mode token) w" for w
  proof (unfold keeps_at_def, intro allI impI)
    fix x w2
    assume s: "stop_claim_executor env mode token w = (x, w2)"
    obtain y w1 where h: "db_call env (\<lambda>now. heartbeat api now token (loop_mode_str mode) DEFAULT_LEASE_DURATION True) w = (y, w1)"
      by fastforce
    have "db_call env (\<lambda>now. stop_executor now (Some token) (lt_owner token)) w1 = (x, w2)"
      using s h by (simp add: stop_claim_executor_def api)
    then show "world_ok api w w2"
      by (rule executor.R_trans [OF keeps_atD [OF keeps_db_call [OF api transactions(1)] h]
          keeps_atD [OF keeps_db_call [OF api transactions(17)]]])
  qed
  then show ?thesis unfolding stop_and_report_def by (auto intro!: keeps_rules keeps_fetch api)
qed

lemma keeps_record_failure: "ev_api env = api \<Longrightarrow> keeps_at (world_ok api) (record_stage_failure env token stage e) w"
proof -
  assume api: "ev_api env = api"
  have "keeps_at (world_ok api) (db_call env (\<lambda>now. if is_permanent_error e
      then block (ev_api env) now token stage ''stage'' (engine_error_text (ev_api env) e)
      else record_retry (ev_api env) now token stage ''stage'' (engine_error_text (ev_api env) e) RETRY_DELAY)) w"
    unfolding api by (rule keeps_db_call [OF api transaction_if [OF transactions(15,14)]])
  then show ?thesis
    unfolding keeps_at_def record_stage_failure_def Let_def by (auto split: prod.splits sum.splits engine_error.splits if_splits)
qed

lemma keeps_report_failure: "ev_api env = api \<Longrightarrow> keeps_at (world_ok api) (report_failure env token stage e) w"
  unfolding report_failure_def by (auto intro!: keeps_rules keeps_fetch keeps_record_failure)

definition claim_ok :: "deletion_api \<Rightarrow> lease_token \<Rightarrow> claimed_deletion \<Rightarrow> world \<Rightarrow> bool" where
  "claim_ok api token claimed w \<longleftrightarrow>
     row_snapshot api (cd_request claimed) (wo_db w) \<and> lt_request_id token = dr_id (cd_request claimed)
     \<and> lt_request_id (cd_lease claimed) = dr_id (cd_request claimed)"

text \<open>One round of the loop of a claim, up to the next one.\<close>

lemma execute_claim_stage:
  assumes api: "ev_api env = api" and shut: "\<not> ev_shutdown env (wo_clock w)"
    and h: "db_call env (\<lambda>now. heartbeat (ev_api env) now token (loop_mode_str mode) DEFAULT_LEASE_DURATION False) w = (Inr u, w1)"
    and st: "run_stage_with_heartbeat env claimed w1 = (o', w2)" and w2: "world_ok api w w2"
    and run: "execute_claim (Suc n) env mode claimed token w = out"
  obtains (ends) x w' where "out = Some (x, w')" "world_ok api w w'"
    | (again) w3 r where "o' = Stage_Completed" "fetch_request env token w2 = (Inr r, w3)" "world_ok api w2 w3"
        "out = execute_claim n env mode (claimed\<lparr>cd_request := r,
          cd_lease := (cd_lease claimed)\<lparr>lt_fence_generation := dr_fence_generation r\<rparr>\<rparr>) token w3"
proof (cases o')
  case Stage_Shutdown
  obtain x w' where "stop_and_report env mode token w2 = (x, w')" by fastforce
  then show thesis
    using run shut h st Stage_Shutdown executor.R_trans [OF w2] keeps_atD [OF keeps_stop_and_report [OF api]] by (intro ends) auto
next
  case (Stage_Failed e)
  obtain x w' where "report_failure env token (dr_stage (cd_request claimed)) e w2 = (x, w')" by fastforce
  then show thesis
    using run shut h st Stage_Failed executor.R_trans [OF w2] keeps_atD [OF keeps_report_failure [OF api]] by (intro ends) auto
next
  case Stage_Completed
  obtain f w3 where f: "fetch_request env token w2 = (f, w3)" by fastforce
  have w3: "world_ok api w2 w3" by (rule keeps_atD [OF keeps_fetch [OF api] f])
  show thesis
  proof (cases "\<exists>r. f = Inr r \<and> dr_stage r \<noteq> RetentionPending \<and> dr_blocked_reason r = None")
    case True
    then obtain r where r: "f = Inr r" "dr_stage r \<noteq> RetentionPending" "dr_blocked_reason r = None" by blast
    show thesis by (rule again [OF Stage_Completed _ w3]) (use run shut h st Stage_Completed f r in auto)
  next
    case False
    then show thesis
      using run shut h st Stage_Completed f executor.R_trans [OF w2 w3] by (cases f) (auto intro: ends)
  qed
qed

lemma completed_stage:
  "run_stage_with_heartbeat env claimed w = (Stage_Completed, w') \<Longrightarrow> execute_stage env claimed w = (Inr (), w')"
  unfolding run_stage_with_heartbeat_def
  by (auto split: if_splits prod.splits sum.splits engine_error.splits drop_reason.splits)

lemma execute_claim_round:
  assumes api: "ev_api env = api" and ok: "claim_ok api token claimed w"
    and run: "execute_claim (Suc n) env mode claimed token w = out"
  obtains (ends) x w' where "out = Some (x, w')" "world_ok api w w'"
    | (again) w1 w2 w3 r where "db_call env (\<lambda>now. heartbeat (ev_api env) now token (loop_mode_str mode) DEFAULT_LEASE_DURATION False) w
          = (Inr (), w1)" "execute_stage env claimed w1 = (Inr (), w2)" "fetch_request env token w2 = (Inr r, w3)"
        "world_ok api w w1" "world_ok api w1 w2" "world_ok api w2 w3"
        "out = execute_claim n env mode (claimed\<lparr>cd_request := r,
          cd_lease := (cd_lease claimed)\<lparr>lt_fence_generation := dr_fence_generation r\<rparr>\<rparr>) token w3"
proof (cases "ev_shutdown env (wo_clock w)")
  case True
  obtain x w' where "stop_and_report env mode token w = (x, w')" by fastforce
  then show thesis using run True keeps_atD [OF keeps_stop_and_report [OF api]] by (intro ends) auto
next
  case shut: False
  let ?hb = "db_call env (\<lambda>now. heartbeat (ev_api env) now token (loop_mode_str mode) DEFAULT_LEASE_DURATION False)"
  obtain h w1 where h: "?hb w = (h, w1)" by fastforce
  have w1: "world_ok api w w1" using keeps_atD [OF keeps_db_call [OF api] h] api by blast
  show thesis
  proof (cases h)
    case (Inl e)
    then show thesis using run shut h w1 by (intro ends) auto
  next
    case (Inr u)
    have ks: "keeps_at (world_ok api) (execute_stage env claimed) w1"
      using ok snapshot_evolves [OF _ world_ok_evolves [OF w1]] by (intro keeps_execute_stage [OF api]) (auto simp: claim_ok_def)
    obtain o' w2 where st: "run_stage_with_heartbeat env claimed w1 = (o', w2)" by fastforce
    have w2: "world_ok api w1 w2" by (rule keeps_run_stage [OF ks st])
    show thesis
      by (rule execute_claim_stage [OF api shut h [unfolded Inr] st executor.R_trans [OF w1 w2] run])
        (use ends again h Inr w1 w2 completed_stage st in auto)
  qed
qed

lemma oldest_request_mem: "oldest_request rs = Some r \<Longrightarrow> r \<in> set rs"
  by (induction rs arbitrary: r) (auto split: option.splits if_splits)

lemma claim_stage:
  assumes c: "claim api now i owner d db = Inr (db', Some claimed)" and inv: "db_inv api db"
  shows "stage_runnable (dr_stage (cd_request claimed))"
proof -
  obtain r where o: "oldest_request (filter (claimable db now i) (dt_requests db)) = Some r"
    using c by (auto simp: claim_def split: option.splits)
  have r: "r \<in> set (dt_requests db)" "claimable db now i r" using oldest_request_mem [OF o] by auto
  let ?f = "\<lambda>r. r\<lparr>dr_lease_owner := Some owner, dr_lease_generation := dr_lease_generation r + 1,
      dr_lease_until := Some (secs_from now d), dr_attempts := dr_attempts r + 1, dr_updated_at := now\<rparr>"
  obtain n where u: "update_requests (\<lambda>x. dr_id x = dr_id r) ?f db = Inr (db', n)" and f: "find_request (dr_id r) db' = Some (cd_request claimed)"
    using c o by (auto simp: claim_def Let_def and_then_Inr updated_request_Inr set_request_def split: sum.splits)
  have "cd_request claimed \<in> set (dt_requests db')" "dr_id (cd_request claimed) = dr_id r"
    using f find_SomeD unfolding find_request_def by fastforce+
  then obtain q where q: "q \<in> set (dt_requests db)" "dr_id q = dr_id r" "cd_request claimed = ?f q"
    using u by (auto simp: update_requests_Inr sql_update_def split: if_splits)
  have "q = r" by (rule request_by_id [OF db_inv_distinct(1) [OF inv] q(1) r(1) q(2)])
  then show ?thesis using q(3) r(2) by (simp add: claimable_def)
qed

lemma claim_ok_again:
  assumes "claim_ok api token claimed w" "ev_api env = api" "fetch_request env token w2 = (Inr r, w3)" "evolves api (wo_db w) (wo_db w3)"
  shows "claim_ok api token (claimed\<lparr>cd_request := r, cd_lease := (cd_lease claimed)\<lparr>lt_fence_generation := g\<rparr>\<rparr>) w3"
proof -
  have "reachable api (wo_db w3)"
    using assms(1) evolves_reachable [OF assms(4)] snapshot_reachable unfolding claim_ok_def by blast
  from fetched_snapshot [OF assms(3,2) this] assms(1) show ?thesis by (simp add: claim_ok_def)
qed

lemma execute_claim_ok:
  "ev_api env = api \<Longrightarrow> claim_ok api token claimed w \<Longrightarrow> execute_claim n env mode claimed token w = Some (x, w') \<Longrightarrow> world_ok api w w'"
proof (induction n arbitrary: claimed w)
  case (Suc n)
  show ?case
  proof (rule execute_claim_round [OF Suc.prems(1,2,3)])
    fix w1 w2 w3 r
    assume again: "fetch_request env token w2 = (Inr r, w3)" "world_ok api w w1" "world_ok api w1 w2" "world_ok api w2 w3"
      "Some (x, w') = execute_claim n env mode (claimed\<lparr>cd_request := r,
          cd_lease := (cd_lease claimed)\<lparr>lt_fence_generation := dr_fence_generation r\<rparr>\<rparr>) token w3"
    have w3: "world_ok api w w3" using executor.R_trans [OF executor.R_trans [OF again(2,3)] again(4)] .
    show ?thesis
      using Suc.IH [OF Suc.prems(1) claim_ok_again [OF Suc.prems(2,1) again(1) world_ok_evolves [OF w3]]] again(5)
        executor.R_trans [OF w3] by metis
  qed auto
qed simp

lemma claimed_ok:
  assumes c: "db_call env (\<lambda>now. claim (ev_api env) now i owner d) w = (Inr (Some claimed), w')" and api: "ev_api env = api"
    and r: "reachable api (wo_db w)"
  shows "world_ok api w w'" "claim_ok api (cd_lease claimed) claimed w'" "stage_runnable (dr_stage (cd_request claimed))"
proof -
  show w': "world_ok api w w'" by (rule keeps_atD [OF keeps_db_call [OF api] c]) (use api in blast)
  have r': "reachable api (wo_db w')" by (rule evolves_reachable [OF world_ok_evolves [OF w'] r])
  note cl = db_call_Inr(1) [OF c]
  have f: "find_request (lt_request_id (cd_lease claimed)) (wo_db w') = Some (cd_request claimed)" by (rule claim_row [OF cl])
  then have m: "cd_request claimed \<in> set (dt_requests (wo_db w'))" "dr_id (cd_request claimed) = lt_request_id (cd_lease claimed)"
    using find_request_iff [OF db_inv_distinct(1) [OF reachable_db_inv [OF r']]] by simp_all
  then show "claim_ok api (cd_lease claimed) claimed w'" using r' by (auto simp: claim_ok_def row_snapshot_def)
  show "stage_runnable (dr_stage (cd_request claimed))"
    by (rule claim_stage [OF cl]) (use r api evolves_reachable [OF evolves_enter [OF api] r] in \<open>auto intro: reachable_db_inv\<close>)
qed

lemma run_loop_ok:
  "ev_api env = api \<Longrightarrow> reachable api (wo_db w) \<Longrightarrow> run_loop n env mode i owner b w = Some (x, w') \<Longrightarrow> world_ok api w w'"
proof (induction n arbitrary: b w)
  case (Suc n)
  note api = Suc.prems(1)
  let ?claim = "db_call env (\<lambda>now. claim (ev_api env) now i owner DEFAULT_LEASE_DURATION)"
  obtain c w1 where c: "?claim w = (c, w1)" by fastforce
  have w1: "world_ok api w w1" using keeps_atD [OF keeps_db_call [OF api] c] api by blast
  have stop: "keeps_at (world_ok api) (ebind (db_call env (\<lambda>now. stop_executor now None owner)) (\<lambda>_. eret 0)) w"
    by (intro keeps_rules api) (use api in blast)
  show ?case
  proof (cases "ev_shutdown env (wo_clock w) \<or> (\<forall>claimed. c \<noteq> Inr (Some claimed))")
    case True
    then show ?thesis
      using Suc.prems(3) c w1 keeps_atD [OF stop] by (auto split: if_splits sum.splits option.splits)
  next
    case False
    then obtain claimed where shut: "\<not> ev_shutdown env (wo_clock w)" and cl: "c = Inr (Some claimed)" by blast
    note ok = claimed_ok [OF c [unfolded cl] api Suc.prems(2)]
    obtain y w2 where ex: "execute_claim n env mode claimed (cd_lease claimed) w1 = Some (y, w2)"
      using Suc.prems(3) shut c cl by (auto split: option.splits)
    have w2: "world_ok api w w2" by (rule executor.R_trans [OF w1 execute_claim_ok [OF api ok(2) ex]])
    have "run_loop n env mode i owner True w2 = Some (x, w') \<Longrightarrow> world_ok api w2 w'"
      by (rule Suc.IH [OF api evolves_reachable [OF world_ok_evolves [OF w2] Suc.prems(2)]])
    then show ?thesis
      using Suc.prems(3) shut c cl ex w2 executor.R_trans [OF w2] by (auto simp: Let_def split: sum.splits if_splits)
  qed
qed simp

section \<open>The loop of a claim ends\<close>

definition stage_rank :: "deletion_stage \<Rightarrow> nat" where
  "stage_rank s =
     (case s of Submitted \<Rightarrow> 0 | Inventoried \<Rightarrow> 1 | Approved \<Rightarrow> 2 | Fenced \<Rightarrow> 3 | Drained \<Rightarrow> 4 | BindingsRemoved \<Rightarrow> 5
      | PostgresPurged \<Rightarrow> 6 | CachePurged \<Rightarrow> 7 | LogicallyVerified \<Rightarrow> 8 | RetentionPending \<Rightarrow> 9 | Aborted \<Rightarrow> 10)"

lemma stage_rank_step: "row_step r r' \<Longrightarrow> stage_rank (dr_stage r) \<le> stage_rank (dr_stage r')"
  unfolding row_step_def stage_step_def by (cases "dr_stage r") (auto simp: stage_rank_def)

definition advanced_to :: "uuid \<Rightarrow> deletion_stage \<Rightarrow> del_db \<Rightarrow> bool" where
  "advanced_to i stage db \<longleftrightarrow> (\<exists>r \<in> set (dt_requests db). dr_id r = i \<and> dr_stage r = stage)"

lemma advance_request_advanced:
  assumes "advance_request_tx api now token a b g db = Inr db'" "distinct (map dr_id (dt_requests db))"
  shows "advanced_to (lt_request_id token) b db'"
proof -
  obtain r where r: "r \<in> set (dt_requests db)" "dr_id r = lt_request_id token"
    "db' = db\<lparr>dt_requests := put_row dr_id (advanced now b g r) (dt_requests db)\<rparr>"
    by (rule advance_request_tx_Inr [OF assms(2,1)])
  then show ?thesis using put_row_mem [OF r(1), of dr_id "advanced now b g r"]
    unfolding advanced_to_def by (intro bexI [of _ "advanced now b g r"]) auto
qed

lemma advanced_to_cong: "dt_requests db' = dt_requests db \<Longrightarrow> advanced_to i s db' = advanced_to i s db"
  by (simp add: advanced_to_def)

lemma advanced_ops:
  assumes inv: "db_inv api db"
  shows "mark_drained api now token db = Inr (db', x) \<Longrightarrow> advanced_to (lt_request_id token) Drained db'"
    "advance_with_checkpoint api now token a b k d db = Inr (db', x) \<Longrightarrow> advanced_to (lt_request_id token) b db'"
    "mark_logically_verified api now token d db = Inr (db', x) \<Longrightarrow> advanced_to (lt_request_id token) LogicallyVerified db'"
  using advance_request_advanced [OF _ db_inv_distinct(1) [OF inv]]
  by (fastforce simp: mark_drained_def advance_with_checkpoint_def mark_logically_verified_def and_then_Inr delete_chunks_Inr
      advanced_to_def split: if_splits)+

lemma advanced_fence:
  assumes "db_inv api db" "fence api now token db = Inr (db', g)"
  shows "advanced_to (lt_request_id token) Fenced db'"
proof -
  obtain r where r: "r \<in> set (dt_requests db)" "dr_id r = lt_request_id token"
    "dt_requests db' = put_row dr_id (advanced now Fenced (Some g) r) (dt_requests db)"
    by (rule fence_effect [OF assms]) blast
  then show ?thesis using put_row_mem [OF r(1), of dr_id "advanced now Fenced (Some g) r"]
    unfolding advanced_to_def by (intro bexI [of _ "advanced now Fenced (Some g) r"]) auto
qed

lemma advanced_purge:
  assumes "db_inv api db" "purge_postgres api now token db = Inr (db', x)"
  shows "advanced_to (lt_request_id token) PostgresPurged db'"
proof -
  obtain r g where r: "r \<in> set (dt_requests db)" "dr_id r = lt_request_id token"
    "dt_requests db' = put_row dr_id (advanced now PostgresPurged (Some g) r) (dt_requests db)"
    by (rule purge_effect [OF assms]) blast
  then show ?thesis using put_row_mem [OF r(1), of dr_id "advanced now PostgresPurged (Some g) r"]
    unfolding advanced_to_def by (intro bexI [of _ "advanced now PostgresPurged (Some g) r"]) auto
qed

lemma advanced_retention:
  assumes "mark_retention_pending api now token d db = Inr (db', x)"
  shows "advanced_to (lt_request_id token) RetentionPending db'"
proof -
  let ?P = "\<lambda>g r. dr_id r = lt_request_id token \<and> dr_stage r = LogicallyVerified
            \<and> dr_lease_owner r = Some (lt_owner token) \<and> dr_lease_generation r = lt_generation token
            \<and> at_or_after (dr_lease_until r) now \<and> dr_fence_generation r = Some g"
  obtain g f where n: "rows_affected (?P g) (dt_requests db) = 1" and u: "dt_requests db' = sql_update (?P g) f (dt_requests db)"
    and f: "\<And>r. dr_id (f r) = dr_id r" "\<And>r. dr_stage (f r) = RetentionPending"
    using assms by (auto simp: mark_retention_pending_def and_then_Inr update_requests_Inr split: if_splits)
  obtain r where "r \<in> set (dt_requests db)" "?P g r" using n rows_affected_pos [of "?P g"] by fastforce
  then show ?thesis using f unfolding advanced_to_def u sql_update_def by (intro bexI [of _ "f r"]) auto
qed

text \<open>A computation that succeeds only with the row of request \<open>i\<close> past the rank \<open>k\<close>.\<close>

definition advances :: "uuid \<Rightarrow> nat \<Rightarrow> 'a task \<Rightarrow> world \<Rightarrow> bool" where
  "advances i k m w \<longleftrightarrow> (\<forall>x w'. m w = (Inr x, w') \<longrightarrow> (\<exists>s. advanced_to i s (wo_db w') \<and> k < stage_rank s))"

lemma advances_fail [simp]: "advances i k (efail e) w"
  by (simp add: advances_def efail_def)

lemma advances_call:
  assumes "reachable (ev_api env) (wo_db w)"
    and "\<And>now db db' x. db_inv (ev_api env) db \<Longrightarrow> f now db = Inr (db', x) \<Longrightarrow> advanced_to i s db'" "k < stage_rank s"
  shows "advances i k (db_call env f) w"
  unfolding advances_def
proof (intro allI impI)
  fix x w'
  assume c: "db_call env f w = (Inr x, w')"
  have "db_inv (ev_api env) (wo_db (enter env w))"
    by (rule reachable_db_inv [OF evolves_reachable [OF evolves_enter [OF refl] assms(1)]])
  then show "\<exists>s. advanced_to i s (wo_db w') \<and> k < stage_rank s" using assms(2,3) db_call_Inr(1) [OF c] by blast
qed

lemma advances_bind:
  assumes "reachable api (wo_db w)" "keeps_at (world_ok api) m w"
    and "\<And>x w1. m w = (Inr x, w1) \<Longrightarrow> reachable api (wo_db w1) \<Longrightarrow> advances i k (f x) w1"
  shows "advances i k (ebind m f) w"
  unfolding advances_def ebind_def
proof (intro allI impI)
  fix x w'
  assume e: "(case m w of (Inl e, w) \<Rightarrow> (Inl e, w) | (Inr x, w) \<Rightarrow> f x w) = (Inr x, w')"
  then obtain y w1 where y: "m w = (Inr y, w1)" "f y w1 = (Inr x, w')" by (auto split: prod.splits sum.splits)
  have "reachable api (wo_db w1)"
    by (rule evolves_reachable [OF world_ok_evolves [OF keeps_atD [OF assms(2) y(1)]] assms(1)])
  then show "\<exists>s. advanced_to i s (wo_db w') \<and> k < stage_rank s"
    using assms(3) [OF y(1)] y(2) by (simp add: advances_def)
qed

lemma advances_last: "advances i k m w \<Longrightarrow> advances i k (ebind m (\<lambda>_. eret u)) w"
  unfolding advances_def ebind_def eret_def by (auto split: prod.splits sum.splits)

lemma advances_fence:
  assumes "reachable (ev_api env) (wo_db w)"
  shows "advances (lt_request_id token) (stage_rank Approved) (fence_or_retry env token) w"
  using advances_call [OF assms, where f = "\<lambda>now. fence (ev_api env) now token" and s = Fenced and k = "stage_rank Approved"]
    advanced_fence
  unfolding advances_def fence_or_retry_def
  by (fastforce simp: stage_rank_def split: prod.splits sum.splits engine_error.splits db_error.splits)

lemma advances_approved:
  assumes "ev_api env = api" "reachable api (wo_db w)"
  shows "advances (lt_request_id token) (stage_rank Approved) (stage_approved env r token) w"
  unfolding stage_approved_def
  by (auto intro!: advances_bind [OF assms(2)] advances_bind [where api = api] advances_fence keeps_rules keeps_guarded keeps_preflight
      simp: assms(1))

lemma advances_fenced:
  assumes "ev_api env = api" "reachable api (wo_db w)"
  shows "advances (lt_request_id token) (stage_rank Fenced) (stage_fenced env r token) w"
  unfolding stage_fenced_def
  by (auto intro!: advances_bind [OF assms(2)] advances_bind [where api = api] advances_call [where s = Drained] keeps_rules
      keeps_verify_token keeps_publish keeps_freeze advanced_ops(1) simp: assms(1) stage_rank_def split: option.split)

lemma advances_drained:
  assumes "ev_api env = api" "lt_request_id token = dr_id request" "row_snapshot api request (wo_db w)"
  shows "advances (lt_request_id token) (stage_rank Drained) (stage_drained env request token) w"
proof (cases "dr_destructive_storage_manifest request")
  case (Some m)
  note r = snapshot_reachable [OF assms(3)]
  have own: "map pm_prefix (sm_prefixes m) = tenant_prefixes (da_uuid api) (dr_community_id request)"
    if "validate_storage_ownership api request m = Inr ()"
    using that by (auto simp: validate_storage_ownership_def split: sum.splits if_splits)
  show ?thesis
    unfolding stage_drained_def Some option.case
    by (rule advances_bind [OF r executor.keeps_pure(3)])
      (auto simp: elift_def assms(1) stage_rank_def mark_bindings_removed_def split: prod.split
        intro!: advances_bind [OF r] keeps_drain_chunks [OF assms(1) own Some assms(2,3)] advances_call [where s = BindingsRemoved]
          advanced_ops(2))
qed (simp add: stage_drained_def)

lemma advances_postgres_purged:
  assumes "ev_api env = api" "reachable api (wo_db w)"
  shows "advances (lt_request_id token) (stage_rank PostgresPurged) (stage_postgres_purged env r token) w"
  unfolding stage_postgres_purged_def purge_redis_namespace_def
  by (auto intro!: advances_bind [OF assms(2)] advances_bind [where api = api] advances_call [where s = CachePurged] keeps_rules
      keeps_verify_token keeps_purge_redis advanced_ops(2) simp: assms(1) stage_rank_def mark_cache_purged_def)

lemma advances_cache_purged:
  assumes "ev_api env = api" "reachable api (wo_db w)"
  shows "advances (lt_request_id token) (stage_rank CachePurged) (stage_cache_purged env r token) w"
  unfolding stage_cache_purged_def
  by (auto intro!: advances_bind [OF assms(2)] advances_bind [where api = api] advances_call [where s = LogicallyVerified] keeps_rules
      keeps_storage_absence keeps_redis_absence advanced_ops(3) simp: assms(1) stage_rank_def)

lemma advances_execute_stage:
  assumes api: "ev_api env = api" and t: "lt_request_id (cd_lease claimed) = dr_id (cd_request claimed)"
    and s: "row_snapshot api (cd_request claimed) (wo_db w)" and run: "dr_stage (cd_request claimed) \<notin> {RetentionPending, Aborted}"
  shows "advances (dr_id (cd_request claimed)) (stage_rank (dr_stage (cd_request claimed))) (execute_stage env claimed) w"
proof -
  let ?r = "cd_request claimed" and ?t = "token_with_current_fence (cd_lease claimed) (cd_request claimed)"
  have ti: "lt_request_id ?t = dr_id ?r" using t by (simp add: token_with_current_fence_def)
  note r = snapshot_reachable [OF s]
  have tail: "advances (dr_id ?r) (stage_rank (dr_stage ?r)) (case dr_stage ?r of
          Approved \<Rightarrow> stage_approved env ?r ?t
        | Fenced \<Rightarrow> stage_fenced env ?r ?t
        | Drained \<Rightarrow> stage_drained env ?r ?t
        | BindingsRemoved \<Rightarrow> ebind (db_call env (\<lambda>now. purge_postgres (ev_api env) now ?t)) (\<lambda>_. eret ())
        | PostgresPurged \<Rightarrow> stage_postgres_purged env ?r ?t
        | CachePurged \<Rightarrow> stage_cache_purged env ?r ?t
        | LogicallyVerified \<Rightarrow>
            ebind (elift (validate_frozen_inventory (ev_api env) ?r)) (\<lambda>_.
              db_call env (\<lambda>now. mark_retention_pending (ev_api env) now ?t
                [(''policy'', ''member-erasure and fleet-wide shared-CAS GC are out of V1 scope'')]))
        | Submitted \<Rightarrow> efail (Bail ''request has not crossed the explicit approval boundary'')
        | Inventoried \<Rightarrow> efail (Bail ''request has not crossed the explicit approval boundary'')
        | RetentionPending \<Rightarrow> eret ()
        | Aborted \<Rightarrow> eret ()) w"
  proof (cases "dr_stage ?r")
    case BindingsRemoved
    then show ?thesis
      using advanced_purge [of _ _ _ ?t] r
      by (auto simp: api ti stage_rank_def intro!: advances_last advances_call [where s = PostgresPurged])
  next
    case LogicallyVerified
    then show ?thesis
      using advanced_retention [of _ _ ?t] r
      by (auto simp: api ti stage_rank_def intro!: advances_bind [OF r] executor.keeps_pure advances_call [where s = RetentionPending])
  qed (use run s r advances_approved [OF api r, of ?t ?r] advances_fenced [OF api r, of ?t ?r] advances_drained [OF api ti s]
      advances_postgres_purged [OF api r, of ?t ?r] advances_cache_purged [OF api r, of ?t ?r] ti in auto)
  have same: "w1 = w" if "(if stage_runnable (dr_stage ?r) then ebind (elift (validate_frozen_inventory (ev_api env) ?r)) (\<lambda>_. eret ())
      else eret ()) w = (Inr x, w1)" for x w1
    using that by (auto simp: ebind_def elift_def eret_def split: if_splits sum.splits)
  show ?thesis
    unfolding execute_stage_def Let_def
    by (rule advances_bind [OF r]) (use tail same in \<open>auto intro!: keeps_rules\<close>)
qed

lemma upsert_heartbeat_requests: "dt_requests (upsert_heartbeat h db) = dt_requests db"
  by (simp add: upsert_heartbeat_def Let_def)

lemma heartbeat_row:
  assumes "heartbeat api now token mode d b db = Inr (db', x)"
  shows "\<exists>r \<in> set (dt_requests db'). dr_id r = lt_request_id token \<and> stage_runnable (dr_stage r)"
proof -
  let ?P = "\<lambda>r. dr_id r = lt_request_id token \<and> dr_lease_owner r = Some (lt_owner token)
            \<and> dr_lease_generation r = lt_generation token \<and> at_or_after (dr_lease_until r) now
            \<and> dr_blocked_at r = None \<and> stage_runnable (dr_stage r) \<and> approval_matches db r"
  let ?f = "\<lambda>r. r\<lparr>dr_lease_until := Some (secs_from now d), dr_updated_at := now\<rparr>"
  have n: "rows_affected ?P (dt_requests db) = 1" and u: "dt_requests db' = sql_update ?P ?f (dt_requests db)"
    using assms by (auto simp: heartbeat_def and_then_Inr update_requests_Inr upsert_heartbeat_requests split: if_splits)
  obtain r where "r \<in> set (dt_requests db)" "?P r" using n rows_affected_pos [of ?P] by fastforce
  then show ?thesis unfolding u sql_update_def by (intro bexI [of _ "?f r"]) auto
qed

lemma snapshot_stage:
  assumes "row_snapshot api request db" "r \<in> set (dt_requests db)" "dr_id r = dr_id request"
  shows "stage_rank (dr_stage request) \<le> stage_rank (dr_stage r)"
    "dr_stage request \<in> {RetentionPending, Aborted} \<Longrightarrow> dr_stage r = dr_stage request"
proof -
  have only: "q = r" if "q \<in> set (dt_requests db)" "dr_id q = dr_id request" for q
    using request_by_id [OF db_inv_distinct(1) [OF reachable_db_inv [OF snapshot_reachable [OF assms(1)]]] that(1) assms(2)]
      that(2) assms(3) by simp
  show "stage_rank (dr_stage request) \<le> stage_rank (dr_stage r)"
    using snapshot_row [where Q = "\<lambda>q. stage_rank (dr_stage request) \<le> stage_rank (dr_stage q)", OF assms(1) order_refl]
      only order_trans [OF _ stage_rank_step] by blast
  show "dr_stage r = dr_stage request" if "dr_stage request \<in> {RetentionPending, Aborted}"
    using snapshot_row [where Q = "\<lambda>q. dr_stage q = dr_stage request", OF assms(1) refl] only that
    by (fastforce simp: row_step_def stage_step_def)
qed

lemma execute_claim_advances:
  assumes api: "ev_api env = api" and ok: "claim_ok api token claimed w"
    and h: "db_call env (\<lambda>now. heartbeat (ev_api env) now token m d b) w = (Inr (), w1)"
    and e: "execute_stage env claimed w1 = (Inr (), w2)" and f: "fetch_request env token w2 = (Inr r, w3)"
    and w: "world_ok api w w1" "world_ok api w1 w2" "world_ok api w2 w3"
  shows "stage_rank (dr_stage (cd_request claimed)) < stage_rank (dr_stage r)"
proof -
  let ?q = "cd_request claimed"
  have ids: "lt_request_id token = dr_id ?q" "lt_request_id (cd_lease claimed) = dr_id ?q" and s: "row_snapshot api ?q (wo_db w)"
    using ok by (auto simp: claim_ok_def)
  note s1 = snapshot_evolves [OF s world_ok_evolves [OF w(1)]]
  note s2 = snapshot_evolves [OF s1 world_ok_evolves [OF w(2)]]
  note s3 = snapshot_evolves [OF s2 world_ok_evolves [OF w(3)]]
  obtain p where p: "p \<in> set (dt_requests (wo_db w1))" "dr_id p = dr_id ?q" "stage_runnable (dr_stage p)"
    using heartbeat_row [OF db_call_Inr(1) [OF h]] ids by auto
  have run: "dr_stage ?q \<notin> {RetentionPending, Aborted}"
    using snapshot_stage(2) [OF s1 p(1,2)] p(3) by (auto simp: stage_runnable_def)
  obtain q2 where q2: "q2 \<in> set (dt_requests (wo_db w2))" "dr_id q2 = dr_id ?q"
      "stage_rank (dr_stage ?q) < stage_rank (dr_stage q2)"
    using advances_execute_stage [OF api ids(2) s1 run] e by (auto simp: advances_def advanced_to_def)
  have "row_snapshot api q2 (wo_db w3)"
    using q2(1) snapshot_reachable [OF s2] world_ok_evolves [OF w(3)] by (auto simp: row_snapshot_def)
  then have "stage_rank (dr_stage q2) \<le> stage_rank (dr_stage r)"
    using fetched_snapshot(2,3) [OF f api snapshot_reachable [OF s3]] ids q2(2) by (intro snapshot_stage(1)) auto
  with q2(3) show ?thesis by simp
qed

lemma stage_rank_bound: "stage_rank s \<le> 10"
  by (cases s) (simp_all add: stage_rank_def)

lemma execute_claim_returns:
  "ev_api env = api \<Longrightarrow> claim_ok api token claimed w \<Longrightarrow> 11 \<le> stage_rank (dr_stage (cd_request claimed)) + n \<Longrightarrow>
     execute_claim n env mode claimed token w \<noteq> None"
proof (induction n arbitrary: claimed w)
  case 0
  then show ?case using stage_rank_bound [of "dr_stage (cd_request claimed)"] by simp
next
  case (Suc n)
  show ?case
  proof (rule execute_claim_round [OF Suc.prems(1,2) refl])
    fix w1 w2 w3 r
    assume again: "db_call env (\<lambda>now. heartbeat (ev_api env) now token (loop_mode_str mode) DEFAULT_LEASE_DURATION False) w
          = (Inr (), w1)" "execute_stage env claimed w1 = (Inr (), w2)" "fetch_request env token w2 = (Inr r, w3)"
        "world_ok api w w1" "world_ok api w1 w2" "world_ok api w2 w3"
        "execute_claim (Suc n) env mode claimed token w = execute_claim n env mode (claimed\<lparr>cd_request := r,
          cd_lease := (cd_lease claimed)\<lparr>lt_fence_generation := dr_fence_generation r\<rparr>\<rparr>) token w3"
    have w3: "world_ok api w w3" using executor.R_trans [OF executor.R_trans [OF again(4,5)] again(6)] .
    have "stage_rank (dr_stage (cd_request claimed)) < stage_rank (dr_stage r)"
      by (rule execute_claim_advances [OF Suc.prems(1,2) again(1-6)])
    then have "execute_claim n env mode (claimed\<lparr>cd_request := r,
          cd_lease := (cd_lease claimed)\<lparr>lt_fence_generation := dr_fence_generation r\<rparr>\<rparr>) token w3 \<noteq> None"
      using Suc.prems(3) by (intro Suc.IH [OF Suc.prems(1) claim_ok_again [OF Suc.prems(2,1) again(3) world_ok_evolves [OF w3]]]) simp
    then show ?thesis unfolding again(7) .
  qed simp
qed

lemma runnable_rank: "stage_runnable s \<Longrightarrow> 2 \<le> stage_rank s"
  by (auto simp: stage_runnable_def stage_rank_def)

section \<open>A sample run\<close>

text \<open>The sample community at the drain, with one frozen version under its sidecar prefix, and a run that is
  shut down after the bulk delete.\<close>

definition target_prefix :: string where
  "target_prefix = hd (tenant_prefixes std_uuid_api 7)"

definition target_manifest :: storage_manifest where
  "target_manifest =
     \<lparr>sm_version = 5,
      sm_prefixes = map (\<lambda>(p, n). \<lparr>pm_prefix = p, pm_object_count = n, pm_total_bytes = 0,
        pm_keys_digest = replicate 64 CHR ''0''\<rparr>) (zip (tenant_prefixes std_uuid_api 7) [1, 0, 0])\<rparr>"

definition target_entry :: string where
  "target_entry = target_prefix @ ''k'' @ UNIT_SEP # ''v1'' @ UNIT_SEP # ''object''"

definition target_drained_ops :: "del_op list" where
  "target_drained_ops =
     [Op_Control 10 (Submit 1 ''h'' ''op'' None),
      Op_Control 20 (Freeze_Inventory 1 (sample_inventory\<lparr>fi_storage := target_manifest\<rparr>)),
      Op_Control 30 (Approve 1 ''boss'' None), Op_Control 40 (Claim None ''ex'' 60),
      Op_Token 50 (sample_token None) Begin_Quiescing, Op_Token 60 (sample_token None) Fence,
      Op_Token 70 (sample_token (Some 1)) (Append_Chunk 0 target_prefix [target_entry]),
      Op_Token 80 (sample_token (Some 1)) (Freeze_Destructive target_manifest),
      Op_Token 90 (sample_token (Some 1)) Mark_Drained]"

definition target_env :: engine_env where
  "target_env =
     \<lparr>ev_api = sample_deletion_api, ev_noise = (\<lambda>_. []), ev_now = (\<lambda>_. 100000000),
      ev_fate = (\<lambda>n. if n < 5 then Proceed else Drop_Before By_Shutdown), ev_lost = (\<lambda>_. False), ev_shutdown = (\<lambda>_. False),
      ev_rounds = 1, ev_chunk_keys = None, ev_list = (\<lambda>_ _ _ _. Inl []),
      ev_delete = (\<lambda>_ ids. Inr \<lparr>dl_deleted = [], dl_errors = []\<rparr>), ev_publish = (\<lambda>_ _. Inr ()),
      ev_scan = (\<lambda>_ _ _. Inr (0, [])), ev_unlink = (\<lambda>_ _. Inr 0)\<rparr>"

definition target_world :: world where
  "target_world = \<lparr>wo_db = run_ops sample_deletion_api target_drained_ops sample_db, wo_clock = 0, wo_effects = []\<rparr>"

definition target_answer :: delete_objects_result where
  "target_answer =
     \<lparr>dl_deleted = [\<lparr>do_key = ''a'', do_delete_marker = None, do_delete_marker_version_id = None, do_version_id = None\<rparr>],
      dl_errors = [\<lparr>de_key = ''b'', de_code = ''NoSuchKey'', de_message = []\<rparr>]\<rparr>"

lemma target_manifest_prefixes: "map pm_prefix (sm_prefixes target_manifest) = tenant_prefixes std_uuid_api 7"
  by (simp add: target_manifest_def tenant_prefixes_def)

lemma target_manifest_version [simp]: "sm_version target_manifest = 5"
  by (simp add: target_manifest_def)

lemma target_manifest_valid [simp]: "validate_storage_manifest target_manifest = Inr ()"
  by (simp add: validate_storage_manifest_def target_manifest_def tenant_prefixes_def less_char_def lower_hexdigit_def
      ascii_digit_def less_eq_char_def list_all_iff)

lemma canonical_uuid_chars: "canonical_uuid_text s \<Longrightarrow> c \<in> set s \<Longrightarrow> c = CHR ''-'' \<or> lower_hexdigit c"
proof -
  assume s: "canonical_uuid_text s" and "c \<in> set s"
  then obtain i where i: "i < length s" "s ! i = c" by (auto simp: in_set_conv_nth)
  then have "(i, c) \<in> set (List.enumerate 0 s)" by (simp add: in_set_enumerate_eq)
  then have "uuid_char_ok (i, c)" using s by (auto simp: canonical_uuid_text_def list_all_iff)
  then show ?thesis by (auto simp: uuid_char_ok_def split: if_splits)
qed

lemma uuid_text_plain: "c \<in> set (ua_string std_uuid_api u) \<Longrightarrow> c \<noteq> NEWLINE \<and> c \<noteq> UNIT_SEP"
  using canonical_uuid_chars [of "ua_string std_uuid_api u" c] std_uuid_text_ok
  by (auto simp: uuid_text_ok_def lower_hexdigit_def ascii_digit_def less_eq_char_def NEWLINE_def UNIT_SEP_def)

lemma target_entry_decode [simp]: "entry_decode target_entry = Inr (entry_new (target_prefix @ ''k'') ''v1'' ''object'')"
  by (rule entry_decode_encode)
    (auto simp: entry_encode_ok entry_new_def target_entry_def target_prefix_def tenant_prefixes_def NEWLINE_def UNIT_SEP_def
      dest: uuid_text_plain [unfolded NEWLINE_def UNIT_SEP_def])

lemma target_chunks_valid [simp]:
  "validate_manifest_key_chunks sample_deletion_api target_manifest [(0, target_prefix, [target_entry])] = Inr ()"
  using is_prefix_append [of target_prefix "''k''"]
  by (simp add: validate_manifest_key_chunks_def sample_deletion_api_def target_manifest_def tenant_prefixes_def target_prefix_def
     close_prefix_def digest_finish_def digest_new_def fold_unordered_def entry_new_def)

lemmas target_op_defs = target_drained_ops_def append_manifest_key_chunk_def require_fence_generation_def ok_or_def
  verify_lease_and_fence_def chunk_insert_ok_def freeze_destructive_storage_manifest_def request_chunks_def chunk_row_def mark_drained_def
  target_chunks_valid [unfolded sample_deletion_api_def]

lemma target_inventory:
  "dr_community_id r = 7 \<Longrightarrow> dr_inventory_manifest r = Some (sample_inventory\<lparr>fi_storage := target_manifest\<rparr>) \<Longrightarrow>
     dr_inventory_digest r = Some d \<Longrightarrow> validate_frozen_inventory sample_deletion_api r = Inr (sample_inventory\<lparr>fi_storage := target_manifest\<rparr>)"
  using target_manifest_prefixes by (simp add: validate_frozen_inventory_def sample_deletion_api_def validate_storage_ownership_def)

lemma target_ownership:
  "dr_community_id r = 7 \<Longrightarrow> validate_storage_ownership sample_deletion_api r target_manifest = Inr ()"
  using target_manifest_prefixes by (simp add: sample_deletion_api_def validate_storage_ownership_def)

lemmas target_run_defs = target_env_def target_world_def DEFAULT_LEASE_DURATION_def db_call_def enter_def after_call_def eret_def efail_def
  ebind_def elift_def elift_db_def db_read_def ext_call_def check_lost_def heartbeat_def upsert_heartbeat_def loop_mode_str_def
  run_stage_with_heartbeat_def execute_stage_def token_with_current_fence_def stage_drained_def next_pending_manifest_chunk_def
  run_guarded_external_step_def verify_token_def verify_execution_token_def delete_manifest_chunk_def object_versions_from_manifest_chunk_def
  send_delete_def delete_object_versions_request_def object_version_identifiers_def delete_outcome_def stop_and_report_def
  stop_claim_executor_def

lemma target_run:
  "\<exists>out w' db. run_loop (Suc (Suc 0)) target_env Mode_Run None ''other'' False target_world = Some (out, w')
    \<and> (Delete_Request [(target_prefix @ ''k'', Some ''v1'')], db) \<in> set (wo_effects w')"
  by (simp add: sample_op_defs target_op_defs target_run_defs target_ownership [unfolded sample_deletion_api_def]
    target_inventory [unfolded sample_deletion_api_def sample_inventory_def] entry_new_def)

section \<open>Properties\<close>



lemma reachable_drained:
  assumes "reachable api db" "r \<in> set (dt_requests db)" "past_drain (dr_stage r)"
  shows "approval_matches db r \<and> (\<exists>c \<in> set (dt_communities db). co_id c = dr_community_id r \<and> sealed c)"
proof -
  have inv: "db_inv api db" by (rule reachable_db_inv [OF assms(1)])
  have s: "dr_stage r \<notin> {Submitted, Inventoried, Approved, Aborted}" using assms(3) by (auto simp: past_drain_def)
  then have "approval_matches db r" using db_inv_request [OF inv assms(2)] by (simp add: request_ok_def)
  then show ?thesis by (rule conjI) (rule sealed_request [OF inv assms(2) s], blast)
qed

text \<open>C8. The executor deletes only what belongs to the target: every bulk delete that any run of the loop sends to
  the object store names versions of keys under the three tenant prefixes of one community, which no other community owns,
  and at the moment it is sent that community is fenced or a tombstone and its request is past the drain and
  approved. This holds whatever other callers do in between and whatever the object store answers.\<close>

theorem executor_deletes_only_target:
  assumes "uuid_text_ok (da_uuid (ev_api env))" "reachable (ev_api env) (wo_db w)" "wo_effects w = []"
    and "run_loop n env mode i owner b w = Some (out, w')" "(Delete_Request ids, db) \<in> set (wo_effects w')"
  shows "\<exists>r \<in> set (dt_requests db). \<exists>c \<in> set (dt_communities db).
    co_id c = dr_community_id r \<and> sealed c \<and> dr_stage r \<notin> {Submitted, Inventoried, Approved, Fenced, Aborted} \<and> approval_matches db r
    \<and> (\<forall>(key, version) \<in> set ids. \<exists>p \<in> set (tenant_prefixes (da_uuid (ev_api env)) (co_id c)). is_prefix p key)
    \<and> (\<forall>(key, version) \<in> set ids. \<forall>d. is_tenant_owned_key (da_uuid (ev_api env)) d key \<longrightarrow> d = co_id c)"
proof -
  let ?ua = "da_uuid (ev_api env)"
  have "world_ok (ev_api env) w w'" by (rule run_loop_ok [OF refl assms(2,4)])
  then have e: "evolves (ev_api env) (wo_db w) db" "effect_ok (ev_api env) (Delete_Request ids) db"
    using assms(3,5) by (auto simp: world_ok_def)
  have reach: "reachable (ev_api env) db" by (rule evolves_reachable [OF e(1) assms(2)])
  obtain r where r: "r \<in> set (dt_requests db)" "past_drain (dr_stage r)"
    "\<forall>(k, v) \<in> set ids. \<exists>p \<in> set (tenant_prefixes ?ua (dr_community_id r)). is_prefix p k"
    using e(2) by (auto simp: effect_ok_def)
  have own: "d = dr_community_id r" if k: "(k, v) \<in> set ids" "is_tenant_owned_key ?ua d k" for k v d
  proof -
    obtain p where p: "p \<in> set (tenant_prefixes ?ua (dr_community_id r))" "is_prefix p k" using r(3) k(1) by blast
    obtain q where q: "q \<in> set (tenant_prefixes ?ua d)" "is_prefix q k" using owned_key_prefix [OF assms(1) k(2)] by blast
    show ?thesis using tenant_prefix_unique [OF assms(1) q(1) p(1) q(2) p(2)] by simp
  qed
  from reachable_drained [OF reach r(1,2)] obtain c where "c \<in> set (dt_communities db)" "co_id c = dr_community_id r" "sealed c"
    "approval_matches db r" by blast
  then show ?thesis using r own by (intro bexI [of _ r] bexI [of _ c]) (auto simp: past_drain_def)
qed

theorem executor_deletes_only_target_witness:
  "\<exists>out w' db. run_loop (Suc (Suc 0)) target_env Mode_Run None ''other'' False target_world = Some (out, w')
    \<and> (Delete_Request [(target_prefix @ ''k'', Some ''v1'')], db) \<in> set (wo_effects w')
    \<and> (\<exists>r \<in> set (dt_requests db). \<exists>c \<in> set (dt_communities db). co_id c = dr_community_id r \<and> sealed c \<and> approval_matches db r)"
proof -
  obtain out w' db where run: "run_loop (Suc (Suc 0)) target_env Mode_Run None ''other'' False target_world = Some (out, w')"
    "(Delete_Request [(target_prefix @ ''k'', Some ''v1'')], db) \<in> set (wo_effects w')"
    using target_run by blast
  have pre: "uuid_text_ok (da_uuid (ev_api target_env))" "reachable (ev_api target_env) (wo_db target_world)" "wo_effects target_world = []"
    by (simp_all add: target_env_def target_world_def sample_runs_reachable sample_deletion_api_def [THEN arg_cong, of da_uuid]
        std_uuid_text_ok)
  show ?thesis using executor_deletes_only_target [OF pre run] run by blast
qed



end
