(* ===== verification/Spec2Isabelle.thy ===== *)
theory Spec2Isabelle
  imports Subscription Git_Perms Ifc Audit_Log Pairing Acp_Queue Workflow_Engine Deletion_Executor
begin

text \<open>
  Verification development for maju, a multi-community messaging system on Nostr events with a relay,
  channels, git hosting, AI agents and workflows. The sources are Rust crates under \<open>crates/\<close>.

  \<^bold>\<open>Parts and theories\<close>

  \<^item> \<open>Maju_Prelude\<close>: machine words, hash maps as association lists with distinct keys (the locale \<open>dict\<close>),
    secondary indexes (the locale \<open>bucket_index\<close>), results as sums, text helpers.
  \<^item> \<open>Nostr\<close>: events, filters and tags of the \<open>nostr\<close> crate, whose functions are the parameter \<open>nostr_api\<close>.
  \<^item> \<open>Kinds\<close>: \<open>maju-core/src/kind.rs\<close>, the kind numbers and their classes. The classes that the relay
    dispatches on do not overlap.
  \<^item> \<open>Event_Filter\<close>: \<open>maju-core\<close> \<open>event.rs\<close>, \<open>filter.rs\<close>, \<open>nip10.rs\<close>. Filter matching is characterised field by
    field, the result gate by its kinds, thread ancestry by the last valid markers.
  \<^item> \<open>Subscription\<close>: \<open>maju-relay/src/subscription.rs\<close>, the state \<open>subscription_registry\<close> with its entry map,
    four indexes and gauge. In every reachable registry the index-driven fan-out equals a scan of all
    subscriptions; the operations refine updates of an abstract map; communities and scopes stay apart.
  \<^item> \<open>Channel\<close>, \<open>Git_Perms\<close>: \<open>maju-core\<close> \<open>channel.rs\<close>, \<open>git_perms.rs\<close>. The roles are a linear order; the matcher
    of ref patterns agrees with a declarative semantics; a push is allowed exactly when every ref update
    satisfies the rules that match it, and more rules never allow more.
  \<^item> \<open>Ifc\<close>: \<open>ifc-core/src/lib.rs\<close>. Reader sets satisfy the locale \<open>flow_lattice\<close>; egress is decided by all
    labels observed so far, and a refusal is permanent.
  \<^item> \<open>Audit_Log\<close>: \<open>maju-audit\<close>. Logs built by the logging operation verify; an accepted range is linked and
    tamper evident up to the preimage of the hash, which is shown to be ambiguous.
  \<^item> \<open>Pairing\<close>: \<open>maju-core/src/pairing\<close>, both roles of the device pairing protocol as a state machine with
    the relation \<open>pairing_run\<close>. Honest parties succeed; messages are accepted only in protocol order,
    authentic, fresh and bound to the transcript; a finished session does nothing more.
  \<^item> \<open>Acp_Scope\<close>, \<open>Acp_Queue\<close>: \<open>maju-acp\<close> \<open>scope.rs\<close>, \<open>queue.rs\<close>, the queue that feeds agents, with the
    relation \<open>acp_reachable\<close>. It stays within its caps, dispatches the oldest scope that is ready, loses no
    event except by the named evictions, and backs off before it gives a batch up.
  \<^item> \<open>Network\<close>: \<open>maju-core/src/network.rs\<close>, the address filter, shown equal to a table of CIDR blocks.
  \<^item> \<open>Workflow_Def\<close>, \<open>Workflow_Template\<close>, \<open>Workflow_Exec\<close>, \<open>Workflow_Engine\<close>: \<open>maju-workflow\<close> and the queries of
    \<open>maju-db\<close> that it uses. Validation and durations are characterised; templates are resolved in one pass;
    standard variables cannot be forged; a run posts only to its own channel, reaches only global
    addresses and always ends; scheduled runs are created at most once over all interleavings of pods,
    and every run needs the owner's current authority.
  \<^item> \<open>Media_Keys\<close>: the key taxonomy of the object store in \<open>maju-media\<close> (\<open>bucket_index.rs\<close>, the key functions of
    \<open>storage.rs\<close> and \<open>upload_record.rs\<close>). A sweep of a paged listing equals a function of the set of its keys;
    no key belongs to two communities.
  \<^item> \<open>Deletion_Manifest\<close>, \<open>Deletion_Tables\<close>, \<open>Deletion_Store\<close>: \<open>maju-db/src/store/deletion.rs\<close> with the triggers and
    functions of the migrations it runs into: the manifest encoding and its digests, the tables as the state
    \<open>del_db\<close>, and every transaction of the store from submission to retention, with claims, the write fence,
    serving leases, abort, block and unblock. \<open>Deletion_Invariant\<close> has the invariant \<open>db_inv\<close> and that every
    operation keeps it, \<open>Deletion_Trace\<close> the runs of all operations by any callers (\<open>reachable\<close>), \<open>Deletion_Progress\<close>
    when the executor's transactions succeed, and \<open>Deletion_Props\<close> the properties: a fenced community is sealed,
    a tombstone is final, nothing is deleted without an approval of the frozen inventory, stale executors are
    powerless, an abort restores the community, retries are bounded, and an approved deletion can be finished.
  \<^item> \<open>Media_Versions\<close>, \<open>Deletion_Engine\<close>, \<open>Deletion_Executor\<close>: bulk deletion of object versions in \<open>maju-media/src/storage.rs\<close>
    and the executor of \<open>maju-deletion/src/lib.rs\<close>: the enumeration of the tenant prefixes, the stages (\<open>execute_stage\<close>) and
    the loops \<open>execute_claim\<close> and \<open>run_loop\<close>, as functions on a \<open>world\<close> of the database and the log of what was asked of
    the object store and Redis. Between two calls other callers run any transactions, and a call may fail, be
    dropped or lose its answer. The executor deletes only keys of a sealed, approved target past the drain, it
    returns, and it stamps a chunk only when the object store accounted for every key of it. The locale
    \<open>world_preorder\<close> carries a relation on worlds through every composed computation.

  \<^bold>\<open>How they interact.\<close> The relay stores an event, fans it out through the subscription registry (filters and
  kinds), and hands it to the workflow engine, which starts runs that the executor performs with the
  address filter and the templates; agents receive events through the queue, per scope. The deletion of a
  community fences off every writer through the database and removes its keys from the object store, whose
  ownership \<open>Media_Keys\<close> decides. This theory holds the properties that span components: what an event can make the executor send to the network.

  \<^bold>\<open>Conventions.\<close> A Rust \<open>Result\<close> is a sum whose left side is the error, a panic or an error that callers only
  log is \<open>None\<close>. State is a record and is passed explicitly. Integers keep their width where the code can
  overflow or wrap; database times and schedule instants are unbounded. Strings are UTF-8 bytes where the
  code counts bytes and code points in the workflow theories. Code of other packages (nostr, SHA-256,
  NIP-44, evalexpr, cron, chrono, serde, reqwest, DNS, Postgres failures, random ids) enters as arguments;
  what a theorem needs of it is a named predicate (\<open>nostr_api_ok\<close>, \<open>eval_api_ok\<close> and others) with a concrete
  instance that the witnesses use. Every loop of the modelled code is recursion with a termination proof,
  except some with a bound: \<open>listing_loop\<close>, whose number of pages only the object store knows (its theorem shows
  that as many rounds as pages are enough), and \<open>strip_units\<close>, whose bound is the length of the text it
  shortens, the loops of the deletion executor over pages of a listing or a scan, which run \<open>ev_rounds\<close> pages (any
  number) and then give the error \<open>Diverged\<close>, and \<open>execute_claim\<close> and \<open>run_loop\<close>, for which ten rounds are shown to be
  enough for a run of one request, since each stage that succeeds moves the request forward. Transactions of the deletion store are atomic and take the time they see as an argument. Interleavings are step relations: \<open>reg_reachable\<close> for the registry,
  \<open>acp_reachable\<close> for the queue, \<open>audit_reachable\<close> for the log, \<open>reachable\<close> for the deletion store and what runs beside its executor, \<open>pairing_run\<close> for sessions, and
  \<open>cluster_step\<close> for scheduler pods, which split at their database calls.

  \<^bold>\<open>Not modelled.\<close> The relay's connection, ingest and HTTP handlers, the other database tables, authentication
  and rate limits, the commands and the serving-write guard around the deletion store, the agent and its tools, media upload, pub/sub, search,
  push, the mesh, personas, command-line programs and the desktop, web and mobile applications: they are
  asynchronous I/O, bindings or separate services. Within modelled parts: the text form of the pairing QR
  code, the serde encoding of workflow definitions, approvals and pruning of schedule claims, prompt
  formatting of the queue, logging and metrics.
\<close>

section \<open>From an event to the network\<close>

definition hook_def :: workflow_def where
  "hook_def = sample_def\<lparr>wf_steps := [\<lparr>step_id = lit ''call'', step_name = None, if_expr = None, timeout_secs = None,
     step_action = CallWebhook (lit ''u'') None None None\<rparr>]\<rparr>"

definition hook_sched :: sched_api where
  "hook_sched = sample_sched\<lparr>sa_parse_def := (\<lambda>_. Some hook_def)\<rparr>"

definition hook_db :: wf_db where
  "hook_db = hourly_db\<lparr>tb_members := [\<lparr>mr_community = 1, mr_channel = 7, mr_pubkey = [9], mr_role = ''admin'', mr_removed = False\<rparr>]\<rparr>"

definition hook_engine :: engine where
  "hook_engine = sample_engine\<lparr>eng_exec := sample_exec_api\<lparr>xa_url_parse := (\<lambda>_. Inr (Some (lit ''h''), None))\<rparr>\<rparr>"

definition hook_io :: step_io where
  "hook_io = sample_io\<lparr>io_dns := Inr [V4 (Ipv4 8 8 8 8)]\<rparr>"

definition hook_exec_db :: exec_db where
  "hook_exec_db = \<lparr>db_runs = create_workflow_run 5 1 2 None None [], db_workflows = [hourly_row]\<rparr>"

lemma hook_event:
  "\<exists>db' cache' sp. on_event hook_sched std_nostr_api sample_template_api std_eval_api (\<lambda>_. healthy 5) 0 False None 1
      sample_message (hook_db, []) = ((db', cache'), Inr [sp]) \<and> sp_def sp = hook_def \<and> sp_run_id sp = 5
      \<and> sp_workflow sp = hourly_row"
proof -
  have kind: "event_kind_u32 (se_event sample_message) = KIND_STREAM_MESSAGE" "se_channel_id sample_message = Some 7"
    by (simp_all add: sample_message_def stored_event_new_def event_kind_u32_def kind_defs)
  have quiet: "\<not> is_workflow_execution_kind KIND_STREAM_MESSAGE"
    by (simp add: is_workflow_execution_kind_def kind_defs)
  have list: "list_enabled_channel_workflows hook_db 1 7 = [hourly_row]"
    by (simp add: list_enabled_channel_workflows_def hook_db_def hourly_db_def hourly_row_def LIST_MAX_LIMIT_def)
  have role: "get_member_role hook_db 1 7 (wr_owner hourly_row) = Some ''admin''"
    by (simp add: get_member_role_def hook_db_def hourly_db_def hourly_row_def)
  show ?thesis
    using role by (simp add: on_event_def kind quiet list cache_get_def Let_def fire_on_event_def hook_sched_def
        trigger_matches_event_def should_fire_workflow_def check_owner_authority_def owner_authority_allows_def
        requires_elevated_authority_def healthy_def hook_def_def sample_def_def)
qed

lemma hook_request:
  "HttpRequest (V4 (Ipv4 8 8 8 8)) 80 (lit ''u'') (lit ''POST'') None None
     \<in> set (fst (snd (execute_run hook_engine (\<lambda>_. std_eval_api) (\<lambda>_. hook_io) 1 None 0 hook_exec_db 1 5 hook_def ctx)))"
proof -
  have "resolve_template api (lit ''u'') ctx outs = Inr (lit ''u'')" for api ctx outs
    by (simp add: resolve_template_def open_braces_def lit_def)
  moreover have "\<not> is_private_ip (V4 (Ipv4 8 8 8 8))"
    by (simp add: is_private_ip_def is_not_global_unicast_def not_global_v4_def Let_def)
  ultimately show ?thesis
    by (simp add: execute_run_def store_run_def update_workflow_run_def hook_exec_db_def create_workflow_run_def
        execute_steps_def execute_step_def dispatch_action_def call_webhook_impl_def check_ssrf_def as_step_def
        resolve_opt_def hook_engine_def sample_engine_def sample_exec_api_def hook_io_def sample_io_def
        hook_def_def Let_def)
qed



end
